(* ===== verification/P101_Prelude.thy ===== *)
theory P101_Prelude
  imports Main "HOL-Library.Word"
begin

section \<open>Shared ground of the lib\_tool\_event development\<close>

text \<open>
  What every component theory uses: the world of effects that is not data (the outcomes of
  the allocator and the errors raised through \<open>struct p101_error\<close>), scans over index ranges
  in the two directions the C loops have, growth of an array by doubling under a limit, and
  the decimal formatting that \<open>snprintf("%d")\<close> performs.
\<close>

named_theorems world_simps \<open>unfolding of the allocator and of error raising\<close>

subsection \<open>Errors and the allocator\<close>

text \<open>
  \<open>P101_ERROR_RAISE_CHECK(err)\<close> and \<open>P101_ERROR_RAISE_ERRNO(err, n)\<close> hand an error to the
  (external) error object; the model logs them in the order they are raised. A failing
  \<open>malloc\<close>, \<open>calloc\<close> or \<open>realloc\<close> sets \<open>errno\<close> to \<open>ENOMEM\<close>.
\<close>

datatype errno = EINVAL | ENOMEM | EFBIG | EOVERFLOW | EIO

datatype p101_error = Check_Error | Errno_Error errno

text \<open>
  The allocator is an environment that decides each request. \<open>w_alloc\<close> lists its next
  answers (\<open>True\<close>: the request succeeds); past the end of the list every request succeeds.
  Each run makes finitely many requests, so such lists reach every pattern of failures.
\<close>

record world =
  w_alloc :: "bool list"
  w_raised :: "p101_error list"

definition raise_check :: "world \<Rightarrow> world" where
  [world_simps]: "raise_check w = w\<lparr>w_raised := w_raised w @ [Check_Error]\<rparr>"

definition raise_errno :: "errno \<Rightarrow> world \<Rightarrow> world" where
  [world_simps]: "raise_errno e w = w\<lparr>w_raised := w_raised w @ [Errno_Error e]\<rparr>"

definition heap_request :: "world \<Rightarrow> bool \<times> world" where
  [world_simps]: "heap_request w =
     (case w_alloc w of [] \<Rightarrow> (True, w) | b # bs \<Rightarrow> (b, w\<lparr>w_alloc := bs\<rparr>))"

text \<open>A world in which no request ever fails, and in which nothing has been raised.\<close>

definition ample :: "world \<Rightarrow> bool" where
  "ample w \<longleftrightarrow> list_all (\<lambda>b. b) (w_alloc w)"

definition calm_world :: world where
  "calm_world = \<lparr>w_alloc = [], w_raised = []\<rparr>"

lemma ample_calm [simp]: "ample calm_world"
  by (simp add: ample_def calm_world_def)

lemma heap_request_ample:
  assumes "ample w"
  shows "\<exists>w'. heap_request w = (True, w') \<and> ample w' \<and> w_raised w' = w_raised w"
  using assms by (cases "w_alloc w") (auto simp: world_simps ample_def)

lemma heap_request_raised [simp]: "heap_request w = (b, w') \<Longrightarrow> w_raised w' = w_raised w"
  by (auto simp: world_simps split: list.splits)

lemma heap_request_calm [simp]: "w_alloc w = [] \<Longrightarrow> heap_request w = (True, w)"
  by (simp add: world_simps)

subsection \<open>Texts\<close>

text \<open>A nullable \<open>char *\<close> is a \<open>string option\<close>; \<open>p == NULL ? d : p\<close> is \<open>text_or d p\<close>.\<close>

definition text_or :: "string \<Rightarrow> string option \<Rightarrow> string" where
  "text_or d t = (case t of None \<Rightarrow> d | Some s \<Rightarrow> s)"

lemma text_or_simps [simp]: "text_or d None = d" "text_or d (Some s) = s"
  by (simp_all add: text_or_def)

subsection \<open>Scans\<close>

text \<open>
  \<open>for(i = n; i > 0; i--) if(P(i - 1)) return i - 1;\<close> is \<open>scan_down P n\<close>: the last index
  below \<open>n\<close> that satisfies \<open>P\<close>.
\<close>

fun scan_down :: "(nat \<Rightarrow> bool) \<Rightarrow> nat \<Rightarrow> nat option" where
  "scan_down P 0 = None"
| "scan_down P (Suc i) = (if P i then Some i else scan_down P i)"

lemma scan_down_None: "scan_down P n = None \<longleftrightarrow> (\<forall>i<n. \<not> P i)"
  by (induction n) (auto simp: less_Suc_eq)

lemma scan_down_Some:
  "scan_down P n = Some i \<longleftrightarrow> i < n \<and> P i \<and> (\<forall>j. i < j \<and> j < n \<longrightarrow> \<not> P j)"
proof (induction n)
  case 0
  then show ?case by simp
next
  case (Suc n)
  show ?case
  proof (cases "P n")
    case True
    then show ?thesis by (auto simp: less_Suc_eq)
  next
    case False
    then have "scan_down P (Suc n) = scan_down P n" by simp
    with False Suc show ?thesis by (auto simp: less_Suc_eq)
  qed
qed

lemma scan_down_bound: "scan_down P n = Some i \<Longrightarrow> i < n"
  by (simp add: scan_down_Some)

lemma scan_down_holds: "scan_down P n = Some i \<Longrightarrow> P i"
  by (simp add: scan_down_Some)

lemma scan_down_cong: "(\<And>i. i < n \<Longrightarrow> P i = Q i) \<Longrightarrow> scan_down P n = scan_down Q n"
  by (induction n) auto

lemma scan_down_exists: "i < n \<Longrightarrow> P i \<Longrightarrow> \<exists>j. scan_down P n = Some j"
  by (induction n) (auto simp: less_Suc_eq)

text \<open>\<open>for(i = 0; i < n; i++) if(P(xs[i])) return i;\<close> is \<open>first_index P xs\<close>.\<close>

fun first_index :: "('a \<Rightarrow> bool) \<Rightarrow> 'a list \<Rightarrow> nat option" where
  "first_index P [] = None"
| "first_index P (x # xs) = (if P x then Some 0 else map_option Suc (first_index P xs))"

lemma first_index_None: "first_index P xs = None \<longleftrightarrow> (\<forall>x \<in> set xs. \<not> P x)"
  by (induction xs) auto

lemma first_index_Some:
  "first_index P xs = Some i \<longleftrightarrow>
     i < length xs \<and> P (xs ! i) \<and> (\<forall>j<i. \<not> P (xs ! j))"
proof (induction xs arbitrary: i)
  case Nil
  then show ?case by simp
next
  case (Cons x xs)
  show ?case
    using Cons.IH by (cases i) (auto simp: less_Suc_eq_0_disj)
qed

lemma first_index_bound: "first_index P xs = Some i \<Longrightarrow> i < length xs"
  by (simp add: first_index_Some)

subsection \<open>Growth by doubling\<close>

text \<open>
  Every growable array of the library starts empty, gets a first capacity and doubles.
  \<open>doubling c0 c\<close> says that \<open>c\<close> is a capacity such an array can have.
\<close>

definition doubling :: "nat \<Rightarrow> nat \<Rightarrow> bool" where
  "doubling c0 c \<longleftrightarrow> c = 0 \<or> (\<exists>k. c = c0 * 2 ^ k)"

definition next_capacity :: "nat \<Rightarrow> nat \<Rightarrow> nat" where
  "next_capacity c0 c = (if c = 0 then c0 else c * 2)"

lemma doubling_zero [simp]: "doubling c0 0"
  by (simp add: doubling_def)

lemma doubling_next: "doubling c0 c \<Longrightarrow> doubling c0 (next_capacity c0 c)"
proof -
  assume "doubling c0 c"
  then consider "c = 0" | k where "c = c0 * 2 ^ k" "c \<noteq> 0"
    by (cases "c = 0") (auto simp: doubling_def)
  then show ?thesis
  proof cases
    case 1
    then show ?thesis
      by (auto simp: doubling_def next_capacity_def intro: exI [where x = 0])
  next
    case (2 k)
    then have "next_capacity c0 c = c0 * 2 ^ Suc k" by (simp add: next_capacity_def)
    then show ?thesis unfolding doubling_def by blast
  qed
qed

lemma doubling_double_le:
  assumes "doubling c0 c" and "0 < c0" and "c < c0 * 2 ^ m"
  shows "next_capacity c0 c \<le> c0 * 2 ^ m"
proof -
  from assms(1) consider "c = 0" | k where "c = c0 * 2 ^ k" by (auto simp: doubling_def)
  then show ?thesis
  proof cases
    case 1
    then show ?thesis by (simp add: next_capacity_def)
  next
    case (2 k)
    with assms have "k < m" by simp
    then have "(2::nat) ^ Suc k \<le> 2 ^ m" by (intro power_increasing) auto
    with 2 show ?thesis by (auto simp: next_capacity_def)
  qed
qed

subsection \<open>Decimal formatting\<close>

definition digit_char :: "nat \<Rightarrow> char" where
  "digit_char d = ''0123456789'' ! d"

fun decimal :: "nat \<Rightarrow> string" where
  "decimal n = (if n < 10 then [digit_char n]
                else decimal (n div 10) @ [digit_char (n mod 10)])"

declare decimal.simps [simp del]

definition signed_decimal :: "int \<Rightarrow> string" where
  "signed_decimal i = (if i < 0 then CHR ''-'' # decimal (nat (- i)) else decimal (nat i))"

definition digit_value :: "char \<Rightarrow> nat" where
  "digit_value c = of_char c - 48"

definition is_digit :: "char \<Rightarrow> bool" where
  "is_digit c \<longleftrightarrow> (48::nat) \<le> of_char c \<and> of_char c \<le> (57::nat)"

lemma less_10_cases:
  "(d::nat) < 10 \<Longrightarrow> d \<in> {0, 1, 2, 3, 4, 5, 6, 7, 8, 9}"
  by auto

lemma digit_char_props:
  assumes "d < 10"
  shows "is_digit (digit_char d)" "digit_value (digit_char d) = d"
    "digit_char d \<noteq> CHR ''-''"
  using less_10_cases [OF assms]
  by (auto simp: is_digit_def digit_value_def digit_char_def)

text \<open>Reading digits back, most significant first, with an accumulator.\<close>

fun digits_value :: "nat \<Rightarrow> string \<Rightarrow> nat" where
  "digits_value acc [] = acc"
| "digits_value acc (c # cs) = digits_value (acc * 10 + digit_value c) cs"

lemma digits_value_append: "digits_value a (xs @ ys) = digits_value (digits_value a xs) ys"
  by (induction xs arbitrary: a) auto

lemma decimal_digits: "\<forall>c \<in> set (decimal n). is_digit c"
proof (induction n rule: decimal.induct)
  case (1 n)
  show ?case
  proof (cases "n < 10")
    case True
    then show ?thesis by (simp add: decimal.simps [of n] digit_char_props)
  next
    case False
    with 1 show ?thesis by (simp add: decimal.simps [of n] digit_char_props)
  qed
qed

lemma decimal_nonempty [simp]: "decimal n \<noteq> []"
  by (simp add: decimal.simps [of n])

lemma digits_value_decimal: "digits_value 0 (decimal n) = n"
proof (induction n rule: decimal.induct)
  case (1 n)
  show ?case
  proof (cases "n < 10")
    case True
    then show ?thesis by (simp add: decimal.simps [of n] digit_char_props)
  next
    case False
    then have "decimal n = decimal (n div 10) @ [digit_char (n mod 10)]"
      by (subst decimal.simps) simp
    moreover have "digits_value 0 (decimal (n div 10)) = n div 10"
      using 1 False by blast
    ultimately show ?thesis
      by (simp add: digits_value_append digit_char_props)
  qed
qed

lemma decimal_inj: "decimal a = decimal b \<longleftrightarrow> a = b"
  by (metis digits_value_decimal)

lemma not_digit_minus: "\<not> is_digit (CHR ''-'')"
  by (simp add: is_digit_def)

lemma signed_decimal_inj: "signed_decimal a = signed_decimal b \<longleftrightarrow> a = b"
proof -
  have h: "decimal n \<noteq> CHR ''-'' # s" for n s
    using decimal_digits [of n] not_digit_minus by (cases "decimal n") auto
  show ?thesis
    using h by (auto simp: signed_decimal_def decimal_inj dest: sym split: if_splits)
qed

end
