(* ===== verification/Record_Lib.thy ===== *)
theory Record_Lib
  imports P101_Prelude
begin

section \<open>The record library: an external interface\<close>

text \<open>
  Field splitting, size parsing, unescaping, the spelling of the record magics and the
  numeric limits belong to \<open>lib_record\<close> (\<open>p101_record/record.h\<close>, \<open>p101_record/event.h\<close>),
  which is not part of this repository. They are the fields of \<open>record_lib\<close>, an argument of
  every definition that uses them. The enumerations are the ones the sources name; their
  order is that of docs/event-format.md, with the last enumerators the lookup loops of
  src/event.c name as bounds. The locale \<open>record_library\<close> states what docs/event-format.md
  promises of the library, and the end of the theory gives an instance of it that follows
  that document to the letter.
\<close>

subsection \<open>Enumerations and limits\<close>

datatype record_kind =
    RECORD_FD | RECORD_ALLOC | RECORD_FORK | RECORD_SPAWN | RECORD_EXEC | RECORD_EXEC_FAIL
  | RECORD_CALL | RECORD_RESOURCE | RECORD_COMPLETE

datatype fd_kind = FD_OPEN | FD_CLOSE

datatype alloc_kind = ALLOC_ALLOC | ALLOC_FREE | ALLOC_REALLOC

datatype call_kind = CALL_ENTER | CALL_EXIT

datatype resource_kind =
    RESOURCE_ACQUIRE | RESOURCE_RELEASE | RESOURCE_REPLACE | RESOURCE_TRANSFER | RESOURCE_USE

definition record_kinds :: "record_kind list" where
  "record_kinds = [RECORD_FD, RECORD_ALLOC, RECORD_FORK, RECORD_SPAWN, RECORD_EXEC,
     RECORD_EXEC_FAIL, RECORD_CALL, RECORD_RESOURCE, RECORD_COMPLETE]"

definition fd_kinds :: "fd_kind list" where "fd_kinds = [FD_OPEN, FD_CLOSE]"

definition alloc_kinds :: "alloc_kind list" where
  "alloc_kinds = [ALLOC_ALLOC, ALLOC_FREE, ALLOC_REALLOC]"

definition call_kinds :: "call_kind list" where "call_kinds = [CALL_ENTER, CALL_EXIT]"

definition resource_kinds :: "resource_kind list" where
  "resource_kinds = [RESOURCE_ACQUIRE, RESOURCE_RELEASE, RESOURCE_REPLACE, RESOURCE_TRANSFER,
     RESOURCE_USE]"

text \<open>The LP64 limits of \<open>size_t\<close>, \<open>long\<close> and \<open>int\<close>.\<close>

definition SIZE_MAX :: nat where "SIZE_MAX = 18446744073709551615"
definition LONG_MAX :: int where "LONG_MAX = 9223372036854775807"
definition LONG_MIN :: int where "LONG_MIN = - 9223372036854775808"
definition INT_MAX :: int where "INT_MAX = 2147483647"

subsection \<open>The library as a record of functions\<close>

record record_lib =
  split_field :: "string \<Rightarrow> string \<times> string option"  \<comment> \<open>\<open>p101_record_split\<close>: field, cursor after it\<close>
  parse_size_text :: "string \<Rightarrow> nat option"  \<comment> \<open>\<open>p101_record_parse_size\<close>\<close>
  unescape_field :: "string \<Rightarrow> string"  \<comment> \<open>\<open>p101_record_unescape_field\<close>\<close>
  pointer_is_null :: "string option \<Rightarrow> bool"  \<comment> \<open>\<open>p101_record_pointer_is_null\<close>\<close>
  event_magic :: "record_kind \<Rightarrow> string"  \<comment> \<open>\<open>p101_record_event_magic\<close>\<close>
  fd_kind_text :: "fd_kind \<Rightarrow> string"  \<comment> \<open>\<open>p101_record_event_fd_kind_name\<close>, and so on\<close>
  alloc_kind_text :: "alloc_kind \<Rightarrow> string"
  call_kind_text :: "call_kind \<Rightarrow> string"
  resource_kind_text :: "resource_kind \<Rightarrow> string"
  log_version :: int  \<comment> \<open>\<open>P101_TOOL_EVENT_LOG_VERSION\<close>\<close>
  run_id_max :: nat  \<comment> \<open>\<open>P101_TOOL_EVENT_RUN_ID_MAX_BYTES\<close>\<close>
  line_max :: nat  \<comment> \<open>\<open>P101_TOOL_EVENT_LINE_MAX_BYTES\<close>\<close>

abbreviation TAB :: char where "TAB \<equiv> CHR 0x09"
abbreviation NL :: char where "NL \<equiv> CHR 0x0A"
abbreviation CR :: char where "CR \<equiv> CHR 0x0D"
abbreviation NUL :: char where "NUL \<equiv> CHR 0x00"
abbreviation BACKSLASH :: char where "BACKSLASH \<equiv> CHR 0x5C"

text \<open>A text that may stand in one field of a record line.\<close>

definition field_text :: "string \<Rightarrow> bool" where
  "field_text s \<longleftrightarrow> TAB \<notin> set s \<and> NL \<notin> set s \<and> CR \<notin> set s"

lemma field_text_simps [simp]:
  "field_text []"
  "field_text (c # s) \<longleftrightarrow> c \<noteq> TAB \<and> c \<noteq> NL \<and> c \<noteq> CR \<and> field_text s"
  by (auto simp: field_text_def)

lemma field_text_tab: "field_text s \<Longrightarrow> TAB \<notin> set s"
  by (simp add: field_text_def)

lemma digit_not_control:
  assumes "is_digit c"
  shows "c \<noteq> TAB" "c \<noteq> NL" "c \<noteq> CR" "c \<noteq> CHR '' ''"
  using assms by (auto simp: is_digit_def)

lemma field_text_decimal: "field_text (decimal n)"
proof -
  have h: "c \<noteq> TAB \<and> c \<noteq> NL \<and> c \<noteq> CR" if "c \<in> set (decimal n)" for c
  proof -
    from decimal_digits [of n] that have d: "is_digit c" by (rule bspec)
    show ?thesis
      using digit_not_control(1) [OF d] digit_not_control(2) [OF d] digit_not_control(3) [OF d]
      by (intro conjI)
  qed
  show ?thesis
    unfolding field_text_def by (intro conjI notI) (drule h, simp)+
qed

lemma field_text_signed_decimal: "field_text (signed_decimal i)"
  by (simp add: signed_decimal_def field_text_decimal)

text \<open>The spellings of docs/event-format.md.\<close>

fun doc_magic :: "record_kind \<Rightarrow> string" where
  "doc_magic RECORD_FD = ''P101FD''"
| "doc_magic RECORD_ALLOC = ''P101ALLOC''"
| "doc_magic RECORD_FORK = ''P101FORK''"
| "doc_magic RECORD_SPAWN = ''P101SPAWN''"
| "doc_magic RECORD_EXEC = ''P101EXEC''"
| "doc_magic RECORD_EXEC_FAIL = ''P101EXECFAIL''"
| "doc_magic RECORD_CALL = ''P101CALL''"
| "doc_magic RECORD_RESOURCE = ''P101RESOURCE''"
| "doc_magic RECORD_COMPLETE = ''P101COMPLETE''"

fun doc_fd_kind :: "fd_kind \<Rightarrow> string" where
  "doc_fd_kind FD_OPEN = ''OPEN''"
| "doc_fd_kind FD_CLOSE = ''CLOSE''"

fun doc_alloc_kind :: "alloc_kind \<Rightarrow> string" where
  "doc_alloc_kind ALLOC_ALLOC = ''ALLOC''"
| "doc_alloc_kind ALLOC_FREE = ''FREE''"
| "doc_alloc_kind ALLOC_REALLOC = ''REALLOC''"

fun doc_call_kind :: "call_kind \<Rightarrow> string" where
  "doc_call_kind CALL_ENTER = ''ENTER''"
| "doc_call_kind CALL_EXIT = ''EXIT''"

fun doc_resource_kind :: "resource_kind \<Rightarrow> string" where
  "doc_resource_kind RESOURCE_ACQUIRE = ''ACQUIRE''"
| "doc_resource_kind RESOURCE_RELEASE = ''RELEASE''"
| "doc_resource_kind RESOURCE_REPLACE = ''REPLACE''"
| "doc_resource_kind RESOURCE_TRANSFER = ''TRANSFER''"
| "doc_resource_kind RESOURCE_USE = ''USE''"

subsection \<open>The contract of the library\<close>

text \<open>
  \<open>esc\<close> and \<open>size_text\<close> are what a producer writes with: the escaping of text fields and
  the decimal form of a \<open>size_t\<close>. The laws say that the library's readers invert them, that
  fields end at a tab, and that the spellings are the documented ones.
\<close>

locale record_library =
  fixes L :: record_lib
    and esc :: "string \<Rightarrow> string"
    and size_text :: "nat \<Rightarrow> string"
  assumes split_tab: "TAB \<notin> set f \<Longrightarrow> split_field L (f @ TAB # rest) = (f, Some rest)"
    and split_last: "TAB \<notin> set f \<Longrightarrow> split_field L f = (f, None)"
    and unescape_esc: "unescape_field L (esc s) = s"
    and esc_field: "field_text (esc s)"
    and parse_size_inv: "n \<le> SIZE_MAX \<Longrightarrow> parse_size_text L (size_text n) = Some n"
    and size_text_field: "field_text (size_text n)"
    and size_text_not_dash: "size_text n \<noteq> ''-''"
    and magic_doc: "event_magic L k = doc_magic k"
    and fd_doc: "fd_kind_text L fk = doc_fd_kind fk"
    and alloc_doc: "alloc_kind_text L ak = doc_alloc_kind ak"
    and call_doc: "call_kind_text L ck = doc_call_kind ck"
    and resource_doc: "resource_kind_text L rk = doc_resource_kind rk"
    and version_doc: "log_version L = 5"
    and null_absent: "pointer_is_null L None" "pointer_is_null L (Some [])"

subsection \<open>An instance that follows the document\<close>

fun doc_escape :: "string \<Rightarrow> string" where
  "doc_escape [] = []"
| "doc_escape (c # s) =
     (if c = BACKSLASH then [BACKSLASH, BACKSLASH]
      else if c = TAB then [BACKSLASH, CHR ''t'']
      else if c = NL then [BACKSLASH, CHR ''n'']
      else if c = CR then [BACKSLASH, CHR ''r'']
      else [c]) @ doc_escape s"

fun doc_unescape :: "string \<Rightarrow> string" where
  "doc_unescape [] = []"
| "doc_unescape [c] = [c]"
| "doc_unescape (c # d # s) =
     (if c = BACKSLASH then
        (if d = CHR ''t'' then TAB else if d = CHR ''n'' then NL
         else if d = CHR ''r'' then CR else d) # doc_unescape s
      else c # doc_unescape (d # s))"

definition doc_split :: "string \<Rightarrow> string \<times> string option" where
  "doc_split s = (takeWhile (\<lambda>c. c \<noteq> TAB) s,
     case dropWhile (\<lambda>c. c \<noteq> TAB) s of [] \<Rightarrow> None | _ # r \<Rightarrow> Some r)"

definition doc_parse_size :: "string \<Rightarrow> nat option" where
  "doc_parse_size s =
     (if s \<noteq> [] \<and> list_all is_digit s \<and> digits_value 0 s \<le> SIZE_MAX
      then Some (digits_value 0 s) else None)"

definition doc_pointer_is_null :: "string option \<Rightarrow> bool" where
  "doc_pointer_is_null p = (case p of None \<Rightarrow> True
     | Some s \<Rightarrow> s \<in> {'''', ''-'', ''0'', ''0x0'', ''(nil)'', ''NULL''})"

definition doc_lib :: record_lib where
  "doc_lib = \<lparr>split_field = doc_split, parse_size_text = doc_parse_size,
     unescape_field = doc_unescape, pointer_is_null = doc_pointer_is_null,
     event_magic = doc_magic, fd_kind_text = doc_fd_kind, alloc_kind_text = doc_alloc_kind,
     call_kind_text = doc_call_kind, resource_kind_text = doc_resource_kind,
     log_version = 5, run_id_max = 64, line_max = 4096\<rparr>"

lemma doc_unescape_cons:
  "c \<noteq> BACKSLASH \<Longrightarrow> doc_unescape (c # s) = c # doc_unescape s"
  by (cases s) auto

lemma doc_unescape_escape: "doc_unescape (doc_escape s) = s"
  by (induction s) (auto simp: doc_unescape_cons)

lemma doc_escape_field: "field_text (doc_escape s)"
  by (induction s) auto

lemma doc_split_tab: "TAB \<notin> set f \<Longrightarrow> doc_split (f @ TAB # rest) = (f, Some rest)"
proof -
  assume h: "TAB \<notin> set f"
  then have "takeWhile (\<lambda>c. c \<noteq> TAB) (f @ TAB # rest) = f"
    by (induction f) auto
  moreover from h have "dropWhile (\<lambda>c. c \<noteq> TAB) (f @ TAB # rest) = TAB # rest"
    by (induction f) auto
  ultimately show ?thesis by (simp add: doc_split_def)
qed

lemma doc_split_last: "TAB \<notin> set f \<Longrightarrow> doc_split f = (f, None)"
proof -
  assume h: "TAB \<notin> set f"
  then have "takeWhile (\<lambda>c. c \<noteq> TAB) f = f" by (induction f) auto
  moreover from h have "dropWhile (\<lambda>c. c \<noteq> TAB) f = []" by (induction f) auto
  ultimately show ?thesis unfolding doc_split_def by (simp only: list.case)
qed

interpretation doc: record_library doc_lib doc_escape decimal
proof
  show "parse_size_text doc_lib (decimal n) = Some n" if "n \<le> SIZE_MAX" for n
    using that decimal_digits [of n]
    by (simp add: doc_lib_def doc_parse_size_def digits_value_decimal list_all_iff)
  show "decimal n \<noteq> ''-''" for n
    using decimal_digits [of n] not_digit_minus by auto
qed (simp_all add: doc_lib_def doc_split_tab doc_split_last doc_unescape_escape
  doc_escape_field field_text_decimal doc_pointer_is_null_def)

end
