(* ===== verification/Event.thy ===== *)
theory Event
  imports Record_Lib
begin

section \<open>Event records: the line reader and the parser (src/event.c)\<close>

text \<open>
  \<open>event_record\<close> is \<open>struct p101_tool_event_record\<close> (include/p101\_tool\_event/event.h).
  \<open>read_line\<close> is the bounded byte-safe reader over a stream of bytes, \<open>parse_line\<close> the
  in-place TSV parser: prefix test, stripping of the line end, splitting into at most 20
  fields, metadata, the payload of the record's kind, unescaping. The parser's result is a
  sum: a status other than OK, or the filled record (no caller reads a record that was not
  accepted). \<open>strtol\<close> is modelled as the C library defines it.
\<close>

subsection \<open>The record\<close>

record event_record =
  ev_version :: int
  ev_record_kind :: record_kind
  ev_run_id :: "string option"
  ev_pid :: int
  ev_child_pid :: int
  ev_context_id :: nat
  ev_sequence :: nat
  ev_monotonic_ns :: nat
  ev_wall_unix_ns :: nat
  ev_monotonic_ns_available :: bool
  ev_wall_unix_ns_available :: bool
  ev_fd :: int
  ev_cloexec :: int
  ev_fd_kind :: fd_kind
  ev_alloc_kind :: alloc_kind
  ev_call_kind :: call_kind
  ev_resource_kind :: resource_kind
  ev_ptr :: "string option"
  ev_new_ptr :: "string option"
  ev_target :: "string option"
  ev_resource_class :: "string option"
  ev_resource_id :: "string option"
  ev_related_id :: "string option"
  ev_metadata :: "string option"
  ev_size :: nat
  ev_line_number :: int
  ev_function_name :: "string option"
  ev_call_name :: "string option"
  ev_arguments :: "string option"
  ev_result :: "string option"
  ev_file_name :: "string option"
  ev_events_attempted :: nat
  ev_write_failed :: int
  ev_write_errno :: int

text \<open>\<open>memset(record, 0, sizeof(*record))\<close>.\<close>

definition zero_record :: event_record where
  "zero_record = \<lparr>ev_version = 0, ev_record_kind = RECORD_FD, ev_run_id = None, ev_pid = 0,
     ev_child_pid = 0, ev_context_id = 0, ev_sequence = 0, ev_monotonic_ns = 0,
     ev_wall_unix_ns = 0, ev_monotonic_ns_available = False,
     ev_wall_unix_ns_available = False, ev_fd = 0, ev_cloexec = 0, ev_fd_kind = FD_OPEN,
     ev_alloc_kind = ALLOC_ALLOC, ev_call_kind = CALL_ENTER,
     ev_resource_kind = RESOURCE_ACQUIRE, ev_ptr = None, ev_new_ptr = None,
     ev_target = None, ev_resource_class = None, ev_resource_id = None,
     ev_related_id = None, ev_metadata = None, ev_size = 0, ev_line_number = 0,
     ev_function_name = None, ev_call_name = None, ev_arguments = None, ev_result = None,
     ev_file_name = None, ev_events_attempted = 0, ev_write_failed = 0,
     ev_write_errno = 0\<rparr>"

text \<open>The record \<open>p101_tool_event_parse_line\<close> starts from.\<close>

definition blank_record :: event_record where
  "blank_record = zero_record\<lparr>ev_fd := -1, ev_child_pid := -1, ev_line_number := -1\<rparr>"

subsection \<open>Reading one physical line\<close>

text \<open>
  A stream is the bytes not read yet and what \<open>fgetc\<close> finds after them: the end of the
  file, or a read error with the \<open>errno\<close> it left (\<open>None\<close> for 0).
\<close>

datatype stream_end = At_EOF | Read_Error "errno option"

record byte_stream =
  st_bytes :: string
  st_end :: stream_end

datatype line_status = LINE_EOF | LINE_OK | LINE_MALFORMED | LINE_ERROR

text \<open>
  The loop of \<open>p101_tool_event_read_line\<close>: \<open>stored\<close> is the content of \<open>line\<close> so far. The
  result is the stored bytes, whether the line is malformed, whether the loop ended because
  \<open>fgetc\<close> gave \<open>EOF\<close>, and the bytes left.
\<close>

fun read_loop :: "nat \<Rightarrow> string \<Rightarrow> bool \<Rightarrow> string \<Rightarrow> string \<times> bool \<times> bool \<times> string" where
  "read_loop line_size stored malformed [] = (stored, malformed, True, [])"
| "read_loop line_size stored malformed (c # cs) =
     (let malformed1 = (malformed \<or> c = NUL);
          fits = (length stored + 1 < line_size);
          stored1 = (if fits then stored @ [c] else stored);
          malformed2 = (malformed1 \<or> \<not> fits)
      in if c = NL then (stored1, malformed2, False, cs)
         else read_loop line_size stored1 malformed2 cs)"

definition read_line ::
  "world \<Rightarrow> byte_stream option \<Rightarrow> nat \<Rightarrow> line_status \<times> string \<times> byte_stream option \<times> world" where
  "read_line w stream line_size =
     (case stream of
        None \<Rightarrow> (LINE_ERROR, [], None, raise_check w)
      | Some st \<Rightarrow>
          if line_size = 0 then (LINE_ERROR, [], Some st, raise_check w)
          else
            (case read_loop line_size [] False (st_bytes st) of
               (stored, malformed, at_end, rest) \<Rightarrow>
                 let st' = st\<lparr>st_bytes := rest\<rparr> in
                 if at_end \<and> st_end st \<noteq> At_EOF then
                   (LINE_ERROR, stored, Some st',
                    raise_errno (case st_end st of Read_Error (Some e) \<Rightarrow> e | _ \<Rightarrow> EIO) w)
                 else if st_bytes st = [] then (LINE_EOF, [], Some st', w)
                 else if malformed then (LINE_MALFORMED, stored, Some st', w)
                 else (LINE_OK, stored, Some st', w)))"

subsection \<open>Numbers\<close>

text \<open>\<open>strtol(text, &end, 10)\<close> in the C locale: value, whether digits were converted, the text
  at \<open>end\<close>, and whether it set \<open>errno\<close> to \<open>ERANGE\<close>.\<close>

definition is_space :: "char \<Rightarrow> bool" where
  "is_space c \<longleftrightarrow> c \<in> {CHR 0x20, CHR 0x09, CHR 0x0A, CHR 0x0B, CHR 0x0C, CHR 0x0D}"

definition strtol_sign :: "string \<Rightarrow> bool \<times> string" where
  "strtol_sign s = (case s of [] \<Rightarrow> (False, [])
     | c # cs \<Rightarrow> if c = CHR ''-'' then (True, cs)
               else if c = CHR ''+'' then (False, cs) else (False, s))"

definition strtol10 :: "string \<Rightarrow> int \<times> bool \<times> string \<times> bool" where
  "strtol10 text =
     (case strtol_sign (dropWhile is_space text) of
        (negative, s) \<Rightarrow>
          let digits = takeWhile is_digit s; end = dropWhile is_digit s in
          if digits = [] then (0, False, text, False)
          else
            let v = (if negative then - int (digits_value 0 digits)
                     else int (digits_value 0 digits))
            in if LONG_MAX < v then (LONG_MAX, True, end, True)
               else if v < LONG_MIN then (LONG_MIN, True, end, True)
               else (v, True, end, False))"

definition parse_long_field :: "string \<Rightarrow> int \<Rightarrow> int \<Rightarrow> int option" where
  "parse_long_field text lo hi =
     (if text = [] then None
      else case strtol10 text of
        (value, converted, end, range_error) \<Rightarrow>
          if \<not> converted \<or> end \<noteq> [] then None
          else if range_error then None
          else if value < lo \<or> hi < value then None
          else Some value)"

text \<open>\<open>Some (value, available)\<close>; the field \<open>-\<close> is 0 and not available.\<close>

definition parse_optional_size_field :: "record_lib \<Rightarrow> string \<Rightarrow> (nat \<times> bool) option" where
  "parse_optional_size_field L text =
     (if text = ''-'' then Some (0, False)
      else case parse_size_text L text of None \<Rightarrow> None | Some n \<Rightarrow> Some (n, True))"

subsection \<open>Metadata\<close>

datatype parse_status = PARSE_OTHER | PARSE_OK | PARSE_MALFORMED | PARSE_BAD_VERSION

fun parse_status_name :: "parse_status \<Rightarrow> string" where
  "parse_status_name PARSE_OTHER = ''not a p101 event record''"
| "parse_status_name PARSE_OK = ''ok''"
| "parse_status_name PARSE_MALFORMED = ''malformed record''"
| "parse_status_name PARSE_BAD_VERSION = ''unsupported record version''"

text \<open>A conversion that fails makes the record malformed.\<close>

definition need :: "'a option \<Rightarrow> ('a \<Rightarrow> parse_status + 'b) \<Rightarrow> parse_status + 'b" where
  "need x f = (case x of None \<Rightarrow> Inl PARSE_MALFORMED | Some v \<Rightarrow> f v)"

lemma need_simps [simp]: "need None f = Inl PARSE_MALFORMED" "need (Some v) f = f v"
  by (simp_all add: need_def)

lemma need_Inr: "need x f = Inr r \<longleftrightarrow> (\<exists>v. x = Some v \<and> f v = Inr r)"
  by (cases x) auto

type_synonym size_t = "64 word"

definition METADATA_FIELDS :: nat where "METADATA_FIELDS = 7"
definition MAX_FIELDS :: nat where "MAX_FIELDS = 20"
definition EVENT_FD_MAX :: int where "EVENT_FD_MAX = 1048576"

definition parse_metadata ::
  "record_lib \<Rightarrow> string list \<Rightarrow> event_record \<Rightarrow> parse_status + event_record \<times> size_t" where
  "parse_metadata L fs r =
     need (if METADATA_FIELDS \<le> length fs then parse_long_field (fs ! 0) 0 LONG_MAX
           else None) (\<lambda>version.
     if version \<noteq> log_version L then Inl PARSE_BAD_VERSION
     else let r1 = r\<lparr>ev_version := version, ev_run_id := Some (fs ! 1)\<rparr> in
     if fs ! 1 = [] \<or> run_id_max L < length (fs ! 1) then Inl PARSE_MALFORMED
     else need (parse_long_field (fs ! 2) 0 LONG_MAX) (\<lambda>pid.
     need (parse_size_text L (fs ! 3)) (\<lambda>context.
     need (parse_size_text L (fs ! 4)) (\<lambda>sequence.
     need (parse_optional_size_field L (fs ! 5)) (\<lambda>(monotonic, monotonic_available).
     need (parse_optional_size_field L (fs ! 6)) (\<lambda>(wall, wall_available).
     Inr (r1\<lparr>ev_pid := pid, ev_context_id := context, ev_sequence := sequence,
       ev_monotonic_ns := monotonic, ev_monotonic_ns_available := monotonic_available,
       ev_wall_unix_ns := wall, ev_wall_unix_ns_available := wall_available\<rparr>,
       of_nat METADATA_FIELDS)))))))"

subsection \<open>Spellings\<close>

definition lookup_record_magic :: "record_lib \<Rightarrow> string \<Rightarrow> record_kind option" where
  "lookup_record_magic L text = find (\<lambda>k. event_magic L k = text) record_kinds"

definition lookup_fd_kind :: "record_lib \<Rightarrow> string \<Rightarrow> fd_kind option" where
  "lookup_fd_kind L text = find (\<lambda>k. fd_kind_text L k = text) fd_kinds"

definition lookup_alloc_kind :: "record_lib \<Rightarrow> string \<Rightarrow> alloc_kind option" where
  "lookup_alloc_kind L text = find (\<lambda>k. alloc_kind_text L k = text) alloc_kinds"

definition lookup_call_kind :: "record_lib \<Rightarrow> string \<Rightarrow> call_kind option" where
  "lookup_call_kind L text = find (\<lambda>k. call_kind_text L k = text) call_kinds"

definition lookup_resource_kind :: "record_lib \<Rightarrow> string \<Rightarrow> resource_kind option" where
  "lookup_resource_kind L text = find (\<lambda>k. resource_kind_text L k = text) resource_kinds"

subsection \<open>Payloads\<close>

text \<open>
  \<open>payload_arity_matches\<close> works on \<open>size_t\<close> words, because its comment is about wrap-around:
  it subtracts instead of adding.
\<close>

definition payload_arity_matches :: "size_t \<Rightarrow> size_t \<Rightarrow> size_t \<Rightarrow> bool" where
  "payload_arity_matches count payload fields_needed \<longleftrightarrow>
     count \<le> of_nat MAX_FIELDS \<and> fields_needed \<le> count \<and> payload = count - fields_needed"

definition field_at :: "string list \<Rightarrow> size_t \<Rightarrow> nat \<Rightarrow> string" where
  "field_at fs payload i = fs ! (unat payload + i)"

definition arity :: "string list \<Rightarrow> size_t \<Rightarrow> size_t \<Rightarrow> (parse_status + 'b) \<Rightarrow> parse_status + 'b" where
  "arity fs payload needed k =
     (if payload_arity_matches (of_nat (length fs)) payload needed then k
      else Inl PARSE_MALFORMED)"

definition parse_fd_payload ::
  "record_lib \<Rightarrow> string list \<Rightarrow> size_t \<Rightarrow> event_record \<Rightarrow> parse_status + event_record" where
  "parse_fd_payload L fs p r =
     arity fs p 5 (
     need (lookup_fd_kind L (field_at fs p 0)) (\<lambda>kind.
     need (parse_long_field (field_at fs p 1) 0 EVENT_FD_MAX) (\<lambda>fd.
     need (parse_long_field (field_at fs p 2) 0 INT_MAX) (\<lambda>line.
     Inr (r\<lparr>ev_fd_kind := kind, ev_fd := fd, ev_line_number := line,
       ev_function_name := Some (field_at fs p 3), ev_file_name := Some (field_at fs p 4),
       ev_record_kind := RECORD_FD\<rparr>)))))"

definition dash_null :: "string \<Rightarrow> string option" where
  "dash_null s = (if s = ''-'' then None else Some s)"

definition parse_alloc_payload ::
  "record_lib \<Rightarrow> string list \<Rightarrow> size_t \<Rightarrow> event_record \<Rightarrow> parse_status + event_record" where
  "parse_alloc_payload L fs p r =
     arity fs p 7 (
     need (lookup_alloc_kind L (field_at fs p 0)) (\<lambda>kind.
     need (parse_size_text L (field_at fs p 3)) (\<lambda>size.
     need (parse_long_field (field_at fs p 4) 0 INT_MAX) (\<lambda>line.
     Inr (r\<lparr>ev_alloc_kind := kind, ev_ptr := Some (field_at fs p 1),
       ev_new_ptr := dash_null (field_at fs p 2), ev_size := size, ev_line_number := line,
       ev_function_name := Some (field_at fs p 5), ev_file_name := Some (field_at fs p 6),
       ev_record_kind := RECORD_ALLOC\<rparr>)))))"

definition parse_fork_payload ::
  "record_lib \<Rightarrow> string list \<Rightarrow> size_t \<Rightarrow> event_record \<Rightarrow> parse_status + event_record" where
  "parse_fork_payload L fs p r =
     arity fs p 4 (
     need (parse_long_field (field_at fs p 0) 0 LONG_MAX) (\<lambda>child.
     need (parse_long_field (field_at fs p 1) 0 INT_MAX) (\<lambda>line.
     Inr (r\<lparr>ev_child_pid := child, ev_line_number := line,
       ev_function_name := Some (field_at fs p 2), ev_file_name := Some (field_at fs p 3),
       ev_target := None, ev_record_kind := RECORD_FORK\<rparr>))))"

definition parse_spawn_payload ::
  "record_lib \<Rightarrow> string list \<Rightarrow> size_t \<Rightarrow> event_record \<Rightarrow> parse_status + event_record" where
  "parse_spawn_payload L fs p r =
     arity fs p 5 (
     need (parse_long_field (field_at fs p 0) 0 LONG_MAX) (\<lambda>child.
     need (parse_long_field (field_at fs p 1) 0 INT_MAX) (\<lambda>line.
     Inr (r\<lparr>ev_child_pid := child, ev_line_number := line,
       ev_function_name := Some (field_at fs p 2), ev_file_name := Some (field_at fs p 3),
       ev_target := Some (field_at fs p 4), ev_record_kind := RECORD_SPAWN\<rparr>))))"

definition parse_exec_payload ::
  "record_lib \<Rightarrow> string list \<Rightarrow> size_t \<Rightarrow> event_record \<Rightarrow> parse_status + event_record" where
  "parse_exec_payload L fs p r =
     arity fs p 6 (
     need (parse_long_field (field_at fs p 0) 0 EVENT_FD_MAX) (\<lambda>fd.
     need (parse_long_field (field_at fs p 1) 0 1) (\<lambda>cloexec.
     need (parse_long_field (field_at fs p 2) 0 INT_MAX) (\<lambda>line.
     Inr (r\<lparr>ev_fd := fd, ev_cloexec := cloexec, ev_line_number := line,
       ev_function_name := Some (field_at fs p 3), ev_file_name := Some (field_at fs p 4),
       ev_target := Some (field_at fs p 5), ev_record_kind := RECORD_EXEC\<rparr>)))))"

definition parse_exec_fail_payload ::
  "record_lib \<Rightarrow> string list \<Rightarrow> size_t \<Rightarrow> event_record \<Rightarrow> parse_status + event_record" where
  "parse_exec_fail_payload L fs p r =
     arity fs p 4 (
     need (parse_long_field (field_at fs p 0) 0 INT_MAX) (\<lambda>line.
     Inr (r\<lparr>ev_line_number := line, ev_function_name := Some (field_at fs p 1),
       ev_file_name := Some (field_at fs p 2), ev_target := Some (field_at fs p 3),
       ev_record_kind := RECORD_EXEC_FAIL\<rparr>)))"

definition parse_call_payload ::
  "record_lib \<Rightarrow> string list \<Rightarrow> size_t \<Rightarrow> event_record \<Rightarrow> parse_status + event_record" where
  "parse_call_payload L fs p r =
     arity fs p 7 (
     need (lookup_call_kind L (field_at fs p 0)) (\<lambda>kind.
     need (parse_long_field (field_at fs p 1) 0 INT_MAX) (\<lambda>line.
     Inr (r\<lparr>ev_call_kind := kind, ev_line_number := line,
       ev_function_name := Some (field_at fs p 2), ev_call_name := Some (field_at fs p 3),
       ev_arguments := Some (field_at fs p 4), ev_result := Some (field_at fs p 5),
       ev_file_name := Some (field_at fs p 6), ev_record_kind := RECORD_CALL\<rparr>))))"

definition parse_resource_payload ::
  "record_lib \<Rightarrow> string list \<Rightarrow> size_t \<Rightarrow> event_record \<Rightarrow> parse_status + event_record" where
  "parse_resource_payload L fs p r =
     arity fs p 9 (
     need (lookup_resource_kind L (field_at fs p 0)) (\<lambda>kind.
     need (parse_size_text L (field_at fs p 4)) (\<lambda>size.
     need (parse_long_field (field_at fs p 6) 0 INT_MAX) (\<lambda>line.
     Inr (r\<lparr>ev_resource_kind := kind, ev_resource_class := Some (field_at fs p 1),
       ev_resource_id := Some (field_at fs p 2), ev_related_id := dash_null (field_at fs p 3),
       ev_size := size, ev_metadata := Some (field_at fs p 5), ev_line_number := line,
       ev_function_name := Some (field_at fs p 7), ev_file_name := Some (field_at fs p 8),
       ev_record_kind := RECORD_RESOURCE\<rparr>)))))"

definition parse_complete_payload ::
  "record_lib \<Rightarrow> string list \<Rightarrow> size_t \<Rightarrow> event_record \<Rightarrow> parse_status + event_record" where
  "parse_complete_payload L fs p r =
     arity fs p 3 (
     need (parse_size_text L (field_at fs p 0)) (\<lambda>attempted.
     need (parse_long_field (field_at fs p 1) 0 1) (\<lambda>failed.
     need (parse_long_field (field_at fs p 2) 0 INT_MAX) (\<lambda>errnum.
     if (failed = 0 \<and> errnum \<noteq> 0) \<or> (failed \<noteq> 0 \<and> errnum = 0) then Inl PARSE_MALFORMED
     else Inr (r\<lparr>ev_events_attempted := attempted, ev_write_failed := failed,
       ev_write_errno := errnum, ev_record_kind := RECORD_COMPLETE\<rparr>)))))"

definition parse_payload ::
  "record_lib \<Rightarrow> string \<Rightarrow> string list \<Rightarrow> size_t \<Rightarrow> event_record \<Rightarrow> parse_status + event_record" where
  "parse_payload L magic fs p r =
     (case lookup_record_magic L magic of
        None \<Rightarrow> Inl PARSE_OTHER
      | Some RECORD_FD \<Rightarrow> parse_fd_payload L fs p r
      | Some RECORD_ALLOC \<Rightarrow> parse_alloc_payload L fs p r
      | Some RECORD_FORK \<Rightarrow> parse_fork_payload L fs p r
      | Some RECORD_SPAWN \<Rightarrow> parse_spawn_payload L fs p r
      | Some RECORD_EXEC \<Rightarrow> parse_exec_payload L fs p r
      | Some RECORD_EXEC_FAIL \<Rightarrow> parse_exec_fail_payload L fs p r
      | Some RECORD_CALL \<Rightarrow> parse_call_payload L fs p r
      | Some RECORD_RESOURCE \<Rightarrow> parse_resource_payload L fs p r
      | Some RECORD_COMPLETE \<Rightarrow> parse_complete_payload L fs p r)"

definition unescape_record :: "record_lib \<Rightarrow> event_record \<Rightarrow> event_record" where
  "unescape_record L r =
     (let u = map_option (unescape_field L) in
      r\<lparr>ev_run_id := u (ev_run_id r), ev_ptr := u (ev_ptr r), ev_new_ptr := u (ev_new_ptr r),
        ev_target := u (ev_target r), ev_resource_class := u (ev_resource_class r),
        ev_resource_id := u (ev_resource_id r), ev_related_id := u (ev_related_id r),
        ev_metadata := u (ev_metadata r), ev_function_name := u (ev_function_name r),
        ev_call_name := u (ev_call_name r), ev_arguments := u (ev_arguments r),
        ev_result := u (ev_result r), ev_file_name := u (ev_file_name r)\<rparr>)"

subsection \<open>A whole line\<close>

definition own_prefixes :: "string list" where
  "own_prefixes = map (\<lambda>s. s @ [TAB]) [''P101FD'', ''P101ALLOC'', ''P101FORK'', ''P101SPAWN'',
     ''P101EXEC'', ''P101EXECFAIL'', ''P101CALL'', ''P101RESOURCE'', ''P101COMPLETE'']"

definition starts_with :: "string \<Rightarrow> string \<Rightarrow> bool" where
  "starts_with prefix s \<longleftrightarrow> take (length prefix) s = prefix"

definition line_is_ours :: "string option \<Rightarrow> bool" where
  "line_is_ours line =
     (case line of None \<Rightarrow> False | Some s \<Rightarrow> list_ex (\<lambda>prefix. starts_with prefix s) own_prefixes)"

text \<open>\<open>while(line[length - 1] is a newline or a carriage return) line[--length] = 0;\<close>\<close>

definition strip_line_end :: "string \<Rightarrow> string" where
  "strip_line_end s = rev (dropWhile (\<lambda>c. c = NL \<or> c = CR) (rev s))"

text \<open>\<open>while(cursor != NULL && count < MAX_FIELDS) fields[count++] = split(&cursor);\<close> with
  \<open>n\<close> slots left: the fields, and whether the cursor is still not NULL.\<close>

fun split_fields :: "record_lib \<Rightarrow> nat \<Rightarrow> string option \<Rightarrow> string list \<times> bool" where
  "split_fields L n None = ([], False)"
| "split_fields L 0 (Some s) = ([], True)"
| "split_fields L (Suc n) (Some s) =
     (case split_field L s of (f, cursor) \<Rightarrow>
        case split_fields L n cursor of (fs, left) \<Rightarrow> (f # fs, left))"

definition parse_line :: "record_lib \<Rightarrow> string option \<Rightarrow> parse_status + event_record" where
  "parse_line L line =
     (case line of
        None \<Rightarrow> Inl PARSE_MALFORMED
      | Some text \<Rightarrow>
          if \<not> line_is_ours line then Inl PARSE_OTHER
          else
            (case split_field L (strip_line_end text) of (magic, cursor) \<Rightarrow>
             case split_fields L MAX_FIELDS cursor of (fs, left) \<Rightarrow>
               if left then Inl PARSE_MALFORMED
               else
                 (case parse_metadata L fs blank_record of
                    Inl status \<Rightarrow> Inl status
                  | Inr (r, payload) \<Rightarrow>
                      (case parse_payload L magic fs payload r of
                         Inl status \<Rightarrow> Inl status
                       | Inr r' \<Rightarrow> Inr (unescape_record L r')))))"

end
