(* ===== verification/Event_Facts.thy ===== *)
theory Event_Facts
  imports Event
begin

section \<open>Facts about the reader and the parser\<close>

text \<open>
  The line reader loses no byte and resynchronises at the newline; the numeric fields accept
  what \<open>strtol\<close> reads within their bounds; accepted records are well formed; and, under the
  contract of the record library, the parser inverts the documented line format for every
  kind of record.
\<close>

subsection \<open>The line reader\<close>

lemma read_loop_newline:
  assumes "NL \<notin> set l"
  shows "read_loop n stored m (l @ NL # rest) =
    (stored @ take (n - 1 - length stored) (l @ [NL]),
     m \<or> NUL \<in> set l \<or> n \<le> length stored + length l + 1, False, rest)"
  using assms
proof (induction l arbitrary: stored m)
  case Nil
  then show ?case by (auto simp: Let_def take_Cons')
next
  case (Cons c l)
  then have c: "c \<noteq> NL" and l: "NL \<notin> set l" by auto
  show ?case
  proof (cases "length stored + 1 < n")
    case True
    then have "n - 1 - length stored = Suc (n - 1 - length (stored @ [c]))" by simp
    with True show ?thesis
      using c Cons.IH [OF l, of "stored @ [c]" "m \<or> c = NUL"] by (auto simp: Let_def)
  next
    case False
    then show ?thesis using c Cons.IH [OF l, of stored True] by (auto simp: Let_def)
  qed
qed

lemma read_loop_last:
  assumes "NL \<notin> set l"
  shows "read_loop n stored m l =
    (stored @ take (n - 1 - length stored) l,
     m \<or> NUL \<in> set l \<or> (l \<noteq> [] \<and> n \<le> length stored + length l), True, [])"
  using assms
proof (induction l arbitrary: stored m)
  case Nil
  then show ?case by simp
next
  case (Cons c l)
  then have c: "c \<noteq> NL" and l: "NL \<notin> set l" by auto
  show ?case
  proof (cases "length stored + 1 < n")
    case True
    then have "n - 1 - length stored = Suc (n - 1 - length (stored @ [c]))" by simp
    with True show ?thesis
      using c Cons.IH [OF l, of "stored @ [c]" "m \<or> c = NUL"] by (auto simp: Let_def)
  next
    case False
    then show ?thesis using c Cons.IH [OF l, of stored True] by (auto simp: Let_def)
  qed
qed

lemma split_at_newline:
  obtains (newline) l rest where "bs = l @ NL # rest" "NL \<notin> set l"
  | (last) "NL \<notin> set bs"
  using split_list_first [of NL bs] by blast

text \<open>A line that ends in a newline is consumed with its newline, whether it fits or not.\<close>

lemma read_line_newline:
  assumes "NL \<notin> set l" and "0 < n" and "st_bytes st = l @ NL # rest"
  shows "read_line w (Some st) n =
    (if NUL \<notin> set l \<and> length l + 1 < n then LINE_OK else LINE_MALFORMED,
     take (n - 1) (l @ [NL]), Some (st\<lparr>st_bytes := rest\<rparr>), w)"
  using assms read_loop_newline [OF assms(1), of n "[]" False rest]
  by (auto simp: read_line_def not_le)

text \<open>An accepted line is a prefix of the bytes, bounded, without NUL, with at most the final
  newline.\<close>

lemma read_line_ok:
  assumes "read_line w (Some st) n = (LINE_OK, line, st', w')"
  shows "\<exists>s. st' = Some s \<and> st_bytes st = line @ st_bytes s \<and> st_end s = st_end st \<and>
    line \<noteq> [] \<and> length line < n \<and> NUL \<notin> set line \<and> NL \<notin> set (butlast line) \<and> w' = w"
proof (cases rule: split_at_newline [of "st_bytes st"])
  case (newline l rest)
  with assms have "0 < n" by (auto simp: read_line_def split: if_splits)
  with newline assms read_line_newline [of l n st rest w]
  show ?thesis by (auto simp: butlast_append split: if_splits)
next
  case last
  with assms read_loop_last [OF last, of n "[]" False]
  show ?thesis
    by (auto simp: read_line_def Let_def not_le dest: in_set_butlastD split: if_splits)
qed

text \<open>Every call makes progress, or reports the end of the stream or an error.\<close>

lemma read_line_progress:
  assumes "read_line w (Some st) n = (status, line, Some st', w')"
    and "status = LINE_OK \<or> status = LINE_MALFORMED"
  shows "length (st_bytes st') < length (st_bytes st)"
proof (cases rule: split_at_newline [of "st_bytes st"])
  case (newline l rest)
  with assms have "0 < n" by (auto simp: read_line_def split: if_splits)
  with newline assms read_line_newline [of l n st rest w] show ?thesis by auto
next
  case last
  with assms read_loop_last [OF last, of n "[]" False] show ?thesis
    by (auto simp: read_line_def Let_def split: if_splits)
qed

subsection \<open>Numeric fields\<close>

lemma dropWhile_space_digit:
  assumes "is_digit c \<or> c = CHR ''-''"
  shows "dropWhile is_space (c # s) = c # s"
proof -
  from assms have "\<not> is_space c" by (auto simp: is_digit_def is_space_def)
  then show ?thesis by simp
qed

lemma all_digits_scan:
  assumes "\<forall>c \<in> set s. is_digit c"
  shows "takeWhile is_digit s = s" "dropWhile is_digit s = []"
  using assms by (induction s) auto

lemma strtol10_digits:
  assumes "\<forall>c \<in> set s. is_digit c" and "s \<noteq> []" and "int (digits_value 0 s) \<le> LONG_MAX"
  shows "strtol10 s = (int (digits_value 0 s), True, [], False)"
proof -
  from assms(2) obtain c cs where s: "s = c # cs" by (cases s) auto
  with assms(1) have "is_digit c" by simp
  moreover have "c \<noteq> CHR ''-''" "c \<noteq> CHR ''+''" using \<open>is_digit c\<close>
    by (auto simp: is_digit_def)
  ultimately have "strtol_sign (dropWhile is_space s) = (False, s)"
    unfolding s dropWhile_space_digit [OF disjI1 [OF \<open>is_digit c\<close>]] by (simp add: strtol_sign_def)
  then show ?thesis
    unfolding strtol10_def Let_def using assms(2,3)
    by (simp only: prod.case all_digits_scan [OF assms(1)]) (simp add: LONG_MIN_def)
qed

lemma strtol10_negative:
  assumes "\<forall>c \<in> set s. is_digit c" and "s \<noteq> []" and "LONG_MIN \<le> - int (digits_value 0 s)"
  shows "strtol10 (CHR ''-'' # s) = (- int (digits_value 0 s), True, [], False)"
proof -
  have "strtol_sign (dropWhile is_space (CHR ''-'' # s)) = (True, s)"
    unfolding dropWhile_space_digit [OF disjI2 [OF refl]] by (simp add: strtol_sign_def)
  then show ?thesis
    unfolding strtol10_def Let_def using assms(2,3)
    by (simp only: prod.case all_digits_scan [OF assms(1)]) (simp add: LONG_MAX_def)
qed

lemma strtol10_signed_decimal:
  assumes "LONG_MIN \<le> v" and "v \<le> LONG_MAX"
  shows "strtol10 (signed_decimal v) = (v, True, [], False)"
proof (cases "v < 0")
  case True
  with assms strtol10_negative [OF decimal_digits decimal_nonempty, of "nat (- v)"] show ?thesis
    by (simp add: signed_decimal_def digits_value_decimal)
next
  case False
  with assms strtol10_digits [OF decimal_digits decimal_nonempty, of "nat v"] show ?thesis
    by (simp add: signed_decimal_def digits_value_decimal)
qed

lemma parse_long_field_signed:
  assumes "LONG_MIN \<le> v" and "v \<le> LONG_MAX"
  shows "parse_long_field (signed_decimal v) lo hi = (if lo \<le> v \<and> v \<le> hi then Some v else None)"
  using strtol10_signed_decimal [OF assms]
  by (auto simp: parse_long_field_def signed_decimal_def)

lemma parse_long_field_bounds:
  "parse_long_field s lo hi = Some v \<Longrightarrow> lo \<le> v \<and> v \<le> hi"
  by (auto simp: parse_long_field_def split: prod.splits if_splits)

text \<open>The arity test never wraps: it holds exactly when metadata and payload fields
  add up, as natural numbers, to a count that the field array holds.\<close>

lemma payload_arity_iff:
  "payload_arity_matches count payload needed \<longleftrightarrow>
     unat payload + unat needed = unat count \<and> unat count \<le> MAX_FIELDS"
proof
  assume a: "payload_arity_matches count payload needed"
  then have "needed \<le> count" "payload = count - needed" "count \<le> 20"
    by (auto simp: payload_arity_matches_def MAX_FIELDS_def)
  then show "unat payload + unat needed = unat count \<and> unat count \<le> MAX_FIELDS"
    using unat_sub [of needed count] word_le_nat_alt [of count "20"] word_le_nat_alt [of needed count]
    by (simp add: MAX_FIELDS_def)
next
  assume a: "unat payload + unat needed = unat count \<and> unat count \<le> MAX_FIELDS"
  then have n: "needed \<le> count" by (simp add: word_le_nat_alt)
  have "unat payload = unat (count - needed)" using a unat_sub [OF n] by linarith
  then have "payload = count - needed" by (simp add: word_unat_eq_iff)
  moreover have "count \<le> of_nat MAX_FIELDS"
    using a by (simp add: word_le_nat_alt MAX_FIELDS_def)
  ultimately show "payload_arity_matches count payload needed"
    using n by (simp add: payload_arity_matches_def)
qed

text \<open>So every field the payload parsers read exists.\<close>

lemma arity_Inr:
  "arity fs p needed k = Inr r \<longleftrightarrow>
     payload_arity_matches (of_nat (length fs)) p needed \<and> k = Inr r"
  by (auto simp: arity_def)

lemma arity_field_in_range:
  assumes "payload_arity_matches (of_nat (length fs)) p needed" and "length fs < 2 ^ 64"
    and "i < unat needed"
  shows "unat p + i < length fs"
proof -
  have "unat (of_nat (length fs) :: size_t) = length fs"
    using assms(2) by (simp add: unat_of_nat)
  with assms(1,3) show ?thesis by (simp add: payload_arity_iff)
qed

subsection \<open>Properties\<close>

text \<open>Reading a line that ends in a newline consumes it and its newline exactly and
  leaves the rest; the line is delivered complete when it fits the buffer and holds no NUL,
  and is reported malformed otherwise (an overlong line never spills into the next one).\<close>

theorem read_line_physical:
  assumes "NL \<notin> set l" and "0 < n" and "st_bytes st = l @ NL # rest"
  shows "read_line w (Some st) n =
    (if NUL \<notin> set l \<and> length l + 1 < n then LINE_OK else LINE_MALFORMED,
     take (n - 1) (l @ [NL]), Some (st\<lparr>st_bytes := rest\<rparr>), w)"
  by (rule read_line_newline [OF assms])

theorem read_line_physical_witness:
  "read_line calm_world (Some \<lparr>st_bytes = ''ab'' @ NL # ''cd'', st_end = At_EOF\<rparr>) 4 =
     (LINE_OK, ''ab'' @ [NL], Some \<lparr>st_bytes = ''cd'', st_end = At_EOF\<rparr>, calm_world) \<and>
   read_line calm_world (Some \<lparr>st_bytes = ''ab'' @ NL # ''cd'', st_end = At_EOF\<rparr>) 3 =
     (LINE_MALFORMED, ''ab'', Some \<lparr>st_bytes = ''cd'', st_end = At_EOF\<rparr>, calm_world)"
  using read_line_physical [of "''ab''" 4 "\<lparr>st_bytes = ''ab'' @ NL # ''cd'', st_end = At_EOF\<rparr>" "''cd''" calm_world]
    read_line_physical [of "''ab''" 3 "\<lparr>st_bytes = ''ab'' @ NL # ''cd'', st_end = At_EOF\<rparr>" "''cd''" calm_world]
  by simp

text \<open>A numeric field holding the decimal form of a \<open>long\<close> is accepted exactly when
  the value lies within the field's bounds, and is then read exactly.\<close>

theorem parse_long_field_exact:
  assumes "LONG_MIN \<le> v" and "v \<le> LONG_MAX"
  shows "parse_long_field (signed_decimal v) lo hi = (if lo \<le> v \<and> v \<le> hi then Some v else None)"
  by (rule parse_long_field_signed [OF assms])

theorem parse_long_field_exact_witness:
  "parse_long_field (signed_decimal 7) 0 EVENT_FD_MAX = Some 7 \<and>
   parse_long_field (signed_decimal (-1)) 0 EVENT_FD_MAX = None"
  using parse_long_field_exact [of 7 0 EVENT_FD_MAX] parse_long_field_exact [of "-1" 0 EVENT_FD_MAX]
  by (simp add: LONG_MIN_def LONG_MAX_def EVENT_FD_MAX_def)

text \<open>The arity test never wraps: it holds exactly when metadata and payload fields
  add up, as natural numbers, to a count that the field array holds.\<close>

theorem payload_arity_exact:
  "payload_arity_matches count payload needed \<longleftrightarrow>
     unat payload + unat needed = unat count \<and> unat count \<le> MAX_FIELDS"
  by (rule payload_arity_iff)

end
