(* ===== verification/Event_Format.thy ===== *)
theory Event_Format
  imports Event_Facts
begin

section \<open>The documented line format, and the parser against it\<close>

text \<open>
  docs/event-format.md as an abstract specification: an event is a common prefix (\<open>header\<close>)
  and one of nine payloads; \<open>line_of\<close> writes its line, \<open>record_of\<close> is the record it stands
  for. Inside \<open>record_library\<close> the parser is shown to read back every line that a producer
  can write. The second part is the converse: what an accepted record always satisfies.
\<close>

subsection \<open>Abstract events\<close>

record header =
  hd_run_id :: string
  hd_pid :: int
  hd_context :: nat
  hd_sequence :: nat
  hd_monotonic :: "nat option"
  hd_wall :: "nat option"

datatype payload =
    Fd_Event fd_kind int int string string
  | Alloc_Event alloc_kind string "string option" nat int string string
  | Fork_Event int int string string
  | Spawn_Event int int string string string
  | Exec_Event int bool int string string string
  | Exec_Fail_Event int string string string
  | Call_Event call_kind int string string string string string
  | Resource_Event resource_kind string string "string option" nat string int string string
  | Complete_Event nat int

fun payload_kind :: "payload \<Rightarrow> record_kind" where
  "payload_kind (Fd_Event _ _ _ _ _) = RECORD_FD"
| "payload_kind (Alloc_Event _ _ _ _ _ _ _) = RECORD_ALLOC"
| "payload_kind (Fork_Event _ _ _ _) = RECORD_FORK"
| "payload_kind (Spawn_Event _ _ _ _ _) = RECORD_SPAWN"
| "payload_kind (Exec_Event _ _ _ _ _ _) = RECORD_EXEC"
| "payload_kind (Exec_Fail_Event _ _ _ _) = RECORD_EXEC_FAIL"
| "payload_kind (Call_Event _ _ _ _ _ _ _) = RECORD_CALL"
| "payload_kind (Resource_Event _ _ _ _ _ _ _ _ _) = RECORD_RESOURCE"
| "payload_kind (Complete_Event _ _) = RECORD_COMPLETE"

definition header_record :: "header \<Rightarrow> event_record" where
  "header_record h = blank_record\<lparr>ev_version := 5, ev_run_id := Some (hd_run_id h),
     ev_pid := hd_pid h, ev_context_id := hd_context h, ev_sequence := hd_sequence h,
     ev_monotonic_ns := (case hd_monotonic h of None \<Rightarrow> 0 | Some n \<Rightarrow> n),
     ev_monotonic_ns_available := (hd_monotonic h \<noteq> None),
     ev_wall_unix_ns := (case hd_wall h of None \<Rightarrow> 0 | Some n \<Rightarrow> n),
     ev_wall_unix_ns_available := (hd_wall h \<noteq> None)\<rparr>"

fun record_of :: "header \<Rightarrow> payload \<Rightarrow> event_record" where
  "record_of h (Fd_Event k fd line fn file) = (header_record h)\<lparr>ev_fd_kind := k, ev_fd := fd,
     ev_line_number := line, ev_function_name := Some fn, ev_file_name := Some file,
     ev_record_kind := RECORD_FD\<rparr>"
| "record_of h (Alloc_Event k p q n line fn file) = (header_record h)\<lparr>ev_alloc_kind := k,
     ev_ptr := Some p, ev_new_ptr := q, ev_size := n, ev_line_number := line,
     ev_function_name := Some fn, ev_file_name := Some file, ev_record_kind := RECORD_ALLOC\<rparr>"
| "record_of h (Fork_Event child line fn file) = (header_record h)\<lparr>ev_child_pid := child,
     ev_line_number := line, ev_function_name := Some fn, ev_file_name := Some file,
     ev_target := None, ev_record_kind := RECORD_FORK\<rparr>"
| "record_of h (Spawn_Event child line fn file target) = (header_record h)\<lparr>ev_child_pid := child,
     ev_line_number := line, ev_function_name := Some fn, ev_file_name := Some file,
     ev_target := Some target, ev_record_kind := RECORD_SPAWN\<rparr>"
| "record_of h (Exec_Event fd cloexec line fn file target) = (header_record h)\<lparr>ev_fd := fd,
     ev_cloexec := (if cloexec then 1 else 0), ev_line_number := line,
     ev_function_name := Some fn, ev_file_name := Some file, ev_target := Some target,
     ev_record_kind := RECORD_EXEC\<rparr>"
| "record_of h (Exec_Fail_Event line fn file target) = (header_record h)\<lparr>ev_line_number := line,
     ev_function_name := Some fn, ev_file_name := Some file, ev_target := Some target,
     ev_record_kind := RECORD_EXEC_FAIL\<rparr>"
| "record_of h (Call_Event k line fn call args res file) = (header_record h)\<lparr>ev_call_kind := k,
     ev_line_number := line, ev_function_name := Some fn, ev_call_name := Some call,
     ev_arguments := Some args, ev_result := Some res, ev_file_name := Some file,
     ev_record_kind := RECORD_CALL\<rparr>"
| "record_of h (Resource_Event k cls rid rel n meta line fn file) =
     (header_record h)\<lparr>ev_resource_kind := k, ev_resource_class := Some cls,
     ev_resource_id := Some rid, ev_related_id := rel, ev_size := n,
     ev_metadata := Some meta, ev_line_number := line, ev_function_name := Some fn,
     ev_file_name := Some file, ev_record_kind := RECORD_RESOURCE\<rparr>"
| "record_of h (Complete_Event attempted errnum) = (header_record h)\<lparr>
     ev_events_attempted := attempted, ev_write_failed := (if errnum = 0 then 0 else 1),
     ev_write_errno := errnum, ev_record_kind := RECORD_COMPLETE\<rparr>"

subsection \<open>Lines\<close>

fun join_tabs :: "string list \<Rightarrow> string" where
  "join_tabs [] = []"
| "join_tabs [f] = f"
| "join_tabs (f # fs) = f @ TAB # join_tabs fs"

definition opt_text :: "(string \<Rightarrow> string) \<Rightarrow> string option \<Rightarrow> string" where
  "opt_text esc t = (case t of None \<Rightarrow> ''-'' | Some s \<Rightarrow> esc s)"

definition opt_size :: "(nat \<Rightarrow> string) \<Rightarrow> nat option \<Rightarrow> string" where
  "opt_size sz n = (case n of None \<Rightarrow> ''-'' | Some k \<Rightarrow> sz k)"

definition header_fields :: "(string \<Rightarrow> string) \<Rightarrow> (nat \<Rightarrow> string) \<Rightarrow> header \<Rightarrow> string list" where
  "header_fields esc sz h = [''5'', esc (hd_run_id h), signed_decimal (hd_pid h),
     sz (hd_context h), sz (hd_sequence h), opt_size sz (hd_monotonic h), opt_size sz (hd_wall h)]"

fun payload_fields :: "(string \<Rightarrow> string) \<Rightarrow> (nat \<Rightarrow> string) \<Rightarrow> payload \<Rightarrow> string list" where
  "payload_fields esc sz (Fd_Event k fd line fn file) =
     [doc_fd_kind k, signed_decimal fd, signed_decimal line, esc fn, esc file]"
| "payload_fields esc sz (Alloc_Event k p q n line fn file) =
     [doc_alloc_kind k, esc p, opt_text esc q, sz n, signed_decimal line, esc fn, esc file]"
| "payload_fields esc sz (Fork_Event child line fn file) =
     [signed_decimal child, signed_decimal line, esc fn, esc file]"
| "payload_fields esc sz (Spawn_Event child line fn file target) =
     [signed_decimal child, signed_decimal line, esc fn, esc file, esc target]"
| "payload_fields esc sz (Exec_Event fd cloexec line fn file target) =
     [signed_decimal fd, if cloexec then ''1'' else ''0'', signed_decimal line, esc fn,
      esc file, esc target]"
| "payload_fields esc sz (Exec_Fail_Event line fn file target) =
     [signed_decimal line, esc fn, esc file, esc target]"
| "payload_fields esc sz (Call_Event k line fn call args res file) =
     [doc_call_kind k, signed_decimal line, esc fn, esc call, esc args, esc res, esc file]"
| "payload_fields esc sz (Resource_Event k cls rid rel n meta line fn file) =
     [doc_resource_kind k, esc cls, esc rid, opt_text esc rel, sz n, esc meta,
      signed_decimal line, esc fn, esc file]"
| "payload_fields esc sz (Complete_Event attempted errnum) =
     [sz attempted, if errnum = 0 then ''0'' else ''1'', signed_decimal errnum]"

definition line_of :: "(string \<Rightarrow> string) \<Rightarrow> (nat \<Rightarrow> string) \<Rightarrow> header \<Rightarrow> payload \<Rightarrow> string" where
  "line_of esc sz h p =
     join_tabs (doc_magic (payload_kind p) # header_fields esc sz h @ payload_fields esc sz p)"

subsection \<open>Events a producer can write\<close>

definition line_number_ok :: "int \<Rightarrow> bool" where
  "line_number_ok n \<longleftrightarrow> 0 \<le> n \<and> n \<le> INT_MAX"

definition opt_bounded :: "nat option \<Rightarrow> bool" where
  "opt_bounded n \<longleftrightarrow> (case n of None \<Rightarrow> True | Some k \<Rightarrow> k \<le> SIZE_MAX)"

definition opt_not_dash :: "(string \<Rightarrow> string) \<Rightarrow> string option \<Rightarrow> bool" where
  "opt_not_dash esc t \<longleftrightarrow> (case t of None \<Rightarrow> True | Some s \<Rightarrow> esc s \<noteq> ''-'')"

definition header_ok :: "record_lib \<Rightarrow> (string \<Rightarrow> string) \<Rightarrow> header \<Rightarrow> bool" where
  "header_ok L esc h \<longleftrightarrow> esc (hd_run_id h) \<noteq> [] \<and> length (esc (hd_run_id h)) \<le> run_id_max L \<and>
     0 \<le> hd_pid h \<and> hd_pid h \<le> LONG_MAX \<and> hd_context h \<le> SIZE_MAX \<and>
     hd_sequence h \<le> SIZE_MAX \<and> opt_bounded (hd_monotonic h) \<and> opt_bounded (hd_wall h)"

fun payload_ok :: "(string \<Rightarrow> string) \<Rightarrow> payload \<Rightarrow> bool" where
  "payload_ok esc (Fd_Event k fd line fn file) \<longleftrightarrow>
     0 \<le> fd \<and> fd \<le> EVENT_FD_MAX \<and> line_number_ok line"
| "payload_ok esc (Alloc_Event k p q n line fn file) \<longleftrightarrow>
     opt_not_dash esc q \<and> n \<le> SIZE_MAX \<and> line_number_ok line"
| "payload_ok esc (Fork_Event child line fn file) \<longleftrightarrow>
     0 \<le> child \<and> child \<le> LONG_MAX \<and> line_number_ok line"
| "payload_ok esc (Spawn_Event child line fn file target) \<longleftrightarrow>
     0 \<le> child \<and> child \<le> LONG_MAX \<and> line_number_ok line"
| "payload_ok esc (Exec_Event fd cloexec line fn file target) \<longleftrightarrow>
     0 \<le> fd \<and> fd \<le> EVENT_FD_MAX \<and> line_number_ok line"
| "payload_ok esc (Exec_Fail_Event line fn file target) \<longleftrightarrow> line_number_ok line"
| "payload_ok esc (Call_Event k line fn call args res file) \<longleftrightarrow> line_number_ok line"
| "payload_ok esc (Resource_Event k cls rid rel n meta line fn file) \<longleftrightarrow>
     opt_not_dash esc rel \<and> n \<le> SIZE_MAX \<and> line_number_ok line"
| "payload_ok esc (Complete_Event attempted errnum) \<longleftrightarrow>
     attempted \<le> SIZE_MAX \<and> line_number_ok errnum"

subsection \<open>Splitting a joined line\<close>

lemma field_text_doc [simp]:
  "field_text (doc_magic k)" "field_text (doc_fd_kind fk)" "field_text (doc_alloc_kind ak)"
  "field_text (doc_call_kind ck)" "field_text (doc_resource_kind rk)"
  by (cases k, simp_all) (cases fk, simp_all, cases ak, simp_all, cases ck, simp_all,
    cases rk, simp_all)

lemma join_tabs_no_line_end:
  "\<forall>f \<in> set fs. field_text f \<Longrightarrow> NL \<notin> set (join_tabs fs) \<and> CR \<notin> set (join_tabs fs)"
  by (induction fs rule: join_tabs.induct) (auto simp: field_text_def)

lemma strip_line_end_id:
  assumes "NL \<notin> set s" and "CR \<notin> set s"
  shows "strip_line_end (s @ [NL]) = s"
proof -
  have "dropWhile (\<lambda>c. c = NL \<or> c = CR) (rev s) = rev s"
    using assms by (cases "rev s") (auto simp: rev_swap)
  then show ?thesis by (simp add: strip_line_end_def)
qed

context record_library
begin

lemma split_fields_join:
  assumes "fs \<noteq> []" and "\<forall>f \<in> set fs. field_text f" and "length fs \<le> n"
  shows "split_fields L n (Some (join_tabs fs)) = (fs, False)"
  using assms
proof (induction fs arbitrary: n rule: join_tabs.induct)
  case 1
  then show ?case by simp
next
  case (2 f)
  then obtain m where "n = Suc m" by (cases n) auto
  with 2 show ?case by (simp add: split_last field_text_tab)
next
  case (3 f g fs)
  then obtain m where n: "n = Suc m" and m: "length (g # fs) \<le> m" by (cases n) auto
  with 3 have "split_fields L m (Some (join_tabs (g # fs))) = (g # fs, False)" by simp
  with 3 n show ?case by (simp add: split_tab field_text_tab)
qed

lemma lookup_kinds [simp]:
  "lookup_record_magic L (doc_magic k) = Some k"
  "lookup_fd_kind L (doc_fd_kind fk) = Some fk"
  "lookup_alloc_kind L (doc_alloc_kind ak) = Some ak"
  "lookup_call_kind L (doc_call_kind ck) = Some ck"
  "lookup_resource_kind L (doc_resource_kind rk) = Some rk"
      apply (cases k; simp add: lookup_record_magic_def record_kinds_def magic_doc)
     apply (cases fk; simp add: lookup_fd_kind_def fd_kinds_def fd_doc)
    apply (cases ak; simp add: lookup_alloc_kind_def alloc_kinds_def alloc_doc)
   apply (cases ck; simp add: lookup_call_kind_def call_kinds_def call_doc)
  apply (cases rk; simp add: lookup_resource_kind_def resource_kinds_def resource_doc)
  done

lemma opt_size_parse:
  "opt_bounded n \<Longrightarrow> parse_optional_size_field L (opt_size size_text n) =
     Some (case n of None \<Rightarrow> 0 | Some k \<Rightarrow> k, n \<noteq> None)"
  by (cases n) (auto simp: opt_size_def opt_bounded_def parse_optional_size_field_def
    parse_size_inv size_text_not_dash)

lemma opt_text_parse:
  "opt_not_dash esc t \<Longrightarrow> dash_null (opt_text esc t) = map_option esc t"
  by (cases t) (auto simp: opt_text_def opt_not_dash_def dash_null_def)

lemma opt_text_field: "field_text (opt_text esc t)"
  by (cases t) (auto simp: opt_text_def esc_field)

lemma opt_size_field: "field_text (opt_size size_text n)"
  by (cases n) (auto simp: opt_size_def size_text_field)

end

lemma arity_ok:
  assumes "length fs = 7 + n" and "unat needed = n" and "n \<le> 13"
  shows "arity fs (of_nat METADATA_FIELDS) needed k = k"
proof -
  have "unat (of_nat (length fs) :: size_t) = length fs"
    unfolding unat_of_nat using assms(1,3) by simp
  then have "payload_arity_matches (of_nat (length fs)) (of_nat METADATA_FIELDS) needed"
    unfolding payload_arity_iff using assms by (simp add: METADATA_FIELDS_def MAX_FIELDS_def)
  then show ?thesis by (simp add: arity_def)
qed

lemma field_at_payload:
  "length hs = 7 \<Longrightarrow> field_at (hs @ ps) (of_nat METADATA_FIELDS) i = ps ! i"
  by (simp add: field_at_def METADATA_FIELDS_def nth_append)

lemma length_header_fields [simp]: "length (header_fields esc sz h) = 7"
  by (simp add: header_fields_def)

lemma small_long:
  "parse_long_field ''0'' 0 1 = Some 0" "parse_long_field ''1'' 0 1 = Some 1"
  by code_simp+

lemmas payload_parsers = parse_fd_payload_def parse_alloc_payload_def parse_fork_payload_def
  parse_spawn_payload_def parse_exec_payload_def parse_exec_fail_payload_def
  parse_call_payload_def parse_resource_payload_def parse_complete_payload_def

lemma long_fields:
  "line_number_ok n \<Longrightarrow> parse_long_field (signed_decimal n) 0 INT_MAX = Some n"
  "0 \<le> n \<Longrightarrow> n \<le> LONG_MAX \<Longrightarrow> parse_long_field (signed_decimal n) 0 LONG_MAX = Some n"
  "0 \<le> n \<Longrightarrow> n \<le> EVENT_FD_MAX \<Longrightarrow> parse_long_field (signed_decimal n) 0 EVENT_FD_MAX = Some n"
  using parse_long_field_signed [of n]
  by (simp_all add: line_number_ok_def INT_MAX_def LONG_MAX_def LONG_MIN_def EVENT_FD_MAX_def)

lemma line_is_ours_doc: "line_is_ours (Some (doc_magic k @ TAB # s))"
  by (cases k) (simp_all add: line_is_ours_def own_prefixes_def starts_with_def)

lemma magic_no_line_end: "NL \<in> set (doc_magic k) \<Longrightarrow> False" "CR \<in> set (doc_magic k) \<Longrightarrow> False"
  using field_text_doc(1) [of k] by (simp_all add: field_text_def del: field_text_doc)

context record_library
begin

lemma parse_metadata_header:
  assumes "header_ok L esc h"
  shows "parse_metadata L (header_fields esc size_text h @ rest) blank_record =
    Inr ((header_record h)\<lparr>ev_run_id := Some (esc (hd_run_id h))\<rparr>, of_nat METADATA_FIELDS)"
proof -
  have v: "parse_long_field ''5'' 0 LONG_MAX = Some 5"
    by code_simp
  have p: "parse_long_field (signed_decimal (hd_pid h)) 0 LONG_MAX = Some (hd_pid h)"
    using assms parse_long_field_signed by (simp add: header_ok_def LONG_MIN_def)
  show ?thesis
    using assms v p
    by (simp add: parse_metadata_def header_fields_def METADATA_FIELDS_def version_doc
      header_ok_def Let_def parse_size_inv opt_size_parse header_record_def not_less)
qed

lemma parse_payload_event:
  assumes "payload_ok esc p" and "ev_run_id r = Some (esc (hd_run_id h))"
    and "r = (header_record h)\<lparr>ev_run_id := Some (esc (hd_run_id h))\<rparr>"
  shows "\<exists>r'. parse_payload L (doc_magic (payload_kind p))
      (header_fields esc size_text h @ payload_fields esc size_text p) (of_nat METADATA_FIELDS) r
      = Inr r' \<and> unescape_record L r' = record_of h p"
  using assms
  by (cases p)
    (auto simp: parse_payload_def payload_parsers arity_ok field_at_payload long_fields small_long
      parse_size_inv opt_text_parse unescape_record_def unescape_esc header_record_def
      blank_record_def zero_record_def option.map_comp comp_def option.map_ident Let_def
    simp del: doc_magic.simps)

lemma payload_fields_text: "\<forall>f \<in> set (payload_fields esc size_text p). field_text f"
  by (cases p) (auto simp: esc_field size_text_field opt_text_field field_text_signed_decimal)

lemma header_fields_text: "\<forall>f \<in> set (header_fields esc size_text h). field_text f"
  by (auto simp: header_fields_def esc_field size_text_field opt_size_field
    field_text_signed_decimal)

lemma length_payload_fields: "length (payload_fields esc size_text p) \<le> 9"
  by (cases p) auto

lemma parse_line_event:
  assumes "header_ok L esc h" and "payload_ok esc p"
  shows "parse_line L (Some (line_of esc size_text h p @ [NL])) = Inr (record_of h p)"
proof -
  let ?m = "doc_magic (payload_kind p)"
  let ?fs = "header_fields esc size_text h @ payload_fields esc size_text p"
  have fs: "?fs \<noteq> []" by (simp add: header_fields_def)
  have ftext: "\<forall>f \<in> set ?fs. field_text f"
    using payload_fields_text header_fields_text by auto
  have line: "line_of esc size_text h p = ?m @ TAB # join_tabs ?fs"
    using fs by (cases ?fs) (simp_all add: line_of_def)
  have ours: "line_is_ours (Some (line_of esc size_text h p @ [NL]))"
    unfolding line by (simp add: line_is_ours_doc)
  have strip: "strip_line_end (line_of esc size_text h p @ [NL]) = ?m @ TAB # join_tabs ?fs"
    unfolding line using join_tabs_no_line_end [OF ftext]
    by (intro strip_line_end_id) (auto simp: field_text_def dest: magic_no_line_end)
  have split1: "split_field L (?m @ TAB # join_tabs ?fs) = (?m, Some (join_tabs ?fs))"
    by (rule split_tab) (simp add: field_text_tab)
  have split2: "split_fields L MAX_FIELDS (Some (join_tabs ?fs)) = (?fs, False)"
    using length_payload_fields [of p]
    by (intro split_fields_join fs ftext) (simp add: MAX_FIELDS_def)
  obtain r' where r': "parse_payload L ?m ?fs (of_nat METADATA_FIELDS)
      ((header_record h)\<lparr>ev_run_id := Some (esc (hd_run_id h))\<rparr>) = Inr r'"
    "unescape_record L r' = record_of h p"
    using parse_payload_event [OF assms(2), of _ h] by auto
  show ?thesis
    unfolding parse_line_def option.case
    by (simp only: ours strip split1 split2 prod.case if_False not_True_eq_False
      parse_metadata_header [OF assms(1)] sum.case r')
qed

end

subsection \<open>What an accepted record satisfies\<close>

definition located :: "event_record \<Rightarrow> bool" where
  "located r \<longleftrightarrow> line_number_ok (ev_line_number r) \<and> ev_function_name r \<noteq> None \<and>
     ev_file_name r \<noteq> None"

text \<open>Per kind: the fields the later stages read without a null test, and their ranges.\<close>

definition payload_well_formed :: "event_record \<Rightarrow> bool" where
  "payload_well_formed r =
     (case ev_record_kind r of
        RECORD_FD \<Rightarrow> located r \<and> 0 \<le> ev_fd r \<and> ev_fd r \<le> EVENT_FD_MAX
      | RECORD_ALLOC \<Rightarrow> located r \<and> ev_ptr r \<noteq> None
      | RECORD_FORK \<Rightarrow> located r \<and> 0 \<le> ev_child_pid r \<and> ev_child_pid r \<le> LONG_MAX
      | RECORD_SPAWN \<Rightarrow> located r \<and> 0 \<le> ev_child_pid r \<and> ev_child_pid r \<le> LONG_MAX \<and>
          ev_target r \<noteq> None
      | RECORD_EXEC \<Rightarrow> located r \<and> 0 \<le> ev_fd r \<and> ev_fd r \<le> EVENT_FD_MAX \<and>
          0 \<le> ev_cloexec r \<and> ev_cloexec r \<le> 1 \<and> ev_target r \<noteq> None
      | RECORD_EXEC_FAIL \<Rightarrow> located r \<and> ev_target r \<noteq> None
      | RECORD_CALL \<Rightarrow> located r \<and> ev_call_name r \<noteq> None \<and> ev_arguments r \<noteq> None \<and>
          ev_result r \<noteq> None
      | RECORD_RESOURCE \<Rightarrow> located r \<and> ev_resource_class r \<noteq> None \<and>
          ev_resource_id r \<noteq> None \<and> ev_metadata r \<noteq> None
      | RECORD_COMPLETE \<Rightarrow> line_number_ok (ev_write_errno r) \<and>
          (ev_write_failed r = 0 \<or> ev_write_failed r = 1) \<and>
          (ev_write_failed r = 0 \<longleftrightarrow> ev_write_errno r = 0))"

definition meta_well_formed :: "record_lib \<Rightarrow> event_record \<Rightarrow> bool" where
  "meta_well_formed L r \<longleftrightarrow> ev_version r = log_version L \<and> ev_run_id r \<noteq> None \<and>
     0 \<le> ev_pid r \<and> ev_pid r \<le> LONG_MAX"

lemma parse_metadata_well_formed:
  "parse_metadata L fs r = Inr (r', p) \<Longrightarrow> meta_well_formed L r'"
  by (auto simp: parse_metadata_def meta_well_formed_def need_Inr Let_def
    dest!: parse_long_field_bounds split: if_splits)

lemma parse_payload_well_formed:
  assumes "parse_payload L magic fs p r = Inr r'"
  shows "payload_well_formed r' \<and> (meta_well_formed L r \<longrightarrow> meta_well_formed L r')"
proof -
  obtain k where k: "lookup_record_magic L magic = Some k"
    using assms by (cases "lookup_record_magic L magic") (auto simp: parse_payload_def)
  show ?thesis
    using assms k
    by (cases k)
      (auto simp: parse_payload_def payload_parsers arity_Inr need_Inr payload_well_formed_def
        meta_well_formed_def located_def line_number_ok_def
        dest!: parse_long_field_bounds split: if_splits)
qed

lemma unescape_well_formed:
  "payload_well_formed (unescape_record L r) = payload_well_formed r"
  "meta_well_formed L (unescape_record L r) = meta_well_formed L r"
  by (auto simp: unescape_record_def payload_well_formed_def meta_well_formed_def located_def
    Let_def split: record_kind.splits)

lemma parse_line_InrE:
  assumes "parse_line L line = Inr r"
  obtains s magic fs r1 r2 p where "line = Some s" "line_is_ours line"
    "parse_metadata L fs blank_record = Inr (r1, p)" "parse_payload L magic fs p r1 = Inr r2"
    "r = unescape_record L r2"
  using assms that
  by (auto simp: parse_line_def split: option.splits prod.splits if_splits sum.splits)

lemma parse_line_well_formed:
  assumes "parse_line L line = Inr r"
  shows "meta_well_formed L r" and "payload_well_formed r" and "line_is_ours line"
  using assms
  by (auto elim!: parse_line_InrE dest: parse_metadata_well_formed parse_payload_well_formed
    simp: unescape_well_formed)

subsection \<open>Properties\<close>

definition sample_header :: header where
  "sample_header = \<lparr>hd_run_id = ''run-1'', hd_pid = 42, hd_context = 1, hd_sequence = 7,
     hd_monotonic = Some 100, hd_wall = None\<rparr>"

definition sample_payload :: payload where
  "sample_payload = Resource_Event RESOURCE_ACQUIRE ''lock'' (''m'' @ [TAB] @ ''1'') None 8
     ''x'' 12 ''main'' ''a.c''"

lemma sample_ok: "header_ok doc_lib doc_escape sample_header" "payload_ok doc_escape sample_payload"
  by (simp_all add: sample_header_def sample_payload_def header_ok_def doc_lib_def LONG_MAX_def
      SIZE_MAX_def opt_bounded_def opt_not_dash_def line_number_ok_def INT_MAX_def)

text \<open>Claim C2. The parser reads back every line a producer can write: for every well-formed
  common header and each of the nine payload kinds, parsing the documented TSV line (fields
  escaped, a newline at the end) accepts it and fills exactly the record the event stands for,
  whatever implementation of the documented field primitives the library supplies.\<close>

theorem parse_line_roundtrip:
  assumes "record_library L esc sz" and "header_ok L esc h" and "payload_ok esc p"
  shows "parse_line L (Some (line_of esc sz h p @ [NL])) = Inr (record_of h p)"
  by (rule record_library.parse_line_event [OF assms])

theorem parse_line_roundtrip_witness:
  "parse_line doc_lib (Some (line_of doc_escape decimal sample_header sample_payload @ [NL])) =
     Inr (record_of sample_header sample_payload)"
  by (rule parse_line_roundtrip [OF doc.record_library_axioms sample_ok])

text \<open>Claim C18. An accepted line always yields a usable record: the log's own version, a run id, a
  pid in range, and for the record's kind every text the later stages read without a null test
  and every number within its bounds (file descriptors within the fd limit, line numbers
  within \<open>int\<close>, the COMPLETE flags consistent with each other).\<close>

theorem parse_line_sound:
  assumes "parse_line L line = Inr r"
  shows "meta_well_formed L r \<and> payload_well_formed r \<and> line_is_ours line"
  using parse_line_well_formed [OF assms] by blast

theorem parse_line_sound_witness:
  "meta_well_formed doc_lib (record_of sample_header sample_payload) \<and>
   payload_well_formed (record_of sample_header sample_payload)"
  using parse_line_sound [OF doc.parse_line_event [OF sample_ok]] by blast

end
