(* ===== verification/Keyed_Table.thy ===== *)
theory Keyed_Table
  imports P101_Prelude
begin

section \<open>Tables searched by key and extended on demand\<close>

text \<open>
  Several components keep an array of items identified by a key, and reach an item through
  one function that returns the index of the item with the key, appending a fresh item when
  there is none (\<open>find_or_add_producer\<close> of src/event.c, \<open>trace_context\<close> of src/analysis.c).
  \<open>keyed_table\<close> is that interface: what a client relies on, whatever the rest of the state.
  A failed call (\<open>None\<close>) leaves the table as it was.
\<close>

definition key_lookup :: "('a \<Rightarrow> 'k) \<Rightarrow> 'a list \<Rightarrow> 'k \<Rightarrow> 'a option" where
  "key_lookup key xs k = find (\<lambda>x. key x = k) xs"

definition key_index :: "('a \<Rightarrow> 'k) \<Rightarrow> 'a list \<Rightarrow> 'k \<Rightarrow> nat option" where
  "key_index key xs k = first_index (\<lambda>x. key x = k) xs"

lemma key_lookup_index:
  "key_lookup key xs k = map_option (\<lambda>i. xs ! i) (key_index key xs k)"
  by (induction xs) (auto simp: key_lookup_def key_index_def option.map_comp comp_def)

lemma key_lookup_None: "key_lookup key xs k = None \<longleftrightarrow> k \<notin> key ` set xs"
  by (auto simp: key_lookup_def find_None_iff)

lemma key_lookup_append:
  "key_lookup key (xs @ ys) k =
     (case key_lookup key xs k of None \<Rightarrow> key_lookup key ys k | Some x \<Rightarrow> Some x)"
  by (induction xs) (auto simp: key_lookup_def)

lemma key_index_Some:
  "key_index key xs k = Some i \<Longrightarrow> i < length xs \<and> key (xs ! i) = k"
  by (simp add: key_index_def first_index_Some)

lemma key_lookup_in:
  assumes "distinct (map key xs)" and "x \<in> set xs"
  shows "key_lookup key xs (key x) = Some x"
  using assms by (induction xs) (auto simp: key_lookup_def)

lemma key_lookup_SomeD: "key_lookup key xs k = Some x \<Longrightarrow> x \<in> set xs \<and> key x = k"
  by (auto simp: key_lookup_def find_Some_iff)

lemma key_lookup_update:
  assumes "distinct (map key xs)" and "i < length xs" and "key x = key (xs ! i)"
  shows "key_lookup key (xs[i := x]) k =
    (if k = key (xs ! i) then Some x else key_lookup key xs k)"
  using assms
proof (induction xs arbitrary: i)
  case Nil
  then show ?case by simp
next
  case (Cons a xs)
  show ?case
  proof (cases i)
    case 0
    with Cons.prems show ?thesis by (auto simp: key_lookup_def)
  next
    case (Suc j)
    with Cons.prems have "xs ! j \<in> set xs" by simp
    with Cons.prems have "key a \<noteq> key (xs ! j)" by (metis distinct.simps(2) image_eqI list.set_map list.simps(9))
    with Suc Cons show ?thesis by (auto simp: key_lookup_def)
  qed
qed

lemma map_key_update:
  "i < length xs \<Longrightarrow> key x = key (xs ! i) \<Longrightarrow> map key (xs[i := x]) = map key xs"
  by (simp add: map_update) (metis length_map list_update_id nth_map)

locale keyed_table =
  fixes key :: "'a \<Rightarrow> 'k"
    and fresh :: "'k \<Rightarrow> 'a"
    and table :: "'s \<Rightarrow> 'a list"
    and find_or_add :: "'s \<Rightarrow> 'k \<Rightarrow> nat option \<times> 's"
  assumes key_fresh: "key (fresh k) = k"
    and hit: "key_index key (table s) k = Some i \<Longrightarrow> find_or_add s k = (Some i, s)"
    and miss_fail: "key_index key (table s) k = None \<Longrightarrow> find_or_add s k = (None, s') \<Longrightarrow>
      table s' = table s"
    and miss_add: "key_index key (table s) k = None \<Longrightarrow> find_or_add s k = (Some i, s') \<Longrightarrow>
      i = length (table s) \<and> table s' = table s @ [fresh k]"
begin

lemma failed_table: "find_or_add s k = (None, s') \<Longrightarrow> table s' = table s"
  using hit [of s k] miss_fail [of s k s'] by (cases "key_index key (table s) k") simp_all

lemma found:
  assumes "find_or_add s k = (Some i, s')"
  shows "i < length (table s')" and "key (table s' ! i) = k"
    and "table s' ! i = (case key_lookup key (table s) k of None \<Rightarrow> fresh k | Some x \<Rightarrow> x)"
proof -
  have "i < length (table s') \<and> key (table s' ! i) = k \<and>
    table s' ! i = (case key_lookup key (table s) k of None \<Rightarrow> fresh k | Some x \<Rightarrow> x)"
  proof (cases "key_index key (table s) k")
    case None
    with miss_add [OF None assms] show ?thesis
      by (simp add: key_lookup_index key_fresh)
  next
    case (Some j)
    from hit [OF Some] assms have "i = j" "s' = s" by simp_all
    with Some key_index_Some [OF Some] show ?thesis
      by (simp add: key_lookup_index)
  qed
  then show "i < length (table s')" "key (table s' ! i) = k"
    "table s' ! i = (case key_lookup key (table s) k of None \<Rightarrow> fresh k | Some x \<Rightarrow> x)"
    by blast+
qed

lemma keys_grow:
  assumes "find_or_add s k = (Some i, s')"
  shows "map key (table s') =
    map key (table s) @ (if k \<in> key ` set (table s) then [] else [k])"
proof (cases "key_index key (table s) k")
  case None
  then have "k \<notin> key ` set (table s)"
    by (metis key_lookup_None key_lookup_index option.map_disc_iff)
  with miss_add [OF None assms] show ?thesis by (simp add: key_fresh)
next
  case (Some j)
  then have "k \<in> key ` set (table s)" using key_index_Some [OF Some] by auto
  with hit [OF Some] assms show ?thesis by simp
qed

lemma distinct_kept:
  assumes "distinct (map key (table s))" and "find_or_add s k = (r, s')"
  shows "distinct (map key (table s'))"
proof (cases r)
  case None
  with assms failed_table show ?thesis by simp
next
  case (Some i)
  with assms keys_grow [of s k i s'] show ?thesis by simp
qed

lemma lookup_after:
  assumes "find_or_add s k = (Some i, s')"
  shows "key_lookup key (table s') k' =
    (if k' = k then Some (case key_lookup key (table s) k of None \<Rightarrow> fresh k | Some x \<Rightarrow> x)
     else key_lookup key (table s) k')"
proof (cases "key_index key (table s) k")
  case None
  then have "key_lookup key (table s) k = None" by (simp add: key_lookup_index)
  moreover have "key_lookup key [fresh k] k'' = (if k'' = k then Some (fresh k) else None)" for k''
    by (simp add: key_lookup_def key_fresh)
  ultimately show ?thesis
    using miss_add [OF None assms] by (simp add: key_lookup_append split: option.split)
next
  case (Some j)
  then have "key_lookup key (table s) k = Some (table s ! j)" by (simp add: key_lookup_index)
  with hit [OF Some] assms show ?thesis by simp
qed

text \<open>The client's pattern: reach the item of a key, replace it by an item of the same key.\<close>

lemma lookup_replace:
  assumes "distinct (map key (table s))" and "find_or_add s k = (Some i, s')" and "key x = k"
  shows "key_lookup key ((table s')[i := x]) k' =
    (if k' = k then Some x else key_lookup key (table s) k')"
  using key_lookup_update [OF distinct_kept [OF assms(1,2)] found(1) [OF assms(2)], of x k']
    found(2) [OF assms(2)] assms(3) lookup_after [OF assms(2), of k'] by simp

end

end
