(* ===== verification/Health.thy ===== *)
theory Health
  imports Event Keyed_Table
begin

section \<open>Stream health (src/event.c)\<close>

text \<open>
  \<open>stream_health\<close> and \<open>producer_health\<close> are the two structures of the same names in
  include/p101\_tool\_event/event.h; \<open>producers\<close> with \<open>producer_count\<close> is the list
  \<open>sh_producers\<close>. \<open>stream_health_observe\<close> is the observation of one record, as the chain of
  updates the C function makes, and \<open>stream_health_is_complete\<close> the verdict. Counters that
  advance by one per record are natural numbers.
\<close>

record producer_health =
  pr_run_id :: string
  pr_pid :: int
  pr_context_id :: nat
  pr_records_observed :: nat
  pr_completion_records :: nat
  pr_last_sequence :: nat
  pr_duplicate_sequences :: nat
  pr_nonmonotonic_sequences :: nat
  pr_attempted_count_mismatches :: nat
  pr_records_after_completion :: nat
  pr_write_failed :: bool
  pr_write_errno :: int
  pr_pending_exec :: bool

record stream_health =
  sh_records_observed :: nat
  sh_completion_records :: nat
  sh_producer_write_failures :: nat
  sh_duplicate_sequences :: nat
  sh_nonmonotonic_sequences :: nat
  sh_attempted_count_mismatches :: nat
  sh_records_after_completion :: nat
  sh_distinct_run_ids :: nat
  sh_invalid_run_ids :: nat
  sh_mixed_run_ids :: bool
  sh_run_id :: string
  sh_last_write_errno :: int
  sh_allocation_failed :: bool
  sh_producers :: "producer_health list"
  sh_producer_capacity :: nat

definition empty_health :: stream_health where
  "empty_health = \<lparr>sh_records_observed = 0, sh_completion_records = 0,
     sh_producer_write_failures = 0, sh_duplicate_sequences = 0,
     sh_nonmonotonic_sequences = 0, sh_attempted_count_mismatches = 0,
     sh_records_after_completion = 0, sh_distinct_run_ids = 0, sh_invalid_run_ids = 0,
     sh_mixed_run_ids = False, sh_run_id = [], sh_last_write_errno = 0,
     sh_allocation_failed = False, sh_producers = [], sh_producer_capacity = 0\<rparr>"

subsection \<open>Producers\<close>

type_synonym producer_key = "string \<times> int \<times> nat"

definition producer_key :: "producer_health \<Rightarrow> producer_key" where
  "producer_key p = (pr_run_id p, pr_pid p, pr_context_id p)"

definition fresh_producer :: "producer_key \<Rightarrow> producer_health" where
  "fresh_producer k = (case k of (run_id, pid, context) \<Rightarrow>
     \<lparr>pr_run_id = run_id, pr_pid = pid, pr_context_id = context, pr_records_observed = 0,
      pr_completion_records = 0, pr_last_sequence = 0, pr_duplicate_sequences = 0,
      pr_nonmonotonic_sequences = 0, pr_attempted_count_mismatches = 0,
      pr_records_after_completion = 0, pr_write_failed = False, pr_write_errno = 0,
      pr_pending_exec = False\<rparr>)"

definition HEALTH_INITIAL_CAPACITY :: nat where "HEALTH_INITIAL_CAPACITY = 8"

definition find_or_add_producer ::
  "stream_health \<times> world \<Rightarrow> producer_key \<Rightarrow> nat option \<times> stream_health \<times> world" where
  "find_or_add_producer s k =
     (case s of (h, w) \<Rightarrow>
        case first_index (\<lambda>p. producer_key p = k) (sh_producers h) of
          Some i \<Rightarrow> (Some i, h, w)
        | None \<Rightarrow>
            if length (sh_producers h) = sh_producer_capacity h then
              (case heap_request w of
                 (False, w') \<Rightarrow> (None, h, w')
               | (True, w') \<Rightarrow>
                   (Some (length (sh_producers h)),
                    h\<lparr>sh_producer_capacity :=
                        next_capacity HEALTH_INITIAL_CAPACITY (sh_producer_capacity h),
                      sh_producers := sh_producers h @ [fresh_producer k]\<rparr>, w'))
            else (Some (length (sh_producers h)),
                  h\<lparr>sh_producers := sh_producers h @ [fresh_producer k]\<rparr>, w))"

subsection \<open>Observing a record\<close>

text \<open>The run identity of the stream: the first one is kept, another one marks it mixed.\<close>

definition note_run_id :: "string \<Rightarrow> stream_health \<Rightarrow> stream_health" where
  "note_run_id rid h =
     (if sh_distinct_run_ids h = 0 then h\<lparr>sh_run_id := rid, sh_distinct_run_ids := 1\<rparr>
      else if sh_run_id h \<noteq> rid then h\<lparr>sh_mixed_run_ids := True, sh_distinct_run_ids := 2\<rparr>
      else h)"

text \<open>
  The updates of the stream and of the record's producer, in the order of the code; each
  \<open>producer->x++\<close> stands next to its \<open>health->x++\<close>.
\<close>

type_synonym observed = "stream_health \<times> producer_health"

fun count_record :: "observed \<Rightarrow> observed" where
  "count_record (h, p) =
     (h\<lparr>sh_records_observed := sh_records_observed h + 1\<rparr>,
      p\<lparr>pr_records_observed := pr_records_observed p + 1\<rparr>)"

fun track_exec :: "event_record \<Rightarrow> observed \<Rightarrow> observed" where
  "track_exec r (h, p) =
     (h, if ev_record_kind r = RECORD_EXEC then p\<lparr>pr_pending_exec := True\<rparr>
         else if ev_record_kind r = RECORD_EXEC_FAIL \<or> ev_record_kind r = RECORD_COMPLETE
         then p\<lparr>pr_pending_exec := False\<rparr> else p)"

fun check_after_completion :: "observed \<Rightarrow> observed" where
  "check_after_completion (h, p) =
     (if 0 < pr_completion_records p
      then (h\<lparr>sh_records_after_completion := sh_records_after_completion h + 1\<rparr>,
            p\<lparr>pr_records_after_completion := pr_records_after_completion p + 1\<rparr>)
      else (h, p))"

fun check_sequence :: "event_record \<Rightarrow> observed \<Rightarrow> observed" where
  "check_sequence r (h, p) =
     (if ev_sequence r \<noteq> 0 \<and> ev_sequence r = pr_last_sequence p
      then (h\<lparr>sh_duplicate_sequences := sh_duplicate_sequences h + 1\<rparr>,
            p\<lparr>pr_duplicate_sequences := pr_duplicate_sequences p + 1\<rparr>)
      else if ev_sequence r \<noteq> 0 \<and> pr_last_sequence p \<noteq> 0 \<and> ev_sequence r < pr_last_sequence p
      then (h\<lparr>sh_nonmonotonic_sequences := sh_nonmonotonic_sequences h + 1\<rparr>,
            p\<lparr>pr_nonmonotonic_sequences := pr_nonmonotonic_sequences p + 1\<rparr>)
      else (h, p))"

fun advance_sequence :: "event_record \<Rightarrow> observed \<Rightarrow> observed" where
  "advance_sequence r (h, p) =
     (h, if pr_last_sequence p < ev_sequence r then p\<lparr>pr_last_sequence := ev_sequence r\<rparr> else p)"

fun count_completion :: "observed \<Rightarrow> observed" where
  "count_completion (h, p) =
     (h\<lparr>sh_completion_records := sh_completion_records h + 1\<rparr>,
      p\<lparr>pr_completion_records := pr_completion_records p + 1\<rparr>)"

fun check_attempted :: "event_record \<Rightarrow> observed \<Rightarrow> observed" where
  "check_attempted r (h, p) =
     (if ev_events_attempted r \<noteq> pr_records_observed p - pr_completion_records p
      then (h\<lparr>sh_attempted_count_mismatches := sh_attempted_count_mismatches h + 1\<rparr>,
            p\<lparr>pr_attempted_count_mismatches := pr_attempted_count_mismatches p + 1\<rparr>)
      else (h, p))"

fun note_write_failure :: "event_record \<Rightarrow> observed \<Rightarrow> observed" where
  "note_write_failure r (h, p) =
     (if ev_write_failed r \<noteq> 0
      then (h\<lparr>sh_producer_write_failures := sh_producer_write_failures h + 1,
              sh_last_write_errno := ev_write_errno r\<rparr>,
            p\<lparr>pr_write_failed := True, pr_write_errno := ev_write_errno r\<rparr>)
      else (h, p))"

definition observe_counters :: "event_record \<Rightarrow> observed \<Rightarrow> observed" where
  "observe_counters r s =
     (let s1 = advance_sequence r (check_sequence r (check_after_completion
                 (track_exec r (count_record s))))
      in if ev_record_kind r \<noteq> RECORD_COMPLETE then s1
         else note_write_failure r (check_attempted r (count_completion s1)))"

text \<open>\<open>None\<close> is the return value 0, \<open>Some e\<close> is -1 with \<open>errno\<close> set to \<open>e\<close>.\<close>

definition observe_record ::
  "record_lib \<Rightarrow> world \<Rightarrow> stream_health \<Rightarrow> event_record \<Rightarrow> errno option \<times> stream_health \<times> world" where
  "observe_record L w h r =
     (case ev_run_id r of
        None \<Rightarrow> (Some EINVAL, h\<lparr>sh_invalid_run_ids := sh_invalid_run_ids h + 1\<rparr>, w)
      | Some rid \<Rightarrow>
          if rid = [] \<or> run_id_max L < length rid
          then (Some EINVAL, h\<lparr>sh_invalid_run_ids := sh_invalid_run_ids h + 1\<rparr>, w)
          else
            (case find_or_add_producer (note_run_id rid h, w) (rid, ev_pid r, ev_context_id r) of
               (None, h1, w1) \<Rightarrow> (Some ENOMEM, h1\<lparr>sh_allocation_failed := True\<rparr>, w1)
             | (Some i, h1, w1) \<Rightarrow>
                 (case observe_counters r (h1, sh_producers h1 ! i) of
                    (h2, p) \<Rightarrow> (None, h2\<lparr>sh_producers := (sh_producers h2)[i := p]\<rparr>, w1))))"

definition stream_health_observe ::
  "record_lib \<Rightarrow> world \<Rightarrow> stream_health option \<Rightarrow> event_record option \<Rightarrow>
   errno option \<times> stream_health option \<times> world" where
  "stream_health_observe L w health record =
     (case (health, record) of
        (Some h, Some r) \<Rightarrow> (case observe_record L w h r of (e, h', w') \<Rightarrow> (e, Some h', w'))
      | _ \<Rightarrow> (Some EINVAL, health, w))"

subsection \<open>The verdict\<close>

definition producer_incomplete :: "producer_health \<Rightarrow> bool" where
  "producer_incomplete p \<longleftrightarrow>
     pr_completion_records p \<noteq> 1 \<or> pr_write_failed p \<or> pr_attempted_count_mismatches p \<noteq> 0"

definition stream_health_incomplete_producers :: "stream_health option \<Rightarrow> nat" where
  "stream_health_incomplete_producers health =
     (case health of None \<Rightarrow> 0
      | Some h \<Rightarrow> length (filter producer_incomplete (sh_producers h)))"

definition stream_health_is_complete :: "stream_health option \<Rightarrow> bool" where
  "stream_health_is_complete health =
     (case health of
        None \<Rightarrow> False
      | Some h \<Rightarrow>
          sh_records_observed h \<noteq> 0 \<and> length (sh_producers h) \<noteq> 0 \<and>
          sh_producer_write_failures h = 0 \<and> sh_duplicate_sequences h = 0 \<and>
          sh_nonmonotonic_sequences h = 0 \<and> sh_attempted_count_mismatches h = 0 \<and>
          sh_records_after_completion h = 0 \<and> sh_distinct_run_ids h = 1 \<and>
          sh_invalid_run_ids h = 0 \<and> \<not> sh_mixed_run_ids h \<and> \<not> sh_allocation_failed h \<and>
          stream_health_incomplete_producers health = 0)"

text \<open>Freeing the producers and clearing the structure.\<close>

definition stream_health_destroy :: "stream_health option \<Rightarrow> stream_health option" where
  "stream_health_destroy health = map_option (\<lambda>_. empty_health) health"

subsection \<open>The producer table as a keyed table\<close>

lemma find_or_add_producer_cases:
  "find_or_add_producer (h, w) k =
     (case key_index producer_key (sh_producers h) k of
        Some i \<Rightarrow> (Some i, h, w)
      | None \<Rightarrow>
          (case (if length (sh_producers h) = sh_producer_capacity h then heap_request w
                 else (True, w)) of
             (False, w') \<Rightarrow> (None, h, w')
           | (True, w') \<Rightarrow>
               (Some (length (sh_producers h)),
                h\<lparr>sh_producer_capacity :=
                    (if length (sh_producers h) = sh_producer_capacity h
                     then next_capacity HEALTH_INITIAL_CAPACITY (sh_producer_capacity h)
                     else sh_producer_capacity h),
                  sh_producers := sh_producers h @ [fresh_producer k]\<rparr>, w')))"
  by (auto simp: find_or_add_producer_def key_index_def split: option.splits prod.splits bool.splits)

interpretation producers: keyed_table producer_key fresh_producer
  "\<lambda>s :: stream_health \<times> world. sh_producers (fst s)" find_or_add_producer
proof
  show "producer_key (fresh_producer k) = k" for k
    by (cases k) (simp add: producer_key_def fresh_producer_def)
  show "find_or_add_producer s k = (Some i, s)"
    if "key_index producer_key (sh_producers (fst s)) k = Some i" for s k i
    using that by (cases s) (simp add: find_or_add_producer_cases)
  show "sh_producers (fst s') = sh_producers (fst s)"
    if "key_index producer_key (sh_producers (fst s)) k = None"
      and "find_or_add_producer s k = (None, s')" for s k s'
    using that by (cases s) (auto simp: find_or_add_producer_cases split: prod.splits bool.splits)
  show "i = length (sh_producers (fst s)) \<and>
      sh_producers (fst s') = sh_producers (fst s) @ [fresh_producer k]"
    if "key_index producer_key (sh_producers (fst s)) k = None"
      and "find_or_add_producer s k = (Some i, s')" for s k i s'
    using that by (cases s) (auto simp: find_or_add_producer_cases split: prod.splits bool.splits)
qed

end
