(* ===== verification/Health_Facts.thy ===== *)
theory Health_Facts
  imports Health
begin

section \<open>What a complete stream is\<close>

text \<open>
  The contract of \<open>p101_tool_event_stream_health_is_complete\<close>, stated on the list of records
  that were observed instead of on counters: one valid run identity, and for every producer
  context exactly one COMPLETE record, the last one, that reports the number of records
  before it and no write failure, with the nonzero sequence numbers strictly increasing.
  \<open>observe_all\<close> is the loop of the readers: one observation per admitted record.
\<close>

definition observe_all ::
  "record_lib \<Rightarrow> stream_health \<times> world \<Rightarrow> event_record list \<Rightarrow> stream_health \<times> world" where
  "observe_all L = foldl (\<lambda>s r. snd (observe_record L (snd s) (fst s) r))"

definition run_id_ok :: "record_lib \<Rightarrow> event_record \<Rightarrow> bool" where
  "run_id_ok L r \<longleftrightarrow> (\<exists>rid. ev_run_id r = Some rid \<and> rid \<noteq> [] \<and> length rid \<le> run_id_max L)"

definition context_of :: "event_record \<Rightarrow> producer_key" where
  "context_of r = (the (ev_run_id r), ev_pid r, ev_context_id r)"

definition sequences :: "event_record list \<Rightarrow> nat list" where
  "sequences rs = filter (\<lambda>n. n \<noteq> 0) (map ev_sequence rs)"

definition context_complete :: "event_record list \<Rightarrow> bool" where
  "context_complete xs \<longleftrightarrow>
     xs \<noteq> [] \<and> ev_record_kind (last xs) = RECORD_COMPLETE \<and>
     (\<forall>r \<in> set (butlast xs). ev_record_kind r \<noteq> RECORD_COMPLETE) \<and>
     ev_events_attempted (last xs) = length (butlast xs) \<and> ev_write_failed (last xs) = 0 \<and>
     sorted_wrt (<) (sequences xs)"

definition stream_complete :: "record_lib \<Rightarrow> event_record list \<Rightarrow> bool" where
  "stream_complete L rs \<longleftrightarrow>
     rs \<noteq> [] \<and> (\<forall>r \<in> set rs. run_id_ok L r \<and> ev_run_id r = ev_run_id (hd rs)) \<and>
     (\<forall>r \<in> set rs. context_complete (filter (\<lambda>r'. context_of r' = context_of r) rs))"

subsection \<open>One producer\<close>

text \<open>
  Every stage as one unconditional update of the stream and one of the producer; the
  producer's part does not read the stream's counters.
\<close>

definition producer_step :: "event_record \<Rightarrow> producer_health \<Rightarrow> producer_health" where
  "producer_step r p = snd (observe_counters r (empty_health, p))"

lemma stage_producer:
  "snd (count_record s) = (snd s)\<lparr>pr_records_observed := Suc (pr_records_observed (snd s))\<rparr>"
  "snd (track_exec r s) = (snd s)\<lparr>pr_pending_exec :=
     (if ev_record_kind r = RECORD_EXEC then True
      else if ev_record_kind r = RECORD_EXEC_FAIL \<or> ev_record_kind r = RECORD_COMPLETE then False
      else pr_pending_exec (snd s))\<rparr>"
  "snd (check_after_completion s) = (snd s)\<lparr>pr_records_after_completion :=
     pr_records_after_completion (snd s) + of_bool (0 < pr_completion_records (snd s))\<rparr>"
  "snd (check_sequence r s) = (snd s)\<lparr>pr_duplicate_sequences :=
     pr_duplicate_sequences (snd s) +
       of_bool (ev_sequence r \<noteq> 0 \<and> ev_sequence r = pr_last_sequence (snd s)),
     pr_nonmonotonic_sequences := pr_nonmonotonic_sequences (snd s) +
       of_bool (ev_sequence r \<noteq> 0 \<and> ev_sequence r < pr_last_sequence (snd s))\<rparr>"
  "snd (advance_sequence r s) = (snd s)\<lparr>pr_last_sequence :=
     max (pr_last_sequence (snd s)) (ev_sequence r)\<rparr>"
  "snd (count_completion s) =
     (snd s)\<lparr>pr_completion_records := Suc (pr_completion_records (snd s))\<rparr>"
  "snd (check_attempted r s) = (snd s)\<lparr>pr_attempted_count_mismatches :=
     pr_attempted_count_mismatches (snd s) + of_bool (ev_events_attempted r \<noteq>
       pr_records_observed (snd s) - pr_completion_records (snd s))\<rparr>"
  "snd (note_write_failure r s) = (snd s)\<lparr>
     pr_write_failed := pr_write_failed (snd s) \<or> ev_write_failed r \<noteq> 0,
     pr_write_errno := (if ev_write_failed r \<noteq> 0 then ev_write_errno r
                        else pr_write_errno (snd s))\<rparr>"
  by (cases s; simp)+

lemma stage_stream:
  "fst (count_record s) = (fst s)\<lparr>sh_records_observed := Suc (sh_records_observed (fst s))\<rparr>"
  "fst (track_exec r s) = fst s"
  "fst (check_after_completion s) = (fst s)\<lparr>sh_records_after_completion :=
     sh_records_after_completion (fst s) + of_bool (0 < pr_completion_records (snd s))\<rparr>"
  "fst (check_sequence r s) = (fst s)\<lparr>sh_duplicate_sequences :=
     sh_duplicate_sequences (fst s) +
       of_bool (ev_sequence r \<noteq> 0 \<and> ev_sequence r = pr_last_sequence (snd s)),
     sh_nonmonotonic_sequences := sh_nonmonotonic_sequences (fst s) +
       of_bool (ev_sequence r \<noteq> 0 \<and> ev_sequence r < pr_last_sequence (snd s))\<rparr>"
  "fst (advance_sequence r s) = fst s"
  "fst (count_completion s) =
     (fst s)\<lparr>sh_completion_records := Suc (sh_completion_records (fst s))\<rparr>"
  "fst (check_attempted r s) = (fst s)\<lparr>sh_attempted_count_mismatches :=
     sh_attempted_count_mismatches (fst s) + of_bool (ev_events_attempted r \<noteq>
       pr_records_observed (snd s) - pr_completion_records (snd s))\<rparr>"
  "fst (note_write_failure r s) = (fst s)\<lparr>
     sh_producer_write_failures := sh_producer_write_failures (fst s) +
       of_bool (ev_write_failed r \<noteq> 0),
     sh_last_write_errno := (if ev_write_failed r \<noteq> 0 then ev_write_errno r
                        else sh_last_write_errno (fst s))\<rparr>"
  by (cases s; simp)+

lemma producer_part: "snd (observe_counters r s) = producer_step r (snd s)"
  by (simp add: producer_step_def observe_counters_def Let_def stage_producer)

definition producer_clean :: "producer_health \<Rightarrow> bool" where
  "producer_clean p \<longleftrightarrow>
     pr_duplicate_sequences p = 0 \<and> pr_nonmonotonic_sequences p = 0 \<and>
     pr_attempted_count_mismatches p = 0 \<and> pr_records_after_completion p = 0 \<and>
     \<not> pr_write_failed p"

lemma producer_step_fields:
  "producer_key (producer_step r p) = producer_key p"
  "pr_records_observed (producer_step r p) = Suc (pr_records_observed p)"
  "pr_completion_records (producer_step r p) =
     pr_completion_records p + (if ev_record_kind r = RECORD_COMPLETE then 1 else 0)"
  "pr_last_sequence (producer_step r p) = max (pr_last_sequence p) (ev_sequence r)"
  by (simp_all add: producer_step_def observe_counters_def Let_def stage_producer producer_key_def)

lemma producer_step_clean:
  "producer_clean (producer_step r p) \<longleftrightarrow>
     producer_clean p \<and> pr_completion_records p = 0 \<and>
     (ev_sequence r = 0 \<or> pr_last_sequence p < ev_sequence r) \<and>
     (ev_record_kind r = RECORD_COMPLETE \<longrightarrow>
        ev_events_attempted r = pr_records_observed p \<and> ev_write_failed r = 0)"
  by (auto simp: producer_step_def observe_counters_def Let_def stage_producer producer_clean_def)

definition producer_after :: "producer_key \<Rightarrow> event_record list \<Rightarrow> producer_health" where
  "producer_after k xs = fold producer_step xs (fresh_producer k)"

lemma producer_after_snoc [simp]:
  "producer_after k [] = fresh_producer k"
  "producer_after k (xs @ [r]) = producer_step r (producer_after k xs)"
  by (simp_all add: producer_after_def)

lemma producer_after_key: "producer_key (producer_after k xs) = k"
  by (induction xs rule: rev_induct)
     (simp_all add: producer_step_fields producers.key_fresh)

lemma producer_after_counts:
  "pr_records_observed (producer_after k xs) = length xs"
  "pr_completion_records (producer_after k xs) =
     length (filter (\<lambda>r. ev_record_kind r = RECORD_COMPLETE) xs)"
  by (induction xs rule: rev_induct)
     (auto simp: producer_step_fields fresh_producer_def split: prod.split)

lemma producer_last_sequence:
  "pr_last_sequence (producer_after k xs) < n \<longleftrightarrow> (\<forall>m \<in> set (sequences xs). m < n) \<and> 0 < n"
  by (induction xs rule: rev_induct)
     (auto simp: producer_step_fields fresh_producer_def sequences_def split: prod.split)

lemma sequences_snoc:
  "sequences (xs @ [r]) = sequences xs @ (if ev_sequence r = 0 then [] else [ev_sequence r])"
  by (simp add: sequences_def)

lemma producer_clean_open:
  "producer_clean (producer_after k xs) \<and> pr_completion_records (producer_after k xs) = 0 \<longleftrightarrow>
     (\<forall>r \<in> set xs. ev_record_kind r \<noteq> RECORD_COMPLETE) \<and> sorted_wrt (<) (sequences xs)"
proof (induction xs rule: rev_induct)
  case Nil
  show ?case
    by (simp add: producer_clean_def fresh_producer_def sequences_def split: prod.split)
next
  case (snoc r xs)
  have "producer_clean (producer_after k (xs @ [r])) \<and>
      pr_completion_records (producer_after k (xs @ [r])) = 0 \<longleftrightarrow>
    (producer_clean (producer_after k xs) \<and> pr_completion_records (producer_after k xs) = 0) \<and>
    (ev_sequence r = 0 \<or> pr_last_sequence (producer_after k xs) < ev_sequence r) \<and>
    ev_record_kind r \<noteq> RECORD_COMPLETE"
    by (auto simp: producer_step_clean producer_step_fields)
  also have "\<dots> \<longleftrightarrow> (\<forall>r \<in> set (xs @ [r]). ev_record_kind r \<noteq> RECORD_COMPLETE) \<and>
      sorted_wrt (<) (sequences (xs @ [r]))"
    unfolding snoc.IH
    by (auto simp: producer_last_sequence sequences_snoc sorted_wrt_append)
  finally show ?case .
qed

lemma producer_clean_complete:
  "producer_clean (producer_after k xs) \<and> pr_completion_records (producer_after k xs) = 1 \<longleftrightarrow>
     context_complete xs"
proof (cases xs rule: rev_cases)
  case Nil
  then show ?thesis
    by (simp add: context_complete_def fresh_producer_def split: prod.split)
next
  case (snoc ys r)
  have "producer_clean (producer_after k xs) \<and> pr_completion_records (producer_after k xs) = 1 \<longleftrightarrow>
    (producer_clean (producer_after k ys) \<and> pr_completion_records (producer_after k ys) = 0) \<and>
    (ev_sequence r = 0 \<or> pr_last_sequence (producer_after k ys) < ev_sequence r) \<and>
    ev_record_kind r = RECORD_COMPLETE \<and> ev_events_attempted r = length ys \<and>
    ev_write_failed r = 0"
    unfolding snoc
    by (auto simp: producer_step_clean producer_step_fields producer_after_counts(1))
  also have "\<dots> \<longleftrightarrow> context_complete xs"
    unfolding producer_clean_open unfolding snoc
    by (auto simp: context_complete_def producer_last_sequence sequences_snoc sorted_wrt_append)
  finally show ?thesis .
qed

subsection \<open>The stream's counters are the sums of its producers' counters\<close>

definition totals :: "stream_health \<Rightarrow> bool" where
  "totals h \<longleftrightarrow>
     sh_records_observed h = sum_list (map pr_records_observed (sh_producers h)) \<and>
     sh_completion_records h = sum_list (map pr_completion_records (sh_producers h)) \<and>
     sh_duplicate_sequences h = sum_list (map pr_duplicate_sequences (sh_producers h)) \<and>
     sh_nonmonotonic_sequences h = sum_list (map pr_nonmonotonic_sequences (sh_producers h)) \<and>
     sh_attempted_count_mismatches h =
       sum_list (map pr_attempted_count_mismatches (sh_producers h)) \<and>
     sh_records_after_completion h =
       sum_list (map pr_records_after_completion (sh_producers h)) \<and>
     (sh_producer_write_failures h = 0 \<longleftrightarrow> (\<forall>p \<in> set (sh_producers h). \<not> pr_write_failed p))"

lemma sum_list_ge_nth: "i < length xs \<Longrightarrow> f (xs ! i) \<le> (sum_list (map f xs) :: nat)"
  by (simp add: member_le_sum_list)

lemma sum_list_replace:
  "i < length xs \<Longrightarrow> sum_list (map f (xs[i := x])) = sum_list (map f xs) - f (xs ! i) + (f x :: nat)"
proof (induction xs arbitrary: i)
  case (Cons a xs)
  then show ?case
    using sum_list_ge_nth [of "i - 1" xs f] by (cases i) auto
qed simp

lemma totals_note_run_id [simp]: "totals (note_run_id rid h) = totals h"
  by (simp add: totals_def note_run_id_def)

lemma note_run_id_fields [simp]:
  "sh_producers (note_run_id rid h) = sh_producers h"
  "sh_invalid_run_ids (note_run_id rid h) = sh_invalid_run_ids h"
  "sh_allocation_failed (note_run_id rid h) = sh_allocation_failed h"
  by (simp_all add: note_run_id_def)

lemma find_or_add_frame:
  "find_or_add_producer (h, w) k = (x, h', w') \<Longrightarrow>
     h' = h\<lparr>sh_producers := sh_producers h', sh_producer_capacity := sh_producer_capacity h'\<rparr>"
  by (auto simp: find_or_add_producer_cases split: option.splits prod.splits bool.splits if_splits)

lemma find_or_add_table:
  assumes "find_or_add_producer (h, w) k = (Some i, h1, w1)"
  shows "sh_producers h1 = sh_producers h \<or> sh_producers h1 = sh_producers h @ [fresh_producer k]"
  using assms
  by (auto simp: find_or_add_producer_cases split: option.splits prod.splits bool.splits if_splits)

lemma find_or_add_totals:
  assumes "totals h" and "find_or_add_producer (h, w) k = (Some i, h1, w1)"
  shows "totals h1"
proof -
  obtain ps c where h1: "h1 = h\<lparr>sh_producers := ps, sh_producer_capacity := c\<rparr>"
    using find_or_add_frame [OF assms(2)] by blast
  from find_or_add_table [OF assms(2)] h1
  have "ps = sh_producers h \<or> ps = sh_producers h @ [fresh_producer k]" by simp
  with assms(1) show ?thesis
    by (elim disjE) (simp_all add: h1 totals_def fresh_producer_def split: prod.split)
qed

text \<open>One accepted observation: the producer of the record's context steps, the stream with it.\<close>

definition replace_producer ::
  "event_record \<Rightarrow> stream_health \<Rightarrow> nat \<Rightarrow> stream_health" where
  "replace_producer r h i =
     (case observe_counters r (h, sh_producers h ! i) of
        (h', p) \<Rightarrow> h'\<lparr>sh_producers := (sh_producers h')[i := p]\<rparr>)"

lemma replace_producer_alt:
  "replace_producer r h i =
     (fst (observe_counters r (h, sh_producers h ! i)))
       \<lparr>sh_producers := (sh_producers h)[i := producer_step r (sh_producers h ! i)]\<rparr>"
  using producer_part [of r "(h, sh_producers h ! i)"]
  by (simp add: replace_producer_def split_beta observe_counters_def Let_def stage_stream)

lemma replace_producer_fields:
  "sh_producers (replace_producer r h i) =
     (sh_producers h)[i := producer_step r (sh_producers h ! i)]"
  "sh_invalid_run_ids (replace_producer r h i) = sh_invalid_run_ids h"
  "sh_allocation_failed (replace_producer r h i) = sh_allocation_failed h"
  "sh_run_id (replace_producer r h i) = sh_run_id h"
  "sh_distinct_run_ids (replace_producer r h i) = sh_distinct_run_ids h"
  "sh_mixed_run_ids (replace_producer r h i) = sh_mixed_run_ids h"
  by (simp_all add: replace_producer_alt observe_counters_def Let_def stage_stream)

lemma replace_producer_totals:
  assumes "totals h" and "i < length (sh_producers h)"
  shows "totals (replace_producer r h i)"
proof -
  note ge = sum_list_ge_nth [OF assms(2)]
  have wf: "(\<forall>p \<in> set ((sh_producers h)[i := q]). \<not> pr_write_failed p) \<longleftrightarrow>
      (\<forall>p \<in> set (sh_producers h). \<not> pr_write_failed p) \<and> \<not> pr_write_failed q"
    if "pr_write_failed (sh_producers h ! i) \<longrightarrow> pr_write_failed q" for q
    using that assms(2)
    by (auto simp: all_set_conv_all_nth nth_list_update split: if_splits)
  have absorb: "(\<forall>p \<in> set (sh_producers h). \<not> pr_write_failed p) \<and>
      \<not> pr_write_failed (sh_producers h ! i) \<longleftrightarrow>
      (\<forall>p \<in> set (sh_producers h). \<not> pr_write_failed p)"
    using assms(2) by auto
  show ?thesis
    using assms(1) ge [of pr_records_observed] ge [of pr_completion_records]
      ge [of pr_duplicate_sequences] ge [of pr_nonmonotonic_sequences]
      ge [of pr_attempted_count_mismatches] ge [of pr_records_after_completion]
    by (simp add: totals_def replace_producer_alt sum_list_replace [OF assms(2)]
        producer_step_def observe_counters_def Let_def stage_stream stage_producer wf absorb
        flip: conj_assoc)
qed

lemma observe_record_cases:
  "observe_record L w h r =
     (if run_id_ok L r
      then (case find_or_add_producer (note_run_id (the (ev_run_id r)) h, w) (context_of r) of
              (None, h1, w1) \<Rightarrow> (Some ENOMEM, h1\<lparr>sh_allocation_failed := True\<rparr>, w1)
            | (Some i, h1, w1) \<Rightarrow> (None, replace_producer r h1 i, w1))
      else (Some EINVAL, h\<lparr>sh_invalid_run_ids := sh_invalid_run_ids h + 1\<rparr>, w))"
  by (auto simp: observe_record_def run_id_ok_def context_of_def replace_producer_def
      split: option.splits prod.splits)

subsection \<open>The stream after a sequence of observations\<close>

definition records_of :: "event_record list \<Rightarrow> producer_key \<Rightarrow> event_record list" where
  "records_of rs k = filter (\<lambda>r. context_of r = k) rs"

definition observed_producers :: "event_record list \<Rightarrow> stream_health \<Rightarrow> bool" where
  "observed_producers rs h \<longleftrightarrow>
     distinct (map producer_key (sh_producers h)) \<and>
     (\<forall>k. key_lookup producer_key (sh_producers h) k =
        (if records_of rs k = [] then None else Some (producer_after k (records_of rs k))))"

lemma observed_producers_lookup:
  "observed_producers rs h \<Longrightarrow> key_lookup producer_key (sh_producers h) k =
     (if records_of rs k = [] then None else Some (producer_after k (records_of rs k)))"
  unfolding observed_producers_def by blast

lemma observed_producers_cong:
  "sh_producers h = sh_producers h' \<Longrightarrow> observed_producers rs h = observed_producers rs h'"
  by (simp only: observed_producers_def)

lemma observed_producers_distinct:
  "observed_producers rs h \<Longrightarrow> distinct (map producer_key (sh_producers h))"
  by (simp add: observed_producers_def)

definition observed_run_id :: "event_record list \<Rightarrow> stream_health \<Rightarrow> bool" where
  "observed_run_id rs h \<longleftrightarrow>
     (rs = [] \<longrightarrow> sh_distinct_run_ids h = 0 \<and> \<not> sh_mixed_run_ids h) \<and>
     (rs \<noteq> [] \<longrightarrow> sh_run_id h = the (ev_run_id (hd rs)) \<and>
        (sh_mixed_run_ids h \<longleftrightarrow> (\<exists>r \<in> set rs. ev_run_id r \<noteq> ev_run_id (hd rs))) \<and>
        sh_distinct_run_ids h = (if sh_mixed_run_ids h then 2 else 1))"

definition health_inv :: "record_lib \<Rightarrow> event_record list \<Rightarrow> stream_health \<Rightarrow> bool" where
  "health_inv L rs h \<longleftrightarrow>
     sh_invalid_run_ids h = length (filter (\<lambda>r. \<not> run_id_ok L r) rs) \<and> totals h \<and>
     (\<not> sh_allocation_failed h \<and> list_all (run_id_ok L) rs \<longrightarrow>
        observed_producers rs h \<and> observed_run_id rs h)"

lemma health_inv_empty: "health_inv L [] empty_health"
  by (simp add: health_inv_def empty_health_def totals_def observed_producers_def
      observed_run_id_def records_of_def key_lookup_def)

lemma observed_run_id_snoc:
  assumes "observed_run_id rs h" and "list_all (run_id_ok L) rs" and "run_id_ok L r"
  shows "observed_run_id (rs @ [r]) (note_run_id (the (ev_run_id r)) h)"
proof (cases rs)
  case Nil
  with assms show ?thesis by (simp add: observed_run_id_def note_run_id_def)
next
  case (Cons a as)
  from assms Cons obtain x y where "ev_run_id r = Some x" "ev_run_id a = Some y"
    by (auto simp: run_id_ok_def)
  with assms Cons show ?thesis
    by (auto simp: observed_run_id_def note_run_id_def split: if_splits)
qed

lemma observed_producers_snoc:
  assumes "observed_producers rs h"
    and "find_or_add_producer (h, w) (context_of r) = (Some i, h1, w1)"
  shows "observed_producers (rs @ [r]) (replace_producer r h1 i)"
proof -
  let ?k = "context_of r"
  let ?p = "producer_step r (sh_producers h1 ! i)"
  have dist: "distinct (map producer_key (sh_producers (fst (h, w))))"
    using observed_producers_distinct [OF assms(1)] by simp
  note look = observed_producers_lookup [OF assms(1)]
  note found = producers.found [OF assms(2), simplified]
  have cur: "sh_producers h1 ! i = producer_after ?k (records_of rs ?k)"
    using found(3) by (simp add: look)
  have key: "producer_key ?p = ?k"
    by (simp add: producer_step_fields cur producer_after_key)
  have same: "distinct (map producer_key ((sh_producers h1)[i := ?p]))"
    using producers.distinct_kept [OF dist assms(2)] found(1,2) key
    by (simp add: map_key_update)
  have "key_lookup producer_key ((sh_producers h1)[i := ?p]) k =
      (if k = ?k then Some ?p else key_lookup producer_key (sh_producers h) k)" for k
    using producers.lookup_replace [OF dist assms(2) key, of k] by simp
  then have "key_lookup producer_key ((sh_producers h1)[i := ?p]) k =
      (if records_of (rs @ [r]) k = [] then None
       else Some (producer_after k (records_of (rs @ [r]) k)))" for k
    by (simp add: look cur records_of_def)
  with same show ?thesis
    by (simp add: observed_producers_def replace_producer_fields)
qed

lemma find_or_add_same:
  assumes "find_or_add_producer (h, w) k = (x, h1, w1)"
  shows "sh_invalid_run_ids h1 = sh_invalid_run_ids h"
    and "sh_allocation_failed h1 = sh_allocation_failed h"
    and "observed_run_id rs h1 = observed_run_id rs h"
    and "x = None \<Longrightarrow> h1 = h"
proof -
  obtain ps c where h1: "h1 = h\<lparr>sh_producers := ps, sh_producer_capacity := c\<rparr>"
    using find_or_add_frame [OF assms] by blast
  show "sh_invalid_run_ids h1 = sh_invalid_run_ids h"
    "sh_allocation_failed h1 = sh_allocation_failed h"
    "observed_run_id rs h1 = observed_run_id rs h"
    by (simp_all add: h1 observed_run_id_def)
  show "x = None \<Longrightarrow> h1 = h"
    using assms
    by (auto simp: find_or_add_producer_cases
        split: option.splits prod.splits bool.splits if_splits)
qed

lemma health_inv_observe:
  assumes "health_inv L rs h"
  shows "health_inv L (rs @ [r]) (fst (snd (observe_record L w h r)))"
proof (cases "run_id_ok L r")
  case False
  with assms show ?thesis by (simp add: observe_record_cases health_inv_def totals_def)
next
  case True
  let ?h0 = "note_run_id (the (ev_run_id r)) h"
  obtain x h1 w1 where step: "find_or_add_producer (?h0, w) (context_of r) = (x, h1, w1)"
    using prod_cases3 by blast
  note same = find_or_add_same [OF step]
  show ?thesis
  proof (cases x)
    case None
    have "totals (h1\<lparr>sh_allocation_failed := True\<rparr>) = totals h"
      using same(4) [OF None] totals_note_run_id [of "the (ev_run_id r)" h]
      by (simp add: totals_def)
    with None True step same(1) assms show ?thesis
      by (simp add: observe_record_cases health_inv_def)
  next
    case (Some i)
    note step = step [unfolded Some]
    have i: "i < length (sh_producers h1)"
      using producers.found(1) [OF step] by simp
    have tot: "totals (replace_producer r h1 i)"
      using assms replace_producer_totals [OF find_or_add_totals [OF _ step] i]
      by (simp add: health_inv_def)
    have "observed_producers (rs @ [r]) (replace_producer r h1 i)"
      if "observed_producers rs h"
    proof (rule observed_producers_snoc [OF _ step])
      show "observed_producers rs ?h0"
        using that observed_producers_cong [of ?h0 h rs] by simp
    qed
    moreover have "observed_run_id (rs @ [r]) (replace_producer r h1 i)"
      if "observed_run_id rs h" "list_all (run_id_ok L) rs"
      using observed_run_id_snoc [OF that True] same(3) [of "rs @ [r]"]
      by (simp add: observed_run_id_def replace_producer_fields)
    ultimately show ?thesis
      using True step Some same(1,2) assms tot
      by (simp add: observe_record_cases health_inv_def replace_producer_fields)
  qed
qed

lemma health_inv_all: "health_inv L rs (fst (observe_all L (empty_health, w) rs))"
proof (induction rs rule: rev_induct)
  case Nil
  show ?case by (simp add: observe_all_def health_inv_empty)
next
  case (snoc r rs)
  then show ?case
    using health_inv_observe [OF snoc] by (simp add: observe_all_def)
qed

subsection \<open>The verdict\<close>

lemma is_complete_clean:
  assumes "totals h"
  shows "stream_health_is_complete (Some h) \<longleftrightarrow>
    sh_producers h \<noteq> [] \<and> sh_records_observed h \<noteq> 0 \<and> sh_distinct_run_ids h = 1 \<and>
    sh_invalid_run_ids h = 0 \<and> \<not> sh_mixed_run_ids h \<and> \<not> sh_allocation_failed h \<and>
    (\<forall>p \<in> set (sh_producers h). producer_clean p \<and> pr_completion_records p = 1)"
  using assms
  by (auto simp: stream_health_is_complete_def stream_health_incomplete_producers_def totals_def
      producer_incomplete_def producer_clean_def filter_empty_conv)

lemma observed_producer_set:
  assumes "observed_producers rs h"
  shows "set (sh_producers h) =
    (\<lambda>r. producer_after (context_of r) (records_of rs (context_of r))) ` set rs"
proof (intro equalityI subsetI)
  fix p assume p: "p \<in> set (sh_producers h)"
  then have "key_lookup producer_key (sh_producers h) (producer_key p) = Some p"
    by (rule key_lookup_in [OF observed_producers_distinct [OF assms]])
  with observed_producers_lookup [OF assms, of "producer_key p"]
  have ne: "records_of rs (producer_key p) \<noteq> []"
    and eq: "p = producer_after (producer_key p) (records_of rs (producer_key p))"
    by (simp_all split: if_splits)
  from ne obtain r where "r \<in> set rs" "context_of r = producer_key p"
    by (auto simp: records_of_def filter_empty_conv)
  with eq show "p \<in> (\<lambda>r. producer_after (context_of r) (records_of rs (context_of r))) ` set rs"
    by (intro image_eqI [where x = r]) simp_all
next
  fix p assume "p \<in> (\<lambda>r. producer_after (context_of r) (records_of rs (context_of r))) ` set rs"
  then obtain r where r: "r \<in> set rs" "p = producer_after (context_of r) (records_of rs (context_of r))"
    by blast
  then have "records_of rs (context_of r) \<noteq> []" by (auto simp: records_of_def filter_empty_conv)
  with observed_producers_lookup [OF assms, of "context_of r"] r
  have "key_lookup producer_key (sh_producers h) (context_of r) = Some p"
    by simp
  then show "p \<in> set (sh_producers h)" by (rule key_lookup_SomeD [THEN conjunct1])
qed

lemma observed_some:
  assumes "observed_producers rs h"
  shows "sh_producers h \<noteq> [] \<longleftrightarrow> rs \<noteq> []"
    and "totals h \<Longrightarrow> rs \<noteq> [] \<Longrightarrow> sh_records_observed h \<noteq> 0"
proof -
  show "sh_producers h \<noteq> [] \<longleftrightarrow> rs \<noteq> []"
    using observed_producer_set [OF assms] by (cases rs) auto
  assume tot: "totals h" and "rs \<noteq> []"
  then obtain r where "r \<in> set rs" by (cases rs) auto
  then have "producer_after (context_of r) (records_of rs (context_of r)) \<in> set (sh_producers h)"
    and "records_of rs (context_of r) \<noteq> []"
    by (auto simp: observed_producer_set [OF assms] records_of_def filter_empty_conv)
  then have "\<exists>p \<in> set (sh_producers h). 0 < pr_records_observed p"
    by (metis length_greater_0_conv producer_after_counts(1))
  with tot show "sh_records_observed h \<noteq> 0" by (auto simp: totals_def)
qed

lemma observed_ids:
  assumes "observed_run_id rs h" and "rs \<noteq> []"
  shows "sh_distinct_run_ids h = 1 \<and> \<not> sh_mixed_run_ids h \<longleftrightarrow>
    (\<forall>r \<in> set rs. ev_run_id r = ev_run_id (hd rs))"
proof -
  from assms have "sh_mixed_run_ids h \<longleftrightarrow> (\<exists>r \<in> set rs. ev_run_id r \<noteq> ev_run_id (hd rs))"
    and "sh_distinct_run_ids h = (if sh_mixed_run_ids h then 2 else 1)"
    by (simp_all add: observed_run_id_def)
  then show ?thesis by simp
qed

text \<open>A stream in good health met only records with valid run identities.\<close>

lemma invalid_counted:
  "health_inv L rs h \<Longrightarrow> \<not> list_all (run_id_ok L) rs \<Longrightarrow> sh_invalid_run_ids h \<noteq> 0"
  by (auto simp: health_inv_def filter_empty_conv list_all_iff)

lemma verdict_exact:
  assumes "health_inv L rs h"
  shows "stream_health_is_complete (Some h) \<longleftrightarrow> stream_complete L rs \<and> \<not> sh_allocation_failed h"
proof (cases "\<not> sh_allocation_failed h \<and> list_all (run_id_ok L) rs")
  case False
  have "\<not> stream_health_is_complete (Some h)" if "sh_allocation_failed h"
    using that by (simp add: stream_health_is_complete_def)
  moreover have "\<not> stream_health_is_complete (Some h) \<and> \<not> stream_complete L rs"
    if "\<not> list_all (run_id_ok L) rs"
  proof -
    from that invalid_counted [OF assms] show ?thesis
      by (auto simp: stream_health_is_complete_def stream_complete_def list_all_iff)
  qed
  ultimately show ?thesis using False by blast
next
  case True
  with assms have obs: "observed_producers rs h" and run: "observed_run_id rs h"
    and tot: "totals h" and inv: "sh_invalid_run_ids h = 0"
    by (auto simp: health_inv_def filter_empty_conv list_all_iff)
  have contexts: "(\<forall>p \<in> set (sh_producers h). producer_clean p \<and> pr_completion_records p = 1) \<longleftrightarrow>
      (\<forall>r \<in> set rs. context_complete (records_of rs (context_of r)))"
    unfolding observed_producer_set [OF obs]
    by (simp add: producer_clean_complete del: One_nat_def)
  have valid: "\<forall>r \<in> set rs. run_id_ok L r" using True by (simp add: list_all_iff)
  show ?thesis
    unfolding is_complete_clean [OF tot] contexts observed_some(1) [OF obs] stream_complete_def
      records_of_def
    using observed_some(2) [OF obs tot] observed_ids [OF run] inv valid True by blast
qed

lemma ample_observe:
  "ample w \<Longrightarrow> \<not> sh_allocation_failed h \<Longrightarrow> observe_record L w h r = (e, h', w') \<Longrightarrow>
     ample w' \<and> \<not> sh_allocation_failed h'"
  using heap_request_ample [of w]
  by (auto simp: observe_record_cases find_or_add_producer_cases replace_producer_fields
      split: if_splits option.splits prod.splits bool.splits)

lemma ample_observe_all:
  assumes "ample w"
  shows "\<not> sh_allocation_failed (fst (observe_all L (empty_health, w) rs)) \<and>
    ample (snd (observe_all L (empty_health, w) rs))"
proof (induction rs rule: rev_induct)
  case Nil
  with assms show ?case by (simp add: observe_all_def empty_health_def)
next
  case (snoc r rs)
  then show ?case
    using ample_observe [of "snd (observe_all L (empty_health, w) rs)"
        "fst (observe_all L (empty_health, w) rs)" L r]
    by (cases "observe_record L (snd (observe_all L (empty_health, w) rs))
        (fst (observe_all L (empty_health, w) rs)) r") (simp add: observe_all_def)
qed

subsection \<open>Properties\<close>

text \<open>Claim C4. The completeness verdict is exact: after observing the records of a stream one by
  one, starting from the empty health, the stream is reported complete exactly when it is
  nonempty, carries one valid run identity, every producer context ends in its only COMPLETE
  record, that record states the number of records before it and no write failure, and the
  nonzero sequence numbers of each context strictly increase; and no allocation failed.\<close>

theorem stream_verdict_exact:
  "stream_health_is_complete (Some (fst (observe_all L (empty_health, w) rs))) \<longleftrightarrow>
     stream_complete L rs \<and> \<not> sh_allocation_failed (fst (observe_all L (empty_health, w) rs))"
  by (rule verdict_exact [OF health_inv_all])

text \<open>While allocation does not fail, observing never records an allocation failure, so
  the verdict is that of the records alone.\<close>

theorem stream_verdict_ample:
  assumes "ample w"
  shows "stream_health_is_complete (Some (fst (observe_all L (empty_health, w) rs))) \<longleftrightarrow>
    stream_complete L rs"
  using verdict_exact [OF health_inv_all] ample_observe_all [OF assms] by blast

definition sample_records :: "event_record list" where
  "sample_records =
     [blank_record\<lparr>ev_run_id := Some ''r'', ev_sequence := 1\<rparr>,
      blank_record\<lparr>ev_run_id := Some ''r'', ev_sequence := 2, ev_events_attempted := 1,
        ev_record_kind := RECORD_COMPLETE\<rparr>]"

theorem stream_verdict_ample_witness:
  "stream_health_is_complete
     (Some (fst (observe_all doc_lib (empty_health, calm_world) sample_records))) \<and>
   \<not> stream_health_is_complete
     (Some (fst (observe_all doc_lib (empty_health, calm_world) (rev sample_records))))"
  using stream_verdict_ample [OF ample_calm, of doc_lib sample_records]
    stream_verdict_ample [OF ample_calm, of doc_lib "rev sample_records"]
  by (simp add: stream_complete_def sample_records_def run_id_ok_def doc_lib_def context_of_def
      context_complete_def sequences_def blank_record_def zero_record_def)

text \<open>The counters of the stream are, after any observations and any allocation failures,
  the sums of its producers' counters: records, completions, duplicate and descending
  sequence numbers, attempt mismatches and records after completion; and a write failure is
  counted exactly when some producer reported one.\<close>

theorem stream_counters_are_totals:
  "totals (fst (observe_all L (empty_health, w) rs))"
  using health_inv_all by (simp add: health_inv_def)

end
