(* ===== verification/Growth.thy ===== *)
theory Growth
  imports P101_Prelude
begin

section \<open>Growable arrays and owned copies of texts\<close>

text \<open>
  The lifecycle and the causal model keep growable arrays (entries, findings, nodes, edges):
  before an element is stored, a slot is reserved, which may double the allocation, fail for
  lack of memory, or refuse at a fixed limit. \<open>growable\<close> is what their clients rely on; the
  two reservation routines of the code are its interpretations in the theories that define
  them. \<open>copy_text\<close> is the allocation behind an owned copy of a text.
\<close>

definition fits :: "nat \<Rightarrow> nat \<Rightarrow> 'a list \<Rightarrow> nat \<Rightarrow> bool" where
  "fits first limit xs c \<longleftrightarrow> length xs \<le> c \<and> doubling first c \<and> c \<le> limit"

lemma fits_empty [simp]: "fits first limit [] 0"
  by (simp add: fits_def)

lemma fits_update [simp]: "fits first limit (xs[i := x]) c = fits first limit xs c"
  by (simp add: fits_def)

lemma fits_map [simp]: "fits first limit (map f xs) c = fits first limit xs c"
  by (simp add: fits_def)

lemma fits_filter: "fits first limit xs c \<Longrightarrow> fits first limit (filter P xs) c"
  by (auto simp: fits_def intro: order_trans [OF length_filter_le])

lemma fits_bound: "fits first limit xs c \<Longrightarrow> length xs \<le> limit"
  by (simp add: fits_def)

locale growable =
  fixes reserve :: "nat \<Rightarrow> nat \<Rightarrow> world \<Rightarrow> bool \<times> nat \<times> world"
    and first limit :: nat
  assumes grown: "reserve n c w = (True, c', w') \<Longrightarrow> n \<le> c \<Longrightarrow>
      n < c' \<and> (c' = c \<or> c < limit \<and> c' = next_capacity first c) \<and> w_raised w' = w_raised w"
    and refused: "reserve n c w = (False, c', w') \<Longrightarrow> c' = c \<and> w_raised w' \<noteq> w_raised w"
    and full: "n \<le> c \<Longrightarrow> c \<le> limit \<Longrightarrow> limit \<le> n \<Longrightarrow> fst (reserve n c w) = False"
    and roomy: "doubling first c \<Longrightarrow> n \<le> c \<Longrightarrow> n < limit \<Longrightarrow> ample w \<Longrightarrow>
      \<exists>c' w'. reserve n c w = (True, c', w') \<and> ample w'"
    and limit_doubling: "0 < first \<and> (\<exists>m. limit = first * 2 ^ m)"
begin

lemma capacity_kept:
  assumes "doubling first c" and "c \<le> limit" and "n \<le> c" and "reserve n c w = (b, c', w')"
  shows "doubling first c' \<and> c' \<le> limit \<and> c \<le> c'"
proof (cases b)
  case False
  with assms refused [of n c w c' w'] show ?thesis by auto
next
  case True
  obtain m where "limit = first * 2 ^ m" "0 < first" using limit_doubling by blast
  with assms True grown [of n c w c' w'] show ?thesis
    using doubling_double_le [of first c m] doubling_next [of first c]
    by (auto simp: next_capacity_def)
qed

lemma push_fits:
  assumes "fits first limit xs c" and "reserve (length xs) c w = (True, c', w')"
  shows "fits first limit (xs @ [x]) c'"
  using assms capacity_kept [of c "length xs" w True c' w'] grown [OF assms(2)]
  by (auto simp: fits_def)

lemma kept_fits:
  assumes "fits first limit xs c" and "reserve (length xs) c w = (b, c', w')"
  shows "fits first limit xs c'"
  using assms capacity_kept [of c "length xs" w b c' w'] by (auto simp: fits_def)

text \<open>With memory available, a slot is refused exactly at the limit.\<close>

lemma refused_iff:
  assumes "fits first limit xs c" and "ample w"
  shows "fst (reserve (length xs) c w) \<longleftrightarrow> length xs < limit"
  using assms roomy [of c "length xs" w] full [of "length xs" c w]
  by (cases "length xs < limit") (auto simp: fits_def not_less)

end

subsection \<open>Copies\<close>

definition copy_text :: "string \<Rightarrow> world \<Rightarrow> string option \<times> world" where
  "copy_text s w =
     (case heap_request w of
        (True, w') \<Rightarrow> (Some s, w')
      | (False, w') \<Rightarrow> (None, raise_errno ENOMEM w'))"

text \<open>Several copies made one after the other, every one attempted, tested together at the end.\<close>

fun copy_all :: "string list \<Rightarrow> world \<Rightarrow> bool \<times> world" where
  "copy_all [] w = (True, w)"
| "copy_all (s # ss) w =
     (case copy_text s w of (c, w1) \<Rightarrow>
        case copy_all ss w1 of (b, w2) \<Rightarrow> (c \<noteq> None \<and> b, w2))"

text \<open>Copies up to the first that fails.\<close>

fun copy_until :: "string list \<Rightarrow> world \<Rightarrow> bool \<times> world" where
  "copy_until [] w = (True, w)"
| "copy_until (s # ss) w =
     (case copy_text s w of (None, w1) \<Rightarrow> (False, w1) | (Some _, w1) \<Rightarrow> copy_until ss w1)"

lemma copy_text_ample:
  "ample w \<Longrightarrow> \<exists>w'. copy_text s w = (Some s, w') \<and> ample w' \<and> w_raised w' = w_raised w"
  using heap_request_ample [of w] by (auto simp: copy_text_def)

lemma copy_all_ample:
  "ample w \<Longrightarrow> \<exists>w'. copy_all ss w = (True, w') \<and> ample w' \<and> w_raised w' = w_raised w"
proof (induction ss arbitrary: w)
  case (Cons s ss)
  obtain w1 where "copy_text s w = (Some s, w1)" "ample w1" "w_raised w1 = w_raised w"
    using copy_text_ample [OF Cons.prems, of s] by blast
  with Cons.IH [of w1] show ?case by auto
qed simp

lemma copy_until_ample:
  "ample w \<Longrightarrow> \<exists>w'. copy_until ss w = (True, w') \<and> ample w' \<and> w_raised w' = w_raised w"
proof (induction ss arbitrary: w)
  case (Cons s ss)
  obtain w1 where "copy_text s w = (Some s, w1)" "ample w1" "w_raised w1 = w_raised w"
    using copy_text_ample [OF Cons.prems, of s] by blast
  with Cons.IH [of w1] show ?case by auto
qed simp

text \<open>A failure is always reported: what was raised before is a proper prefix.\<close>

definition more_raised :: "world \<Rightarrow> world \<Rightarrow> bool" where
  "more_raised w w' \<longleftrightarrow> (\<exists>es. w_raised w' = w_raised w @ es)"

lemma more_raised_refl [simp]: "more_raised w w"
  by (simp add: more_raised_def)

lemma more_raised_trans: "more_raised a b \<Longrightarrow> more_raised b c \<Longrightarrow> more_raised a c"
  by (auto simp: more_raised_def)

lemma copy_text_raised:
  assumes "copy_text s w = (c, w')"
  shows "(c = Some s \<and> w_raised w' = w_raised w) \<or>
    (c = None \<and> w_raised w' = w_raised w @ [Errno_Error ENOMEM])"
  using assms by (auto simp: copy_text_def raise_errno_def split: prod.splits bool.splits)

lemma copy_all_raised:
  "copy_all ss w = (b, w') \<Longrightarrow>
     \<exists>es. w_raised w' = w_raised w @ es \<and> (b \<longleftrightarrow> es = [])"
proof (induction ss arbitrary: w b)
  case (Cons s ss)
  obtain c w1 where c: "copy_text s w = (c, w1)" by fastforce
  obtain b2 where b2: "copy_all ss w1 = (b2, w')" "b = (c \<noteq> None \<and> b2)"
    using Cons.prems c by (auto split: prod.splits)
  from Cons.IH [OF b2(1)] copy_text_raised [OF c] b2(2) show ?case by auto
qed simp

lemma copy_until_raised:
  "copy_until ss w = (b, w') \<Longrightarrow>
     \<exists>es. w_raised w' = w_raised w @ es \<and> (b \<longleftrightarrow> es = [])"
proof (induction ss arbitrary: w b)
  case (Cons s ss)
  obtain c w1 where c: "copy_text s w = (c, w1)" by fastforce
  show ?case
  proof (cases c)
    case None
    with Cons.prems c copy_text_raised [OF c] show ?thesis by auto
  next
    case (Some x)
    with Cons.prems c have "copy_until ss w1 = (b, w')" by simp
    from Cons.IH [OF this] copy_text_raised [OF c] Some show ?thesis by auto
  qed
qed simp

end
