(* ===== verification/Ownership.thy ===== *)
theory Ownership
  imports P101_Prelude
begin

section \<open>Ownership transition policy (src/ownership.c)\<close>

text \<open>
  The three rule tables and the three classifiers. The search of a table,
  \<open>p101_transition_rules_find\<close>, belongs to the transition library: it is the parameter
  \<open>find\<close>, and \<open>transition_search\<close> is its contract (the rule found is a rule of the table for
  that state and event, and a search fails only when the table has none).
\<close>

datatype ownership_state = OWN_NEVER | OWN_LIVE | OWN_RELEASED

datatype release_result = RELEASE_OK | RELEASE_STRAY | RELEASE_DUPLICATE

datatype replace_result = REPLACE_OK | REPLACE_NEW | REPLACE_BAD

datatype ownership_event =
  OWN_RELEASE | OWN_REPLACE_NULL | OWN_REPLACE_LIVE | OWN_EXEC_CLOSE | OWN_EXEC_KEEP

record 'v rule =
  rule_state :: ownership_state
  rule_event :: ownership_event
  rule_next :: ownership_state
  rule_value :: 'v

type_synonym 'v rule_search =
  "'v rule list \<Rightarrow> ownership_state \<Rightarrow> ownership_event \<Rightarrow> 'v rule option"

definition rule :: "ownership_state \<Rightarrow> ownership_event \<Rightarrow> ownership_state \<Rightarrow> 'v \<Rightarrow> 'v rule" where
  "rule s e s' v = \<lparr>rule_state = s, rule_event = e, rule_next = s', rule_value = v\<rparr>"

definition release_rules :: "release_result rule list" where
  "release_rules =
     [rule OWN_NEVER OWN_RELEASE OWN_NEVER RELEASE_STRAY,
      rule OWN_LIVE OWN_RELEASE OWN_RELEASED RELEASE_OK,
      rule OWN_RELEASED OWN_RELEASE OWN_RELEASED RELEASE_DUPLICATE]"

definition replace_rules :: "replace_result rule list" where
  "replace_rules =
     [rule OWN_NEVER OWN_REPLACE_NULL OWN_LIVE REPLACE_NEW,
      rule OWN_LIVE OWN_REPLACE_NULL OWN_LIVE REPLACE_NEW,
      rule OWN_RELEASED OWN_REPLACE_NULL OWN_LIVE REPLACE_NEW,
      rule OWN_NEVER OWN_REPLACE_LIVE OWN_NEVER REPLACE_BAD,
      rule OWN_LIVE OWN_REPLACE_LIVE OWN_LIVE REPLACE_OK,
      rule OWN_RELEASED OWN_REPLACE_LIVE OWN_RELEASED REPLACE_BAD]"

definition exec_rules :: "nat rule list" where
  "exec_rules =
     [rule OWN_NEVER OWN_EXEC_CLOSE OWN_NEVER 0,
      rule OWN_LIVE OWN_EXEC_CLOSE OWN_RELEASED 0,
      rule OWN_RELEASED OWN_EXEC_CLOSE OWN_RELEASED 0,
      rule OWN_NEVER OWN_EXEC_KEEP OWN_NEVER 0,
      rule OWN_LIVE OWN_EXEC_KEEP OWN_LIVE 1,
      rule OWN_RELEASED OWN_EXEC_KEEP OWN_RELEASED 0]"

definition ownership_classify_release ::
  "release_result rule_search \<Rightarrow> ownership_state \<Rightarrow> release_result" where
  "ownership_classify_release search st =
     (case search release_rules st OWN_RELEASE of
        Some r \<Rightarrow> rule_value r
      | None \<Rightarrow> RELEASE_STRAY)"

definition ownership_classify_replace ::
  "replace_result rule_search \<Rightarrow> bool \<Rightarrow> ownership_state \<Rightarrow> replace_result" where
  "ownership_classify_replace search source_is_null st =
     (case search replace_rules st (if source_is_null then OWN_REPLACE_NULL else OWN_REPLACE_LIVE) of
        Some r \<Rightarrow> rule_value r
      | None \<Rightarrow> REPLACE_BAD)"

definition ownership_exec_inherits ::
  "nat rule_search \<Rightarrow> ownership_state \<Rightarrow> bool \<Rightarrow> bool" where
  "ownership_exec_inherits search st close_on_exec =
     (case search exec_rules st (if close_on_exec then OWN_EXEC_CLOSE else OWN_EXEC_KEEP) of
        Some r \<Rightarrow> rule_value r \<noteq> 0
      | None \<Rightarrow> False)"

subsection \<open>The contract of the search\<close>

locale transition_search =
  fixes search :: "'v rule_search"
  assumes found: "search rules s e = Some r \<Longrightarrow>
      r \<in> set rules \<and> rule_state r = s \<and> rule_event r = e"
    and missing: "search rules s e = None \<Longrightarrow>
      \<forall>r \<in> set rules. \<not> (rule_state r = s \<and> rule_event r = e)"
begin

text \<open>A table whose rules for a state and event agree decides that event by the state.\<close>

lemma search_value:
  assumes "\<exists>r \<in> set rules. rule_state r = s \<and> rule_event r = e"
    and "\<forall>r \<in> set rules. rule_state r = s \<and> rule_event r = e \<longrightarrow> rule_value r = v"
  shows "\<exists>r. search rules s e = Some r \<and> rule_value r = v"
proof (cases "search rules s e")
  case None
  from missing [OF None] assms(1) show ?thesis by blast
next
  case (Some q)
  from found [OF Some] assms(2) Some show ?thesis by simp
qed

end

definition first_rule :: "'v rule_search" where
  "first_rule rules s e = find (\<lambda>r. rule_state r = s \<and> rule_event r = e) rules"

interpretation first_rule: transition_search first_rule
  by unfold_locales (auto simp: first_rule_def find_Some_iff find_None_iff)

subsection \<open>What the policy decides\<close>

lemma classify_release_cases:
  assumes "transition_search search"
  shows "ownership_classify_release search st =
    (case st of OWN_NEVER \<Rightarrow> RELEASE_STRAY | OWN_LIVE \<Rightarrow> RELEASE_OK
     | OWN_RELEASED \<Rightarrow> RELEASE_DUPLICATE)"
proof -
  have "\<exists>r. search release_rules st OWN_RELEASE = Some r \<and>
      rule_value r = (case st of OWN_NEVER \<Rightarrow> RELEASE_STRAY | OWN_LIVE \<Rightarrow> RELEASE_OK
     | OWN_RELEASED \<Rightarrow> RELEASE_DUPLICATE)"
    by (rule transition_search.search_value [OF assms]; cases st; simp add: release_rules_def rule_def)
  then show ?thesis by (auto simp: ownership_classify_release_def)
qed

lemma classify_replace_cases:
  assumes "transition_search search"
  shows "ownership_classify_replace search source_is_null st =
    (if source_is_null then REPLACE_NEW else if st = OWN_LIVE then REPLACE_OK else REPLACE_BAD)"
proof -
  have "\<exists>r. search replace_rules st (if source_is_null then OWN_REPLACE_NULL else OWN_REPLACE_LIVE) = Some r \<and>
      rule_value r = (if source_is_null then REPLACE_NEW else if st = OWN_LIVE then REPLACE_OK else REPLACE_BAD)"
    by (rule transition_search.search_value [OF assms]; cases st; cases source_is_null; simp add: replace_rules_def rule_def)
  then show ?thesis by (auto simp: ownership_classify_replace_def)
qed

lemma exec_inherits_cases:
  assumes "transition_search search"
  shows "ownership_exec_inherits search st close_on_exec \<longleftrightarrow> st = OWN_LIVE \<and> \<not> close_on_exec"
proof -
  have "\<exists>r. search exec_rules st (if close_on_exec then OWN_EXEC_CLOSE else OWN_EXEC_KEEP) = Some r \<and>
      rule_value r = (if st = OWN_LIVE \<and> \<not> close_on_exec then 1 else 0)"
    by (rule transition_search.search_value [OF assms]; cases st; cases close_on_exec; simp add: exec_rules_def rule_def)
  then show ?thesis by (auto simp: ownership_exec_inherits_def split: if_splits)
qed

end
