(* ===== verification/Lifecycle_Store.thy ===== *)
theory Lifecycle_Store
  imports Event Growth
begin

section \<open>The lifecycle model: entries, findings and releases (src/lifecycle.c)\<close>

text \<open>
  The state of \<open>struct p101_tool_event_lifecycle_model\<close> and the operations on its two arrays:
  the lookup of the latest entry of a resource, the addition of an entry, the three ways a
  finding is made, and the release of an entry. A pointer into \<open>entries\<close> is an index; an
  operation returns the C status (\<open>True\<close> for 0, \<open>False\<close> for -1) and the new state. Texts that
  the code never leaves NULL in a stored element are strings, the others options.
\<close>

datatype finding_kind =
  FINDING_LEAK | FINDING_DOUBLE_RELEASE | FINDING_STRAY_RELEASE | FINDING_BAD_REPLACE |
  FINDING_DUPLICATE_ACQUIRE | FINDING_EXEC_INHERIT | FINDING_INVALID_USE

record lifecycle_entry =
  le_pid :: int
  le_origin_kind :: record_kind
  le_acquired_context_id :: nat
  le_released_context_id :: nat
  le_resource_class :: string
  le_resource_id :: string
  le_acquired_sequence :: nat
  le_released_sequence :: nat
  le_acquired_monotonic_ns :: nat
  le_released_monotonic_ns :: nat
  le_size :: nat
  le_acquired_line_number :: int
  le_released_line_number :: int
  le_acquired_function_name :: string
  le_released_function_name :: "string option"
  le_acquired_file_name :: string
  le_released_file_name :: "string option"
  le_acquired_monotonic_ns_available :: bool
  le_released_monotonic_ns_available :: bool
  le_live :: bool
  le_exec_pending :: bool

record lifecycle_finding =
  lf_kind :: finding_kind
  lf_origin_kind :: record_kind
  lf_pid :: int
  lf_context_id :: nat
  lf_previous_context_id :: nat
  lf_resource_class :: string
  lf_resource_id :: string
  lf_sequence :: nat
  lf_previous_sequence :: nat
  lf_line_number :: int
  lf_previous_line_number :: int
  lf_function_name :: string
  lf_previous_function_name :: "string option"
  lf_file_name :: string
  lf_previous_file_name :: "string option"
  lf_monotonic_ns :: nat
  lf_monotonic_ns_available :: bool
  lf_exec_pending :: bool

record lifecycle_model =
  lm_run_id :: string
  lm_entries :: "lifecycle_entry list"
  lm_entry_capacity :: nat
  lm_findings :: "lifecycle_finding list"
  lm_finding_capacity :: nat
  lm_finished :: bool

type_synonym lifecycle_state = "lifecycle_model \<times> world"

definition LIFECYCLE_INITIAL_CAPACITY :: nat where "LIFECYCLE_INITIAL_CAPACITY = 16"
definition MAX_LIFECYCLE_ENTRIES :: nat where "MAX_LIFECYCLE_ENTRIES = 1048576"
definition MAX_LIFECYCLE_FINDINGS :: nat where "MAX_LIFECYCLE_FINDINGS = 1048576"
definition FD_IDENTIFIER_LENGTH :: nat where "FD_IDENTIFIER_LENGTH = 32"

definition empty_lifecycle :: lifecycle_model where
  "empty_lifecycle = \<lparr>lm_run_id = [], lm_entries = [], lm_entry_capacity = 0,
     lm_findings = [], lm_finding_capacity = 0, lm_finished = False\<rparr>"

definition lifecycle_create :: "world \<Rightarrow> lifecycle_model option \<times> world" where
  "lifecycle_create w =
     (case heap_request w of
        (False, w') \<Rightarrow> (None, raise_errno ENOMEM w')
      | (True, w') \<Rightarrow> (Some empty_lifecycle, w'))"

text \<open>Everything is freed and the caller's pointer becomes NULL.\<close>

definition lifecycle_destroy :: "lifecycle_model option \<Rightarrow> lifecycle_model option" where
  "lifecycle_destroy m = None"

subsection \<open>Lookup\<close>

definition entry_matches ::
  "int \<Rightarrow> string \<Rightarrow> string \<Rightarrow> bool \<Rightarrow> lifecycle_entry \<Rightarrow> bool" where
  "entry_matches pid cls rid live_only e \<longleftrightarrow>
     le_pid e = pid \<and> le_resource_class e = cls \<and> le_resource_id e = rid \<and>
     (\<not> live_only \<or> le_live e)"

definition find_latest ::
  "lifecycle_model \<Rightarrow> int \<Rightarrow> string \<Rightarrow> string \<Rightarrow> bool \<Rightarrow> nat option" where
  "find_latest m pid cls rid live_only =
     scan_down (\<lambda>i. entry_matches pid cls rid live_only (lm_entries m ! i)) (length (lm_entries m))"

subsection \<open>Capacity\<close>

text \<open>The reservation both arrays make: the element limit first, then doubling on demand.\<close>

definition lifecycle_reserve :: "nat \<Rightarrow> nat \<Rightarrow> nat \<Rightarrow> world \<Rightarrow> bool \<times> nat \<times> world" where
  "lifecycle_reserve limit n c w =
     (if limit \<le> n then (False, c, raise_errno EFBIG w)
      else if n = c then
        (case heap_request w of
           (False, w') \<Rightarrow> (False, c, raise_errno ENOMEM w')
         | (True, w') \<Rightarrow> (True, next_capacity LIFECYCLE_INITIAL_CAPACITY c, w'))
      else (True, c, w))"

definition ensure_entry_capacity :: "lifecycle_state \<Rightarrow> bool \<times> lifecycle_state" where
  "ensure_entry_capacity s =
     (case s of (m, w) \<Rightarrow>
        case lifecycle_reserve MAX_LIFECYCLE_ENTRIES (length (lm_entries m))
               (lm_entry_capacity m) w of
          (b, c, w') \<Rightarrow> (b, m\<lparr>lm_entry_capacity := c\<rparr>, w'))"

definition ensure_finding_capacity :: "lifecycle_state \<Rightarrow> bool \<times> lifecycle_state" where
  "ensure_finding_capacity s =
     (case s of (m, w) \<Rightarrow>
        case lifecycle_reserve MAX_LIFECYCLE_FINDINGS (length (lm_findings m))
               (lm_finding_capacity m) w of
          (b, c, w') \<Rightarrow> (b, m\<lparr>lm_finding_capacity := c\<rparr>, w'))"

subsection \<open>Adding an entry\<close>

definition function_text :: "event_record \<Rightarrow> string" where
  "function_text r = text_or ''?'' (ev_function_name r)"

definition file_text :: "event_record \<Rightarrow> string" where
  "file_text r = text_or ''?'' (ev_file_name r)"

definition new_entry :: "event_record \<Rightarrow> string \<Rightarrow> lifecycle_entry" where
  "new_entry r rid = \<lparr>le_pid = ev_pid r, le_origin_kind = ev_record_kind r,
     le_acquired_context_id = ev_context_id r, le_released_context_id = 0,
     le_resource_class = the (ev_resource_class r), le_resource_id = rid,
     le_acquired_sequence = ev_sequence r, le_released_sequence = 0,
     le_acquired_monotonic_ns = ev_monotonic_ns r, le_released_monotonic_ns = 0,
     le_size = ev_size r, le_acquired_line_number = ev_line_number r,
     le_released_line_number = 0, le_acquired_function_name = function_text r,
     le_released_function_name = None, le_acquired_file_name = file_text r,
     le_released_file_name = None,
     le_acquired_monotonic_ns_available = ev_monotonic_ns_available r,
     le_released_monotonic_ns_available = False, le_live = True, le_exec_pending = False\<rparr>"

definition add_entry ::
  "lifecycle_state \<Rightarrow> event_record \<Rightarrow> string \<Rightarrow> bool \<times> lifecycle_state" where
  "add_entry s r rid =
     (case ensure_entry_capacity s of
        (False, s1) \<Rightarrow> (False, s1)
      | (True, m1, w1) \<Rightarrow>
          (case copy_all [the (ev_resource_class r), rid, function_text r, file_text r] w1 of
             (False, w2) \<Rightarrow> (False, m1, w2)
           | (True, w2) \<Rightarrow> (True, m1\<lparr>lm_entries := lm_entries m1 @ [new_entry r rid]\<rparr>, w2)))"

subsection \<open>Findings\<close>

definition leak_finding :: "lifecycle_entry \<Rightarrow> lifecycle_finding" where
  "leak_finding e = \<lparr>lf_kind = FINDING_LEAK, lf_origin_kind = le_origin_kind e,
     lf_pid = le_pid e, lf_context_id = le_acquired_context_id e, lf_previous_context_id = 0,
     lf_resource_class = le_resource_class e, lf_resource_id = le_resource_id e,
     lf_sequence = le_acquired_sequence e, lf_previous_sequence = 0,
     lf_line_number = le_acquired_line_number e, lf_previous_line_number = 0,
     lf_function_name = le_acquired_function_name e, lf_previous_function_name = None,
     lf_file_name = le_acquired_file_name e, lf_previous_file_name = None,
     lf_monotonic_ns = 0, lf_monotonic_ns_available = False, lf_exec_pending = False\<rparr>"

definition add_leak_finding ::
  "lifecycle_state \<Rightarrow> lifecycle_entry \<Rightarrow> bool \<times> lifecycle_state" where
  "add_leak_finding s e =
     (case ensure_finding_capacity s of
        (False, s1) \<Rightarrow> (False, s1)
      | (True, m1, w1) \<Rightarrow>
          (case copy_all [le_resource_class e, le_resource_id e, le_acquired_function_name e,
                          le_acquired_file_name e] w1 of
             (False, w2) \<Rightarrow> (False, m1, w2)
           | (True, w2) \<Rightarrow> (True, m1\<lparr>lm_findings := lm_findings m1 @ [leak_finding e]\<rparr>, w2)))"

text \<open>
  \<open>previous->released_sequence == 0U ? acquired : released\<close>; the released names of an entry
  are NULL until it is released, and the code passes them to \<open>strlen\<close> without a test.
\<close>

definition previous_function_name :: "lifecycle_entry \<Rightarrow> string" where
  "previous_function_name p =
     (if le_released_sequence p = 0 then le_acquired_function_name p
      else the (le_released_function_name p))"

definition previous_file_name :: "lifecycle_entry \<Rightarrow> string" where
  "previous_file_name p =
     (if le_released_sequence p = 0 then le_acquired_file_name p
      else the (le_released_file_name p))"

definition new_finding ::
  "finding_kind \<Rightarrow> event_record \<Rightarrow> lifecycle_entry option \<Rightarrow> lifecycle_finding" where
  "new_finding kind r previous = \<lparr>lf_kind = kind,
     lf_origin_kind = (case previous of None \<Rightarrow> ev_record_kind r | Some p \<Rightarrow> le_origin_kind p),
     lf_pid = ev_pid r, lf_context_id = ev_context_id r,
     lf_previous_context_id = (case previous of None \<Rightarrow> 0
       | Some p \<Rightarrow> if le_released_sequence p = 0 then le_acquired_context_id p
                   else le_released_context_id p),
     lf_resource_class = (case previous of None \<Rightarrow> the (ev_resource_class r)
       | Some p \<Rightarrow> le_resource_class p),
     lf_resource_id = (case previous of None \<Rightarrow> the (ev_resource_id r)
       | Some p \<Rightarrow> le_resource_id p),
     lf_sequence = ev_sequence r,
     lf_previous_sequence = (case previous of None \<Rightarrow> 0
       | Some p \<Rightarrow> if le_released_sequence p = 0 then le_acquired_sequence p
                   else le_released_sequence p),
     lf_line_number = ev_line_number r,
     lf_previous_line_number = (case previous of None \<Rightarrow> 0
       | Some p \<Rightarrow> if le_released_sequence p = 0 then le_acquired_line_number p
                   else le_released_line_number p),
     lf_function_name = function_text r,
     lf_previous_function_name = map_option previous_function_name previous,
     lf_file_name = file_text r,
     lf_previous_file_name = map_option previous_file_name previous,
     lf_monotonic_ns = ev_monotonic_ns r,
     lf_monotonic_ns_available = ev_monotonic_ns_available r,
     lf_exec_pending = (kind = FINDING_EXEC_INHERIT)\<rparr>"

definition add_finding ::
  "lifecycle_state \<Rightarrow> finding_kind \<Rightarrow> event_record \<Rightarrow> lifecycle_entry option \<Rightarrow>
   bool \<times> lifecycle_state" where
  "add_finding s kind r previous =
     (case ensure_finding_capacity s of
        (False, s1) \<Rightarrow> (False, s1)
      | (True, m1, w1) \<Rightarrow>
          (let f = new_finding kind r previous in
           case copy_all [lf_resource_class f, lf_resource_id f] w1 of
             (False, w2) \<Rightarrow> (False, m1, w2)
           | (True, w2) \<Rightarrow>
               (case copy_all ([lf_function_name f, lf_file_name f] @
                      (case previous of None \<Rightarrow> []
                       | Some p \<Rightarrow> [previous_function_name p, previous_file_name p])) w2 of
                  (False, w3) \<Rightarrow> (False, m1, w3)
                | (True, w3) \<Rightarrow> (True, m1\<lparr>lm_findings := lm_findings m1 @ [f]\<rparr>, w3))))"

subsection \<open>Releasing\<close>

definition released_by :: "event_record \<Rightarrow> lifecycle_entry \<Rightarrow> lifecycle_entry" where
  "released_by r e = e\<lparr>le_live := False, le_released_sequence := ev_sequence r,
     le_released_context_id := ev_context_id r, le_released_monotonic_ns := ev_monotonic_ns r,
     le_released_monotonic_ns_available := ev_monotonic_ns_available r,
     le_released_line_number := ev_line_number r,
     le_released_function_name := Some (function_text r),
     le_released_file_name := Some (file_text r)\<rparr>"

definition release_entry :: "lifecycle_state \<Rightarrow> event_record \<Rightarrow> bool \<times> lifecycle_state" where
  "release_entry s r =
     (case s of (m, w) \<Rightarrow>
        let cls = the (ev_resource_class r); rid = the (ev_resource_id r) in
        case find_latest m (ev_pid r) cls rid True of
          Some i \<Rightarrow>
            (case copy_all [function_text r, file_text r] w of
               (False, w') \<Rightarrow> (False, m, w')
             | (True, w') \<Rightarrow>
                 (True, m\<lparr>lm_entries := (lm_entries m)[i := released_by r (lm_entries m ! i)]\<rparr>, w'))
        | None \<Rightarrow>
            (let previous = map_option (\<lambda>i. lm_entries m ! i)
                              (find_latest m (ev_pid r) cls rid False) in
             add_finding s (if previous = None then FINDING_STRAY_RELEASE
                            else FINDING_DOUBLE_RELEASE) r previous))"

subsection \<open>Stray releases\<close>

definition stray_matches :: "int \<Rightarrow> string \<Rightarrow> string \<Rightarrow> lifecycle_finding \<Rightarrow> bool" where
  "stray_matches pid cls rid f \<longleftrightarrow>
     lf_kind f = FINDING_STRAY_RELEASE \<and> lf_pid f = pid \<and> lf_resource_class f = cls \<and>
     lf_resource_id f = rid"

definition remove_at :: "nat \<Rightarrow> 'a list \<Rightarrow> 'a list" where
  "remove_at i xs = take i xs @ drop (Suc i) xs"

definition take_stray_release ::
  "lifecycle_model \<Rightarrow> int \<Rightarrow> string \<Rightarrow> string \<Rightarrow> (lifecycle_finding \<times> lifecycle_model) option" where
  "take_stray_release m pid cls rid =
     (case first_index (stray_matches pid cls rid) (lm_findings m) of
        None \<Rightarrow> None
      | Some i \<Rightarrow> Some (lm_findings m ! i, m\<lparr>lm_findings := remove_at i (lm_findings m)\<rparr>))"

text \<open>The record a provisional stray release is replayed as.\<close>

definition release_record :: "lifecycle_finding \<Rightarrow> event_record" where
  "release_record f = zero_record\<lparr>ev_record_kind := lf_origin_kind f, ev_pid := lf_pid f,
     ev_context_id := lf_context_id f, ev_sequence := lf_sequence f,
     ev_monotonic_ns := lf_monotonic_ns f,
     ev_monotonic_ns_available := lf_monotonic_ns_available f,
     ev_resource_kind := RESOURCE_RELEASE,
     ev_resource_class := Some (lf_resource_class f),
     ev_resource_id := Some (lf_resource_id f), ev_line_number := lf_line_number f,
     ev_function_name := Some (lf_function_name f), ev_file_name := Some (lf_file_name f)\<rparr>"

text \<open>
  The loop of \<open>reconcile_stray_releases\<close>. It ends because a replayed release of a resource
  that has an entry never makes another stray release; without an entry it would not end, so
  it is a partial function, and the theorems show that its callers always get a result.
\<close>

partial_function (option) reconcile_stray_releases ::
  "lifecycle_state \<Rightarrow> int \<Rightarrow> string \<Rightarrow> string \<Rightarrow> (bool \<times> lifecycle_state) option" where
  "reconcile_stray_releases s pid cls rid =
     (case take_stray_release (fst s) pid cls rid of
        None \<Rightarrow> Some (True, s)
      | Some (f, m1) \<Rightarrow>
          (case release_entry (m1, snd s) (release_record f) of
             (b, s1) \<Rightarrow> if b then reconcile_stray_releases s1 pid cls rid else Some (False, s1)))"

subsection \<open>The arrays as growable arrays\<close>

interpretation entries: growable "lifecycle_reserve MAX_LIFECYCLE_ENTRIES"
  LIFECYCLE_INITIAL_CAPACITY MAX_LIFECYCLE_ENTRIES
proof
  show "0 < LIFECYCLE_INITIAL_CAPACITY \<and>
      (\<exists>m. MAX_LIFECYCLE_ENTRIES = LIFECYCLE_INITIAL_CAPACITY * 2 ^ m)"
    by (auto simp: LIFECYCLE_INITIAL_CAPACITY_def MAX_LIFECYCLE_ENTRIES_def intro!: exI [where x = 16])
  show "\<exists>c' w'. lifecycle_reserve MAX_LIFECYCLE_ENTRIES n c w = (True, c', w') \<and> ample w'"
    if "n < MAX_LIFECYCLE_ENTRIES" "ample w" for n c w
    using that heap_request_ample [of w] by (auto simp: lifecycle_reserve_def)
qed (auto simp: lifecycle_reserve_def next_capacity_def LIFECYCLE_INITIAL_CAPACITY_def
    raise_errno_def not_le split: if_splits prod.splits bool.splits)

interpretation findings: growable "lifecycle_reserve MAX_LIFECYCLE_FINDINGS"
  LIFECYCLE_INITIAL_CAPACITY MAX_LIFECYCLE_FINDINGS
  using entries.growable_axioms
  by (simp add: MAX_LIFECYCLE_ENTRIES_def MAX_LIFECYCLE_FINDINGS_def)

abbreviation entries_fit :: "lifecycle_model \<Rightarrow> bool" where
  "entries_fit m \<equiv> fits LIFECYCLE_INITIAL_CAPACITY MAX_LIFECYCLE_ENTRIES
     (lm_entries m) (lm_entry_capacity m)"

abbreviation findings_fit :: "lifecycle_model \<Rightarrow> bool" where
  "findings_fit m \<equiv> fits LIFECYCLE_INITIAL_CAPACITY MAX_LIFECYCLE_FINDINGS
     (lm_findings m) (lm_finding_capacity m)"

subsection \<open>What each operation changes\<close>

text \<open>Each operation appends one element or leaves its array alone; the other array is kept.\<close>

lemma add_entry_effect:
  assumes "add_entry (m, w) r rid = (b, m', w')"
  obtains c where "m' = m\<lparr>lm_entry_capacity := c,
      lm_entries := lm_entries m @ (if b then [new_entry r rid] else [])\<rparr>"
    and "entries_fit m \<Longrightarrow> entries_fit m'"
proof -
  obtain d c w1 where res: "lifecycle_reserve MAX_LIFECYCLE_ENTRIES (length (lm_entries m))
      (lm_entry_capacity m) w = (d, c, w1)" by (rule prod_cases3)
  have kept: "entries_fit m \<Longrightarrow> fits LIFECYCLE_INITIAL_CAPACITY MAX_LIFECYCLE_ENTRIES (lm_entries m) c"
    using entries.kept_fits [OF _ res] by blast
  have pushed: "d \<Longrightarrow> entries_fit m \<Longrightarrow> fits LIFECYCLE_INITIAL_CAPACITY MAX_LIFECYCLE_ENTRIES
      (lm_entries m @ [new_entry r rid]) c"
    using res by (cases d) (simp_all add: entries.push_fits)
  show thesis
    by (rule that [of c])
      (use assms res kept pushed in \<open>auto simp: add_entry_def ensure_entry_capacity_def
         split: prod.splits bool.splits if_splits\<close>)
qed

lemma add_finding_effect:
  assumes "add_finding (m, w) k r p = (b, m', w')"
  obtains c where "m' = m\<lparr>lm_finding_capacity := c,
      lm_findings := lm_findings m @ (if b then [new_finding k r p] else [])\<rparr>"
    and "findings_fit m \<Longrightarrow> findings_fit m'"
proof -
  obtain d c w1 where res: "lifecycle_reserve MAX_LIFECYCLE_FINDINGS (length (lm_findings m))
      (lm_finding_capacity m) w = (d, c, w1)" by (rule prod_cases3)
  have kept: "findings_fit m \<Longrightarrow> fits LIFECYCLE_INITIAL_CAPACITY MAX_LIFECYCLE_FINDINGS (lm_findings m) c"
    using findings.kept_fits [OF _ res] by blast
  have pushed: "d \<Longrightarrow> findings_fit m \<Longrightarrow> fits LIFECYCLE_INITIAL_CAPACITY MAX_LIFECYCLE_FINDINGS
      (lm_findings m @ [f]) c" for f
    using res by (cases d) (simp_all add: findings.push_fits)
  show thesis
    by (rule that [of c])
      (use assms res kept pushed in \<open>auto simp: add_finding_def ensure_finding_capacity_def Let_def
         simp del: copy_all.simps split: prod.splits bool.splits if_splits\<close>)
qed

lemma add_leak_finding_effect:
  assumes "add_leak_finding (m, w) e = (b, m', w')"
  obtains c where "m' = m\<lparr>lm_finding_capacity := c,
      lm_findings := lm_findings m @ (if b then [leak_finding e] else [])\<rparr>"
    and "findings_fit m \<Longrightarrow> findings_fit m'"
proof -
  obtain d c w1 where res: "lifecycle_reserve MAX_LIFECYCLE_FINDINGS (length (lm_findings m))
      (lm_finding_capacity m) w = (d, c, w1)" by (rule prod_cases3)
  have kept: "findings_fit m \<Longrightarrow> fits LIFECYCLE_INITIAL_CAPACITY MAX_LIFECYCLE_FINDINGS (lm_findings m) c"
    using findings.kept_fits [OF _ res] by blast
  have pushed: "d \<Longrightarrow> findings_fit m \<Longrightarrow> fits LIFECYCLE_INITIAL_CAPACITY MAX_LIFECYCLE_FINDINGS
      (lm_findings m @ [f]) c" for f
    using res by (cases d) (simp_all add: findings.push_fits)
  show thesis
    by (rule that [of c])
      (use assms res kept pushed in \<open>auto simp: add_leak_finding_def ensure_finding_capacity_def
         simp del: copy_all.simps split: prod.splits bool.splits if_splits\<close>)
qed

lemma release_entry_live:
  assumes "find_latest m (ev_pid r) (the (ev_resource_class r)) (the (ev_resource_id r)) True = Some i"
    and "release_entry (m, w) r = (b, m', w')"
  shows "m' = (if b then m\<lparr>lm_entries := (lm_entries m)[i := released_by r (lm_entries m ! i)]\<rparr>
               else m)"
  using assms by (auto simp: release_entry_def Let_def simp del: copy_all.simps
      split: prod.splits bool.splits)

lemma release_entry_not_live:
  assumes "find_latest m (ev_pid r) (the (ev_resource_class r)) (the (ev_resource_id r)) True = None"
  shows "release_entry (m, w) r =
    (let previous = map_option (\<lambda>i. lm_entries m ! i)
       (find_latest m (ev_pid r) (the (ev_resource_class r)) (the (ev_resource_id r)) False) in
     add_finding (m, w) (if previous = None then FINDING_STRAY_RELEASE
                         else FINDING_DOUBLE_RELEASE) r previous)"
  using assms by (simp add: release_entry_def Let_def)

subsection \<open>Lookup facts\<close>

lemma find_latest_Some:
  "find_latest m pid cls rid lo = Some i \<Longrightarrow>
     i < length (lm_entries m) \<and> entry_matches pid cls rid lo (lm_entries m ! i)"
  by (auto simp: find_latest_def dest: scan_down_bound scan_down_holds)

lemma find_latest_None:
  "find_latest m pid cls rid lo = None \<longleftrightarrow>
     (\<forall>e \<in> set (lm_entries m). \<not> entry_matches pid cls rid lo e)"
  by (simp add: find_latest_def scan_down_None all_set_conv_all_nth)

lemma find_latest_entries:
  "lm_entries m = lm_entries m' \<Longrightarrow> find_latest m pid cls rid lo = find_latest m' pid cls rid lo"
  by (simp add: find_latest_def)

lemma find_latest_frame [simp]:
  "find_latest (m\<lparr>lm_findings := fs\<rparr>) = find_latest m"
  "find_latest (m\<lparr>lm_finding_capacity := c\<rparr>) = find_latest m"
  "find_latest (m\<lparr>lm_entry_capacity := c\<rparr>) = find_latest m"
  "find_latest (m\<lparr>lm_finished := d\<rparr>) = find_latest m"
  by (auto simp: find_latest_def intro!: ext)

end
