(* ===== verification/Lifecycle.thy ===== *)
theory Lifecycle
  imports Lifecycle_Store
begin

section \<open>The lifecycle model: admitting records (src/lifecycle.c)\<close>

text \<open>
  \<open>lifecycle_ingest\<close> dispatches a record to the routine of its kind: descriptors and
  allocations are normalized to resource records, a fork clones the parent's live
  descriptors, an exec closes one descriptor (or reports that it stays open) until a failed
  exec rolls this back. \<open>lifecycle_finish\<close> reports every entry that is still live.
\<close>

subsection \<open>Resource records\<close>

definition entry_at :: "lifecycle_model \<Rightarrow> nat option \<Rightarrow> lifecycle_entry option" where
  "entry_at m i = map_option (\<lambda>k. lm_entries m ! k) i"

definition ingest_resource :: "lifecycle_state \<Rightarrow> event_record \<Rightarrow> bool \<times> lifecycle_state" where
  "ingest_resource s r =
     (case s of (m, w) \<Rightarrow>
        case (ev_resource_class r, ev_resource_id r) of
          (Some cls, Some rid) \<Rightarrow>
            if cls = ''blocking-operation'' \<or> cls = ''pthread-terminal-attempt'' then (True, s)
            else (case ev_resource_kind r of
               RESOURCE_ACQUIRE \<Rightarrow>
                 (case find_latest m (ev_pid r) cls rid True of
                    None \<Rightarrow> add_entry s r rid
                  | Some i \<Rightarrow>
                      (case add_finding s FINDING_DUPLICATE_ACQUIRE r (Some (lm_entries m ! i)) of
                         (True, s1) \<Rightarrow> add_entry s1 r rid
                       | (False, s1) \<Rightarrow> (False, s1)))
             | RESOURCE_RELEASE \<Rightarrow> release_entry s r
             | RESOURCE_USE \<Rightarrow>
                 (case find_latest m (ev_pid r) cls rid True of
                    Some i \<Rightarrow> (True, s)
                  | None \<Rightarrow> add_finding s FINDING_INVALID_USE r
                      (entry_at m (find_latest m (ev_pid r) cls rid False)))
             | _ \<Rightarrow>
                 (case ev_related_id r of
                    None \<Rightarrow> add_finding s FINDING_BAD_REPLACE r
                      (entry_at m (find_latest m (ev_pid r) cls rid False))
                  | Some related \<Rightarrow>
                      if related = [] then add_finding s FINDING_BAD_REPLACE r
                        (entry_at m (find_latest m (ev_pid r) cls rid False))
                      else (case release_entry s r of
                              (True, s1) \<Rightarrow> add_entry s1 r related
                            | (False, s1) \<Rightarrow> (False, s1))))
        | _ \<Rightarrow> (False, m, raise_check w))"

subsection \<open>Descriptors and allocations\<close>

definition fd_resource_class :: string where "fd_resource_class = ''fd''"
definition allocation_resource_class :: string where "allocation_resource_class = ''allocation''"

text \<open>\<open>snprintf(identifier, size, "%d", fd)\<close>; an \<open>int\<close> always fits the 32 bytes.\<close>

definition format_fd_identifier :: "int \<Rightarrow> string" where
  "format_fd_identifier fd = signed_decimal fd"

definition ingest_fd :: "lifecycle_state \<Rightarrow> event_record \<Rightarrow> bool \<times> lifecycle_state" where
  "ingest_fd s r = ingest_resource s
     (r\<lparr>ev_resource_kind := (if ev_fd_kind r = FD_OPEN then RESOURCE_ACQUIRE else RESOURCE_RELEASE),
        ev_resource_class := Some fd_resource_class,
        ev_resource_id := Some (format_fd_identifier (ev_fd r)),
        ev_related_id := None, ev_size := 0\<rparr>)"

definition as_allocation :: "event_record \<Rightarrow> resource_kind \<Rightarrow> string option \<Rightarrow> event_record" where
  "as_allocation r kind p =
     r\<lparr>ev_resource_class := Some allocation_resource_class, ev_related_id := None,
       ev_resource_kind := kind, ev_resource_id := p\<rparr>"

definition ingest_allocation ::
  "record_lib \<Rightarrow> lifecycle_state \<Rightarrow> event_record \<Rightarrow> bool \<times> lifecycle_state" where
  "ingest_allocation L s r =
     (case s of (m, w) \<Rightarrow>
        let null = pointer_is_null L (ev_ptr r); new_null = pointer_is_null L (ev_new_ptr r) in
        case ev_alloc_kind r of
          ALLOC_ALLOC \<Rightarrow>
            if null then (True, s)
            else ingest_resource s (as_allocation r RESOURCE_ACQUIRE (ev_ptr r))
        | ALLOC_FREE \<Rightarrow>
            if null then (True, s)
            else ingest_resource s (as_allocation r RESOURCE_RELEASE (ev_ptr r))
        | ALLOC_REALLOC \<Rightarrow>
            if null then
              (if new_null then (True, s)
               else ingest_resource s (as_allocation r RESOURCE_ACQUIRE (ev_new_ptr r)))
            else
              (case find_latest m (ev_pid r) allocation_resource_class (the (ev_ptr r)) True of
                 None \<Rightarrow>
                   (case add_finding s FINDING_BAD_REPLACE
                           (as_allocation r RESOURCE_REPLACE (ev_ptr r))
                           (entry_at m (find_latest m (ev_pid r) allocation_resource_class
                              (the (ev_ptr r)) False)) of
                      (b, s1) \<Rightarrow>
                        if \<not> b \<or> new_null then (b, s1)
                        else ingest_resource s1
                               (as_allocation r RESOURCE_ACQUIRE (ev_new_ptr r)))
               | Some i \<Rightarrow>
                   if new_null then (True, s)
                   else (case ingest_resource s (as_allocation r RESOURCE_RELEASE (ev_ptr r)) of
                           (True, s1) \<Rightarrow> ingest_resource s1
                              (as_allocation r RESOURCE_ACQUIRE (ev_new_ptr r))
                         | (False, s1) \<Rightarrow> (False, s1))))"

subsection \<open>Fork\<close>

text \<open>The record under which an inherited descriptor enters the child.\<close>

definition inherited_record :: "event_record \<Rightarrow> lifecycle_entry \<Rightarrow> event_record" where
  "inherited_record r e =
     r\<lparr>ev_record_kind := le_origin_kind e, ev_pid := ev_child_pid r,
       ev_resource_class := Some fd_resource_class, ev_resource_id := Some (le_resource_id e),
       ev_size := le_size e\<rparr>"

definition fork_step ::
  "event_record \<Rightarrow> nat \<Rightarrow> lifecycle_state \<Rightarrow> (bool \<times> lifecycle_state) option" where
  "fork_step r i s =
     (case s of (m, w) \<Rightarrow>
        let e = lm_entries m ! i in
        if le_pid e \<noteq> ev_pid r \<or> \<not> le_live e \<or> le_resource_class e \<noteq> fd_resource_class
        then Some (True, s)
        else if find_latest m (ev_child_pid r) (le_resource_class e) (le_resource_id e) False \<noteq> None
        then Some (True, s)
        else if FD_IDENTIFIER_LENGTH \<le> length (le_resource_id e)
        then Some (False, m, raise_check w)
        else (case add_entry s (inherited_record r e) (le_resource_id e) of
                (False, s1) \<Rightarrow> Some (False, s1)
              | (True, s1) \<Rightarrow> reconcile_stray_releases s1 (ev_child_pid r) fd_resource_class
                                (le_resource_id e)))"

text \<open>The loop over the entries that existed before the fork: \<open>n\<close> of them left, from \<open>i\<close> on.\<close>

fun fork_from ::
  "event_record \<Rightarrow> nat \<Rightarrow> nat \<Rightarrow> lifecycle_state \<Rightarrow> (bool \<times> lifecycle_state) option" where
  "fork_from r 0 i s = Some (True, s)"
| "fork_from r (Suc n) i s =
     (case fork_step r i s of
        None \<Rightarrow> None
      | Some (False, s1) \<Rightarrow> Some (False, s1)
      | Some (True, s1) \<Rightarrow> fork_from r n (Suc i) s1)"

definition ingest_fork ::
  "lifecycle_state \<Rightarrow> event_record \<Rightarrow> (bool \<times> lifecycle_state) option" where
  "ingest_fork s r =
     (if ev_pid r < 0 \<or> ev_child_pid r < 0 \<or> ev_pid r = ev_child_pid r then Some (True, s)
      else fork_from r (length (lm_entries (fst s))) 0 s)"

subsection \<open>Exec\<close>

definition exec_record :: "event_record \<Rightarrow> event_record" where
  "exec_record r =
     r\<lparr>ev_resource_kind := RESOURCE_RELEASE, ev_resource_class := Some fd_resource_class,
       ev_resource_id := Some (format_fd_identifier (ev_fd r))\<rparr>"

definition ingest_exec :: "lifecycle_state \<Rightarrow> event_record \<Rightarrow> bool \<times> lifecycle_state" where
  "ingest_exec s r =
     (case s of (m, w) \<Rightarrow>
        case find_latest m (ev_pid r) fd_resource_class (format_fd_identifier (ev_fd r)) True of
          None \<Rightarrow> (True, s)
        | Some i \<Rightarrow>
            if ev_cloexec r = 0
            then add_finding s FINDING_EXEC_INHERIT (exec_record r) (Some (lm_entries m ! i))
            else (case release_entry s (exec_record r) of
                    (False, s1) \<Rightarrow> (False, s1)
                  | (True, m1, w1) \<Rightarrow>
                      (True, m1\<lparr>lm_entries := (lm_entries m1)
                         [i := (lm_entries m1 ! i)\<lparr>le_exec_pending := True\<rparr>]\<rparr>, w1)))"

definition revive_entry :: "lifecycle_entry \<Rightarrow> lifecycle_entry" where
  "revive_entry e = e\<lparr>le_released_function_name := None, le_released_file_name := None,
     le_released_context_id := 0, le_released_sequence := 0, le_released_monotonic_ns := 0,
     le_released_monotonic_ns_available := False, le_released_line_number := 0,
     le_live := True, le_exec_pending := False\<rparr>"

text \<open>The findings are compacted in place, in order.\<close>

definition rollback_exec :: "lifecycle_model \<Rightarrow> int \<Rightarrow> lifecycle_model" where
  "rollback_exec m pid =
     m\<lparr>lm_entries := map (\<lambda>e. if le_pid e \<noteq> pid \<or> \<not> le_exec_pending e then e
                              else revive_entry e) (lm_entries m),
       lm_findings := filter (\<lambda>f. \<not> (lf_pid f = pid \<and> lf_exec_pending f)) (lm_findings m)\<rparr>"

subsection \<open>Ingestion\<close>

definition ingest_kind ::
  "record_lib \<Rightarrow> lifecycle_state \<Rightarrow> event_record \<Rightarrow> (bool \<times> lifecycle_state) option" where
  "ingest_kind L s r =
     (case ev_record_kind r of
        RECORD_RESOURCE \<Rightarrow> Some (ingest_resource s r)
      | RECORD_FD \<Rightarrow> Some (ingest_fd s r)
      | RECORD_ALLOC \<Rightarrow> Some (ingest_allocation L s r)
      | RECORD_FORK \<Rightarrow> ingest_fork s r
      | RECORD_EXEC \<Rightarrow> Some (ingest_exec s r)
      | RECORD_EXEC_FAIL \<Rightarrow> Some (True, rollback_exec (fst s) (ev_pid r), snd s)
      | _ \<Rightarrow> Some (False, fst s, raise_check (snd s)))"

definition record_admissible :: "record_lib \<Rightarrow> event_record \<Rightarrow> bool" where
  "record_admissible L r \<longleftrightarrow>
     ev_version r = log_version L \<and>
     (case ev_run_id r of None \<Rightarrow> False | Some rid \<Rightarrow> rid \<noteq> [] \<and> length rid \<le> run_id_max L)"

definition lifecycle_ingest ::
  "record_lib \<Rightarrow> lifecycle_model option \<times> world \<Rightarrow> event_record option \<Rightarrow>
   (bool \<times> lifecycle_model option \<times> world) option" where
  "lifecycle_ingest L s record =
     (case (s, record) of
        ((Some m, w), Some r) \<Rightarrow>
          if \<not> record_admissible L r then Some (False, Some m, raise_check w)
          else if lm_run_id m \<noteq> [] \<and> lm_run_id m \<noteq> the (ev_run_id r)
          then Some (False, Some m, raise_check w)
          else (case ingest_kind L (m\<lparr>lm_finished := False\<rparr>, w) r of
                  None \<Rightarrow> None
                | Some (b, m1, w1) \<Rightarrow>
                    Some (b, Some (if b \<and> lm_run_id m1 = []
                                   then m1\<lparr>lm_run_id := the (ev_run_id r)\<rparr> else m1), w1))
      | ((m, w), _) \<Rightarrow> Some (False, m, raise_check w))"

subsection \<open>Finishing\<close>

text \<open>The loop of \<open>lifecycle_finish\<close>: \<open>n\<close> entries left, from \<open>i\<close> on.\<close>

fun finish_from :: "nat \<Rightarrow> nat \<Rightarrow> lifecycle_state \<Rightarrow> bool \<times> lifecycle_state" where
  "finish_from 0 i s = (True, s)"
| "finish_from (Suc n) i (m, w) =
     (let e = (lm_entries m ! i)\<lparr>le_exec_pending := False\<rparr>;
          m1 = m\<lparr>lm_entries := (lm_entries m)[i := e]\<rparr>
      in if \<not> le_live e then finish_from n (Suc i) (m1, w)
         else (case add_leak_finding (m1, w) e of
                 (False, s2) \<Rightarrow> (False, s2)
               | (True, s2) \<Rightarrow> finish_from n (Suc i) s2))"

definition lifecycle_finish ::
  "lifecycle_model option \<times> world \<Rightarrow> bool \<times> lifecycle_model option \<times> world" where
  "lifecycle_finish s =
     (case s of
        (None, w) \<Rightarrow> (False, None, raise_check w)
      | (Some m, w) \<Rightarrow>
          if lm_finished m then (True, Some m, w)
          else (case finish_from (length (lm_entries m)) 0 (m, w) of
                  (False, m1, w1) \<Rightarrow> (False, Some m1, w1)
                | (True, m1, w1) \<Rightarrow>
                    (True, Some (m1\<lparr>lm_findings := map (\<lambda>f. f\<lparr>lf_exec_pending := False\<rparr>)
                                      (lm_findings m1), lm_finished := True\<rparr>), w1)))"

subsection \<open>Accessors\<close>

definition lifecycle_entry_count :: "lifecycle_model option \<Rightarrow> nat" where
  "lifecycle_entry_count m = (case m of None \<Rightarrow> 0 | Some m \<Rightarrow> length (lm_entries m))"

definition lifecycle_entry_at :: "lifecycle_model option \<Rightarrow> nat \<Rightarrow> lifecycle_entry option" where
  "lifecycle_entry_at m i = (case m of None \<Rightarrow> None
     | Some m \<Rightarrow> if length (lm_entries m) \<le> i then None else Some (lm_entries m ! i))"

definition lifecycle_finding_count :: "lifecycle_model option \<Rightarrow> nat" where
  "lifecycle_finding_count m = (case m of None \<Rightarrow> 0 | Some m \<Rightarrow> length (lm_findings m))"

definition lifecycle_finding_at :: "lifecycle_model option \<Rightarrow> nat \<Rightarrow> lifecycle_finding option" where
  "lifecycle_finding_at m i = (case m of None \<Rightarrow> None
     | Some m \<Rightarrow> if length (lm_findings m) \<le> i then None else Some (lm_findings m ! i))"

end
