(* ===== verification/Lifecycle_Facts.thy ===== *)
theory Lifecycle_Facts
  imports Lifecycle
begin

section \<open>Invariants and totality of the lifecycle model\<close>

text \<open>
  \<open>store_ok\<close> is the invariant of the two arrays: an entry that is live carries no trace of
  a release (so a rollback restores it exactly), an entry that is not live or has a release
  sequence has the names of its release and a finding with a previous event has its names (so
  no NULL text is ever copied or written), and both arrays fit. Every operation keeps it, and
  every ingestion ends.
\<close>

definition entry_ok :: "lifecycle_entry \<Rightarrow> bool" where
  "entry_ok e \<longleftrightarrow> (le_live e \<longrightarrow> revive_entry e = e) \<and>
     (le_released_sequence e \<noteq> 0 \<or> \<not> le_live e \<longrightarrow>
        le_released_function_name e \<noteq> None \<and> le_released_file_name e \<noteq> None)"

definition finding_ok :: "lifecycle_finding \<Rightarrow> bool" where
  "finding_ok f \<longleftrightarrow> (lf_previous_sequence f \<noteq> 0 \<longrightarrow>
     lf_previous_function_name f \<noteq> None \<and> lf_previous_file_name f \<noteq> None)"

definition store_ok :: "lifecycle_model \<Rightarrow> bool" where
  "store_ok m \<longleftrightarrow> (\<forall>e \<in> set (lm_entries m). entry_ok e) \<and> (\<forall>f \<in> set (lm_findings m). finding_ok f) \<and>
     entries_fit m \<and> findings_fit m"

lemma finding_ok_new [simp]: "finding_ok (new_finding k r p)" "finding_ok (leak_finding e)"
  by (cases p) (simp_all add: finding_ok_def new_finding_def leak_finding_def)

lemma finding_ok_pending [simp]: "finding_ok (f\<lparr>lf_exec_pending := x\<rparr>) = finding_ok f"
  by (simp add: finding_ok_def)

lemma entry_ok_new [simp]: "entry_ok (new_entry r rid)"
  by (simp add: entry_ok_def new_entry_def revive_entry_def)

lemma entry_ok_released [simp]: "entry_ok (released_by r e)"
  by (simp add: entry_ok_def released_by_def)

lemma entry_ok_revived [simp]: "entry_ok (revive_entry e)"
  by (simp add: entry_ok_def revive_entry_def)

lemma entry_ok_pending:
  "entry_ok e \<Longrightarrow> \<not> le_live e \<Longrightarrow> entry_ok (e\<lparr>le_exec_pending := p\<rparr>)"
  by (simp add: entry_ok_def)

lemma entry_ok_not_pending: "entry_ok e \<Longrightarrow> entry_ok (e\<lparr>le_exec_pending := False\<rparr>)"
  by (cases e) (auto simp: entry_ok_def revive_entry_def)

lemma store_ok_replace:
  "store_ok m \<Longrightarrow> entry_ok e \<Longrightarrow> store_ok (m\<lparr>lm_entries := (lm_entries m)[i := e]\<rparr>)"
  by (auto simp: store_ok_def dest: subsetD [OF set_update_subset_insert])

lemma store_ok_frame [simp]:
  "store_ok (m\<lparr>lm_finished := d\<rparr>) = store_ok m" "store_ok (m\<lparr>lm_run_id := x\<rparr>) = store_ok m"
  by (simp_all add: store_ok_def)

subsection \<open>Keys\<close>

text \<open>
  The resource an entry is about never changes and entries are never removed: the list of
  keys only grows.
\<close>

type_synonym resource_key = "int \<times> string \<times> string"

definition entry_key :: "lifecycle_entry \<Rightarrow> resource_key" where
  "entry_key e = (le_pid e, le_resource_class e, le_resource_id e)"

definition known :: "lifecycle_model \<Rightarrow> resource_key set" where
  "known m = entry_key ` set (lm_entries m)"

lemma entry_key_updates [simp]:
  "entry_key (released_by r e) = entry_key e" "entry_key (revive_entry e) = entry_key e"
  "entry_key (e\<lparr>le_exec_pending := p\<rparr>) = entry_key e"
  by (simp_all add: entry_key_def released_by_def revive_entry_def)

lemma entry_matches_key:
  "entry_matches pid cls rid lo e \<longleftrightarrow> entry_key e = (pid, cls, rid) \<and> (\<not> lo \<or> le_live e)"
  by (auto simp: entry_matches_def entry_key_def)

lemma find_latest_known: "find_latest m pid cls rid False \<noteq> None \<longleftrightarrow> (pid, cls, rid) \<in> known m"
  by (auto simp: find_latest_None known_def entry_matches_key intro: rev_image_eqI)

lemma known_replace:
  assumes "i < length (lm_entries m)" and "entry_key e = entry_key (lm_entries m ! i)"
  shows "known (m\<lparr>lm_entries := (lm_entries m)[i := e]\<rparr>) = known m"
proof -
  have "map entry_key ((lm_entries m)[i := e]) = map entry_key (lm_entries m)"
    using assms by (simp add: map_update list_update_same_conv)
  then show ?thesis by (simp add: known_def flip: set_map)
qed

lemma known_frame [simp]:
  "known (m\<lparr>lm_findings := fs\<rparr>) = known m" "known (m\<lparr>lm_finding_capacity := c\<rparr>) = known m"
  "known (m\<lparr>lm_entry_capacity := c\<rparr>) = known m" "known (m\<lparr>lm_finished := d\<rparr>) = known m"
  by (simp_all add: known_def)

subsection \<open>The steps keep the invariant\<close>

lemma add_entry_ok:
  assumes "store_ok m" and "add_entry (m, w) r rid = (b, m', w')"
  shows "store_ok m'"
  using assms by (elim add_entry_effect) (auto simp: store_ok_def)

lemma add_finding_ok:
  assumes "store_ok m" and "add_finding (m, w) k r p = (b, m', w')"
  shows "store_ok m'"
  using assms by (elim add_finding_effect) (auto simp: store_ok_def)

lemma add_leak_finding_ok:
  assumes "store_ok m" and "add_leak_finding (m, w) e = (b, m', w')"
  shows "store_ok m'"
  using assms by (elim add_leak_finding_effect) (auto simp: store_ok_def)

lemma release_entry_ok:
  assumes "store_ok m" and "release_entry (m, w) r = (b, m', w')"
  shows "store_ok m'"
proof (cases "find_latest m (ev_pid r) (the (ev_resource_class r)) (the (ev_resource_id r)) True")
  case (Some i)
  from release_entry_live [OF Some assms(2)] assms(1) show ?thesis
    by (simp add: store_ok_replace)
next
  case None
  from release_entry_not_live [OF None] assms show ?thesis
    by (auto simp: Let_def intro: add_finding_ok)
qed

lemmas store_step_ok = add_entry_ok add_finding_ok release_entry_ok

lemma ingest_resource_ok:
  assumes "store_ok m" and "ingest_resource (m, w) r = (b, m', w')"
  shows "store_ok m'"
  using assms
  by (auto simp: ingest_resource_def split: option.splits resource_kind.splits if_splits
      prod.splits bool.splits dest: store_step_ok)

lemma ingest_fd_ok:
  "store_ok m \<Longrightarrow> ingest_fd (m, w) r = (b, m', w') \<Longrightarrow> store_ok m'"
  unfolding ingest_fd_def by (rule ingest_resource_ok)

lemma ingest_allocation_ok:
  assumes "store_ok m" and "ingest_allocation L (m, w) r = (b, m', w')"
  shows "store_ok m'"
  using assms
  by (auto simp: ingest_allocation_def Let_def split: option.splits alloc_kind.splits if_splits
      prod.splits bool.splits dest: add_finding_ok ingest_resource_ok)

lemma ingest_exec_ok:
  assumes "store_ok m" and "ingest_exec (m, w) r = (b, m', w')"
  shows "store_ok m'"
proof (cases "find_latest m (ev_pid r) fd_resource_class (format_fd_identifier (ev_fd r)) True")
  case None
  with assms show ?thesis by (simp add: ingest_exec_def)
next
  case (Some i)
  show ?thesis
  proof (cases "ev_cloexec r = 0")
    case True
    with Some assms show ?thesis by (simp add: ingest_exec_def add_finding_ok)
  next
    case False
    obtain b1 m1 w1 where rel: "release_entry (m, w) (exec_record r) = (b1, m1, w1)"
      by (rule prod_cases3)
    have live: "find_latest m (ev_pid (exec_record r)) (the (ev_resource_class (exec_record r)))
        (the (ev_resource_id (exec_record r))) True = Some i"
      using Some by (simp add: exec_record_def)
    have m1: "store_ok m1" using assms(1) rel by (rule release_entry_ok)
    have "b1 \<Longrightarrow> entry_ok ((lm_entries m1 ! i)\<lparr>le_exec_pending := True\<rparr>)"
      using release_entry_live [OF live rel] find_latest_Some [OF Some]
      by (simp add: entry_ok_pending released_by_def [of _ "lm_entries m ! i"] entry_ok_def)
    with False Some rel m1 assms(2) show ?thesis
      by (auto simp: ingest_exec_def store_ok_replace split: bool.splits)
  qed
qed

lemma rollback_exec_ok: "store_ok m \<Longrightarrow> store_ok (rollback_exec m pid)"
  by (auto simp: store_ok_def rollback_exec_def intro: fits_filter)

text \<open>No step touches the run identity.\<close>

lemma add_entry_run: "add_entry (m, w) r rid = (b, m', w') \<Longrightarrow> lm_run_id m' = lm_run_id m"
  by (elim add_entry_effect) simp

lemma add_finding_run: "add_finding (m, w) k r p = (b, m', w') \<Longrightarrow> lm_run_id m' = lm_run_id m"
  by (elim add_finding_effect) simp

lemma release_entry_run:
  assumes "release_entry (m, w) r = (b, m', w')"
  shows "lm_run_id m' = lm_run_id m"
proof (cases "find_latest m (ev_pid r) (the (ev_resource_class r)) (the (ev_resource_id r)) True")
  case (Some i)
  from release_entry_live [OF Some assms] show ?thesis by simp
next
  case None
  from release_entry_not_live [OF None] assms show ?thesis
    by (auto simp: Let_def intro: add_finding_run)
qed

lemma ingest_resource_run:
  assumes "ingest_resource (m, w) r = (b, m', w')"
  shows "lm_run_id m' = lm_run_id m"
  using assms
  by (auto simp: ingest_resource_def split: option.splits resource_kind.splits if_splits
      prod.splits bool.splits dest!: add_entry_run add_finding_run release_entry_run)

lemma ingest_allocation_run:
  assumes "ingest_allocation L (m, w) r = (b, m', w')"
  shows "lm_run_id m' = lm_run_id m"
  using assms
  by (auto simp: ingest_allocation_def Let_def split: option.splits alloc_kind.splits if_splits
      prod.splits bool.splits dest!: add_finding_run ingest_resource_run)

lemma ingest_exec_run:
  assumes "ingest_exec (m, w) r = (b, m', w')"
  shows "lm_run_id m' = lm_run_id m"
  using assms
  by (auto simp: ingest_exec_def split: option.splits if_splits prod.splits bool.splits
      dest!: add_finding_run release_entry_run)

lemmas run_kept = add_entry_run add_finding_run release_entry_run ingest_resource_run
  ingest_allocation_run ingest_exec_run

subsection \<open>Reconciliation ends\<close>

definition stray_count :: "lifecycle_model \<Rightarrow> int \<Rightarrow> string \<Rightarrow> string \<Rightarrow> nat" where
  "stray_count m pid cls rid = length (filter (stray_matches pid cls rid) (lm_findings m))"

lemma filter_remove_at:
  assumes "first_index P xs = Some i"
  shows "filter Q (remove_at i xs) = filter Q (take i xs) @ filter Q (drop (Suc i) xs)"
    and "length (filter P xs) = Suc (length (filter P (remove_at i xs)))"
proof -
  from assms have i: "i < length xs" "P (xs ! i)" by (simp_all add: first_index_Some)
  show "filter Q (remove_at i xs) = filter Q (take i xs) @ filter Q (drop (Suc i) xs)"
    by (simp add: remove_at_def)
  have "xs = take i xs @ xs ! i # drop (Suc i) xs" by (rule id_take_nth_drop [OF i(1)])
  then have "filter P xs = filter P (take i xs) @ xs ! i # filter P (drop (Suc i) xs)"
    by (metis filter.simps(2) filter_append i(2))
  then show "length (filter P xs) = Suc (length (filter P (remove_at i xs)))"
    by (simp add: remove_at_def)
qed

lemma take_stray_effect:
  assumes "take_stray_release m pid cls rid = Some (f, m1)"
  shows "stray_matches pid cls rid f" and "known m1 = known m"
    and "stray_count m pid cls rid = Suc (stray_count m1 pid cls rid)"
    and "store_ok m \<Longrightarrow> store_ok m1" and "lm_run_id m1 = lm_run_id m"
proof -
  from assms obtain i where i: "first_index (stray_matches pid cls rid) (lm_findings m) = Some i"
    and f: "f = lm_findings m ! i" and m1: "m1 = m\<lparr>lm_findings := remove_at i (lm_findings m)\<rparr>"
    by (auto simp: take_stray_release_def split: option.splits)
  from i f show "stray_matches pid cls rid f" by (simp add: first_index_Some)
  from m1 show "known m1 = known m" "lm_run_id m1 = lm_run_id m" by simp_all
  from filter_remove_at(2) [OF i] m1
  show "stray_count m pid cls rid = Suc (stray_count m1 pid cls rid)"
    by (simp add: stray_count_def)
  from first_index_bound [OF i] m1 show "store_ok m \<Longrightarrow> store_ok m1"
    by (auto simp: store_ok_def fits_def remove_at_def dest: in_set_takeD in_set_dropD)
qed

lemma release_known:
  assumes "release_entry (m, w) (release_record f) = (b, m', w')" and "stray_matches pid cls rid f"
    and "(pid, cls, rid) \<in> known m"
  shows "known m' = known m" and "stray_count m' pid cls rid = stray_count m pid cls rid"
proof -
  have rr: "ev_pid (release_record f) = pid" "the (ev_resource_class (release_record f)) = cls"
    "the (ev_resource_id (release_record f)) = rid"
    using assms(2) by (simp_all add: release_record_def zero_record_def stray_matches_def)
  have "known m' = known m \<and> stray_count m' pid cls rid = stray_count m pid cls rid"
  proof (cases "find_latest m pid cls rid True")
    case (Some i)
    from release_entry_live [OF _ assms(1)] Some find_latest_Some [OF Some] show ?thesis
      by (auto simp: rr known_replace stray_count_def)
  next
    case None
    from assms(3) obtain j where j: "find_latest m pid cls rid False = Some j"
      by (auto simp flip: find_latest_known)
    from release_entry_not_live [of m "release_record f" w] None j assms(1)
    have "add_finding (m, w) FINDING_DOUBLE_RELEASE (release_record f) (Some (lm_entries m ! j))
        = (b, m', w')"
      by (simp add: rr)
    then show ?thesis
      by (elim add_finding_effect)
         (simp add: stray_count_def stray_matches_def new_finding_def)
  qed
  then show "known m' = known m" "stray_count m' pid cls rid = stray_count m pid cls rid"
    by simp_all
qed

lemma reconcile_total:
  assumes "(pid, cls, rid) \<in> known (fst s)"
  shows "\<exists>b s'. reconcile_stray_releases s pid cls rid = Some (b, s') \<and>
    known (fst s') = known (fst s) \<and> (store_ok (fst s) \<longrightarrow> store_ok (fst s')) \<and>
    (b \<longrightarrow> stray_count (fst s') pid cls rid = 0) \<and> lm_run_id (fst s') = lm_run_id (fst s)"
  using assms
proof (induction "stray_count (fst s) pid cls rid" arbitrary: s rule: less_induct)
  case less
  obtain m w where s: "s = (m, w)" by (cases s)
  show ?case
  proof (cases "take_stray_release m pid cls rid")
    case None
    then have "stray_count m pid cls rid = 0"
      by (auto simp: take_stray_release_def stray_count_def first_index_None filter_empty_conv
          split: option.splits)
    with None show ?thesis
      by (subst reconcile_stray_releases.simps) (auto simp: s intro!: exI [where x = True])
  next
    case (Some fm)
    obtain f m1 where fm: "fm = (f, m1)" by (cases fm)
    note tk = take_stray_effect [OF Some [unfolded fm]]
    obtain b m2 w2 where rel: "release_entry (m1, w) (release_record f) = (b, m2, w2)"
      by (rule prod_cases3)
    have k1: "(pid, cls, rid) \<in> known m1" using less.prems tk(2) by (simp add: s)
    note rk = release_known [OF rel tk(1) k1]
    have ok: "store_ok m \<longrightarrow> store_ok m2" using tk(4) release_entry_ok [OF _ rel] by blast
    have run: "lm_run_id m2 = lm_run_id m" using tk(5) release_entry_run [OF rel] by simp
    show ?thesis
    proof (cases b)
      case False
      with Some fm rel rk tk ok run show ?thesis
        by (subst reconcile_stray_releases.simps) (auto simp: s intro!: exI [where x = False])
    next
      case True
      have "stray_count (fst (m2, w2)) pid cls rid < stray_count (fst s) pid cls rid"
        using tk(3) rk(2) by (simp add: s)
      moreover have "(pid, cls, rid) \<in> known (fst (m2, w2))" using k1 rk(1) by simp
      ultimately have "\<exists>b s'. reconcile_stray_releases (m2, w2) pid cls rid = Some (b, s') \<and>
          known (fst s') = known m2 \<and> (store_ok m2 \<longrightarrow> store_ok (fst s')) \<and>
          (b \<longrightarrow> stray_count (fst s') pid cls rid = 0) \<and> lm_run_id (fst s') = lm_run_id m2"
        using less.hyps [of "(m2, w2)"] by simp
      with True Some fm rel rk tk ok run show ?thesis
        by (subst reconcile_stray_releases.simps) (auto simp: s)
    qed
  qed
qed

subsection \<open>A fork ends\<close>

lemma known_mono_add_entry: "add_entry (m, w) r rid = (b, m', w') \<Longrightarrow> known m \<subseteq> known m'"
  by (elim add_entry_effect) (auto simp: known_def)

lemma add_entry_known:
  "add_entry (m, w) r rid = (True, m', w') \<Longrightarrow>
     (ev_pid r, the (ev_resource_class r), rid) \<in> known m'"
  by (elim add_entry_effect) (auto simp: known_def new_entry_def entry_key_def)

text \<open>A routine ends, keeps the invariant and the run identity and forgets no resource.\<close>

definition ends_well :: "lifecycle_model \<Rightarrow> (bool \<times> lifecycle_state) option \<Rightarrow> bool" where
  "ends_well m res =
     (case res of None \<Rightarrow> False
      | Some (b, m', w') \<Rightarrow> (store_ok m \<longrightarrow> store_ok m') \<and> known m \<subseteq> known m' \<and>
          lm_run_id m' = lm_run_id m)"

lemma ends_well_refl [simp]: "ends_well m (Some (b, m, w))"
  by (simp add: ends_well_def)

lemma ends_well_trans:
  "store_ok m \<longrightarrow> store_ok m1 \<Longrightarrow> known m \<subseteq> known m1 \<Longrightarrow> lm_run_id m1 = lm_run_id m \<Longrightarrow> ends_well m1 res \<Longrightarrow> ends_well m res"
  by (auto simp: ends_well_def split: option.splits)

lemma ends_well_reconcile:
  assumes "(pid, cls, rid) \<in> known m"
  shows "ends_well m (reconcile_stray_releases (m, w) pid cls rid)"
  using reconcile_total [of pid cls rid "(m, w)"] assms by (auto simp: ends_well_def)

lemma fork_step_total: "ends_well m (fork_step r i (m, w))"
proof -
  let ?e = "lm_entries m ! i"
  let ?r = "inherited_record r ?e"
  obtain b m1 w1 where add: "add_entry (m, w) ?r (le_resource_id ?e) = (b, m1, w1)"
    by (rule prod_cases3)
  note trans = ends_well_trans [OF _ known_mono_add_entry [OF add] add_entry_run [OF add]]
  have ok: "store_ok m \<longrightarrow> store_ok m1" using add_entry_ok [OF _ add] by blast
  have "ends_well m (Some (False, m1, w1))" by (rule trans [OF ok ends_well_refl])
  moreover have "ends_well m (reconcile_stray_releases (m1, w1) (ev_child_pid r) fd_resource_class
      (le_resource_id ?e))" if "b"
  proof (rule trans [OF ok ends_well_reconcile])
    show "(ev_child_pid r, fd_resource_class, le_resource_id ?e) \<in> known m1"
      using add_entry_known [of m w ?r "le_resource_id ?e" m1 w1] add that
      by (simp add: inherited_record_def)
  qed
  ultimately show ?thesis
    by (simp add: fork_step_def Let_def add split: bool.split)
qed

lemma fork_from_total: "ends_well m (fork_from r n i (m, w))"
proof (induction n arbitrary: i m w)
  case (Suc n)
  show ?case
  proof (cases "fork_step r i (m, w)")
    case None
    with fork_step_total [of m r i w] show ?thesis by (simp add: ends_well_def)
  next
    case (Some res)
    obtain b m1 w1 where res: "res = (b, m1, w1)" by (rule prod_cases3)
    with Some fork_step_total [of m r i w]
    have "store_ok m \<longrightarrow> store_ok m1" "known m \<subseteq> known m1" "lm_run_id m1 = lm_run_id m"
      by (simp_all add: ends_well_def)
    with Suc.IH [of m1 "Suc i" w1] Some res show ?thesis
      by (cases b) (auto intro: ends_well_trans)
  qed
qed simp

lemma ingest_kind_total:
  "\<exists>b m' w'. ingest_kind L (m, w) r = Some (b, m', w') \<and> (store_ok m \<longrightarrow> store_ok m') \<and>
     lm_run_id m' = lm_run_id m"
proof (cases "ev_record_kind r = RECORD_FORK")
  case True
  have "ends_well m (ingest_fork (m, w) r)" by (simp add: ingest_fork_def fork_from_total)
  with True show ?thesis by (auto simp: ingest_kind_def ends_well_def split: option.splits)
next
  case False
  have "ingest_kind L (m, w) r \<noteq> None"
    using False by (cases "ev_record_kind r") (simp_all add: ingest_kind_def)
  then obtain b m' w' where res: "ingest_kind L (m, w) r = Some (b, m', w')"
    by (metis not_None_eq prod.exhaust)
  have "store_ok m \<Longrightarrow> store_ok m'"
    using res False
    by (auto simp: ingest_kind_def rollback_exec_ok split: record_kind.splits
        dest: ingest_resource_ok ingest_fd_ok ingest_allocation_ok ingest_exec_ok)
  moreover have "lm_run_id m' = lm_run_id m"
    using res False
    by (auto simp: ingest_kind_def rollback_exec_def ingest_fd_def split: record_kind.splits
        dest!: run_kept)
  ultimately show ?thesis using res by blast
qed

subsection \<open>Finishing\<close>

definition settled :: "lifecycle_entry \<Rightarrow> lifecycle_entry" where
  "settled e = e\<lparr>le_exec_pending := False\<rparr>"

definition leaks :: "lifecycle_entry list \<Rightarrow> lifecycle_finding list" where
  "leaks es = map leak_finding (filter le_live es)"

lemma leak_finding_settled [simp]: "leak_finding (settled e) = leak_finding e"
  by (simp add: leak_finding_def settled_def)

lemma settled_live [simp]: "le_live (settled e) = le_live e"
  by (simp add: settled_def)

lemma finish_from_step:
  "finish_from (Suc n) i (m, w) =
     (let e = settled (lm_entries m ! i); m1 = m\<lparr>lm_entries := (lm_entries m)[i := e]\<rparr>
      in if \<not> le_live e then finish_from n (Suc i) (m1, w)
         else (case add_leak_finding (m1, w) e of
                 (False, s2) \<Rightarrow> (False, s2)
               | (True, s2) \<Rightarrow> finish_from n (Suc i) s2))"
  by (simp add: settled_def)

declare finish_from.simps(2) [simp del]

lemma finish_from_ok:
  assumes "store_ok m" and "finish_from n i (m, w) = (b, m', w')" and "i + n = length (lm_entries m)"
  shows "store_ok m'"
  using assms
proof (induction n arbitrary: i m w)
  case (Suc n)
  let ?e = "settled (lm_entries m ! i)"
  let ?m1 = "m\<lparr>lm_entries := (lm_entries m)[i := ?e]\<rparr>"
  have "entry_ok (lm_entries m ! i)" using Suc.prems by (simp add: store_ok_def)
  then have m1: "store_ok ?m1"
    using Suc.prems(1) by (simp add: store_ok_replace entry_ok_not_pending settled_def)
  show ?case
  proof (cases "le_live ?e")
    case False
    with Suc.prems Suc.IH [OF m1] show ?thesis by (simp add: finish_from_step Let_def)
  next
    case True
    obtain b2 m2 w2 where leak: "add_leak_finding (?m1, w) ?e = (b2, m2, w2)"
      by (rule prod_cases3)
    have m2: "store_ok m2" by (rule add_leak_finding_ok [OF m1 leak])
    have "length (lm_entries m2) = length (lm_entries m)"
      by (rule add_leak_finding_effect [OF leak]) simp
    with True leak m2 Suc.prems Suc.IH [OF m2] show ?thesis
      by (cases b2) (simp_all add: finish_from_step Let_def)
  qed
qed simp

lemma finish_from_result:
  assumes "finish_from n i (m, w) = (True, m', w')" and "i + n = length (lm_entries m)"
  shows "\<exists>c. m' = m\<lparr>lm_entries := take i (lm_entries m) @ map settled (drop i (lm_entries m)),
      lm_finding_capacity := c, lm_findings := lm_findings m @ leaks (drop i (lm_entries m))\<rparr>"
  using assms
proof (induction n arbitrary: i m w)
  case 0
  then show ?case by (auto simp: leaks_def intro!: exI [where x = "lm_finding_capacity m"])
next
  case (Suc n)
  let ?e = "settled (lm_entries m ! i)"
  let ?m1 = "m\<lparr>lm_entries := (lm_entries m)[i := ?e]\<rparr>"
  have i: "i < length (lm_entries m)" using Suc.prems(2) by simp
  have cut: "drop i (lm_entries m) = lm_entries m ! i # drop (Suc i) (lm_entries m)"
    by (rule Cons_nth_drop_Suc [symmetric, OF i])
  have front: "take (Suc i) ((lm_entries m)[i := ?e]) = take i (lm_entries m) @ [?e]"
    using i by (simp add: take_Suc_conv_app_nth)
  show ?case
  proof (cases "le_live ?e")
    case False
    with Suc.prems have "finish_from n (Suc i) (?m1, w) = (True, m', w')"
      by (simp add: finish_from_step Let_def)
    from Suc.IH [OF this] Suc.prems(2) False show ?thesis
      by (auto simp: front cut leaks_def)
  next
    case True
    with Suc.prems obtain m2 w2 where leak: "add_leak_finding (?m1, w) ?e = (True, m2, w2)"
      and rest: "finish_from n (Suc i) (m2, w2) = (True, m', w')"
      by (auto simp: finish_from_step Let_def split: prod.splits bool.splits)
    from leak obtain c where m2: "m2 = ?m1\<lparr>lm_finding_capacity := c,
        lm_findings := lm_findings m @ [leak_finding ?e]\<rparr>"
      by (elim add_leak_finding_effect) simp
    from Suc.IH [OF rest] Suc.prems(2) True show ?thesis
      by (auto simp: m2 front cut leaks_def)
  qed
qed

end
