(* ===== verification/Lifecycle_Ledger.thy ===== *)
theory Lifecycle_Ledger
  imports Lifecycle_Facts Ownership
begin

section \<open>The ledger: an abstract specification of the lifecycle\<close>

text \<open>
  Abstractly a run is a ledger: for each resource, how many holdings are open and whether it
  was ever held. \<open>ledger_step\<close> says what a resource, descriptor or allocation record does to
  the ledger and which findings it must produce. The lifecycle model implements it: every
  successful ingestion is the ledger's step (\<open>ledger_of\<close> is the abstraction function).
\<close>

record ledger =
  lg_held :: "resource_key \<Rightarrow> nat"
  lg_known :: "resource_key \<Rightarrow> bool"

type_synonym ledger_result = "ledger \<times> finding_kind list"

definition ledger_acquire :: "resource_key \<Rightarrow> ledger \<Rightarrow> ledger" where
  "ledger_acquire k l = l\<lparr>lg_held := (lg_held l)(k := lg_held l k + 1),
     lg_known := (lg_known l)(k := True)\<rparr>"

definition ledger_release :: "resource_key \<Rightarrow> ledger \<Rightarrow> ledger_result" where
  "ledger_release k l =
     (if 0 < lg_held l k then (l\<lparr>lg_held := (lg_held l)(k := lg_held l k - 1)\<rparr>, [])
      else (l, [if lg_known l k then FINDING_DOUBLE_RELEASE else FINDING_STRAY_RELEASE]))"

definition unowned_class :: "string \<Rightarrow> bool" where
  "unowned_class cls \<longleftrightarrow> cls = ''blocking-operation'' \<or> cls = ''pthread-terminal-attempt''"

definition ledger_resource ::
  "resource_kind \<Rightarrow> int \<Rightarrow> string \<Rightarrow> string \<Rightarrow> string option \<Rightarrow> ledger \<Rightarrow> ledger_result" where
  "ledger_resource kind pid cls rid related l =
     (if unowned_class cls then (l, [])
      else case kind of
        RESOURCE_ACQUIRE \<Rightarrow>
          (ledger_acquire (pid, cls, rid) l,
           if 0 < lg_held l (pid, cls, rid) then [FINDING_DUPLICATE_ACQUIRE] else [])
      | RESOURCE_RELEASE \<Rightarrow> ledger_release (pid, cls, rid) l
      | RESOURCE_USE \<Rightarrow> (l, if 0 < lg_held l (pid, cls, rid) then [] else [FINDING_INVALID_USE])
      | _ \<Rightarrow>
          if text_or [] related = [] then (l, [FINDING_BAD_REPLACE])
          else (case ledger_release (pid, cls, rid) l of
                  (l1, fs) \<Rightarrow> (ledger_acquire (pid, cls, the related) l1, fs)))"

definition ledger_allocation ::
  "alloc_kind \<Rightarrow> int \<Rightarrow> string option \<Rightarrow> string option \<Rightarrow> ledger \<Rightarrow> ledger_result" where
  "ledger_allocation kind pid p q l =
     (let k = (\<lambda>t. (pid, allocation_resource_class, the t)) in
      case kind of
        ALLOC_ALLOC \<Rightarrow> if p = None then (l, [])
          else ledger_resource RESOURCE_ACQUIRE pid allocation_resource_class (the p) None l
      | ALLOC_FREE \<Rightarrow> if p = None then (l, []) else ledger_release (k p) l
      | ALLOC_REALLOC \<Rightarrow>
          if p = None then
            (if q = None then (l, [])
             else ledger_resource RESOURCE_ACQUIRE pid allocation_resource_class (the q) None l)
          else if lg_held l (k p) = 0 then
            (if q = None then (l, [FINDING_BAD_REPLACE])
             else (case ledger_resource RESOURCE_ACQUIRE pid allocation_resource_class (the q) None l
                   of (l1, fs) \<Rightarrow> (l1, FINDING_BAD_REPLACE # fs)))
          else if q = None then (l, [])
          else ledger_resource RESOURCE_ACQUIRE pid allocation_resource_class (the q) None
                 (fst (ledger_release (k p) l)))"

text \<open>A pointer text that the library reads as a null pointer stands for no allocation.\<close>

definition pointer_of :: "record_lib \<Rightarrow> string option \<Rightarrow> string option" where
  "pointer_of L t = (if pointer_is_null L t then None else t)"

definition ledger_step :: "record_lib \<Rightarrow> event_record \<Rightarrow> ledger \<Rightarrow> ledger_result" where
  "ledger_step L r l =
     (case ev_record_kind r of
        RECORD_RESOURCE \<Rightarrow> ledger_resource (ev_resource_kind r) (ev_pid r)
          (the (ev_resource_class r)) (the (ev_resource_id r)) (ev_related_id r) l
      | RECORD_FD \<Rightarrow> ledger_resource
          (if ev_fd_kind r = FD_OPEN then RESOURCE_ACQUIRE else RESOURCE_RELEASE) (ev_pid r)
          fd_resource_class (signed_decimal (ev_fd r)) None l
      | RECORD_ALLOC \<Rightarrow> ledger_allocation (ev_alloc_kind r) (ev_pid r)
          (pointer_of L (ev_ptr r)) (pointer_of L (ev_new_ptr r)) l
      | _ \<Rightarrow> (l, []))"

subsection \<open>The abstraction function\<close>

definition held :: "lifecycle_model \<Rightarrow> resource_key \<Rightarrow> nat" where
  "held m k = length (filter (\<lambda>e. entry_key e = k \<and> le_live e) (lm_entries m))"

definition ledger_of :: "lifecycle_model \<Rightarrow> ledger" where
  "ledger_of m = \<lparr>lg_held = held m, lg_known = (\<lambda>k. k \<in> known m)\<rparr>"

definition kinds :: "lifecycle_model \<Rightarrow> finding_kind list" where
  "kinds m = map lf_kind (lm_findings m)"

text \<open>\<open>m'\<close> is reached from \<open>m\<close> by the abstract result \<open>res\<close>.\<close>

definition implements :: "lifecycle_model \<Rightarrow> lifecycle_model \<Rightarrow> ledger_result \<Rightarrow> bool" where
  "implements m m' res \<longleftrightarrow> ledger_of m' = fst res \<and> kinds m' = kinds m @ snd res"

lemma implements_refl [simp]: "implements m m (ledger_of m, [])"
  by (simp add: implements_def)

lemma implements_trans:
  "implements m m1 (l1, fs1) \<Longrightarrow> implements m1 m2 (l2, fs2) \<Longrightarrow> implements m m2 (l2, fs1 @ fs2)"
  by (simp add: implements_def)

lemma implements_ledger: "implements m m' res \<Longrightarrow> ledger_of m' = fst res"
  by (simp add: implements_def)

lemma ledger_sel [simp]:
  "lg_held (ledger_of m) = held m" "lg_known (ledger_of m) k = (k \<in> known m)"
  by (simp_all add: ledger_of_def)

lemma find_latest_held: "find_latest m pid cls rid True = None \<longleftrightarrow> held m (pid, cls, rid) = 0"
  by (auto simp: find_latest_None held_def entry_matches_key filter_empty_conv)

lemma count_replace:
  "i < length xs \<Longrightarrow> length (filter P (xs[i := x])) =
     length (filter P xs) - of_bool (P (xs ! i)) + of_bool (P x)"
proof (induction xs arbitrary: i)
  case (Cons a xs)
  show ?case
  proof (cases i)
    case (Suc j)
    have "P (xs ! j) \<Longrightarrow> 0 < length (filter P xs)"
      using Cons.prems Suc by (auto simp: filter_empty_conv)
    with Suc Cons show ?thesis by auto
  qed auto
qed simp

subsection \<open>The operations implement the ledger's\<close>

lemma add_finding_implements:
  assumes "add_finding (m, w) k r p = (True, m', w')"
  shows "implements m m' (ledger_of m, [k])"
  using assms by (elim add_finding_effect)
    (simp add: implements_def ledger_of_def held_def kinds_def new_finding_def fun_eq_iff)

lemma add_entry_implements:
  assumes "add_entry (m, w) r rid = (True, m', w')" and "ev_resource_class r = Some cls"
  shows "implements m m' (ledger_acquire (ev_pid r, cls, rid) (ledger_of m), [])"
  using assms by (elim add_entry_effect)
    (auto simp: implements_def ledger_acquire_def ledger_of_def held_def kinds_def known_def
      new_entry_def entry_key_def fun_eq_iff)

lemma release_entry_implements:
  assumes "release_entry (m, w) r = (True, m', w')"
    and "ev_resource_class r = Some cls" and "ev_resource_id r = Some rid"
  shows "implements m m' (ledger_release (ev_pid r, cls, rid) (ledger_of m))"
proof (cases "find_latest m (ev_pid r) cls rid True")
  case None
  then have zero: "held m (ev_pid r, cls, rid) = 0" by (simp add: find_latest_held)
  have "add_finding (m, w) (if find_latest m (ev_pid r) cls rid False = None
      then FINDING_STRAY_RELEASE else FINDING_DOUBLE_RELEASE) r
      (map_option (\<lambda>i. lm_entries m ! i) (find_latest m (ev_pid r) cls rid False)) = (True, m', w')"
    using release_entry_not_live [of m r w] assms None by (simp add: Let_def)
  from add_finding_implements [OF this] find_latest_known [of m "ev_pid r" cls rid]
  have "implements m m' (ledger_of m, [if (ev_pid r, cls, rid) \<in> known m
      then FINDING_DOUBLE_RELEASE else FINDING_STRAY_RELEASE])"
    by (cases "find_latest m (ev_pid r) cls rid False") simp_all
  with zero show ?thesis by (simp add: ledger_release_def)
next
  case (Some i)
  let ?k = "(ev_pid r, cls, rid)"
  have m': "m' = m\<lparr>lm_entries := (lm_entries m)[i := released_by r (lm_entries m ! i)]\<rparr>"
    using release_entry_live [of m r i w] assms Some by simp
  have i: "i < length (lm_entries m)" "entry_key (lm_entries m ! i) = ?k" "le_live (lm_entries m ! i)"
    using find_latest_Some [OF Some] by (simp_all add: entry_matches_key)
  have "held m' k = held m k - (if k = ?k then 1 else 0)" for k
    using i by (simp add: held_def m' count_replace) (simp add: released_by_def)
  moreover have "known m' = known m" using i by (simp add: m' known_replace)
  moreover have "held m ?k \<noteq> 0" using Some find_latest_held [of m "ev_pid r" cls rid] by simp
  ultimately show ?thesis
    by (auto simp: implements_def ledger_release_def ledger_of_def kinds_def m' fun_eq_iff)
qed

lemma ingest_resource_implements:
  assumes "ingest_resource (m, w) r = (True, m', w')"
  shows "implements m m' (ledger_resource (ev_resource_kind r) (ev_pid r)
    (the (ev_resource_class r)) (the (ev_resource_id r)) (ev_related_id r) (ledger_of m))"
proof -
  from assms obtain cls rid where names: "ev_resource_class r = Some cls" "ev_resource_id r = Some rid"
    by (auto simp: ingest_resource_def split: option.splits)
  show ?thesis
  proof (cases "unowned_class cls")
    case True
    with assms names show ?thesis
      by (auto simp: ingest_resource_def ledger_resource_def unowned_class_def)
  next
    case False
    let ?k = "(ev_pid r, cls, rid)"
    have owned: "\<not> (cls = ''blocking-operation'' \<or> cls = ''pthread-terminal-attempt'')"
      using False by (simp add: unowned_class_def)
    have bad: "implements m m' (ledger_of m, [FINDING_BAD_REPLACE])"
      if "add_finding (m, w) FINDING_BAD_REPLACE r p = (True, m', w')" for p
      by (rule add_finding_implements [OF that])
    have replace: "implements m m' (case ledger_release ?k (ledger_of m) of
        (l1, fs) \<Rightarrow> (ledger_acquire (ev_pid r, cls, related) l1, fs))"
      if "(case release_entry (m, w) r of (True, s1) \<Rightarrow> add_entry s1 r related
           | (False, s1) \<Rightarrow> (False, s1)) = (True, m', w')" for related
    proof -
      from that obtain m1 w1 where rel: "release_entry (m, w) r = (True, m1, w1)"
        and add: "add_entry (m1, w1) r related = (True, m', w')"
        by (auto split: prod.splits bool.splits)
      from release_entry_implements [OF rel names] add_entry_implements [OF add names(1)]
      show ?thesis by (simp add: implements_def split_beta)
    qed
    show ?thesis
    proof (cases "ev_resource_kind r")
      case RESOURCE_ACQUIRE
      show ?thesis
      proof (cases "find_latest m (ev_pid r) cls rid True")
        case None
        with RESOURCE_ACQUIRE assms names owned
        have "add_entry (m, w) r rid = (True, m', w')" by (simp add: ingest_resource_def)
        from add_entry_implements [OF this names(1)] None RESOURCE_ACQUIRE False
        show ?thesis by (simp add: ledger_resource_def names find_latest_held)
      next
        case (Some i)
        with RESOURCE_ACQUIRE assms names owned obtain m1 w1 where
          dup: "add_finding (m, w) FINDING_DUPLICATE_ACQUIRE r (Some (lm_entries m ! i)) = (True, m1, w1)"
          and add: "add_entry (m1, w1) r rid = (True, m', w')"
          by (auto simp: ingest_resource_def split: prod.splits bool.splits)
        have "held m ?k \<noteq> 0" using Some find_latest_held [of m "ev_pid r" cls rid] by simp
        with add_finding_implements [OF dup] add_entry_implements [OF add names(1)]
          RESOURCE_ACQUIRE False
        show ?thesis by (simp add: ledger_resource_def names implements_def)
      qed
    next
      case RESOURCE_RELEASE
      with assms names owned have "release_entry (m, w) r = (True, m', w')"
        by (simp add: ingest_resource_def)
      from release_entry_implements [OF this names] RESOURCE_RELEASE False show ?thesis
        by (simp add: ledger_resource_def names)
    next
      case RESOURCE_USE
      show ?thesis
      proof (cases "find_latest m (ev_pid r) cls rid True")
        case None
        with RESOURCE_USE assms names owned obtain p where
          "add_finding (m, w) FINDING_INVALID_USE r p = (True, m', w')"
          by (auto simp: ingest_resource_def)
        from add_finding_implements [OF this] None RESOURCE_USE False show ?thesis
          by (simp add: ledger_resource_def names find_latest_held)
      next
        case (Some i)
        have "held m ?k \<noteq> 0" using Some find_latest_held [of m "ev_pid r" cls rid] by simp
        with Some RESOURCE_USE assms names owned False show ?thesis
          by (simp add: ingest_resource_def ledger_resource_def)
      qed
    next
      case RESOURCE_REPLACE
      with assms names owned False show ?thesis
        by (cases "ev_related_id r")
           (auto simp: ingest_resource_def ledger_resource_def bad replace split: if_splits)
    next
      case RESOURCE_TRANSFER
      with assms names owned False show ?thesis
        by (cases "ev_related_id r")
           (auto simp: ingest_resource_def ledger_resource_def bad replace split: if_splits)
    qed
  qed
qed

end
