(* ===== verification/Lifecycle_Properties.thy ===== *)
theory Lifecycle_Properties
  imports Lifecycle_Ledger
begin

section \<open>Properties of the lifecycle model\<close>

text \<open>
  The statements about \<open>lifecycle_ingest\<close> and \<open>lifecycle_finish\<close>, each a few
  steps over the invariant (\<open>Lifecycle_Facts\<close>) and the ledger (\<open>Lifecycle_Ledger\<close>).
\<close>

lemmas record_frame = event_record.simps

lemma ingest_fd_implements:
  assumes "ingest_fd (m, w) r = (True, m', w')" and "ev_record_kind r = RECORD_FD"
  shows "implements m m' (ledger_step L r (ledger_of m))"
  using ingest_resource_implements [OF assms(1) [unfolded ingest_fd_def]] assms(2)
  by (simp add: ledger_step_def format_fd_identifier_def)

lemma allocation_owned: "\<not> unowned_class allocation_resource_class"
  by (simp add: unowned_class_def allocation_resource_class_def)

lemma as_allocation_implements:
  assumes "ingest_resource (m, w) (as_allocation r kind t) = (True, m', w')"
  shows "implements m m' (ledger_resource kind (ev_pid r) allocation_resource_class (the t) None
    (ledger_of m))"
  using ingest_resource_implements [OF assms] by (simp add: as_allocation_def)

lemma as_allocation_release_implements:
  assumes "ingest_resource (m, w) (as_allocation r RESOURCE_RELEASE t) = (True, m', w')"
  shows "implements m m' (ledger_release (ev_pid r, allocation_resource_class, the t) (ledger_of m))"
  using as_allocation_implements [OF assms] by (simp add: ledger_resource_def allocation_owned)

lemma ingest_allocation_implements:
  assumes "ingest_allocation L (m, w) r = (True, m', w')" and "ev_record_kind r = RECORD_ALLOC"
    and "pointer_is_null L None"
  shows "implements m m' (ledger_step L r (ledger_of m))"
proof -
  have some: "pointer_of L t = (if pointer_is_null L t then None else t)"
    "\<not> pointer_is_null L t \<Longrightarrow> \<exists>s. t = Some s" for t
    using assms(3) by (cases t; auto simp: pointer_of_def)+
  show ?thesis
  proof (cases "ev_alloc_kind r = ALLOC_REALLOC \<and> \<not> pointer_is_null L (ev_ptr r)")
    case False
    then show ?thesis
      using assms some(2) [of "ev_ptr r"] some(2) [of "ev_new_ptr r"]
      by (auto simp: ingest_allocation_def ledger_step_def ledger_allocation_def Let_def some(1)
          split: alloc_kind.splits if_splits
          dest: as_allocation_implements as_allocation_release_implements)
  next
    case True
    then obtain p where p: "ev_ptr r = Some p" using some(2) by blast
    let ?k = "(ev_pid r, allocation_resource_class, p)"
    show ?thesis
    proof (cases "find_latest m (ev_pid r) allocation_resource_class p True")
      case None
      then have zero: "held m ?k = 0" by (simp add: find_latest_held)
      obtain m1 w1 q where bad: "add_finding (m, w) FINDING_BAD_REPLACE
          (as_allocation r RESOURCE_REPLACE (ev_ptr r)) q = (True, m1, w1)"
        and rest: "if pointer_is_null L (ev_new_ptr r) then (m', w') = (m1, w1)
          else ingest_resource (m1, w1) (as_allocation r RESOURCE_ACQUIRE (ev_new_ptr r)) = (True, m', w')"
        using assms(1) True None p
        by (auto simp: ingest_allocation_def Let_def split: prod.splits if_splits)
      note step1 = add_finding_implements [OF bad]
      show ?thesis
      proof (cases "pointer_is_null L (ev_new_ptr r)")
        case new: True
        with rest step1 True p zero assms(2) show ?thesis
          by (simp add: ledger_step_def ledger_allocation_def some(1))
      next
        case new: False
        with rest have "implements m1 m' (ledger_resource RESOURCE_ACQUIRE (ev_pid r)
            allocation_resource_class (the (ev_new_ptr r)) None (ledger_of m1))"
          by (auto intro: as_allocation_implements)
        with step1 new True p zero assms(2) some(2) [of "ev_new_ptr r"] show ?thesis
          by (auto simp: ledger_step_def ledger_allocation_def some(1) implements_def split_beta)
      qed
    next
      case (Some i)
      then have held: "held m ?k \<noteq> 0"
        using find_latest_held [of m "ev_pid r" allocation_resource_class p] by simp
      show ?thesis
      proof (cases "pointer_is_null L (ev_new_ptr r)")
        case new: True
        with assms True Some p held show ?thesis
          by (simp add: ingest_allocation_def Let_def ledger_step_def ledger_allocation_def some(1))
      next
        case new: False
        obtain m1 w1 where
          rel: "ingest_resource (m, w) (as_allocation r RESOURCE_RELEASE (ev_ptr r)) = (True, m1, w1)"
          and acq: "ingest_resource (m1, w1) (as_allocation r RESOURCE_ACQUIRE (ev_new_ptr r))
            = (True, m', w')"
          using assms(1) True Some p new
          by (auto simp: ingest_allocation_def Let_def split: prod.splits bool.splits)
        from as_allocation_release_implements [OF rel] held p
        have "implements m m1 (fst (ledger_release ?k (ledger_of m)), [])"
          by (simp add: ledger_release_def)
        with as_allocation_implements [OF acq] new True p held assms(2) some(2) [of "ev_new_ptr r"]
        show ?thesis
          by (auto simp: ledger_step_def ledger_allocation_def some(1) implements_def)
      qed
    qed
  qed
qed

lemma held_frame [simp]:
  "held (m\<lparr>lm_finished := d\<rparr>) = held m" "held (m\<lparr>lm_run_id := x\<rparr>) = held m"
  by (simp_all add: held_def fun_eq_iff)

lemma implements_frame [simp]:
  "implements (m\<lparr>lm_finished := d\<rparr>) m' res = implements m m' res"
  "implements m (m'\<lparr>lm_run_id := x\<rparr>) res = implements m m' res"
  by (simp_all add: implements_def ledger_of_def kinds_def known_def)

lemma ledger_of_frame [simp]: "ledger_of (m\<lparr>lm_finished := d\<rparr>) = ledger_of m"
  by (simp add: ledger_of_def)

lemma ingest_kind_implements:
  assumes "ingest_kind L (m, w) r = Some (True, m', w')" and "pointer_is_null L None"
    and "ev_record_kind r \<in> {RECORD_RESOURCE, RECORD_FD, RECORD_ALLOC}"
  shows "implements m m' (ledger_step L r (ledger_of m))"
  using assms ingest_fd_implements [of m w r m' w' L] ingest_allocation_implements [of L m w r m' w']
    ingest_resource_implements [of m w r m' w']
  by (auto simp: ingest_kind_def ledger_step_def)

lemma lifecycle_ingest_success:
  assumes "lifecycle_ingest L (Some m, w) (Some r) = Some (True, Some m', w')"
  obtains m1 where "ingest_kind L (m\<lparr>lm_finished := False\<rparr>, w) r = Some (True, m1, w')"
    and "m' = (if lm_run_id m1 = [] then m1\<lparr>lm_run_id := the (ev_run_id r)\<rparr> else m1)"
    and "record_admissible L r" and "lm_run_id m = [] \<or> lm_run_id m = the (ev_run_id r)"
  using assms that by (auto simp: lifecycle_ingest_def split: if_splits option.splits)

text \<open>Claim C1. The lifecycle model implements the ledger specification: whenever it accepts a
  resource, descriptor or allocation record, the set of open holdings and of known resources
  changes exactly as the specification says, and exactly the specified findings are appended
  (double and stray release, duplicate acquire, bad replace, use of something not held).\<close>

theorem lifecycle_refines_ledger:
  assumes "lifecycle_ingest L (Some m, w) (Some r) = Some (True, Some m', w')"
    and "pointer_is_null L None"
    and "ev_record_kind r \<in> {RECORD_RESOURCE, RECORD_FD, RECORD_ALLOC}"
  shows "implements m m' (ledger_step L r (ledger_of m))"
  using assms(1)
proof (rule lifecycle_ingest_success)
  fix m1
  assume kind: "ingest_kind L (m\<lparr>lm_finished := False\<rparr>, w) r = Some (True, m1, w')"
    and "m' = (if lm_run_id m1 = [] then m1\<lparr>lm_run_id := the (ev_run_id r)\<rparr> else m1)"
  with ingest_kind_implements [OF kind assms(2,3)] show ?thesis by (auto split: if_splits)
qed

definition sample_release :: event_record where
  "sample_release = zero_record\<lparr>ev_version := 5, ev_run_id := Some ''r'', ev_pid := 7,
     ev_record_kind := RECORD_RESOURCE, ev_resource_kind := RESOURCE_RELEASE,
     ev_resource_class := Some ''lock'', ev_resource_id := Some ''m''\<rparr>"

definition sample_acquire :: event_record where
  "sample_acquire = sample_release\<lparr>ev_resource_kind := RESOURCE_ACQUIRE\<rparr>"

definition sample_entry :: lifecycle_entry where
  "sample_entry = new_entry sample_acquire ''m''"

definition sample_model :: lifecycle_model where
  "sample_model = empty_lifecycle\<lparr>lm_run_id := ''r'', lm_entries := [sample_entry],
     lm_entry_capacity := 16\<rparr>"

lemmas sample_defs = sample_release_def sample_acquire_def sample_entry_def sample_model_def
  zero_record_def empty_lifecycle_def calm_world_def doc_lib_def

lemmas lifecycle_eval = lifecycle_ingest_def record_admissible_def ingest_kind_def
  ingest_resource_def release_entry_def find_latest_def entry_matches_def add_entry_def
  add_finding_def ensure_entry_capacity_def ensure_finding_capacity_def lifecycle_reserve_def
  LIFECYCLE_INITIAL_CAPACITY_def MAX_LIFECYCLE_ENTRIES_def MAX_LIFECYCLE_FINDINGS_def
  next_capacity_def heap_request_def copy_text_def new_entry_def function_text_def file_text_def
  released_by_def Let_def

lemma sample_acquire_step:
  "lifecycle_ingest doc_lib (Some empty_lifecycle, calm_world) (Some sample_acquire) =
     Some (True, Some sample_model, calm_world)"
  by (simp add: sample_defs lifecycle_eval)

lemma sample_release_step:
  "lifecycle_ingest doc_lib (Some sample_model, calm_world) (Some sample_release) =
     Some (True, Some (sample_model\<lparr>lm_entries := [released_by sample_release sample_entry]\<rparr>),
       calm_world)"
  by (simp add: sample_defs lifecycle_eval)

theorem lifecycle_refines_ledger_witness:
  "held sample_model (7, ''lock'', ''m'') = 1 \<and>
   implements sample_model
     (sample_model\<lparr>lm_entries := [released_by sample_release sample_entry]\<rparr>)
     (ledger_release (7, ''lock'', ''m'') (ledger_of sample_model))"
  using lifecycle_refines_ledger [OF sample_release_step]
  by (simp add: doc_lib_def doc_pointer_is_null_def sample_release_def ledger_step_def
      ledger_resource_def unowned_class_def zero_record_def)
     (simp add: held_def sample_defs new_entry_def entry_key_def)

subsection \<open>Totality and the invariant\<close>

text \<open>The states a caller can reach from a created model, by any records and any allocator.\<close>

inductive lifecycle_reachable :: "record_lib \<Rightarrow> lifecycle_state \<Rightarrow> bool" for L where
  created: "lifecycle_reachable L (empty_lifecycle, w)"
| ingested: "lifecycle_reachable L (m, w) \<Longrightarrow>
    lifecycle_ingest L (Some m, w) (Some r) = Some (b, Some m', w') \<Longrightarrow>
    lifecycle_reachable L (m', w')"
| finished: "lifecycle_reachable L (m, w) \<Longrightarrow>
    lifecycle_finish (Some m, w) = (b, Some m', w') \<Longrightarrow> lifecycle_reachable L (m', w')"

lemma store_ok_empty: "store_ok empty_lifecycle"
  by (simp add: store_ok_def empty_lifecycle_def)

lemma lifecycle_ingest_total:
  "\<exists>b m' w'. lifecycle_ingest L (Some m, w) (Some r) = Some (b, Some m', w') \<and>
     (store_ok m \<longrightarrow> store_ok m')"
  using ingest_kind_total [of L "m\<lparr>lm_finished := False\<rparr>" w r]
  by (auto simp: lifecycle_ingest_def)

lemma lifecycle_finish_ok:
  assumes "store_ok m" and "lifecycle_finish (Some m, w) = (b, Some m', w')"
  shows "store_ok m'"
proof (cases "lm_finished m")
  case True
  with assms show ?thesis by (simp add: lifecycle_finish_def)
next
  case False
  obtain b1 m1 w1 where fin: "finish_from (length (lm_entries m)) 0 (m, w) = (b1, m1, w1)"
    by (rule prod_cases3)
  have "store_ok m1" using finish_from_ok [OF assms(1) fin] by simp
  then have "store_ok m1" "store_ok (m1\<lparr>lm_findings := map (\<lambda>f. f\<lparr>lf_exec_pending := False\<rparr>) (lm_findings m1),
      lm_finished := True\<rparr>)"
    by (simp_all add: store_ok_def)
  with False fin assms(2) show ?thesis by (auto simp: lifecycle_finish_def split: bool.splits)
qed

lemma reachable_store_ok:
  assumes "lifecycle_reachable L s"
  shows "store_ok (fst s)"
  using assms
proof induction
  case (created w)
  show ?case by (simp add: store_ok_empty)
next
  case (ingested m w r b m' w')
  with lifecycle_ingest_total [of L m w r] show ?case by auto
next
  case (finished m w b m' w')
  with lifecycle_finish_ok show ?case by auto
qed

text \<open>Claim C8. Ingestion always ends, with a status and a model, in every reachable state and for
  every record, although the reconciliation of stray releases is an unbounded loop; and every
  reachable state satisfies the store invariant: a live entry carries no trace of a release,
  an entry with a release sequence has the names of its release (so a finding never copies a
  NULL name), and both arrays stay within their capacity and the hard limit.\<close>

theorem lifecycle_total_and_safe:
  assumes "lifecycle_reachable L (m, w)"
  shows "(\<exists>b m' w'. lifecycle_ingest L (Some m, w) (Some r) = Some (b, Some m', w')) \<and> store_ok m"
  using lifecycle_ingest_total [of L m w r] reachable_store_ok [OF assms] by auto

lemma sample_reachable: "lifecycle_reachable doc_lib (sample_model, calm_world)"
  by (rule ingested [OF created sample_acquire_step])

theorem lifecycle_total_and_safe_witness:
  "store_ok sample_model \<and>
   (\<exists>b m' w'. lifecycle_ingest doc_lib (Some sample_model, calm_world) (Some sample_release) =
      Some (b, Some m', w'))"
  using lifecycle_total_and_safe [OF sample_reachable] by blast

subsection \<open>Finishing\<close>

lemma add_leak_finding_succeeds:
  assumes "findings_fit m" and "length (lm_findings m) < MAX_LIFECYCLE_FINDINGS" and "ample w"
  shows "\<exists>m' w'. add_leak_finding (m, w) e = (True, m', w') \<and> ample w'"
proof -
  obtain c w1 where "lifecycle_reserve MAX_LIFECYCLE_FINDINGS (length (lm_findings m))
      (lm_finding_capacity m) w = (True, c, w1)" "ample w1"
    using findings.roomy [of "lm_finding_capacity m" "length (lm_findings m)" w] assms
    by (auto simp: fits_def)
  moreover obtain w2 where "copy_all [le_resource_class e, le_resource_id e,
      le_acquired_function_name e, le_acquired_file_name e] w1 = (True, w2)" "ample w2"
    using copy_all_ample [OF \<open>ample w1\<close>] by blast
  ultimately show ?thesis
    by (simp add: add_leak_finding_def ensure_finding_capacity_def del: copy_all.simps)
qed

lemma finish_from_succeeds:
  assumes "store_ok m" and "ample w" and "i + n = length (lm_entries m)"
    and "length (lm_findings m) + length (leaks (drop i (lm_entries m))) \<le> MAX_LIFECYCLE_FINDINGS"
  shows "\<exists>m' w'. finish_from n i (m, w) = (True, m', w')"
  using assms
proof (induction n arbitrary: i m w)
  case (Suc n)
  let ?e = "settled (lm_entries m ! i)"
  let ?m1 = "m\<lparr>lm_entries := (lm_entries m)[i := ?e]\<rparr>"
  have i: "i < length (lm_entries m)" using Suc.prems(3) by simp
  have cut: "drop i (lm_entries m) = lm_entries m ! i # drop (Suc i) (lm_entries m)"
    by (rule Cons_nth_drop_Suc [symmetric, OF i])
  have "entry_ok (lm_entries m ! i)" using Suc.prems(1) i by (simp add: store_ok_def)
  then have m1: "store_ok ?m1"
    using Suc.prems(1) by (simp add: store_ok_replace entry_ok_not_pending settled_def)
  show ?case
  proof (cases "le_live ?e")
    case False
    with Suc.prems cut Suc.IH [OF m1 Suc.prems(2), of "Suc i"] show ?thesis
      by (simp add: finish_from_step Let_def leaks_def)
  next
    case True
    with Suc.prems(4) cut have room: "length (lm_findings ?m1) < MAX_LIFECYCLE_FINDINGS"
      by (simp add: leaks_def)
    have fit: "findings_fit ?m1" using m1 by (simp add: store_ok_def)
    obtain m2 w2 where leak: "add_leak_finding (?m1, w) ?e = (True, m2, w2)" and w2: "ample w2"
      using add_leak_finding_succeeds [OF fit room Suc.prems(2), of ?e] by blast
    have m2: "store_ok m2" by (rule add_leak_finding_ok [OF m1 leak])
    obtain c where eff: "m2 = ?m1\<lparr>lm_finding_capacity := c,
        lm_findings := lm_findings m @ [leak_finding ?e]\<rparr>"
      using leak by (elim add_leak_finding_effect) simp
    from True leak eff Suc.prems cut Suc.IH [OF m2 w2, of "Suc i"] show ?thesis
      by (simp add: finish_from_step Let_def leaks_def)
  qed
qed simp

definition unpend :: "lifecycle_finding \<Rightarrow> lifecycle_finding" where
  "unpend f = f\<lparr>lf_exec_pending := False\<rparr>"

lemma unpend_leaks [simp]: "map unpend (leaks es) = leaks es"
  by (simp add: leaks_def unpend_def leak_finding_def)

lemma lifecycle_finish_result:
  assumes "lifecycle_finish (Some m, w) = (True, Some m', w')" and "\<not> lm_finished m"
  shows "lm_findings m' = map unpend (lm_findings m) @ leaks (lm_entries m) \<and>
    lm_entries m' = map settled (lm_entries m) \<and> lm_finished m' \<and> lm_run_id m' = lm_run_id m"
proof -
  obtain b m1 w1 where fin: "finish_from (length (lm_entries m)) 0 (m, w) = (b, m1, w1)"
    by (rule prod_cases3)
  with assms have b: "b" and m': "m' = m1\<lparr>lm_findings := map unpend (lm_findings m1), lm_finished := True\<rparr>"
    by (auto simp: lifecycle_finish_def unpend_def [abs_def] split: bool.splits)
  from fin b obtain c where "m1 = m\<lparr>lm_entries := map settled (lm_entries m),
      lm_finding_capacity := c, lm_findings := lm_findings m @ leaks (lm_entries m)\<rparr>"
    using finish_from_result [of "length (lm_entries m)" 0 m w m1 w1] by auto
  with m' show ?thesis by simp
qed

text \<open>Claim C16. Finishing reports the leaks exactly: with memory available and room below the
  finding limit it succeeds, keeps the earlier findings in order and appends one LEAK finding
  for every entry that is still live, in the order of acquisition, and for no other entry; it
  clears the pending marks, and finishing again changes nothing.\<close>

theorem lifecycle_finish_exact:
  assumes "lifecycle_reachable L (m, w0)" and "ample w" and "\<not> lm_finished m"
    and "length (lm_findings m) + length (filter le_live (lm_entries m)) \<le> MAX_LIFECYCLE_FINDINGS"
  shows "\<exists>m' w'. lifecycle_finish (Some m, w) = (True, Some m', w') \<and>
    lm_findings m' = map unpend (lm_findings m) @ map leak_finding (filter le_live (lm_entries m)) \<and>
    lm_entries m' = map settled (lm_entries m) \<and>
    lifecycle_finish (Some m', w') = (True, Some m', w')"
proof -
  have ok: "store_ok m" using reachable_store_ok [OF assms(1)] by simp
  have "\<exists>m' w'. finish_from (length (lm_entries m)) 0 (m, w) = (True, m', w')"
    by (rule finish_from_succeeds [OF ok assms(2)]) (use assms(4) in \<open>simp_all add: leaks_def\<close>)
  then obtain m' w' where fin: "lifecycle_finish (Some m, w) = (True, Some m', w')"
    using assms(3) by (auto simp: lifecycle_finish_def)
  from lifecycle_finish_result [OF fin assms(3)] fin show ?thesis
    by (auto simp: leaks_def lifecycle_finish_def)
qed

theorem lifecycle_finish_exact_witness:
  "\<exists>m' w'. lifecycle_finish (Some sample_model, calm_world) = (True, Some m', w') \<and>
     lm_findings m' = [leak_finding sample_entry]"
  using lifecycle_finish_exact [OF sample_reachable ample_calm]
  by (force simp: sample_defs new_entry_def MAX_LIFECYCLE_FINDINGS_def)

subsection \<open>A descriptor that an exec closes\<close>

definition sample_open :: event_record where
  "sample_open = zero_record\<lparr>ev_version := 5, ev_run_id := Some ''r'', ev_pid := 7,
     ev_record_kind := RECORD_FD, ev_fd := 3, ev_fd_kind := FD_OPEN, ev_sequence := 1\<rparr>"

definition sample_exec :: event_record where
  "sample_exec = sample_open\<lparr>ev_record_kind := RECORD_EXEC, ev_cloexec := 1, ev_sequence := 2\<rparr>"

definition sample_exec_fail :: event_record where
  "sample_exec_fail = sample_open\<lparr>ev_record_kind := RECORD_EXEC_FAIL, ev_sequence := 3\<rparr>"

definition sample_fd_entry :: lifecycle_entry where
  "sample_fd_entry = new_entry (sample_open\<lparr>ev_resource_class := Some ''fd''\<rparr>) ''3''"

definition sample_fd_model :: lifecycle_model where
  "sample_fd_model = empty_lifecycle\<lparr>lm_run_id := ''r'', lm_entries := [sample_fd_entry],
     lm_entry_capacity := 16\<rparr>"

lemma decimal_3 [simp]: "signed_decimal 3 = ''3''"
  by (simp add: signed_decimal_def decimal.simps digit_char_def)

lemma decimal_4 [simp]: "signed_decimal 4 = ''4''"
  by (simp add: signed_decimal_def decimal.simps digit_char_def)

lemmas sample_exec_defs = sample_defs sample_open_def sample_exec_def sample_exec_fail_def
  sample_fd_entry_def sample_fd_model_def

lemma sample_open_step:
  "lifecycle_ingest doc_lib (Some empty_lifecycle, calm_world) (Some sample_open) =
     Some (True, Some sample_fd_model, calm_world)"
  by (simp add: sample_exec_defs lifecycle_eval ingest_fd_def format_fd_identifier_def
      fd_resource_class_def)

definition closed_on_exec :: lifecycle_entry where
  "closed_on_exec = (released_by sample_exec sample_fd_entry)\<lparr>le_exec_pending := True\<rparr>"

lemma sample_exec_step:
  "ingest_exec (sample_fd_model, calm_world) sample_exec =
     (True, sample_fd_model\<lparr>lm_entries := [closed_on_exec]\<rparr>, calm_world)"
  by (simp add: sample_exec_defs closed_on_exec_def lifecycle_eval ingest_exec_def exec_record_def
      format_fd_identifier_def fd_resource_class_def)

subsection \<open>The shared ownership policy\<close>

definition ownership_of :: "lifecycle_model \<Rightarrow> resource_key \<Rightarrow> ownership_state" where
  "ownership_of m k =
     (if 0 < held m k then OWN_LIVE else if k \<in> known m then OWN_RELEASED else OWN_NEVER)"

definition release_findings :: "release_result \<Rightarrow> finding_kind list" where
  "release_findings res = (case res of RELEASE_OK \<Rightarrow> [] | RELEASE_STRAY \<Rightarrow> [FINDING_STRAY_RELEASE]
     | RELEASE_DUPLICATE \<Rightarrow> [FINDING_DOUBLE_RELEASE])"

text \<open>Releases follow the shared ownership policy: the finding a successful release
  appends is the one the policy's classification of the resource's state (never held, live,
  released) stands for, none for a proper release, whatever table search the transition
  library supplies.\<close>

theorem release_follows_policy:
  assumes "transition_search search" and "release_entry (m, w) r = (True, m', w')"
    and "ev_resource_class r = Some cls" and "ev_resource_id r = Some rid"
  shows "kinds m' = kinds m @ release_findings
    (ownership_classify_release search (ownership_of m (ev_pid r, cls, rid)))"
  using release_entry_implements [OF assms(2-4)]
  by (auto simp: classify_release_cases [OF assms(1)] ownership_of_def implements_def
      ledger_release_def release_findings_def)

lemma sample_release_entry:
  "release_entry (sample_model, calm_world) sample_release =
     (True, sample_model\<lparr>lm_entries := [released_by sample_release sample_entry]\<rparr>, calm_world)"
  "release_entry (empty_lifecycle, calm_world) sample_release =
     (True, empty_lifecycle\<lparr>lm_finding_capacity := 16,
        lm_findings := [new_finding FINDING_STRAY_RELEASE sample_release None]\<rparr>, calm_world)"
  by (simp_all add: sample_defs lifecycle_eval new_finding_def)

theorem release_follows_policy_witness:
  "ownership_classify_release first_rule (ownership_of empty_lifecycle (7, ''lock'', ''m'')) =
     RELEASE_STRAY \<and>
   kinds (empty_lifecycle\<lparr>lm_finding_capacity := 16,
     lm_findings := [new_finding FINDING_STRAY_RELEASE sample_release None]\<rparr>) =
     release_findings RELEASE_STRAY"
  using release_follows_policy [OF first_rule.transition_search_axioms sample_release_entry(2)]
  by (simp add: sample_defs kinds_def ownership_of_def held_def known_def release_findings_def
      classify_release_cases [OF first_rule.transition_search_axioms])

text \<open>Inheritance across exec follows the shared policy: an EXEC record that is accepted
  appends an EXEC_INHERIT finding exactly when the policy says that the descriptor, in its
  state at that moment and with its close-on-exec flag, is inherited.\<close>

theorem exec_follows_policy:
  assumes "transition_search search" and "ingest_exec (m, w) r = (True, m', w')"
  shows "kinds m' = kinds m @
    (if ownership_exec_inherits search
          (ownership_of m (ev_pid r, fd_resource_class, format_fd_identifier (ev_fd r)))
          (ev_cloexec r \<noteq> 0)
     then [FINDING_EXEC_INHERIT] else [])"
proof (cases "find_latest m (ev_pid r) fd_resource_class (format_fd_identifier (ev_fd r)) True")
  case None
  with assms show ?thesis
    by (simp add: ingest_exec_def exec_inherits_cases find_latest_held ownership_of_def)
next
  case (Some i)
  then have live: "0 < held m (ev_pid r, fd_resource_class, format_fd_identifier (ev_fd r))"
    using find_latest_held [of m "ev_pid r" fd_resource_class "format_fd_identifier (ev_fd r)"]
    by simp
  show ?thesis
  proof (cases "ev_cloexec r = 0")
    case True
    with Some assms(2) have "add_finding (m, w) FINDING_EXEC_INHERIT (exec_record r)
        (Some (lm_entries m ! i)) = (True, m', w')" by (simp add: ingest_exec_def)
    from add_finding_implements [OF this] live True assms(1) show ?thesis
      by (simp add: exec_inherits_cases ownership_of_def implements_def)
  next
    case False
    with Some assms(2) obtain m2 where rel: "release_entry (m, w) (exec_record r) = (True, m2, w')"
      and m': "lm_findings m' = lm_findings m2"
      by (auto simp: ingest_exec_def split: prod.splits bool.splits)
    have "lm_findings m2 = lm_findings m"
      using release_entry_live [of m "exec_record r" i w] rel Some by (simp add: exec_record_def)
    with m' False assms(1) show ?thesis by (simp add: exec_inherits_cases kinds_def)
  qed
qed

theorem exec_follows_policy_witness:
  "kinds (sample_fd_model\<lparr>lm_entries := [closed_on_exec]\<rparr>) = [] \<and>
   \<not> ownership_exec_inherits first_rule (ownership_of sample_fd_model (7, ''fd'', ''3'')) True"
  using exec_follows_policy [OF first_rule.transition_search_axioms sample_exec_step]
  by (simp add: exec_inherits_cases [OF first_rule.transition_search_axioms] kinds_def
      sample_fd_model_def empty_lifecycle_def)

subsection \<open>One run identity\<close>

text \<open>One model holds one run: an ingestion that succeeds leaves the model with the
  record's run identity, and once it has one, a record of another run (or one without a valid
  identity or of another log version) is refused with an error and changes nothing.\<close>

theorem lifecycle_one_run:
  "case lifecycle_ingest L (Some m, w) (Some r) of
      Some (True, Some m', w') \<Rightarrow> lm_run_id m' = the (ev_run_id r)
    | Some (False, Some m', w') \<Rightarrow>
        (if record_admissible L r \<and> lm_run_id m \<in> {[], the (ev_run_id r)}
         then lm_run_id m' = lm_run_id m else m' = m \<and> w' = raise_check w)
    | _ \<Rightarrow> False"
proof -
  obtain b m1 w1 where kind: "ingest_kind L (m\<lparr>lm_finished := False\<rparr>, w) r = Some (b, m1, w1)"
    and run: "lm_run_id m1 = lm_run_id m"
    using ingest_kind_total [of L "m\<lparr>lm_finished := False\<rparr>" w r] by auto
  show ?thesis
  proof (cases "record_admissible L r")
    case False
    then show ?thesis by (simp add: lifecycle_ingest_def)
  next
    case True
    then obtain rid where "ev_run_id r = Some rid" "rid \<noteq> []"
      by (auto simp: record_admissible_def split: option.splits)
    with True kind run show ?thesis by (cases b) (auto simp: lifecycle_ingest_def)
  qed
qed

end
