(* ===== verification/Exec_Undo.thy ===== *)
theory Exec_Undo
  imports Lifecycle_Properties
begin

section \<open>A failed exec is undone\<close>

text \<open>
  A failed exec, over whole runs. \<open>ingest_exec\<close> marks the entries it closes as pending and
  \<open>rollback_exec\<close> revives the pending entries of the process; nothing else takes the mark back
  before the end. The first part follows a single exec, the second what any other record leaves
  of a released entry, the third runs of accepted records: the EXEC records of one attempt and
  their EXEC_FAIL, and an EXEC_FAIL long after an exec that succeeded.
\<close>

subsection \<open>One exec\<close>

definition nothing_pending :: "int \<Rightarrow> lifecycle_model \<Rightarrow> bool" where
  "nothing_pending pid m \<longleftrightarrow>
     (\<forall>e \<in> set (lm_entries m). le_pid e = pid \<longrightarrow> \<not> le_exec_pending e) \<and>
     (\<forall>f \<in> set (lm_findings m). lf_pid f = pid \<longrightarrow> \<not> lf_exec_pending f)"

lemma rollback_nothing:
  assumes "nothing_pending pid m"
  shows "lm_entries (rollback_exec m pid) = lm_entries m"
    and "lm_findings (rollback_exec m pid) = lm_findings m"
  using assms by (auto simp: rollback_exec_def nothing_pending_def intro!: map_idI filter_True)

lemma revive_released:
  "revive_entry e = e \<Longrightarrow> revive_entry ((released_by r e)\<lparr>le_exec_pending := True\<rparr>) = e"
  by (cases e) (simp add: revive_entry_def released_by_def)

text \<open>Rolling back after an exec gives what rolling back before it would have given.\<close>

lemma exec_undone:
  assumes "store_ok m" and "ingest_exec (m, w) r = (True, m1, w1)"
  shows "lm_entries (rollback_exec m1 (ev_pid r)) = lm_entries (rollback_exec m (ev_pid r))"
    and "lm_findings (rollback_exec m1 (ev_pid r)) = lm_findings (rollback_exec m (ev_pid r))"
    and "store_ok m1" and "lm_run_id m1 = lm_run_id m"
proof -
  show "store_ok m1" by (rule ingest_exec_ok [OF assms])
  show "lm_run_id m1 = lm_run_id m" by (rule ingest_exec_run [OF assms(2)])
  have "lm_entries (rollback_exec m1 (ev_pid r)) = lm_entries (rollback_exec m (ev_pid r)) \<and>
    lm_findings (rollback_exec m1 (ev_pid r)) = lm_findings (rollback_exec m (ev_pid r))"
  proof (cases "find_latest m (ev_pid r) fd_resource_class (format_fd_identifier (ev_fd r)) True")
    case None
    with assms(2) show ?thesis by (simp add: ingest_exec_def)
  next
    case (Some i)
    show ?thesis
    proof (cases "ev_cloexec r = 0")
      case True
      with Some assms(2) have "add_finding (m, w) FINDING_EXEC_INHERIT (exec_record r)
          (Some (lm_entries m ! i)) = (True, m1, w1)" by (simp add: ingest_exec_def)
      then show ?thesis
        by (elim add_finding_effect) (simp add: rollback_exec_def new_finding_def exec_record_def)
    next
      case False
      have i: "i < length (lm_entries m)" "le_pid (lm_entries m ! i) = ev_pid r"
        "le_live (lm_entries m ! i)"
        using find_latest_Some [OF Some] by (simp_all add: entry_matches_def)
      from False Some assms(2) obtain m2 where
        rel: "release_entry (m, w) (exec_record r) = (True, m2, w1)"
        and m1: "m1 = m2\<lparr>lm_entries := (lm_entries m2)[i := (lm_entries m2 ! i)\<lparr>le_exec_pending := True\<rparr>]\<rparr>"
        by (auto simp: ingest_exec_def split: prod.splits bool.splits)
      have m2: "m2 = m\<lparr>lm_entries := (lm_entries m)[i := released_by (exec_record r) (lm_entries m ! i)]\<rparr>"
        using release_entry_live [of m "exec_record r" i w] rel Some by (simp add: exec_record_def)
      have whole: "revive_entry (lm_entries m ! i) = lm_entries m ! i"
        using assms(1) i by (simp add: store_ok_def entry_ok_def)
      show ?thesis
        using i whole by (simp add: rollback_exec_def m1 m2 map_update released_by_def
            revive_released [OF whole, unfolded released_by_def] list_update_same_conv)
    qed
  qed
  then show "lm_entries (rollback_exec m1 (ev_pid r)) = lm_entries (rollback_exec m (ev_pid r))"
    "lm_findings (rollback_exec m1 (ev_pid r)) = lm_findings (rollback_exec m (ev_pid r))"
    by simp_all
qed

text \<open>An exec that turns a live entry into a released one leaves it pending.\<close>

lemma exec_closes_pending:
  assumes "ingest_exec (m, w) r = (True, m1, w1)" and "i < length (lm_entries m)"
    and "le_live (lm_entries m ! i)" and "\<not> le_live (lm_entries m1 ! i)"
  shows "i < length (lm_entries m1) \<and> le_pid (lm_entries m ! i) = ev_pid r \<and>
    lm_entries m1 ! i = (released_by (exec_record r) (lm_entries m ! i))\<lparr>le_exec_pending := True\<rparr>"
proof (cases "find_latest m (ev_pid r) fd_resource_class (format_fd_identifier (ev_fd r)) True")
  case None
  with assms show ?thesis by (simp add: ingest_exec_def)
next
  case (Some k)
  show ?thesis
  proof (cases "ev_cloexec r = 0")
    case True
    with Some assms(1) have "add_finding (m, w) FINDING_EXEC_INHERIT (exec_record r)
        (Some (lm_entries m ! k)) = (True, m1, w1)" by (simp add: ingest_exec_def)
    with assms(3,4) show ?thesis by (elim add_finding_effect) simp
  next
    case False
    with Some assms(1) obtain m2 where
      rel: "release_entry (m, w) (exec_record r) = (True, m2, w1)"
      and m1: "m1 = m2\<lparr>lm_entries := (lm_entries m2)[k := (lm_entries m2 ! k)\<lparr>le_exec_pending := True\<rparr>]\<rparr>"
      by (auto simp: ingest_exec_def split: prod.splits bool.splits)
    have m2: "m2 = m\<lparr>lm_entries := (lm_entries m)[k := released_by (exec_record r) (lm_entries m ! k)]\<rparr>"
      using release_entry_live [of m "exec_record r" k w] rel Some by (simp add: exec_record_def)
    have "k = i" using assms(3,4) by (cases "k = i") (simp_all add: m1 m2)
    with find_latest_Some [OF Some] show ?thesis by (simp add: m1 m2 entry_matches_def)
  qed
qed

subsection \<open>What stays of a released entry\<close>

text \<open>Entries are never moved, and a released entry changes no more.\<close>

definition keeps_released :: "lifecycle_model \<Rightarrow> lifecycle_model \<Rightarrow> bool" where
  "keeps_released m m' \<longleftrightarrow> length (lm_entries m) \<le> length (lm_entries m') \<and>
     (\<forall>i<length (lm_entries m). \<not> le_live (lm_entries m ! i) \<longrightarrow>
        lm_entries m' ! i = lm_entries m ! i)"

lemma keeps_refl [simp]: "keeps_released m m"
  by (simp add: keeps_released_def)

lemma keeps_trans [trans]:
  "keeps_released m m1 \<Longrightarrow> keeps_released m1 m2 \<Longrightarrow> keeps_released m m2"
  by (auto simp: keeps_released_def)

lemma keeps_same_entries: "lm_entries m' = lm_entries m \<Longrightarrow> keeps_released m m'"
  by (simp add: keeps_released_def)

lemma keeps_live_update:
  "i < length (lm_entries m) \<Longrightarrow> le_live (lm_entries m ! i) \<Longrightarrow>
     keeps_released m (m\<lparr>lm_entries := (lm_entries m)[i := e]\<rparr>)"
  by (auto simp: keeps_released_def nth_list_update)

lemma add_entry_keeps: "add_entry (m, w) r rid = (b, m', w') \<Longrightarrow> keeps_released m m'"
  by (elim add_entry_effect) (simp add: keeps_released_def nth_append)

lemma add_finding_keeps: "add_finding (m, w) k r p = (b, m', w') \<Longrightarrow> keeps_released m m'"
  by (elim add_finding_effect) (simp add: keeps_same_entries)

lemma release_entry_keeps:
  assumes "release_entry (m, w) r = (b, m', w')"
  shows "keeps_released m m'"
proof (cases "find_latest m (ev_pid r) (the (ev_resource_class r)) (the (ev_resource_id r)) True")
  case (Some i)
  from release_entry_live [OF Some assms] find_latest_Some [OF Some] show ?thesis
    by (auto simp: entry_matches_def intro: keeps_live_update)
next
  case None
  from release_entry_not_live [OF None] assms show ?thesis
    by (auto simp: Let_def intro: add_finding_keeps)
qed

lemmas step_keeps = add_entry_keeps add_finding_keeps release_entry_keeps

lemma ingest_resource_keeps:
  assumes "ingest_resource (m, w) r = (b, m', w')"
  shows "keeps_released m m'"
  using assms
  by (auto simp: ingest_resource_def split: option.splits resource_kind.splits if_splits
      prod.splits bool.splits dest: step_keeps intro: keeps_trans)

lemma ingest_allocation_keeps:
  assumes "ingest_allocation L (m, w) r = (b, m', w')"
  shows "keeps_released m m'"
  using assms
  by (auto simp: ingest_allocation_def Let_def split: option.splits alloc_kind.splits if_splits
      prod.splits bool.splits dest: add_finding_keeps ingest_resource_keeps intro: keeps_trans)

lemma ingest_exec_keeps:
  assumes "ingest_exec (m, w) r = (b, m', w')"
  shows "keeps_released m m'"
proof (cases "find_latest m (ev_pid r) fd_resource_class (format_fd_identifier (ev_fd r)) True")
  case None
  with assms show ?thesis by (simp add: ingest_exec_def)
next
  case (Some i)
  obtain b1 m1 w1 where rel: "release_entry (m, w) (exec_record r) = (b1, m1, w1)"
    by (rule prod_cases3)
  have "m1 = (if b1 then m\<lparr>lm_entries := (lm_entries m)[i := released_by (exec_record r)
      (lm_entries m ! i)]\<rparr> else m)"
    using release_entry_live [of m "exec_record r" i w] rel Some by (simp add: exec_record_def)
  with assms Some rel find_latest_Some [OF Some] show ?thesis
    by (auto simp: ingest_exec_def entry_matches_def keeps_released_def nth_list_update
        split: if_splits bool.splits dest: add_finding_keeps)
qed

lemma reconcile_keeps:
  assumes "reconcile_stray_releases s pid cls rid = Some (b, s')"
  shows "keeps_released (fst s) (fst s')"
proof -
  have "keeps_released (fst s) (fst (snd (b, s')))"
  proof (rule reconcile_stray_releases.raw_induct
      [where P = "\<lambda>s _ _ _ res. keeps_released (fst s) (fst (snd res))", OF _ assms])
    fix again and s :: lifecycle_state and pid cls rid res
    assume again: "\<And>s pid cls rid res. again s pid cls rid = Some res \<Longrightarrow>
        keeps_released (fst s) (fst (snd res))"
      and body: "(case take_stray_release (fst s) pid cls rid of
        None \<Rightarrow> Some (True, s)
      | Some (f, m1) \<Rightarrow>
          (case release_entry (m1, snd s) (release_record f) of
             (b, s1) \<Rightarrow> if b then again s1 pid cls rid else Some (False, s1))) = Some res"
    show "keeps_released (fst s) (fst (snd res))"
    proof (cases "take_stray_release (fst s) pid cls rid")
      case None
      with body show ?thesis by auto
    next
      case (Some fm)
      obtain f m1 where fm: "fm = (f, m1)" by (cases fm)
      obtain b m2 w2 where rel: "release_entry (m1, snd s) (release_record f) = (b, m2, w2)"
        by (rule prod_cases3)
      have "keeps_released (fst s) m1"
        using Some fm by (auto simp: take_stray_release_def keeps_same_entries split: option.splits)
      also have "keeps_released m1 m2" by (rule release_entry_keeps [OF rel])
      finally have here: "keeps_released (fst s) m2" .
      show ?thesis
      proof (cases b)
        case True
        with body Some fm rel have "again (m2, w2) pid cls rid = Some res" by simp
        from keeps_trans [OF here again [OF this, simplified]] show ?thesis .
      next
        case False
        with body Some fm rel have "res = (False, m2, w2)" by simp
        with here show ?thesis by simp
      qed
    qed
  qed
  then show ?thesis by simp
qed

lemma fork_step_keeps:
  assumes "fork_step r i (m, w) = Some (b, m', w')"
  shows "keeps_released m m'"
proof -
  let ?e = "lm_entries m ! i"
  obtain b1 m1 w1 where add: "add_entry (m, w) (inherited_record r ?e) (le_resource_id ?e) = (b1, m1, w1)"
    by (rule prod_cases3)
  have "keeps_released m m'" if "reconcile_stray_releases (m1, w1) (ev_child_pid r) fd_resource_class
      (le_resource_id ?e) = Some (b, m', w')"
    using add_entry_keeps [OF add] reconcile_keeps [OF that] by (simp add: keeps_trans)
  with assms add add_entry_keeps [OF add] show ?thesis
    by (auto simp: fork_step_def Let_def split: if_splits bool.splits)
qed

lemma fork_from_keeps:
  "fork_from r n i (m, w) = Some (b, m', w') \<Longrightarrow> keeps_released m m'"
proof (induction n arbitrary: i m w)
  case (Suc n)
  from Suc.prems obtain b1 m1 w1 where "fork_step r i (m, w) = Some (b1, m1, w1)"
    by (auto split: option.splits)
  with Suc show ?case by (auto split: bool.splits dest: fork_step_keeps intro: keeps_trans)
qed simp

text \<open>A record that is not an EXEC_FAIL of the entry's process leaves a released entry as it is.\<close>

lemma ingest_kind_keeps:
  assumes "ingest_kind L (m, w) r = Some (b, m', w')" and "i < length (lm_entries m)"
    and "\<not> le_live (lm_entries m ! i)"
    and "\<not> (ev_record_kind r = RECORD_EXEC_FAIL \<and> ev_pid r = le_pid (lm_entries m ! i))"
  shows "i < length (lm_entries m') \<and> lm_entries m' ! i = lm_entries m ! i"
proof (cases "ev_record_kind r = RECORD_EXEC_FAIL")
  case True
  with assms show ?thesis by (auto simp: ingest_kind_def rollback_exec_def)
next
  case False
  with assms(1) have "keeps_released m m'"
    by (auto simp: ingest_kind_def ingest_fd_def ingest_fork_def split: record_kind.splits if_splits
        dest: ingest_resource_keeps ingest_allocation_keeps ingest_exec_keeps fork_from_keeps)
  with assms show ?thesis by (simp add: keeps_released_def)
qed

subsection \<open>Runs\<close>

text \<open>A run of records that are all accepted, one after the other.\<close>

inductive accepted_run ::
  "record_lib \<Rightarrow> lifecycle_state \<Rightarrow> event_record list \<Rightarrow> lifecycle_state \<Rightarrow> bool" for L where
  no_more: "accepted_run L s [] s"
| accepted: "lifecycle_ingest L (Some m, w) (Some r) = Some (True, Some m1, w1) \<Longrightarrow>
    accepted_run L (m1, w1) rs s \<Longrightarrow> accepted_run L (m, w) (r # rs) s"

inductive_simps accepted_run_Nil [simp]: "accepted_run L s [] s'"
inductive_cases accepted_run_Cons: "accepted_run L s (r # rs) s'"

lemma accepted_run_append:
  "accepted_run L s (rs @ rs') s' \<longleftrightarrow> (\<exists>s1. accepted_run L s rs s1 \<and> accepted_run L s1 rs' s')"
proof (induction rs arbitrary: s)
  case (Cons r rs)
  then show ?case by (fastforce elim!: accepted_run_Cons intro: accepted)
qed simp

lemma rollback_frame [simp]:
  "lm_entries (rollback_exec (m\<lparr>lm_finished := d\<rparr>) pid) = lm_entries (rollback_exec m pid)"
  "lm_findings (rollback_exec (m\<lparr>lm_finished := d\<rparr>) pid) = lm_findings (rollback_exec m pid)"
  "lm_entries (rollback_exec (m\<lparr>lm_run_id := x\<rparr>) pid) = lm_entries (rollback_exec m pid)"
  "lm_findings (rollback_exec (m\<lparr>lm_run_id := x\<rparr>) pid) = lm_findings (rollback_exec m pid)"
  by (simp_all add: rollback_exec_def)

lemma accepted_exec_undone:
  assumes "store_ok m" and "lifecycle_ingest L (Some m, w) (Some r) = Some (True, Some m1, w1)"
    and "ev_record_kind r = RECORD_EXEC"
  shows "store_ok m1 \<and>
    lm_entries (rollback_exec m1 (ev_pid r)) = lm_entries (rollback_exec m (ev_pid r)) \<and>
    lm_findings (rollback_exec m1 (ev_pid r)) = lm_findings (rollback_exec m (ev_pid r))"
  using assms(2)
proof (rule lifecycle_ingest_success)
  fix m2
  assume "ingest_kind L (m\<lparr>lm_finished := False\<rparr>, w) r = Some (True, m2, w1)"
    and m1: "m1 = (if lm_run_id m2 = [] then m2\<lparr>lm_run_id := the (ev_run_id r)\<rparr> else m2)"
  with assms(3) have "ingest_exec (m\<lparr>lm_finished := False\<rparr>, w) r = (True, m2, w1)"
    by (simp add: ingest_kind_def)
  from exec_undone [OF _ this] assms(1) m1 show ?thesis by simp
qed

lemma accepted_execs_undone:
  assumes "accepted_run L s rs s'" and "store_ok (fst s)"
    and "\<forall>r\<in>set rs. ev_record_kind r = RECORD_EXEC \<and> ev_pid r = pid"
  shows "lm_entries (rollback_exec (fst s') pid) = lm_entries (rollback_exec (fst s) pid) \<and>
    lm_findings (rollback_exec (fst s') pid) = lm_findings (rollback_exec (fst s) pid)"
  using assms
proof induction
  case (accepted m w r m1 w1 rs s)
  with accepted_exec_undone [of m L w r m1 w1] show ?case by simp
qed simp

lemma exec_fail_step:
  assumes "lifecycle_ingest L (Some m, w) (Some f) = Some (True, Some m1, w1)"
    and "ev_record_kind f = RECORD_EXEC_FAIL"
  shows "lm_entries m1 = lm_entries (rollback_exec m (ev_pid f)) \<and>
    lm_findings m1 = lm_findings (rollback_exec m (ev_pid f)) \<and> \<not> lm_finished m1"
  using assms by (elim lifecycle_ingest_success) (auto simp: ingest_kind_def rollback_exec_def)

lemma accepted_run_keeps:
  assumes "accepted_run L s rs s'" and "i < length (lm_entries (fst s))"
    and "\<not> le_live (lm_entries (fst s) ! i)" and "le_pid (lm_entries (fst s) ! i) = pid"
    and "\<forall>r\<in>set rs. \<not> (ev_record_kind r = RECORD_EXEC_FAIL \<and> ev_pid r = pid)"
  shows "i < length (lm_entries (fst s')) \<and> lm_entries (fst s') ! i = lm_entries (fst s) ! i"
  using assms
proof induction
  case (accepted m w r m1 w1 rs s)
  have "i < length (lm_entries m1) \<and> lm_entries m1 ! i = lm_entries m ! i"
    using accepted.hyps(1)
  proof (rule lifecycle_ingest_success)
    fix m2
    assume "ingest_kind L (m\<lparr>lm_finished := False\<rparr>, w) r = Some (True, m2, w1)"
      and "m1 = (if lm_run_id m2 = [] then m2\<lparr>lm_run_id := the (ev_run_id r)\<rparr> else m2)"
    with ingest_kind_keeps [of L "m\<lparr>lm_finished := False\<rparr>" w r True m2 w1 i] accepted.prems
    show ?thesis by simp
  qed
  with accepted show ?case by simp
qed simp

text \<open>Claim C13. A failed exec leaves no trace: in a reachable state in which nothing is pending for
  the process (no entry and no finding of it carries the mark of an earlier exec, which only an
  EXEC_FAIL of the process or finishing takes away), any number of accepted EXEC records of the
  process (each closes a descriptor, reports an inherited one or names none) followed by its
  EXEC_FAIL restores every entry and every finding exactly.\<close>

theorem exec_fail_restores:
  assumes "lifecycle_reachable L (m, w0)" and "nothing_pending pid m"
    and "accepted_run L (m, w) (execs @ [failed]) (m', w')"
    and "\<forall>r\<in>set execs. ev_record_kind r = RECORD_EXEC \<and> ev_pid r = pid"
    and "ev_record_kind failed = RECORD_EXEC_FAIL" and "ev_pid failed = pid"
  shows "lm_entries m' = lm_entries m \<and> lm_findings m' = lm_findings m"
proof -
  from assms(3) obtain m1 w1 where run: "accepted_run L (m, w) execs (m1, w1)"
    and last: "lifecycle_ingest L (Some m1, w1) (Some failed) = Some (True, Some m', w')"
    by (auto simp: accepted_run_append elim!: accepted_run_Cons)
  have "store_ok m" using reachable_store_ok [OF assms(1)] by simp
  with accepted_execs_undone [OF run _ assms(4)] exec_fail_step [OF last assms(5)] assms(6)
    rollback_nothing [OF assms(2)]
  show ?thesis by simp
qed

text \<open>The sample: process 7 opens descriptor 3, and its exec looks at the descriptors 3 and 4.\<close>

definition second_exec :: event_record where
  "second_exec = sample_exec\<lparr>ev_fd := 4, ev_sequence := 3\<rparr>"

definition after_execs :: lifecycle_model where
  "after_execs = sample_fd_model\<lparr>lm_entries := [closed_on_exec]\<rparr>"

lemma sample_exec_ingested:
  "lifecycle_ingest doc_lib (Some sample_fd_model, calm_world) (Some sample_exec) =
     Some (True, Some after_execs, calm_world)"
  "lifecycle_ingest doc_lib (Some after_execs, calm_world) (Some second_exec) =
     Some (True, Some after_execs, calm_world)"
  "lifecycle_ingest doc_lib (Some after_execs, calm_world) (Some sample_exec_fail) =
     Some (True, Some sample_fd_model, calm_world)"
  by (simp_all add: after_execs_def second_exec_def closed_on_exec_def sample_exec_defs
      lifecycle_eval ingest_exec_def exec_record_def format_fd_identifier_def
      fd_resource_class_def rollback_exec_def revive_entry_def)

lemma sample_fd_reachable: "lifecycle_reachable doc_lib (sample_fd_model, calm_world)"
  by (rule ingested [OF created sample_open_step])

lemma sample_exec_run:
  "accepted_run doc_lib (after_execs, calm_world) [second_exec, sample_exec_fail]
     (sample_fd_model, calm_world)"
  by (rule accepted [OF sample_exec_ingested(2) accepted [OF sample_exec_ingested(3) no_more]])

theorem exec_fail_restores_witness:
  "accepted_run doc_lib (sample_fd_model, calm_world) [sample_exec, second_exec, sample_exec_fail]
     (sample_fd_model, calm_world) \<and>
   lm_entries after_execs \<noteq> lm_entries sample_fd_model \<and>
   lm_entries sample_fd_model = [sample_fd_entry]"
proof -
  have run: "accepted_run doc_lib (sample_fd_model, calm_world)
      ([sample_exec, second_exec] @ [sample_exec_fail]) (sample_fd_model, calm_world)"
    using accepted [OF sample_exec_ingested(1) sample_exec_run] by simp
  have "nothing_pending 7 sample_fd_model"
    by (simp add: nothing_pending_def sample_exec_defs new_entry_def)
  from exec_fail_restores [OF sample_fd_reachable this run] run show ?thesis
    by (simp add: after_execs_def closed_on_exec_def second_exec_def sample_exec_defs
        released_by_def new_entry_def)
qed

text \<open>Claim C24. Nothing takes the pending mark back when an exec succeeds: if an accepted EXEC record of
  a process closed a live entry, and any accepted records follow (whatever they are, the next
  image of the process and a release of the same descriptor among them, but no EXEC_FAIL of that
  process), then an EXEC_FAIL of the process, however late, makes the entry live again exactly as
  it was, and finishing reports it as a leak.\<close>

theorem stale_exec_leak:
  assumes "lifecycle_reachable L (m, w0)" and "i < length (lm_entries m)"
    and "le_live (lm_entries m ! i)" and "ev_record_kind r = RECORD_EXEC"
    and "lifecycle_ingest L (Some m, w) (Some r) = Some (True, Some m1, w1)"
    and "\<not> le_live (lm_entries m1 ! i)"
    and "accepted_run L (m1, w1) (rs @ [failed]) (m2, w2)"
    and "\<forall>r'\<in>set rs. \<not> (ev_record_kind r' = RECORD_EXEC_FAIL \<and> ev_pid r' = ev_pid r)"
    and "ev_record_kind failed = RECORD_EXEC_FAIL" and "ev_pid failed = ev_pid r"
    and "lifecycle_finish (Some m2, w2) = (True, Some m3, w3)"
  shows "lm_entries m2 ! i = lm_entries m ! i \<and>
    leak_finding (lm_entries m ! i) \<in> set (lm_findings m3)"
proof -
  let ?e = "lm_entries m ! i" and ?f = "(released_by (exec_record r) (lm_entries m ! i))\<lparr>le_exec_pending := True\<rparr>"
  from assms(5) have "i < length (lm_entries m1) \<and> le_pid ?e = ev_pid r \<and> lm_entries m1 ! i = ?f"
  proof (rule lifecycle_ingest_success)
    fix mk
    assume "ingest_kind L (m\<lparr>lm_finished := False\<rparr>, w) r = Some (True, mk, w1)"
      and m1: "m1 = (if lm_run_id mk = [] then mk\<lparr>lm_run_id := the (ev_run_id r)\<rparr> else mk)"
    with assms(4) have "ingest_exec (m\<lparr>lm_finished := False\<rparr>, w) r = (True, mk, w1)"
      by (simp add: ingest_kind_def)
    from exec_closes_pending [OF this, of i] assms(2,3,6) m1 show ?thesis by (simp split: if_splits)
  qed
  then have closed: "i < length (lm_entries m1)" "le_pid ?e = ev_pid r" "lm_entries m1 ! i = ?f"
    by simp_all
  from assms(7) obtain mr wr where run: "accepted_run L (m1, w1) rs (mr, wr)"
    and last: "lifecycle_ingest L (Some mr, wr) (Some failed) = Some (True, Some m2, w2)"
    by (auto simp: accepted_run_append elim!: accepted_run_Cons)
  have "i < length (lm_entries mr) \<and> lm_entries mr ! i = ?f"
    using accepted_run_keeps [OF run, of i "ev_pid r"] closed assms(8) by (simp add: released_by_def)
  moreover have "revive_entry ?f = ?e"
    using reachable_store_ok [OF assms(1)] assms(2,3)
    by (intro revive_released) (simp add: store_ok_def entry_ok_def)
  ultimately have revived: "i < length (lm_entries m2)" "lm_entries m2 ! i = ?e"
    using exec_fail_step [OF last assms(9)] assms(10) closed(2)
    by (simp_all add: rollback_exec_def released_by_def)
  have "lm_entries m2 ! i \<in> set (lm_entries m2)" by (rule nth_mem [OF revived(1)])
  then have "?e \<in> set (filter le_live (lm_entries m2))" using revived(2) assms(3) by simp
  with lifecycle_finish_result [OF assms(11)] exec_fail_step [OF last assms(9)] revived
  show ?thesis by (simp add: leaks_def)
qed

theorem stale_exec_leak_witness:
  "\<exists>m w. lifecycle_finish (Some sample_fd_model, calm_world) = (True, Some m, w) \<and>
     leak_finding sample_fd_entry \<in> set (lm_findings m)"
proof -
  obtain m w where fin: "lifecycle_finish (Some sample_fd_model, calm_world) = (True, Some m, w)"
    by (simp add: lifecycle_finish_def finish_from.simps add_leak_finding_def lifecycle_eval
        sample_exec_defs)
  have run: "accepted_run doc_lib (after_execs, calm_world) ([second_exec] @ [sample_exec_fail])
      (sample_fd_model, calm_world)" using sample_exec_run by simp
  have "leak_finding (lm_entries sample_fd_model ! 0) \<in> set (lm_findings m)"
    using stale_exec_leak [OF sample_fd_reachable _ _ _ sample_exec_ingested(1) _ run _ _ _ fin, of 0]
    by (simp add: after_execs_def closed_on_exec_def released_by_def second_exec_def
        sample_exec_defs new_entry_def)
  with fin show ?thesis by (auto simp: sample_fd_model_def)
qed

end
