(* ===== verification/Model.thy ===== *)
theory Model
  imports Lifecycle
begin

section \<open>The causal model (src/model.c)\<close>

text \<open>
  \<open>tool_model\<close> is \<open>struct p101_tool_model\<close>: the admitted records as nodes with owned texts
  (a NULL text is copied as the empty one, so every text of a stored node is a string), the
  edges derived from them, and the lifecycle rebuilt from the resource nodes. Nodes are named
  by their index; \<open>SIZE_MAX\<close> as "no node" is \<open>None\<close>, and the array \<open>matched_exit\<close> is a list
  of optional indices.
\<close>

datatype node_domain = NODE_CALL | NODE_RESOURCE

datatype edge_kind =
  EDGE_CALL_PARENT | EDGE_CALL_RETURN | EDGE_CALL_CAUSED_EVENT | EDGE_RESOURCE_LIFETIME |
  EDGE_PROCESS_CHILD_EVENT

record model_node =
  mn_domain :: node_domain
  mn_record_kind :: record_kind
  mn_call_kind :: call_kind
  mn_fd_kind :: fd_kind
  mn_alloc_kind :: alloc_kind
  mn_resource_kind :: resource_kind
  mn_pid :: int
  mn_child_pid :: int
  mn_context_id :: nat
  mn_sequence :: nat
  mn_monotonic_ns :: nat
  mn_wall_unix_ns :: nat
  mn_monotonic_ns_available :: bool
  mn_wall_unix_ns_available :: bool
  mn_fd :: int
  mn_cloexec :: bool
  mn_size :: nat
  mn_line_number :: int
  mn_run_id :: string
  mn_function_name :: string
  mn_file_name :: string
  mn_call_name :: string
  mn_arguments :: string
  mn_result :: string
  mn_ptr :: string
  mn_new_ptr :: string
  mn_target :: string
  mn_resource_class :: string
  mn_resource_id :: string
  mn_related_id :: string
  mn_metadata :: string

record model_edge =
  me_kind :: edge_kind
  me_from :: nat
  me_to :: nat

record tool_model =
  tm_run_id :: "string option"
  tm_nodes :: "model_node list"
  tm_node_capacity :: nat
  tm_edges :: "model_edge list"
  tm_edge_capacity :: nat
  tm_lifecycle :: "lifecycle_model option"
  tm_finished :: bool

type_synonym model_state = "tool_model \<times> world"

definition MODEL_INITIAL_CAPACITY :: nat where "MODEL_INITIAL_CAPACITY = 32"
definition MODEL_LIMIT :: nat where "MODEL_LIMIT = 1048576"

definition empty_model :: tool_model where
  "empty_model = \<lparr>tm_run_id = None, tm_nodes = [], tm_node_capacity = 0, tm_edges = [],
     tm_edge_capacity = 0, tm_lifecycle = None, tm_finished = False\<rparr>"

definition model_create :: "world \<Rightarrow> tool_model option \<times> world" where
  "model_create w =
     (case heap_request w of
        (False, w') \<Rightarrow> (None, raise_errno ENOMEM w')
      | (True, w') \<Rightarrow> (Some empty_model, w'))"

definition model_destroy :: "tool_model option \<Rightarrow> tool_model option" where
  "model_destroy m = None"

subsection \<open>Capacity\<close>

text \<open>Unlike the lifecycle's arrays, the limit is tested on the capacity when it is exhausted.\<close>

definition model_reserve :: "nat \<Rightarrow> nat \<Rightarrow> world \<Rightarrow> bool \<times> nat \<times> world" where
  "model_reserve n c w =
     (if n < c then (True, c, w)
      else if MODEL_LIMIT \<le> c then (False, c, raise_errno EOVERFLOW w)
      else (case heap_request w of
              (False, w') \<Rightarrow> (False, c, raise_errno ENOMEM w')
            | (True, w') \<Rightarrow> (True, next_capacity MODEL_INITIAL_CAPACITY c, w')))"

definition reserve_nodes :: "model_state \<Rightarrow> bool \<times> model_state" where
  "reserve_nodes s =
     (case s of (m, w) \<Rightarrow>
        case model_reserve (length (tm_nodes m)) (tm_node_capacity m) w of
          (b, c, w') \<Rightarrow> (b, m\<lparr>tm_node_capacity := c\<rparr>, w'))"

definition reserve_edges :: "model_state \<Rightarrow> bool \<times> model_state" where
  "reserve_edges s =
     (case s of (m, w) \<Rightarrow>
        case model_reserve (length (tm_edges m)) (tm_edge_capacity m) w of
          (b, c, w') \<Rightarrow> (b, m\<lparr>tm_edge_capacity := c\<rparr>, w'))"

definition add_edge ::
  "model_state \<Rightarrow> edge_kind \<Rightarrow> nat \<Rightarrow> nat \<Rightarrow> bool \<times> model_state" where
  "add_edge s kind src dst =
     (case reserve_edges s of
        (False, s1) \<Rightarrow> (False, s1)
      | (True, m1, w1) \<Rightarrow>
          (True, m1\<lparr>tm_edges := tm_edges m1 @
             [\<lparr>me_kind = kind, me_from = src, me_to = dst\<rparr>]\<rparr>, w1))"

subsection \<open>Admitting a record\<close>

definition node_resource_class :: "event_record \<Rightarrow> string option" where
  "node_resource_class r =
     (if ev_record_kind r = RECORD_FD then Some ''fd''
      else if ev_record_kind r = RECORD_ALLOC then Some ''allocation''
      else ev_resource_class r)"

text \<open>The texts \<open>copy_record_text\<close> copies, in its order; a NULL text is copied as the empty one.\<close>

definition record_texts :: "event_record \<Rightarrow> string list" where
  "record_texts r = map (text_or [])
     [ev_run_id r, ev_function_name r, ev_file_name r, ev_call_name r, ev_arguments r,
      ev_result r, ev_ptr r, ev_new_ptr r, ev_target r, node_resource_class r,
      ev_resource_id r, ev_related_id r, ev_metadata r]"

text \<open>The node that \<open>copy_record\<close> and \<open>copy_record_text\<close> make.\<close>

definition copy_record :: "event_record \<Rightarrow> model_node" where
  "copy_record r = \<lparr>
     mn_domain = (if ev_record_kind r = RECORD_CALL then NODE_CALL else NODE_RESOURCE),
     mn_record_kind = ev_record_kind r, mn_call_kind = ev_call_kind r,
     mn_fd_kind = ev_fd_kind r, mn_alloc_kind = ev_alloc_kind r,
     mn_resource_kind = ev_resource_kind r, mn_pid = ev_pid r,
     mn_child_pid = ev_child_pid r, mn_context_id = ev_context_id r,
     mn_sequence = ev_sequence r, mn_monotonic_ns = ev_monotonic_ns r,
     mn_wall_unix_ns = ev_wall_unix_ns r,
     mn_monotonic_ns_available = ev_monotonic_ns_available r,
     mn_wall_unix_ns_available = ev_wall_unix_ns_available r, mn_fd = ev_fd r,
     mn_cloexec = (ev_cloexec r \<noteq> 0), mn_size = ev_size r,
     mn_line_number = ev_line_number r, mn_run_id = text_or [] (ev_run_id r),
     mn_function_name = text_or [] (ev_function_name r),
     mn_file_name = text_or [] (ev_file_name r), mn_call_name = text_or [] (ev_call_name r),
     mn_arguments = text_or [] (ev_arguments r), mn_result = text_or [] (ev_result r),
     mn_ptr = text_or [] (ev_ptr r), mn_new_ptr = text_or [] (ev_new_ptr r),
     mn_target = text_or [] (ev_target r),
     mn_resource_class = text_or [] (node_resource_class r),
     mn_resource_id = text_or [] (ev_resource_id r),
     mn_related_id = text_or [] (ev_related_id r), mn_metadata = text_or [] (ev_metadata r)\<rparr>"

text \<open>The run identity of the first record is copied; a later record must carry the same one.\<close>

definition admit_run_id :: "model_state \<Rightarrow> string \<Rightarrow> bool \<times> model_state" where
  "admit_run_id s rid =
     (case s of (m, w) \<Rightarrow>
        case tm_run_id m of
          None \<Rightarrow> (case copy_text rid w of
                     (None, w1) \<Rightarrow> (False, m, w1)
                   | (Some t, w1) \<Rightarrow> (True, m\<lparr>tm_run_id := Some t\<rparr>, w1))
        | Some own \<Rightarrow> if own \<noteq> rid then (False, m, raise_errno EINVAL w) else (True, m, w))"

definition add_node :: "model_state \<Rightarrow> event_record \<Rightarrow> bool \<times> model_state" where
  "add_node s r =
     (case reserve_nodes s of
        (False, s1) \<Rightarrow> (False, s1)
      | (True, m1, w1) \<Rightarrow>
          (case copy_until (record_texts r) w1 of
             (False, w2) \<Rightarrow> (False, m1, w2)
           | (True, w2) \<Rightarrow> (True, m1\<lparr>tm_nodes := tm_nodes m1 @ [copy_record r]\<rparr>, w2)))"

definition model_ingest ::
  "record_lib \<Rightarrow> tool_model option \<times> world \<Rightarrow> event_record option \<Rightarrow>
   bool \<times> tool_model option \<times> world" where
  "model_ingest L s record =
     (case (s, record) of
        ((Some m, w), Some r) \<Rightarrow>
          if tm_finished m \<or> \<not> record_admissible L r
          then (False, Some m, raise_errno EINVAL w)
          else (case admit_run_id (m, w) (the (ev_run_id r)) of
                  (False, m1, w1) \<Rightarrow> (False, Some m1, w1)
                | (True, m1, w1) \<Rightarrow>
                    if ev_record_kind r = RECORD_COMPLETE then (True, Some m1, w1)
                    else (case add_node (m1, w1) r of (b, m2, w2) \<Rightarrow> (b, Some m2, w2)))
      | ((m, w), _) \<Rightarrow> (False, m, raise_errno EINVAL w))"

text \<open>The record a node stands for, as it is fed to the lifecycle.\<close>

definition record_from_node :: "record_lib \<Rightarrow> model_node \<Rightarrow> event_record" where
  "record_from_node L n = zero_record\<lparr>ev_version := log_version L,
     ev_record_kind := mn_record_kind n, ev_call_kind := mn_call_kind n,
     ev_fd_kind := mn_fd_kind n, ev_alloc_kind := mn_alloc_kind n,
     ev_resource_kind := mn_resource_kind n, ev_run_id := Some (mn_run_id n),
     ev_pid := mn_pid n, ev_child_pid := mn_child_pid n, ev_context_id := mn_context_id n,
     ev_sequence := mn_sequence n, ev_monotonic_ns := mn_monotonic_ns n,
     ev_wall_unix_ns := mn_wall_unix_ns n,
     ev_monotonic_ns_available := mn_monotonic_ns_available n,
     ev_wall_unix_ns_available := mn_wall_unix_ns_available n, ev_fd := mn_fd n,
     ev_cloexec := (if mn_cloexec n then 1 else 0), ev_size := mn_size n,
     ev_line_number := mn_line_number n, ev_function_name := Some (mn_function_name n),
     ev_file_name := Some (mn_file_name n), ev_call_name := Some (mn_call_name n),
     ev_arguments := Some (mn_arguments n), ev_result := Some (mn_result n),
     ev_ptr := Some (mn_ptr n), ev_new_ptr := Some (mn_new_ptr n),
     ev_target := Some (mn_target n), ev_resource_class := Some (mn_resource_class n),
     ev_resource_id := Some (mn_resource_id n), ev_related_id := Some (mn_related_id n),
     ev_metadata := Some (mn_metadata n)\<rparr>"

subsection \<open>Scans that keep the best candidate\<close>

text \<open>
  \<open>for(i = 0; i < n; i++) if(P(i) && (best == SIZE_MAX || lt(i, best))) best = i;\<close>
\<close>

fun pick :: "(nat \<Rightarrow> bool) \<Rightarrow> (nat \<Rightarrow> nat \<Rightarrow> bool) \<Rightarrow> nat \<Rightarrow> nat option" where
  "pick P lt 0 = None"
| "pick P lt (Suc i) =
     (if P i \<and> (case pick P lt i of None \<Rightarrow> True | Some best \<Rightarrow> lt i best) then Some i
      else pick P lt i)"

subsection \<open>Call edges\<close>

type_synonym exits = "nat option list"

definition same_context :: "model_node \<Rightarrow> model_node \<Rightarrow> bool" where
  "same_context a b \<longleftrightarrow> mn_pid a = mn_pid b \<and> mn_context_id a = mn_context_id b"

definition is_enter :: "model_node \<Rightarrow> bool" where
  "is_enter n \<longleftrightarrow> mn_record_kind n = RECORD_CALL \<and> mn_call_kind n = CALL_ENTER"

definition find_active_enter ::
  "model_node list \<Rightarrow> exits \<Rightarrow> nat \<Rightarrow> bool \<Rightarrow> nat option" where
  "find_active_enter nodes matched i require_name =
     scan_down (\<lambda>c. is_enter (nodes ! c) \<and> matched ! c = None \<and>
       same_context (nodes ! c) (nodes ! i) \<and>
       (\<not> require_name \<or> mn_call_name (nodes ! c) = mn_call_name (nodes ! i))) i"

definition call_step :: "nat \<Rightarrow> exits \<Rightarrow> model_state \<Rightarrow> bool \<times> exits \<times> model_state" where
  "call_step i matched s =
     (let nodes = tm_nodes (fst s) in
      if mn_record_kind (nodes ! i) \<noteq> RECORD_CALL then (True, matched, s)
      else if mn_call_kind (nodes ! i) = CALL_ENTER then
        (case find_active_enter nodes matched i False of
           None \<Rightarrow> (True, matched, s)
         | Some p \<Rightarrow> (case add_edge s EDGE_CALL_PARENT p i of (b, s1) \<Rightarrow> (b, matched, s1)))
      else
        (case find_active_enter nodes matched i True of
           None \<Rightarrow> (True, matched, s)
         | Some e \<Rightarrow> (case add_edge s EDGE_CALL_RETURN e i of
                        (b, s1) \<Rightarrow> (b, matched[e := Some i], s1))))"

fun call_edges_from ::
  "nat \<Rightarrow> nat \<Rightarrow> exits \<Rightarrow> model_state \<Rightarrow> bool \<times> exits \<times> model_state" where
  "call_edges_from 0 i matched s = (True, matched, s)"
| "call_edges_from (Suc n) i matched s =
     (case call_step i matched s of
        (False, r) \<Rightarrow> (False, r)
      | (True, matched1, s1) \<Rightarrow> call_edges_from n (Suc i) matched1 s1)"

definition build_call_edges :: "exits \<Rightarrow> model_state \<Rightarrow> bool \<times> exits \<times> model_state" where
  "build_call_edges matched s = call_edges_from (length (tm_nodes (fst s))) 0 matched s"

subsection \<open>Resource edges\<close>

definition encloses :: "model_node list \<Rightarrow> exits \<Rightarrow> nat \<Rightarrow> nat \<Rightarrow> bool" where
  "encloses nodes matched i c \<longleftrightarrow>
     is_enter (nodes ! c) \<and> same_context (nodes ! c) (nodes ! i) \<and>
     mn_sequence (nodes ! c) \<le> mn_sequence (nodes ! i) \<and>
     (case matched ! c of None \<Rightarrow> True
      | Some x \<Rightarrow> mn_sequence (nodes ! i) \<le> mn_sequence (nodes ! x))"

definition find_enclosing_call :: "model_node list \<Rightarrow> exits \<Rightarrow> nat \<Rightarrow> nat option" where
  "find_enclosing_call nodes matched i =
     pick (encloses nodes matched i)
       (\<lambda>c best. mn_sequence (nodes ! best) < mn_sequence (nodes ! c)) (length nodes)"

definition is_lifetime_birth :: "record_lib \<Rightarrow> model_node \<Rightarrow> bool" where
  "is_lifetime_birth L n \<longleftrightarrow>
     (case mn_record_kind n of
        RECORD_FD \<Rightarrow> mn_fd_kind n = FD_OPEN
      | RECORD_ALLOC \<Rightarrow> mn_alloc_kind n = ALLOC_ALLOC \<or>
          (mn_alloc_kind n = ALLOC_REALLOC \<and> \<not> pointer_is_null L (Some (mn_new_ptr n)))
      | RECORD_RESOURCE \<Rightarrow> mn_resource_kind n = RESOURCE_ACQUIRE \<or>
          (mn_resource_kind n \<in> {RESOURCE_REPLACE, RESOURCE_TRANSFER} \<and> mn_related_id n \<noteq> [])
      | _ \<Rightarrow> False)"

definition lifetime_matches :: "model_node \<Rightarrow> model_node \<Rightarrow> bool" where
  "lifetime_matches birth death \<longleftrightarrow>
     (if mn_record_kind birth = RECORD_FD then
        mn_record_kind death = RECORD_FD \<and> mn_fd_kind death = FD_CLOSE \<and>
        mn_fd death = mn_fd birth
      else if mn_record_kind birth = RECORD_ALLOC then
        mn_record_kind death = RECORD_ALLOC \<and>
        mn_alloc_kind death \<in> {ALLOC_FREE, ALLOC_REALLOC} \<and>
        mn_ptr death = (if mn_alloc_kind birth = ALLOC_REALLOC then mn_new_ptr birth
                        else mn_ptr birth)
      else
        mn_record_kind death = RECORD_RESOURCE \<and>
        mn_resource_class death = mn_resource_class birth \<and>
        mn_resource_kind death \<in> {RESOURCE_RELEASE, RESOURCE_REPLACE, RESOURCE_TRANSFER} \<and>
        mn_resource_id death = (if mn_resource_kind birth = RESOURCE_ACQUIRE
                                then mn_resource_id birth else mn_related_id birth))"

definition ends_lifetime :: "model_node \<Rightarrow> model_node \<Rightarrow> bool" where
  "ends_lifetime birth death \<longleftrightarrow>
     mn_sequence birth < mn_sequence death \<and> mn_pid death = mn_pid birth \<and>
     lifetime_matches birth death"

definition find_lifetime_end :: "record_lib \<Rightarrow> model_node list \<Rightarrow> nat \<Rightarrow> nat option" where
  "find_lifetime_end L nodes i =
     (if \<not> is_lifetime_birth L (nodes ! i) then None
      else pick (\<lambda>d. ends_lifetime (nodes ! i) (nodes ! d))
        (\<lambda>d best. mn_sequence (nodes ! d) < mn_sequence (nodes ! best)) (length nodes))"

text \<open>The optional edge: \<open>if(x != SIZE_MAX) status = add_edge(...)\<close>, status 0 otherwise.\<close>

definition add_optional_edge ::
  "model_state \<Rightarrow> edge_kind \<Rightarrow> nat option \<Rightarrow> nat option \<Rightarrow> bool \<times> model_state" where
  "add_optional_edge s kind src dst =
     (case (src, dst) of (Some a, Some b) \<Rightarrow> add_edge s kind a b | _ \<Rightarrow> (True, s))"

fun child_edges_from :: "nat \<Rightarrow> nat \<Rightarrow> nat \<Rightarrow> model_state \<Rightarrow> bool \<times> model_state" where
  "child_edges_from i 0 c s = (True, s)"
| "child_edges_from i (Suc n) c s =
     (case add_optional_edge s EDGE_PROCESS_CHILD_EVENT (Some i)
             (if mn_pid (tm_nodes (fst s) ! c) = mn_child_pid (tm_nodes (fst s) ! i)
              then Some c else None) of
        (False, s1) \<Rightarrow> (False, s1)
      | (True, s1) \<Rightarrow> child_edges_from i n (Suc c) s1)"

definition resource_step :: "record_lib \<Rightarrow> exits \<Rightarrow> nat \<Rightarrow> model_state \<Rightarrow> bool \<times> model_state" where
  "resource_step L matched i s =
     (let nodes = tm_nodes (fst s) in
      if mn_domain (nodes ! i) \<noteq> NODE_RESOURCE then (True, s)
      else case add_optional_edge s EDGE_CALL_CAUSED_EVENT
                  (find_enclosing_call nodes matched i) (Some i) of
        (False, s1) \<Rightarrow> (False, s1)
      | (True, s1) \<Rightarrow>
          (case add_optional_edge s1 EDGE_RESOURCE_LIFETIME (Some i)
                  (find_lifetime_end L nodes i) of
             (False, s2) \<Rightarrow> (False, s2)
           | (True, s2) \<Rightarrow>
               if mn_record_kind (nodes ! i) \<in> {RECORD_FORK, RECORD_SPAWN}
               then child_edges_from i (length nodes) 0 s2 else (True, s2)))"

fun resource_edges_from ::
  "record_lib \<Rightarrow> exits \<Rightarrow> nat \<Rightarrow> nat \<Rightarrow> model_state \<Rightarrow> bool \<times> model_state" where
  "resource_edges_from L matched 0 i s = (True, s)"
| "resource_edges_from L matched (Suc n) i s =
     (case resource_step L matched i s of
        (False, s1) \<Rightarrow> (False, s1)
      | (True, s1) \<Rightarrow> resource_edges_from L matched n (Suc i) s1)"

definition build_resource_edges ::
  "record_lib \<Rightarrow> exits \<Rightarrow> model_state \<Rightarrow> bool \<times> model_state" where
  "build_resource_edges L matched s =
     resource_edges_from L matched (length (tm_nodes (fst s))) 0 s"

subsection \<open>The lifecycle of the resource nodes\<close>

definition lifecycle_node :: "model_node \<Rightarrow> bool" where
  "lifecycle_node n \<longleftrightarrow> mn_domain n = NODE_RESOURCE \<and> mn_record_kind n \<noteq> RECORD_SPAWN"

fun lifecycle_of_nodes ::
  "record_lib \<Rightarrow> model_node list \<Rightarrow> lifecycle_model option \<times> world \<Rightarrow>
   (bool \<times> lifecycle_model option \<times> world) option" where
  "lifecycle_of_nodes L [] s = Some (True, s)"
| "lifecycle_of_nodes L (n # ns) s =
     (if \<not> lifecycle_node n then lifecycle_of_nodes L ns s
      else (case lifecycle_ingest L s (Some (record_from_node L n)) of
              None \<Rightarrow> None
            | Some (False, s1) \<Rightarrow> Some (False, s1)
            | Some (True, s1) \<Rightarrow> lifecycle_of_nodes L ns s1))"

definition build_lifecycle ::
  "record_lib \<Rightarrow> model_state \<Rightarrow> (bool \<times> model_state) option" where
  "build_lifecycle L s =
     (case s of (m, w) \<Rightarrow>
        case lifecycle_create w of
          (None, w1) \<Rightarrow> Some (False, m\<lparr>tm_lifecycle := None\<rparr>, w1)
        | (Some l, w1) \<Rightarrow>
            (case lifecycle_of_nodes L (tm_nodes m) (Some l, w1) of
               None \<Rightarrow> None
             | Some (False, l1, w2) \<Rightarrow> Some (False, m\<lparr>tm_lifecycle := lifecycle_destroy l1\<rparr>, w2)
             | Some (True, l1, w2) \<Rightarrow>
                 (case lifecycle_finish (l1, w2) of
                    (False, l2, w3) \<Rightarrow> Some (False, m\<lparr>tm_lifecycle := lifecycle_destroy l2\<rparr>, w3)
                  | (True, l2, w3) \<Rightarrow> Some (True, m\<lparr>tm_lifecycle := l2\<rparr>, w3))))"

subsection \<open>Finishing\<close>

text \<open>The array \<open>matched_exit\<close>: allocated when there are nodes, every slot SIZE_MAX.\<close>

definition allocate_exits :: "nat \<Rightarrow> world \<Rightarrow> bool \<times> world" where
  "allocate_exits n w =
     (if n = 0 then (True, w)
      else case heap_request w of
        (False, w') \<Rightarrow> (False, raise_errno ENOMEM w') | (True, w') \<Rightarrow> (True, w'))"

definition build_model ::
  "record_lib \<Rightarrow> model_state \<Rightarrow> (bool \<times> model_state) option" where
  "build_model L s =
     (case build_call_edges (replicate (length (tm_nodes (fst s))) None) s of
        (False, matched, s1) \<Rightarrow> Some (False, s1)
      | (True, matched, s1) \<Rightarrow>
          (case build_resource_edges L matched s1 of
             (False, s2) \<Rightarrow> Some (False, s2)
           | (True, s2) \<Rightarrow> build_lifecycle L s2))"

definition model_finish ::
  "record_lib \<Rightarrow> tool_model option \<times> world \<Rightarrow> (bool \<times> tool_model option \<times> world) option" where
  "model_finish L s =
     (case s of
        (None, w) \<Rightarrow> Some (False, None, raise_errno EINVAL w)
      | (Some m, w) \<Rightarrow>
          if tm_finished m then Some (True, Some m, w)
          else
            (let m0 = m\<lparr>tm_edges := [], tm_lifecycle := None\<rparr> in
             case allocate_exits (length (tm_nodes m)) w of
               (False, w1) \<Rightarrow> Some (False, Some m0, w1)
             | (True, w1) \<Rightarrow>
                 (case build_model L (m0, w1) of
                    None \<Rightarrow> None
                  | Some (False, m1, w2) \<Rightarrow> Some (False, Some (m1\<lparr>tm_edges := []\<rparr>), w2)
                  | Some (True, m1, w2) \<Rightarrow> Some (True, Some (m1\<lparr>tm_finished := True\<rparr>), w2))))"

subsection \<open>Accessors\<close>

definition model_node_count :: "tool_model option \<Rightarrow> nat" where
  "model_node_count m = (case m of None \<Rightarrow> 0 | Some m \<Rightarrow> length (tm_nodes m))"

definition model_node_at :: "tool_model option \<Rightarrow> nat \<Rightarrow> model_node option" where
  "model_node_at m i = (case m of None \<Rightarrow> None
     | Some m \<Rightarrow> if length (tm_nodes m) \<le> i then None else Some (tm_nodes m ! i))"

definition model_edge_count :: "tool_model option \<Rightarrow> nat" where
  "model_edge_count m = (case m of None \<Rightarrow> 0 | Some m \<Rightarrow> length (tm_edges m))"

definition model_edge_at :: "tool_model option \<Rightarrow> nat \<Rightarrow> model_edge option" where
  "model_edge_at m i = (case m of None \<Rightarrow> None
     | Some m \<Rightarrow> if length (tm_edges m) \<le> i then None else Some (tm_edges m ! i))"

definition model_lifecycle_entry_count :: "tool_model option \<Rightarrow> nat" where
  "model_lifecycle_entry_count m =
     (case m of None \<Rightarrow> 0 | Some m \<Rightarrow> lifecycle_entry_count (tm_lifecycle m))"

definition model_lifecycle_entry_at :: "tool_model option \<Rightarrow> nat \<Rightarrow> lifecycle_entry option" where
  "model_lifecycle_entry_at m i =
     (case m of None \<Rightarrow> None | Some m \<Rightarrow> lifecycle_entry_at (tm_lifecycle m) i)"

definition model_lifecycle_finding_count :: "tool_model option \<Rightarrow> nat" where
  "model_lifecycle_finding_count m =
     (case m of None \<Rightarrow> 0 | Some m \<Rightarrow> lifecycle_finding_count (tm_lifecycle m))"

definition model_lifecycle_finding_at ::
  "tool_model option \<Rightarrow> nat \<Rightarrow> lifecycle_finding option" where
  "model_lifecycle_finding_at m i =
     (case m of None \<Rightarrow> None | Some m \<Rightarrow> lifecycle_finding_at (tm_lifecycle m) i)"

subsection \<open>The arrays as growable arrays\<close>

interpretation model_array: growable model_reserve MODEL_INITIAL_CAPACITY MODEL_LIMIT
proof
  show "0 < MODEL_INITIAL_CAPACITY \<and> (\<exists>m. MODEL_LIMIT = MODEL_INITIAL_CAPACITY * 2 ^ m)"
    by (auto simp: MODEL_INITIAL_CAPACITY_def MODEL_LIMIT_def intro!: exI [where x = 15])
  show "\<exists>c' w'. model_reserve n c w = (True, c', w') \<and> ample w'"
    if "n \<le> c" "n < MODEL_LIMIT" "ample w" for n c w
    using that heap_request_ample [of w] by (auto simp: model_reserve_def)
qed (auto simp: model_reserve_def next_capacity_def MODEL_INITIAL_CAPACITY_def
    raise_errno_def not_less split: if_splits prod.splits bool.splits)

abbreviation nodes_fit :: "tool_model \<Rightarrow> bool" where
  "nodes_fit m \<equiv> fits MODEL_INITIAL_CAPACITY MODEL_LIMIT (tm_nodes m) (tm_node_capacity m)"

abbreviation edges_fit :: "tool_model \<Rightarrow> bool" where
  "edges_fit m \<equiv> fits MODEL_INITIAL_CAPACITY MODEL_LIMIT (tm_edges m) (tm_edge_capacity m)"

end
