(* ===== verification/Model_Facts.thy ===== *)
theory Model_Facts
  imports Model Lifecycle_Facts
begin

section \<open>The edges of the causal model\<close>

text \<open>
  \<open>call_spec\<close> states what the call edges of a node sequence must be, without reference to the
  loop that builds them; \<open>node_edges\<close> lists the edges of a resource node. The builders are
  shown to produce exactly these.
\<close>

subsection \<open>Best candidates\<close>

lemma pick_min:
  fixes f :: "nat \<Rightarrow> nat"
  shows "pick P (\<lambda>i b. f i < f b) n = Some d \<longleftrightarrow>
    d < n \<and> P d \<and> (\<forall>i<n. P i \<longrightarrow> f d \<le> f i \<and> (f i = f d \<longrightarrow> d \<le> i))"
    and "pick P (\<lambda>i b. f i < f b) n = None \<longleftrightarrow> (\<forall>i<n. \<not> P i)"
proof -
  have none: "pick P (\<lambda>i b. f i < f b) n = None \<longleftrightarrow> (\<forall>i<n. \<not> P i)" for n
    by (induction n) (auto simp: less_Suc_eq split: option.splits)
  have best: "pick P (\<lambda>i b. f i < f b) n = Some d \<Longrightarrow>
    d < n \<and> P d \<and> (\<forall>i<n. P i \<longrightarrow> f d \<le> f i \<and> (f i = f d \<longrightarrow> d \<le> i))" for n d
  proof (induction n arbitrary: d)
    case (Suc n)
    show ?case
    proof (cases "pick P (\<lambda>i b. f i < f b) n")
      case None
      with Suc.prems have "d = n" "P n" by (auto split: if_splits)
      with none [of n] None show ?thesis by (auto simp: less_Suc_eq)
    next
      case (Some b)
      with Suc.IH [OF Some] Suc.prems show ?thesis
        by (fastforce simp: less_Suc_eq split: if_splits)
    qed
  qed simp
  show "pick P (\<lambda>i b. f i < f b) n = None \<longleftrightarrow> (\<forall>i<n. \<not> P i)" by (rule none)
  show "pick P (\<lambda>i b. f i < f b) n = Some d \<longleftrightarrow>
    d < n \<and> P d \<and> (\<forall>i<n. P i \<longrightarrow> f d \<le> f i \<and> (f i = f d \<longrightarrow> d \<le> i))" (is "?l \<longleftrightarrow> ?r")
  proof
    assume ?l then show ?r by (rule best)
  next
    assume r: ?r
    then obtain b where b: "pick P (\<lambda>i b. f i < f b) n = Some b" using none [of n] by auto
    with best [OF b] r have "b = d" by (metis le_antisym)
    with b show ?l by simp
  qed
qed

lemma pick_max:
  fixes f :: "nat \<Rightarrow> nat"
  shows "pick P (\<lambda>i b. f b < f i) n = Some d \<longleftrightarrow>
    d < n \<and> P d \<and> (\<forall>i<n. P i \<longrightarrow> f i \<le> f d \<and> (f i = f d \<longrightarrow> d \<le> i))"
    and "pick P (\<lambda>i b. f b < f i) n = None \<longleftrightarrow> (\<forall>i<n. \<not> P i)"
proof -
  have none: "pick P (\<lambda>i b. f b < f i) n = None \<longleftrightarrow> (\<forall>i<n. \<not> P i)" for n
    by (induction n) (auto simp: less_Suc_eq split: option.splits)
  have best: "pick P (\<lambda>i b. f b < f i) n = Some d \<Longrightarrow>
    d < n \<and> P d \<and> (\<forall>i<n. P i \<longrightarrow> f i \<le> f d \<and> (f i = f d \<longrightarrow> d \<le> i))" for n d
  proof (induction n arbitrary: d)
    case (Suc n)
    show ?case
    proof (cases "pick P (\<lambda>i b. f b < f i) n")
      case None
      with Suc.prems have "d = n" "P n" by (auto split: if_splits)
      with none [of n] None show ?thesis by (auto simp: less_Suc_eq)
    next
      case (Some b)
      with Suc.IH [OF Some] Suc.prems show ?thesis
        by (fastforce simp: less_Suc_eq split: if_splits)
    qed
  qed simp
  show "pick P (\<lambda>i b. f b < f i) n = None \<longleftrightarrow> (\<forall>i<n. \<not> P i)" by (rule none)
  show "pick P (\<lambda>i b. f b < f i) n = Some d \<longleftrightarrow>
    d < n \<and> P d \<and> (\<forall>i<n. P i \<longrightarrow> f i \<le> f d \<and> (f i = f d \<longrightarrow> d \<le> i))" (is "?l \<longleftrightarrow> ?r")
  proof
    assume ?l then show ?r by (rule best)
  next
    assume r: ?r
    then obtain b where b: "pick P (\<lambda>i b. f b < f i) n = Some b" using none [of n] by auto
    with best [OF b] r have "b = d" by (metis le_antisym)
    with b show ?l by simp
  qed
qed

subsection \<open>Adding edges\<close>

definition edge :: "edge_kind \<Rightarrow> nat \<Rightarrow> nat \<Rightarrow> model_edge" where
  "edge k a b = \<lparr>me_kind = k, me_from = a, me_to = b\<rparr>"

lemma edge_eq [simp]: "edge k a b = edge k' a' b' \<longleftrightarrow> k = k' \<and> a = a' \<and> b = b'"
  by (simp add: edge_def)

lemma edge_kind [simp]: "me_kind (edge k a b) = k"
  by (simp add: edge_def)

text \<open>\<open>m'\<close> is \<open>m\<close> with edges appended (and more edge capacity).\<close>

definition extends :: "tool_model \<Rightarrow> tool_model \<Rightarrow> model_edge list \<Rightarrow> bool" where
  "extends m m' es \<longleftrightarrow>
     (\<exists>c. m' = m\<lparr>tm_edge_capacity := c, tm_edges := tm_edges m @ es\<rparr>) \<and>
     (edges_fit m \<longrightarrow> edges_fit m')"

lemma extends_refl [simp]: "extends m m []"
  by (auto simp: extends_def intro: exI [where x = "tm_edge_capacity m"])

lemma extends_trans: "extends m m1 es \<Longrightarrow> extends m1 m2 fs \<Longrightarrow> extends m m2 (es @ fs)"
  by (auto simp: extends_def)

lemma extends_frame:
  assumes "extends m m' es"
  shows "tm_nodes m' = tm_nodes m" and "tm_edges m' = tm_edges m @ es"
    and "tm_finished m' = tm_finished m" and "tm_run_id m' = tm_run_id m"
    and "tm_node_capacity m' = tm_node_capacity m" and "tm_lifecycle m' = tm_lifecycle m"
    and "edges_fit m \<Longrightarrow> edges_fit m'"
  using assms by (auto simp: extends_def)

lemma add_edge_extends:
  assumes "add_edge (m, w) k a b = (ok, m', w')"
  shows "extends m m' (if ok then [edge k a b] else [])"
proof -
  obtain d c w1 where res: "model_reserve (length (tm_edges m)) (tm_edge_capacity m) w = (d, c, w1)"
    by (rule prod_cases3)
  have kept: "edges_fit m \<Longrightarrow> fits MODEL_INITIAL_CAPACITY MODEL_LIMIT (tm_edges m) c"
    using model_array.kept_fits [OF _ res] by blast
  have pushed: "d \<Longrightarrow> edges_fit m \<Longrightarrow> fits MODEL_INITIAL_CAPACITY MODEL_LIMIT (tm_edges m @ [e]) c" for e
    using res by (cases d) (simp_all add: model_array.push_fits)
  show ?thesis
    using assms res kept pushed
    by (auto simp: add_edge_def reserve_edges_def extends_def edge_def split: prod.splits bool.splits)
qed

lemma add_optional_edge_extends:
  assumes "add_optional_edge (m, w) k a b = (ok, m', w')"
  shows "extends m m' (if ok then (case (a, b) of (Some x, Some y) \<Rightarrow> [edge k x y] | _ \<Rightarrow> []) else [])"
  using assms
  by (auto simp: add_optional_edge_def dest: add_edge_extends split: option.splits)

subsection \<open>Resource edges\<close>

definition optional_edge :: "edge_kind \<Rightarrow> nat option \<Rightarrow> nat option \<Rightarrow> model_edge list" where
  "optional_edge k a b = (case (a, b) of (Some x, Some y) \<Rightarrow> [edge k x y] | _ \<Rightarrow> [])"

definition child_edges :: "model_node list \<Rightarrow> nat \<Rightarrow> nat list \<Rightarrow> model_edge list" where
  "child_edges nodes i cs =
     map (edge EDGE_PROCESS_CHILD_EVENT i) (filter (\<lambda>c. mn_pid (nodes ! c) = mn_child_pid (nodes ! i)) cs)"

definition node_edges :: "record_lib \<Rightarrow> model_node list \<Rightarrow> exits \<Rightarrow> nat \<Rightarrow> model_edge list" where
  "node_edges L nodes matched i =
     (if mn_domain (nodes ! i) \<noteq> NODE_RESOURCE then []
      else optional_edge EDGE_CALL_CAUSED_EVENT (find_enclosing_call nodes matched i) (Some i) @
        optional_edge EDGE_RESOURCE_LIFETIME (Some i) (find_lifetime_end L nodes i) @
        (if mn_record_kind (nodes ! i) \<in> {RECORD_FORK, RECORD_SPAWN}
         then child_edges nodes i [0..<length nodes] else []))"

lemma child_edges_from_result:
  assumes "child_edges_from i n c (m, w) = (ok, m', w')"
  shows "\<exists>es. extends m m' es \<and> (ok \<longrightarrow> es = child_edges (tm_nodes m) i [c..<c + n])"
  using assms
proof (induction n arbitrary: c m w)
  case 0
  then show ?case by (auto simp: child_edges_def intro: exI [where x = "[]"])
next
  case (Suc n)
  let ?t = "if mn_pid (tm_nodes m ! c) = mn_child_pid (tm_nodes m ! i) then Some c else None"
  obtain b m1 w1 where step: "add_optional_edge (m, w) EDGE_PROCESS_CHILD_EVENT (Some i) ?t = (b, m1, w1)"
    by (rule prod_cases3)
  note ext = add_optional_edge_extends [OF step]
  show ?case
  proof (cases b)
    case False
    with step Suc.prems ext show ?thesis by auto
  next
    case True
    with step Suc.prems have rest: "child_edges_from i n (Suc c) (m1, w1) = (ok, m', w')" by simp
    from Suc.IH [OF this] obtain es where es: "extends m1 m' es"
      "ok \<longrightarrow> es = child_edges (tm_nodes m1) i [Suc c..<Suc c + n]" by blast
    have "[c..<c + Suc n] = c # [Suc c..<Suc c + n]" by (simp add: upt_conv_Cons)
    with extends_trans [OF ext es(1)] es(2) True extends_frame(1) [OF ext] show ?thesis
      by (auto simp: child_edges_def split: if_splits)
  qed
qed

lemma resource_step_result:
  assumes "resource_step L matched i (m, w) = (ok, m', w')"
  shows "\<exists>es. extends m m' es \<and> (ok \<longrightarrow> es = node_edges L (tm_nodes m) matched i)"
proof (cases "mn_domain (tm_nodes m ! i) \<noteq> NODE_RESOURCE")
  case True
  with assms show ?thesis by (auto simp: resource_step_def node_edges_def intro: exI [where x = "[]"])
next
  case False
  let ?call = "find_enclosing_call (tm_nodes m) matched i"
  let ?death = "find_lifetime_end L (tm_nodes m) i"
  obtain b1 m1 w1 where s1: "add_optional_edge (m, w) EDGE_CALL_CAUSED_EVENT ?call (Some i) = (b1, m1, w1)"
    by (rule prod_cases3)
  note e1 = add_optional_edge_extends [OF s1]
  show ?thesis
  proof (cases b1)
    case b1: False
    with s1 assms False e1 show ?thesis by (auto simp: resource_step_def)
  next
    case b1: True
    obtain b2 m2 w2 where s2: "add_optional_edge (m1, w1) EDGE_RESOURCE_LIFETIME (Some i) ?death = (b2, m2, w2)"
      by (rule prod_cases3)
    note e2 = extends_trans [OF e1 add_optional_edge_extends [OF s2]]
    show ?thesis
    proof (cases "b2 \<and> mn_record_kind (tm_nodes m ! i) \<in> {RECORD_FORK, RECORD_SPAWN}")
      case b2: False
      with b1 s1 s2 assms False e2 show ?thesis
        by (cases b2) (auto simp: resource_step_def node_edges_def optional_edge_def)
    next
      case b2: True
      with b1 s1 s2 assms False
      have kids: "child_edges_from i (length (tm_nodes m)) 0 (m2, w2) = (ok, m', w')"
        by (simp add: resource_step_def Let_def)
      from child_edges_from_result [OF this] obtain es where es: "extends m2 m' es"
        "ok \<longrightarrow> es = child_edges (tm_nodes m2) i [0..<length (tm_nodes m)]" by auto
      with extends_trans [OF e2 es(1)] b1 b2 False extends_frame(1) [OF e2] show ?thesis
        by (auto simp: node_edges_def optional_edge_def)
    qed
  qed
qed

lemma resource_edges_from_result:
  assumes "resource_edges_from L matched n i (m, w) = (ok, m', w')"
  shows "\<exists>es. extends m m' es \<and>
    (ok \<longrightarrow> es = concat (map (node_edges L (tm_nodes m) matched) [i..<i + n]))"
  using assms
proof (induction n arbitrary: i m w)
  case 0
  then show ?case by (auto intro: exI [where x = "[]"])
next
  case (Suc n)
  obtain b m1 w1 where step: "resource_step L matched i (m, w) = (b, m1, w1)"
    by (rule prod_cases3)
  obtain es1 where es1: "extends m m1 es1" "b \<longrightarrow> es1 = node_edges L (tm_nodes m) matched i"
    using resource_step_result [OF step] by blast
  show ?case
  proof (cases b)
    case False
    with step Suc.prems es1 show ?thesis by auto
  next
    case True
    with step Suc.prems have rest: "resource_edges_from L matched n (Suc i) (m1, w1) = (ok, m', w')"
      by simp
    from Suc.IH [OF this] obtain es where es: "extends m1 m' es"
      "ok \<longrightarrow> es = concat (map (node_edges L (tm_nodes m1) matched) [Suc i..<Suc i + n])" by blast
    have "[i..<i + Suc n] = i # [Suc i..<Suc i + n]" by (simp add: upt_conv_Cons)
    with extends_trans [OF es1(1) es(1)] es(2) es1(2) True extends_frame(1) [OF es1(1)] show ?thesis
      by auto
  qed
qed

end
