(* ===== verification/Model_Calls.thy ===== *)
theory Model_Calls
  imports Model_Facts
begin

section \<open>Call edges: returns and parents\<close>

text \<open>
  \<open>returns_spec\<close> and \<open>parents_spec\<close> are about the edges alone. A RETURN edge joins an enter to
  the exit that closes it; at the time of an exit, every later enter of the same context and
  function than its partner has been closed before. A PARENT edge joins an enter to the
  innermost call of its context that is still open.
\<close>

definition is_exit :: "model_node \<Rightarrow> bool" where
  "is_exit n \<longleftrightarrow> mn_record_kind n = RECORD_CALL \<and> mn_call_kind n \<noteq> CALL_ENTER"

definition opens :: "model_node list \<Rightarrow> nat \<Rightarrow> nat \<Rightarrow> bool" where
  "opens nodes e x \<longleftrightarrow> is_enter (nodes ! e) \<and> is_exit (nodes ! x) \<and>
     same_context (nodes ! e) (nodes ! x) \<and> mn_call_name (nodes ! e) = mn_call_name (nodes ! x)"

definition ret :: "model_edge list \<Rightarrow> nat \<Rightarrow> nat \<Rightarrow> bool" where
  "ret es e x \<longleftrightarrow> edge EDGE_CALL_RETURN e x \<in> set es"

definition par :: "model_edge list \<Rightarrow> nat \<Rightarrow> nat \<Rightarrow> bool" where
  "par es p c \<longleftrightarrow> edge EDGE_CALL_PARENT p c \<in> set es"

definition returns_spec :: "model_node list \<Rightarrow> nat \<Rightarrow> model_edge list \<Rightarrow> bool" where
  "returns_spec nodes n es \<longleftrightarrow>
     (\<forall>e x. ret es e x \<longrightarrow> e < x \<and> x < n \<and> opens nodes e x) \<and>
     (\<forall>e x y. ret es e x \<and> ret es e y \<longrightarrow> x = y) \<and>
     (\<forall>d e x. ret es d x \<and> ret es e x \<longrightarrow> d = e) \<and>
     (\<forall>e x. e < x \<and> x < n \<and> opens nodes e x \<and> (\<forall>d. ret es d x \<longrightarrow> d < e) \<longrightarrow>
        (\<exists>y<x. ret es e y))"

definition parents_spec :: "model_node list \<Rightarrow> nat \<Rightarrow> model_edge list \<Rightarrow> bool" where
  "parents_spec nodes n es \<longleftrightarrow>
     (\<forall>p c. par es p c \<longrightarrow> p < c \<and> c < n \<and> is_enter (nodes ! p) \<and> is_enter (nodes ! c) \<and>
        same_context (nodes ! p) (nodes ! c) \<and> (\<forall>x. ret es p x \<longrightarrow> c < x)) \<and>
     (\<forall>p q c. par es p c \<and> par es q c \<longrightarrow> p = q) \<and>
     (\<forall>d c. d < c \<and> c < n \<and> is_enter (nodes ! d) \<and> is_enter (nodes ! c) \<and>
        same_context (nodes ! d) (nodes ! c) \<and> (\<forall>p. par es p c \<longrightarrow> p < d) \<longrightarrow>
        (\<exists>x<c. ret es d x))"

definition exits_agree :: "exits \<Rightarrow> model_edge list \<Rightarrow> bool" where
  "exits_agree matched es \<longleftrightarrow>
     (\<forall>e x. ret es e x \<longleftrightarrow> e < length matched \<and> matched ! e = Some x)"

definition only_calls :: "model_edge list \<Rightarrow> bool" where
  "only_calls es \<longleftrightarrow> (\<forall>e \<in> set es. me_kind e = EDGE_CALL_RETURN \<or> me_kind e = EDGE_CALL_PARENT)"

definition call_inv :: "model_node list \<Rightarrow> nat \<Rightarrow> exits \<Rightarrow> model_edge list \<Rightarrow> bool" where
  "call_inv nodes i matched es \<longleftrightarrow>
     length matched = length nodes \<and> exits_agree matched es \<and> only_calls es \<and>
     returns_spec nodes i es \<and> parents_spec nodes i es"

lemma ret_append [simp]:
  "ret (es @ [edge k a b]) e x \<longleftrightarrow> ret es e x \<or> (k = EDGE_CALL_RETURN \<and> e = a \<and> x = b)"
  by (auto simp: ret_def)

lemma par_append [simp]:
  "par (es @ [edge k a b]) p c \<longleftrightarrow> par es p c \<or> (k = EDGE_CALL_PARENT \<and> p = a \<and> c = b)"
  by (auto simp: par_def)

lemma enter_exit: "is_enter n \<Longrightarrow> \<not> is_exit n"
  by (simp add: is_enter_def is_exit_def)

lemma call_inv_start: "call_inv nodes 0 (replicate (length nodes) None) []"
  by (auto simp: call_inv_def exits_agree_def only_calls_def returns_spec_def parents_spec_def
      ret_def par_def)

text \<open>A node that is no call leaves the specification as it is.\<close>

lemma call_inv_skip:
  assumes "call_inv nodes i matched es" and "\<not> is_enter (nodes ! i)" and "\<not> is_exit (nodes ! i)"
  shows "call_inv nodes (Suc i) matched es"
  using assms
  by (auto simp: call_inv_def returns_spec_def parents_spec_def less_Suc_eq opens_def)

lemma active_enter_None:
  "find_active_enter nodes matched i named = None \<longleftrightarrow>
     (\<forall>c<i. is_enter (nodes ! c) \<and> same_context (nodes ! c) (nodes ! i) \<and>
        (named \<longrightarrow> mn_call_name (nodes ! c) = mn_call_name (nodes ! i)) \<longrightarrow> matched ! c \<noteq> None)"
  by (auto simp: find_active_enter_def scan_down_None)

lemma active_enter_Some:
  "find_active_enter nodes matched i named = Some p \<longleftrightarrow>
     p < i \<and> is_enter (nodes ! p) \<and> same_context (nodes ! p) (nodes ! i) \<and> matched ! p = None \<and>
     (named \<longrightarrow> mn_call_name (nodes ! p) = mn_call_name (nodes ! i)) \<and>
     (\<forall>c. p < c \<and> c < i \<and> is_enter (nodes ! c) \<and> same_context (nodes ! c) (nodes ! i) \<and>
        (named \<longrightarrow> mn_call_name (nodes ! c) = mn_call_name (nodes ! i)) \<longrightarrow> matched ! c \<noteq> None)"
  by (auto simp: find_active_enter_def scan_down_Some)

lemma matched_ret:
  assumes "call_inv nodes i matched es" and "c < length nodes" and "matched ! c \<noteq> None"
  shows "\<exists>x<i. ret es c x"
  using assms by (auto simp: call_inv_def exits_agree_def returns_spec_def)

lemma unmatched_ret:
  assumes "call_inv nodes i matched es" and "matched ! c = None"
  shows "\<not> ret es c x"
  using assms by (auto simp: call_inv_def exits_agree_def)

lemma call_inv_enter_root:
  assumes inv: "call_inv nodes i matched es" and i: "i < length nodes" "is_enter (nodes ! i)"
    and none: "find_active_enter nodes matched i False = None"
  shows "call_inv nodes (Suc i) matched es"
proof -
  have closed: "\<exists>x<i. ret es d x"
    if "d < i" "is_enter (nodes ! d)" "same_context (nodes ! d) (nodes ! i)" for d
    using none that matched_ret [OF inv, of d] i(1) by (auto simp: active_enter_None)
  have "returns_spec nodes (Suc i) es"
    using inv enter_exit [OF i(2)]
    by (auto simp: call_inv_def returns_spec_def less_Suc_eq opens_def)
  moreover have "parents_spec nodes (Suc i) es"
    using inv closed by (auto simp: call_inv_def parents_spec_def less_Suc_eq)
  ultimately show ?thesis using inv by (simp add: call_inv_def)
qed

lemma call_inv_enter_child:
  assumes inv: "call_inv nodes i matched es" and i: "i < length nodes" "is_enter (nodes ! i)"
    and some: "find_active_enter nodes matched i False = Some p"
  shows "call_inv nodes (Suc i) matched (es @ [edge EDGE_CALL_PARENT p i])"
proof -
  have p: "p < i" "is_enter (nodes ! p)" "same_context (nodes ! p) (nodes ! i)" "matched ! p = None"
    using some by (simp_all add: active_enter_Some)
  have closed: "\<exists>x<i. ret es d x"
    if "p < d" "d < i" "is_enter (nodes ! d)" "same_context (nodes ! d) (nodes ! i)" for d
    using some that matched_ret [OF inv, of d] i(1) by (auto simp: active_enter_Some)
  have bound: "par es q c \<Longrightarrow> c < i" for q c
    using inv by (auto simp: call_inv_def parents_spec_def)
  have "returns_spec nodes (Suc i) (es @ [edge EDGE_CALL_PARENT p i])"
    using inv enter_exit [OF i(2)]
    by (auto simp: call_inv_def returns_spec_def less_Suc_eq opens_def)
  moreover have "parents_spec nodes (Suc i) (es @ [edge EDGE_CALL_PARENT p i])"
  proof -
    have old: "parents_spec nodes i es" using inv by (simp add: call_inv_def)
    have uq: "par es q c \<Longrightarrow> par es q' c \<Longrightarrow> q = q'" for q q' c
      using old unfolding parents_spec_def by blast
    have a: "\<forall>q c. par (es @ [edge EDGE_CALL_PARENT p i]) q c \<longrightarrow> q < c \<and> c < Suc i \<and>
        is_enter (nodes ! q) \<and> is_enter (nodes ! c) \<and> same_context (nodes ! q) (nodes ! c) \<and>
        (\<forall>x. ret (es @ [edge EDGE_CALL_PARENT p i]) q x \<longrightarrow> c < x)"
      using old p i(2) unmatched_ret [OF inv p(4)] by (auto simp: parents_spec_def less_Suc_eq)
    have b: "\<forall>q q' c. par (es @ [edge EDGE_CALL_PARENT p i]) q c \<and>
        par (es @ [edge EDGE_CALL_PARENT p i]) q' c \<longrightarrow> q = q'"
      using bound by (auto intro: uq)
    have c: "\<forall>d c. d < c \<and> c < Suc i \<and> is_enter (nodes ! d) \<and> is_enter (nodes ! c) \<and>
        same_context (nodes ! d) (nodes ! c) \<and>
        (\<forall>q. par (es @ [edge EDGE_CALL_PARENT p i]) q c \<longrightarrow> q < d) \<longrightarrow>
        (\<exists>x<c. ret (es @ [edge EDGE_CALL_PARENT p i]) d x)"
      using old closed by (auto simp: parents_spec_def less_Suc_eq)
    from a b c show ?thesis unfolding parents_spec_def by blast
  qed
  ultimately show ?thesis
    using inv by (auto simp: call_inv_def exits_agree_def only_calls_def)
qed

lemma call_inv_exit_stray:
  assumes inv: "call_inv nodes i matched es" and i: "i < length nodes" "is_exit (nodes ! i)"
    and none: "find_active_enter nodes matched i True = None"
  shows "call_inv nodes (Suc i) matched es"
proof -
  have closed: "\<exists>x<i. ret es d x" if "d < i" "opens nodes d i" for d
    using none that matched_ret [OF inv, of d] i(1) by (auto simp: active_enter_None opens_def)
  have "returns_spec nodes (Suc i) es"
    using inv closed by (auto simp: call_inv_def returns_spec_def less_Suc_eq)
  moreover have "parents_spec nodes (Suc i) es"
    using inv i(2) enter_exit by (auto simp: call_inv_def parents_spec_def less_Suc_eq)
  ultimately show ?thesis using inv by (simp add: call_inv_def)
qed

lemma call_inv_exit_return:
  assumes inv: "call_inv nodes i matched es" and i: "i < length nodes" "is_exit (nodes ! i)"
    and some: "find_active_enter nodes matched i True = Some e"
  shows "call_inv nodes (Suc i) (matched[e := Some i]) (es @ [edge EDGE_CALL_RETURN e i])"
proof -
  have e: "e < i" "opens nodes e i" "matched ! e = None"
    using some i(2) by (simp_all add: active_enter_Some opens_def)
  have closed: "\<exists>x<i. ret es d x" if "e < d" "d < i" "opens nodes d i" for d
    using some that matched_ret [OF inv, of d] i(1) by (auto simp: active_enter_Some opens_def)
  have bound: "ret es d x \<Longrightarrow> x < i" for d x
    using inv by (auto simp: call_inv_def returns_spec_def)
  note fresh = unmatched_ret [OF inv e(3)]
  have "exits_agree (matched[e := Some i]) (es @ [edge EDGE_CALL_RETURN e i])"
    using inv e i(1) fresh by (auto simp: call_inv_def exits_agree_def nth_list_update)
  moreover have "returns_spec nodes (Suc i) (es @ [edge EDGE_CALL_RETURN e i])"
  proof -
    have old: "returns_spec nodes i es" using inv by (simp add: call_inv_def)
    have a: "\<forall>d x. ret (es @ [edge EDGE_CALL_RETURN e i]) d x \<longrightarrow> d < x \<and> x < Suc i \<and> opens nodes d x"
      using old e by (auto simp: returns_spec_def less_Suc_eq)
    have b: "\<forall>d x y. ret (es @ [edge EDGE_CALL_RETURN e i]) d x \<and>
        ret (es @ [edge EDGE_CALL_RETURN e i]) d y \<longrightarrow> x = y"
      using old fresh by (auto simp: returns_spec_def)
    have c: "\<forall>d d' x. ret (es @ [edge EDGE_CALL_RETURN e i]) d x \<and>
        ret (es @ [edge EDGE_CALL_RETURN e i]) d' x \<longrightarrow> d = d'"
    proof -
      have uq: "ret es d x \<Longrightarrow> ret es d' x \<Longrightarrow> d = d'" for d d' x
        using old unfolding returns_spec_def by blast
      show ?thesis using bound by (auto intro: uq)
    qed
    have d: "\<forall>d x. d < x \<and> x < Suc i \<and> opens nodes d x \<and>
        (\<forall>d'. ret (es @ [edge EDGE_CALL_RETURN e i]) d' x \<longrightarrow> d' < d) \<longrightarrow>
        (\<exists>y<x. ret (es @ [edge EDGE_CALL_RETURN e i]) d y)"
    proof (intro allI impI)
      fix d x
      assume h: "d < x \<and> x < Suc i \<and> opens nodes d x \<and>
        (\<forall>d'. ret (es @ [edge EDGE_CALL_RETURN e i]) d' x \<longrightarrow> d' < d)"
      show "\<exists>y<x. ret (es @ [edge EDGE_CALL_RETURN e i]) d y"
      proof (cases "x = i")
        case True
        with h closed [of d] show ?thesis by auto
      next
        case False
        with h have "x < i" "d < x" "opens nodes d x" "\<forall>d'. ret es d' x \<longrightarrow> d' < d" by auto
        moreover have "\<forall>e x. e < x \<and> x < i \<and> opens nodes e x \<and>
            (\<forall>d. ret es d x \<longrightarrow> d < e) \<longrightarrow> (\<exists>y<x. ret es e y)"
          using old unfolding returns_spec_def by (elim conjE)
        ultimately have "\<exists>y<x. ret es d y" by blast
        then show ?thesis by auto
      qed
    qed
    from a b c d show ?thesis unfolding returns_spec_def by blast
  qed
  moreover have "parents_spec nodes (Suc i) (es @ [edge EDGE_CALL_RETURN e i])"
  proof -
    have old: "parents_spec nodes i es" using inv by (simp add: call_inv_def)
    have a: "\<forall>p c. par es p c \<longrightarrow> p < c \<and> c < Suc i \<and> is_enter (nodes ! p) \<and>
        is_enter (nodes ! c) \<and> same_context (nodes ! p) (nodes ! c) \<and>
        (\<forall>x. ret (es @ [edge EDGE_CALL_RETURN e i]) p x \<longrightarrow> c < x)"
      using old by (auto simp: parents_spec_def less_Suc_eq)
    have b: "\<forall>d c. d < c \<and> c < Suc i \<and> is_enter (nodes ! d) \<and> is_enter (nodes ! c) \<and>
        same_context (nodes ! d) (nodes ! c) \<and> (\<forall>p. par es p c \<longrightarrow> p < d) \<longrightarrow>
        (\<exists>x<c. ret (es @ [edge EDGE_CALL_RETURN e i]) d x)"
    proof (intro allI impI)
      fix d c
      assume h: "d < c \<and> c < Suc i \<and> is_enter (nodes ! d) \<and> is_enter (nodes ! c) \<and>
        same_context (nodes ! d) (nodes ! c) \<and> (\<forall>p. par es p c \<longrightarrow> p < d)"
      with i(2) enter_exit have "c < i" by (auto simp: less_Suc_eq)
      with h old have "\<exists>x<c. ret es d x" unfolding parents_spec_def by blast
      then show "\<exists>x<c. ret (es @ [edge EDGE_CALL_RETURN e i]) d x" by auto
    qed
    from a b old show ?thesis by (auto simp: parents_spec_def)
  qed
  ultimately show ?thesis
    using inv by (auto simp: call_inv_def only_calls_def)
qed

subsection \<open>The loop\<close>

lemma call_step_result:
  assumes "call_step i matched (m, w) = (ok, matched', m', w')"
    and "call_inv (tm_nodes m) i matched es" and "i < length (tm_nodes m)"
  shows "\<exists>fs. extends m m' fs \<and> (ok \<longrightarrow> call_inv (tm_nodes m) (Suc i) matched' (es @ fs))"
proof (cases "mn_record_kind (tm_nodes m ! i) \<noteq> RECORD_CALL")
  case True
  then have "\<not> is_enter (tm_nodes m ! i)" "\<not> is_exit (tm_nodes m ! i)"
    by (simp_all add: is_enter_def is_exit_def)
  with call_inv_skip [OF assms(2)] True assms(1) show ?thesis
    by (auto simp: call_step_def intro!: exI [where x = "[]"])
next
  case call: False
  show ?thesis
  proof (cases "mn_call_kind (tm_nodes m ! i) = CALL_ENTER")
    case True
    with call have enter: "is_enter (tm_nodes m ! i)" by (simp add: is_enter_def)
    show ?thesis
    proof (cases "find_active_enter (tm_nodes m) matched i False")
      case None
      with call_inv_enter_root [OF assms(2,3) enter] True call assms(1) show ?thesis
        by (auto simp: call_step_def intro!: exI [where x = "[]"])
    next
      case (Some p)
      obtain b m1 w1 where add: "add_edge (m, w) EDGE_CALL_PARENT p i = (b, m1, w1)"
        by (rule prod_cases3)
      with Some True call assms(1) have "b = ok" "matched' = matched" "m1 = m'"
        by (simp_all add: call_step_def)
      with add_edge_extends [OF add] call_inv_enter_child [OF assms(2,3) enter Some] show ?thesis
        by (auto split: if_splits)
    qed
  next
    case False
    with call have leave: "is_exit (tm_nodes m ! i)" by (simp add: is_exit_def)
    show ?thesis
    proof (cases "find_active_enter (tm_nodes m) matched i True")
      case None
      with call_inv_exit_stray [OF assms(2,3) leave] False call assms(1) show ?thesis
        by (auto simp: call_step_def intro!: exI [where x = "[]"])
    next
      case (Some e)
      obtain b m1 w1 where add: "add_edge (m, w) EDGE_CALL_RETURN e i = (b, m1, w1)"
        by (rule prod_cases3)
      with Some False call assms(1) have "b = ok" "matched' = matched[e := Some i]" "m1 = m'"
        by (simp_all add: call_step_def)
      with add_edge_extends [OF add] call_inv_exit_return [OF assms(2,3) leave Some] show ?thesis
        by (auto split: if_splits)
    qed
  qed
qed

lemma call_edges_from_result:
  assumes "call_edges_from n i matched (m, w) = (ok, matched', m', w')"
    and "call_inv (tm_nodes m) i matched es" and "i + n = length (tm_nodes m)"
  shows "\<exists>fs. extends m m' fs \<and>
    (ok \<longrightarrow> call_inv (tm_nodes m) (length (tm_nodes m)) matched' (es @ fs))"
  using assms
proof (induction n arbitrary: i matched m w es)
  case 0
  then show ?case by (auto intro!: exI [where x = "[]"])
next
  case (Suc n)
  obtain b matched1 m1 w1 where step: "call_step i matched (m, w) = (b, matched1, m1, w1)"
    using prod_cases4 by blast
  obtain fs where fs: "extends m m1 fs" "b \<longrightarrow> call_inv (tm_nodes m) (Suc i) matched1 (es @ fs)"
    using call_step_result [OF step Suc.prems(2)] Suc.prems(3) by auto
  show ?case
  proof (cases b)
    case False
    with step Suc.prems(1) fs show ?thesis by auto
  next
    case True
    with step Suc.prems(1) have rest: "call_edges_from n (Suc i) matched1 (m1, w1) = (ok, matched', m', w')"
      by simp
    have nodes: "tm_nodes m1 = tm_nodes m" by (rule extends_frame(1) [OF fs(1)])
    from Suc.IH [OF rest, of "es @ fs"] fs(2) True Suc.prems(3) obtain gs where
      "extends m1 m' gs" "ok \<longrightarrow> call_inv (tm_nodes m) (length (tm_nodes m)) matched' (es @ fs @ gs)"
      by (auto simp: nodes)
    with extends_trans [OF fs(1)] show ?thesis by blast
  qed
qed

lemma build_call_edges_result:
  assumes "build_call_edges (replicate (length (tm_nodes m)) None) (m, w) = (ok, matched, m', w')"
  shows "\<exists>es. extends m m' es \<and> (ok \<longrightarrow> call_inv (tm_nodes m) (length (tm_nodes m)) matched es)"
  using call_edges_from_result [OF assms [unfolded build_call_edges_def fst_conv] call_inv_start]
  by simp

end
