(* ===== verification/Model_Properties.thy ===== *)
theory Model_Properties
  imports Model_Calls Lifecycle_Properties
begin

section \<open>Properties of the causal model\<close>

text \<open>
  What \<open>model_finish\<close> builds from the admitted nodes, what a failed finish leaves, and the
  invariant of every reachable model.
\<close>

subsection \<open>The lifecycle stage\<close>

lemma lifecycle_of_nodes_total:
  "\<exists>b l' w'. lifecycle_of_nodes L ns (Some l, w) = Some (b, Some l', w') \<and>
     (store_ok l \<longrightarrow> store_ok l')"
proof (induction ns arbitrary: l w)
  case Nil
  show ?case by (auto intro!: exI [where x = True])
next
  case (Cons n ns)
  show ?case
  proof (cases "lifecycle_node n")
    case False
    with Cons.IH [of l w] show ?thesis by simp
  next
    case True
    obtain b l1 w1 where "lifecycle_ingest L (Some l, w) (Some (record_from_node L n)) = Some (b, Some l1, w1)"
      "store_ok l \<longrightarrow> store_ok l1"
      using lifecycle_ingest_total by blast
    with True Cons.IH [of l1 w1] show ?thesis by (cases b) auto
  qed
qed

lemma lifecycle_finish_some:
  "\<exists>b l' w'. lifecycle_finish (Some l, w) = (b, Some l', w')"
proof -
  obtain b m1 w1 where "finish_from (length (lm_entries l)) 0 (l, w) = (b, m1, w1)"
    by (rule prod_cases3)
  then show ?thesis by (cases b) (auto simp: lifecycle_finish_def)
qed

lemma build_lifecycle_total:
  "\<exists>b t w'. build_lifecycle L (m, w) = Some (b, m\<lparr>tm_lifecycle := t\<rparr>, w') \<and>
     (b \<longleftrightarrow> t \<noteq> None) \<and> (\<forall>l. t = Some l \<longrightarrow> store_ok l)"
proof -
  obtain c w1 where create: "lifecycle_create w = (c, w1)" by fastforce
  show ?thesis
  proof (cases c)
    case None
    with create have "build_lifecycle L (m, w) = Some (False, m\<lparr>tm_lifecycle := None\<rparr>, w1)"
      by (simp add: build_lifecycle_def)
    then show ?thesis by auto
  next
    case (Some l)
    with create have l: "store_ok l"
      by (auto simp: lifecycle_create_def store_ok_empty split: prod.splits bool.splits)
    obtain b l1 w2 where run: "lifecycle_of_nodes L (tm_nodes m) (Some l, w1) = Some (b, Some l1, w2)"
      and l1: "store_ok l1"
      using lifecycle_of_nodes_total [of L "tm_nodes m" l w1] l by auto
    obtain b2 l2 w3 where fin: "lifecycle_finish (Some l1, w2) = (b2, Some l2, w3)"
      using lifecycle_finish_some by blast
    have l2: "store_ok l2" by (rule lifecycle_finish_ok [OF l1 fin])
    let ?ok = "b \<and> b2"
    let ?t = "if ?ok then Some l2 else None"
    have "build_lifecycle L (m, w) = Some (?ok, m\<lparr>tm_lifecycle := ?t\<rparr>, if b then w3 else w2)"
      using create Some run fin
      by (cases b; cases b2) (simp_all add: build_lifecycle_def lifecycle_destroy_def)
    moreover have "?ok \<longleftrightarrow> ?t \<noteq> None" and "\<forall>l. ?t = Some l \<longrightarrow> store_ok l" using l2 by auto
    ultimately show ?thesis by blast
  qed
qed

subsection \<open>What finishing builds\<close>

definition built :: "record_lib \<Rightarrow> model_node list \<Rightarrow> model_edge list \<Rightarrow> bool" where
  "built L nodes es \<longleftrightarrow>
     (\<exists>matched calls. call_inv nodes (length nodes) matched calls \<and>
        es = calls @ concat (map (node_edges L nodes matched) [0..<length nodes]))"

text \<open>What every attempt keeps, and what a successful one gives.\<close>

definition finish_post :: "record_lib \<Rightarrow> tool_model \<Rightarrow> bool \<Rightarrow> tool_model \<Rightarrow> bool" where
  "finish_post L m ok m' \<longleftrightarrow>
     tm_nodes m' = tm_nodes m \<and> tm_run_id m' = tm_run_id m \<and>
     tm_node_capacity m' = tm_node_capacity m \<and> (edges_fit m \<longrightarrow> edges_fit m') \<and>
     (ok \<longrightarrow> built L (tm_nodes m) (tm_edges m') \<and> (\<exists>l. tm_lifecycle m' = Some l \<and> store_ok l))"

lemma build_model_result:
  assumes "tm_edges m = []" and "tm_lifecycle m = None"
  shows "\<exists>ok m' w'. build_model L (m, w) = Some (ok, m', w') \<and> finish_post L m ok m' \<and>
    tm_finished m' = tm_finished m \<and> (\<not> ok \<longrightarrow> tm_lifecycle m' = None)"
proof -
  let ?none = "replicate (length (tm_nodes m)) None"
  obtain b1 matched m1 w1 where calls: "build_call_edges ?none (m, w) = (b1, matched, m1, w1)"
    using prod_cases4 by blast
  obtain es1 where es1: "extends m m1 es1"
    "b1 \<longrightarrow> call_inv (tm_nodes m) (length (tm_nodes m)) matched es1"
    using build_call_edges_result [OF calls] by blast
  note f1 = extends_frame [OF es1(1)]
  show ?thesis
  proof (cases b1)
    case False
    with calls have "build_model L (m, w) = Some (False, m1, w1)" by (simp add: build_model_def)
    moreover have "finish_post L m False m1" using f1 by (simp add: finish_post_def)
    ultimately show ?thesis using f1(3,6) assms(2) by auto
  next
    case True
    obtain b2 m2 w2 where res: "build_resource_edges L matched (m1, w1) = (b2, m2, w2)"
      by (rule prod_cases3)
    obtain es2 where es2: "extends m1 m2 es2"
      "b2 \<longrightarrow> es2 = concat (map (node_edges L (tm_nodes m1) matched) [0..<length (tm_nodes m1)])"
      using resource_edges_from_result [OF res [unfolded build_resource_edges_def fst_conv]] by auto
    note f2 = extends_frame [OF extends_trans [OF es1(1) es2(1)]]
    show ?thesis
    proof (cases b2)
      case False
      with True calls res have "build_model L (m, w) = Some (False, m2, w2)"
        by (simp add: build_model_def)
      moreover have "finish_post L m False m2" using f2 by (simp add: finish_post_def)
      ultimately show ?thesis using f2(3,6) assms(2) by auto
    next
      case b2: True
      obtain b t w3 where lc: "build_lifecycle L (m2, w2) = Some (b, m2\<lparr>tm_lifecycle := t\<rparr>, w3)"
        "b \<longleftrightarrow> t \<noteq> None" "\<forall>l. t = Some l \<longrightarrow> store_ok l"
        using build_lifecycle_total by blast
      have "built L (tm_nodes m) (tm_edges m2)"
        using True b2 es1(2) es2(2) f1(1) f2(2) assms(1) by (auto simp: built_def)
      with f2 lc(2,3) have "finish_post L m b (m2\<lparr>tm_lifecycle := t\<rparr>)"
        by (auto simp: finish_post_def)
      moreover have "build_model L (m, w) = Some (b, m2\<lparr>tm_lifecycle := t\<rparr>, w3)"
        using True b2 calls res lc(1) by (simp add: build_model_def)
      moreover have "tm_finished (m2\<lparr>tm_lifecycle := t\<rparr>) = tm_finished m"
        "\<not> b \<longrightarrow> tm_lifecycle (m2\<lparr>tm_lifecycle := t\<rparr>) = None" using f2(3) lc(2) by auto
      ultimately show ?thesis by blast
    qed
  qed
qed

lemma model_finish_total:
  assumes "\<not> tm_finished m"
  shows "\<exists>ok m' w'. model_finish L (Some m, w) = Some (ok, Some m', w') \<and>
    finish_post L m ok m' \<and> tm_finished m' = ok \<and>
    (\<not> ok \<longrightarrow> tm_lifecycle m' = None \<and> tm_edges m' = [])"
proof -
  let ?m0 = "m\<lparr>tm_edges := [], tm_lifecycle := None\<rparr>"
  have fit0: "edges_fit m \<longrightarrow> edges_fit ?m0" by (auto simp: fits_def)
  obtain b w1 where ex: "allocate_exits (length (tm_nodes m)) w = (b, w1)" by fastforce
  show ?thesis
  proof (cases b)
    case False
    with ex assms have "model_finish L (Some m, w) = Some (False, Some ?m0, w1)"
      by (simp add: model_finish_def)
    moreover have "finish_post L m False ?m0" using fit0 by (simp add: finish_post_def)
    moreover have "tm_finished ?m0 = False" "tm_lifecycle ?m0 = None" "tm_edges ?m0 = []"
      using assms by simp_all
    ultimately show ?thesis by blast
  next
    case True
    obtain ok m1 w2 where res: "build_model L (?m0, w1) = Some (ok, m1, w2)"
      "finish_post L ?m0 ok m1" "tm_finished m1 = tm_finished ?m0" "\<not> ok \<longrightarrow> tm_lifecycle m1 = None"
      using build_model_result [of ?m0 L w1] by auto
    let ?m1 = "if ok then m1\<lparr>tm_finished := True\<rparr> else m1\<lparr>tm_edges := []\<rparr>"
    have "model_finish L (Some m, w) = Some (ok, Some ?m1, w2)"
      using res(1) True ex assms by (cases ok) (simp_all add: model_finish_def)
    moreover have "edges_fit m1 \<longrightarrow> edges_fit ?m1" by (auto simp: fits_def)
    then have "finish_post L m ok ?m1"
      using res(2) fit0 by (cases ok) (auto simp: finish_post_def)
    moreover have "tm_finished ?m1 = ok" "\<not> ok \<longrightarrow> tm_lifecycle ?m1 = None \<and> tm_edges ?m1 = []"
      using res(3,4) assms by auto
    ultimately show ?thesis by blast
  qed
qed

lemma model_finish_built:
  assumes "model_finish L (Some m, w) = Some (True, Some m', w')" and "\<not> tm_finished m"
  shows "built L (tm_nodes m) (tm_edges m')" and "tm_nodes m' = tm_nodes m"
  using model_finish_total [OF assms(2), of L w] assms(1) by (auto simp: finish_post_def)

subsection \<open>The edges of a finished model\<close>

lemma node_edges_kinds:
  "e \<in> set (node_edges L nodes matched i) \<Longrightarrow>
     me_kind e \<in> {EDGE_CALL_CAUSED_EVENT, EDGE_RESOURCE_LIFETIME, EDGE_PROCESS_CHILD_EVENT}"
  by (auto simp: node_edges_def optional_edge_def child_edges_def split: option.splits if_splits)

lemma built_calls:
  assumes "call_inv nodes n matched calls"
    and "es = calls @ concat (map (node_edges L nodes matched) is)"
  shows "ret es = ret calls" and "par es = par calls"
    and "k \<notin> {EDGE_CALL_RETURN, EDGE_CALL_PARENT} \<Longrightarrow> edge k a b \<in> set es \<longleftrightarrow>
      (\<exists>i \<in> set is. edge k a b \<in> set (node_edges L nodes matched i))"
proof -
  have calls: "edge k a b \<in> set calls \<Longrightarrow> k = EDGE_CALL_RETURN \<or> k = EDGE_CALL_PARENT" for k a b
    using assms(1) by (auto simp: call_inv_def only_calls_def)
  have rest: "edge k a b \<in> set (node_edges L nodes matched i) \<Longrightarrow>
      k \<noteq> EDGE_CALL_RETURN \<and> k \<noteq> EDGE_CALL_PARENT" for k a b i
    by (auto dest: node_edges_kinds)
  show "ret es = ret calls" "par es = par calls"
    using rest by (auto simp: ret_def par_def assms(2) fun_eq_iff)
  show "k \<notin> {EDGE_CALL_RETURN, EDGE_CALL_PARENT} \<Longrightarrow> edge k a b \<in> set es \<longleftrightarrow>
      (\<exists>i \<in> set is. edge k a b \<in> set (node_edges L nodes matched i))"
    using calls by (auto simp: assms(2))
qed

lemma built_specs:
  assumes "built L nodes es"
  shows "returns_spec nodes (length nodes) es" and "parents_spec nodes (length nodes) es"
proof -
  from assms obtain matched calls where inv: "call_inv nodes (length nodes) matched calls"
    and es: "es = calls @ concat (map (node_edges L nodes matched) [0..<length nodes])"
    by (auto simp: built_def)
  note c = built_calls [OF inv es]
  show "returns_spec nodes (length nodes) es" "parents_spec nodes (length nodes) es"
    using inv by (simp_all add: call_inv_def returns_spec_def parents_spec_def c)
qed

lemma optional_edge_member [simp]:
  "edge k a b \<in> set (optional_edge k' x y) \<longleftrightarrow> k = k' \<and> x = Some a \<and> y = Some b"
  by (auto simp: optional_edge_def split: option.splits)

lemma built_lifetime:
  assumes "built L nodes es"
  shows "edge EDGE_RESOURCE_LIFETIME b d \<in> set es \<longleftrightarrow>
    b < length nodes \<and> mn_domain (nodes ! b) = NODE_RESOURCE \<and> find_lifetime_end L nodes b = Some d"
proof -
  from assms obtain matched calls where inv: "call_inv nodes (length nodes) matched calls"
    and es: "es = calls @ concat (map (node_edges L nodes matched) [0..<length nodes])"
    by (auto simp: built_def)
  show ?thesis
    using built_calls(3) [OF inv es, of EDGE_RESOURCE_LIFETIME b d]
    by (auto simp: node_edges_def child_edges_def)
qed

lemma built_children:
  assumes "built L nodes es"
  shows "edge EDGE_PROCESS_CHILD_EVENT i c \<in> set es \<longleftrightarrow>
    i < length nodes \<and> c < length nodes \<and> mn_domain (nodes ! i) = NODE_RESOURCE \<and>
    mn_record_kind (nodes ! i) \<in> {RECORD_FORK, RECORD_SPAWN} \<and>
    mn_pid (nodes ! c) = mn_child_pid (nodes ! i)"
proof -
  from assms obtain matched calls where inv: "call_inv nodes (length nodes) matched calls"
    and es: "es = calls @ concat (map (node_edges L nodes matched) [0..<length nodes])"
    by (auto simp: built_def)
  show ?thesis
    using built_calls(3) [OF inv es, of EDGE_PROCESS_CHILD_EVENT i c]
    by (auto simp: node_edges_def child_edges_def)
qed

text \<open>A call whose span, between its enter and the exit that the edges give it, contains a node.\<close>

definition spans :: "model_node list \<Rightarrow> model_edge list \<Rightarrow> nat \<Rightarrow> nat \<Rightarrow> bool" where
  "spans nodes es c i \<longleftrightarrow> is_enter (nodes ! c) \<and> same_context (nodes ! c) (nodes ! i) \<and>
     mn_sequence (nodes ! c) \<le> mn_sequence (nodes ! i) \<and>
     (\<forall>x. ret es c x \<longrightarrow> mn_sequence (nodes ! i) \<le> mn_sequence (nodes ! x))"

lemma built_caused:
  assumes "built L nodes es"
  shows "edge EDGE_CALL_CAUSED_EVENT c i \<in> set es \<longleftrightarrow>
    i < length nodes \<and> mn_domain (nodes ! i) = NODE_RESOURCE \<and> c < length nodes \<and> spans nodes es c i \<and>
    (\<forall>d<length nodes. spans nodes es d i \<longrightarrow> mn_sequence (nodes ! d) \<le> mn_sequence (nodes ! c) \<and>
       (mn_sequence (nodes ! d) = mn_sequence (nodes ! c) \<longrightarrow> c \<le> d))"
proof -
  from assms obtain matched calls where inv: "call_inv nodes (length nodes) matched calls"
    and es: "es = calls @ concat (map (node_edges L nodes matched) [0..<length nodes])"
    by (auto simp: built_def)
  note c = built_calls [OF inv es]
  have "encloses nodes matched i d \<longleftrightarrow> spans nodes es d i" if "d < length nodes" for d
    using inv that
    by (auto simp: encloses_def spans_def c(1) call_inv_def exits_agree_def split: option.splits)
  then have "find_enclosing_call nodes matched i = Some c \<longleftrightarrow>
      c < length nodes \<and> spans nodes es c i \<and>
      (\<forall>d<length nodes. spans nodes es d i \<longrightarrow> mn_sequence (nodes ! d) \<le> mn_sequence (nodes ! c) \<and>
       (mn_sequence (nodes ! d) = mn_sequence (nodes ! c) \<longrightarrow> c \<le> d))"
    unfolding find_enclosing_call_def by (auto simp: pick_max(1))
  with c(3) [of EDGE_CALL_CAUSED_EVENT c i] show ?thesis
    by (auto simp: node_edges_def child_edges_def)
qed

text \<open>What the lifetime of a resource is, read off single events: a process owns descriptors,
  blocks of memory and named resources, and an event begins or finishes the life of one of them.\<close>

datatype owned_resource =
    Descriptor int
  | Memory_Block string
  | Named_Resource string string

inductive begins_life :: "record_lib \<Rightarrow> model_node \<Rightarrow> int \<times> owned_resource \<Rightarrow> bool"
  for L :: record_lib and n :: model_node where
  opened: "mn_record_kind n = RECORD_FD \<Longrightarrow> mn_fd_kind n = FD_OPEN \<Longrightarrow>
    begins_life L n (mn_pid n, Descriptor (mn_fd n))"
| allocated: "mn_record_kind n = RECORD_ALLOC \<Longrightarrow> mn_alloc_kind n = ALLOC_ALLOC \<Longrightarrow>
    begins_life L n (mn_pid n, Memory_Block (mn_ptr n))"
| reallocated: "mn_record_kind n = RECORD_ALLOC \<Longrightarrow> mn_alloc_kind n = ALLOC_REALLOC \<Longrightarrow>
    \<not> pointer_is_null L (Some (mn_new_ptr n)) \<Longrightarrow>
    begins_life L n (mn_pid n, Memory_Block (mn_new_ptr n))"
| acquired: "mn_record_kind n = RECORD_RESOURCE \<Longrightarrow> mn_resource_kind n = RESOURCE_ACQUIRE \<Longrightarrow>
    begins_life L n (mn_pid n, Named_Resource (mn_resource_class n) (mn_resource_id n))"
| renamed: "mn_record_kind n = RECORD_RESOURCE \<Longrightarrow>
    mn_resource_kind n \<in> {RESOURCE_REPLACE, RESOURCE_TRANSFER} \<Longrightarrow> mn_related_id n \<noteq> [] \<Longrightarrow>
    begins_life L n (mn_pid n, Named_Resource (mn_resource_class n) (mn_related_id n))"

inductive finishes_life :: "model_node \<Rightarrow> int \<times> owned_resource \<Rightarrow> bool"
  for n :: model_node where
  closed: "mn_record_kind n = RECORD_FD \<Longrightarrow> mn_fd_kind n = FD_CLOSE \<Longrightarrow>
    finishes_life n (mn_pid n, Descriptor (mn_fd n))"
| freed: "mn_record_kind n = RECORD_ALLOC \<Longrightarrow> mn_alloc_kind n \<in> {ALLOC_FREE, ALLOC_REALLOC} \<Longrightarrow>
    finishes_life n (mn_pid n, Memory_Block (mn_ptr n))"
| released: "mn_record_kind n = RECORD_RESOURCE \<Longrightarrow>
    mn_resource_kind n \<in> {RESOURCE_RELEASE, RESOURCE_REPLACE, RESOURCE_TRANSFER} \<Longrightarrow>
    finishes_life n (mn_pid n, Named_Resource (mn_resource_class n) (mn_resource_id n))"

text \<open>The births of the code are the events that begin a life, and the events that it matches with
  a birth are those that finish the same life later.\<close>

lemma birth_begins: "is_lifetime_birth L n \<longleftrightarrow> (\<exists>k. begins_life L n k)"
  by (auto simp: is_lifetime_birth_def begins_life.simps split: record_kind.splits)

definition ends_life_of :: "record_lib \<Rightarrow> model_node \<Rightarrow> model_node \<Rightarrow> bool" where
  "ends_life_of L birth death \<longleftrightarrow> mn_sequence birth < mn_sequence death \<and>
     (\<exists>k. begins_life L birth k \<and> finishes_life death k)"

lemma ends_lifetime_iff:
  assumes "is_lifetime_birth L birth"
  shows "ends_lifetime birth death \<longleftrightarrow> ends_life_of L birth death"
proof -
  from assms consider (fd) "mn_record_kind birth = RECORD_FD" "mn_fd_kind birth = FD_OPEN"
    | (alloc) "mn_record_kind birth = RECORD_ALLOC"
        "mn_alloc_kind birth = ALLOC_ALLOC \<or>
         (mn_alloc_kind birth = ALLOC_REALLOC \<and> \<not> pointer_is_null L (Some (mn_new_ptr birth)))"
    | (named) "mn_record_kind birth = RECORD_RESOURCE"
        "mn_resource_kind birth = RESOURCE_ACQUIRE \<or>
         (mn_resource_kind birth \<in> {RESOURCE_REPLACE, RESOURCE_TRANSFER} \<and> mn_related_id birth \<noteq> [])"
    by (auto simp: is_lifetime_birth_def split: record_kind.splits)
  then show ?thesis
    by cases
      (auto simp: ends_life_of_def ends_lifetime_def lifetime_matches_def begins_life.simps
        finishes_life.simps)
qed

subsection \<open>A small model\<close>

definition sample_call :: "call_kind \<Rightarrow> nat \<Rightarrow> event_record" where
  "sample_call k s = zero_record\<lparr>ev_version := 5, ev_run_id := Some ''r'', ev_pid := 7,
     ev_record_kind := RECORD_CALL, ev_call_kind := k, ev_call_name := Some ''f'',
     ev_sequence := s\<rparr>"

definition sample_fd :: "fd_kind \<Rightarrow> nat \<Rightarrow> event_record" where
  "sample_fd k s = zero_record\<lparr>ev_version := 5, ev_run_id := Some ''r'', ev_pid := 7,
     ev_record_kind := RECORD_FD, ev_fd_kind := k, ev_fd := 3, ev_sequence := s\<rparr>"

definition sample_tool :: tool_model where
  "sample_tool = empty_model\<lparr>tm_run_id := Some ''r'', tm_node_capacity := 32,
     tm_nodes := map copy_record [sample_call CALL_ENTER 1, sample_fd FD_OPEN 2,
       sample_fd FD_CLOSE 3, sample_call CALL_EXIT 4]\<rparr>"

definition sample_edges :: "model_edge list" where
  "sample_edges = [edge EDGE_CALL_RETURN 0 3, edge EDGE_CALL_CAUSED_EVENT 0 1,
     edge EDGE_RESOURCE_LIFETIME 1 2, edge EDGE_CALL_CAUSED_EVENT 0 2]"

lemmas sample_tool_defs = sample_tool_def sample_call_def sample_fd_def copy_record_def
  zero_record_def empty_model_def calm_world_def node_resource_class_def

lemma sample_calls:
  "build_call_edges [None, None, None, None] (sample_tool, calm_world) =
     (True, [Some 3, None, None, None],
      sample_tool\<lparr>tm_edge_capacity := 32, tm_edges := [edge EDGE_CALL_RETURN 0 3]\<rparr>, calm_world)"
  by (simp add: build_call_edges_def sample_tool_defs call_step_def find_active_enter_def
      is_enter_def same_context_def add_edge_def reserve_edges_def model_reserve_def edge_def
      heap_request_def next_capacity_def MODEL_INITIAL_CAPACITY_def MODEL_LIMIT_def)

lemma sample_picks:
  "find_enclosing_call (tm_nodes sample_tool) [Some 3, None, None, None] (Suc 0) = Some 0"
  "find_enclosing_call (tm_nodes sample_tool) [Some 3, None, None, None] (Suc (Suc 0)) = Some 0"
  "find_lifetime_end L (tm_nodes sample_tool) (Suc 0) = Some 2"
  "find_lifetime_end L (tm_nodes sample_tool) (Suc (Suc 0)) = None"
  by (simp_all add: find_enclosing_call_def find_lifetime_end_def is_lifetime_birth_def encloses_def
      sample_tool_defs is_enter_def same_context_def ends_lifetime_def lifetime_matches_def
      numeral_3_eq_3)

lemma sample_resources:
  "build_resource_edges L [Some 3, None, None, None]
     (sample_tool\<lparr>tm_edge_capacity := 32, tm_edges := [edge EDGE_CALL_RETURN 0 3]\<rparr>, calm_world) =
     (True, sample_tool\<lparr>tm_edge_capacity := 32, tm_edges := sample_edges\<rparr>, calm_world)"
proof -
  have nodes: "tm_nodes (sample_tool\<lparr>tm_edge_capacity := c, tm_edges := es\<rparr>) = tm_nodes sample_tool"
    for c es by simp
  have len: "length (tm_nodes sample_tool) = Suc (Suc (Suc (Suc 0)))"
    by (simp add: sample_tool_def)
  have kinds: "mn_domain (tm_nodes sample_tool ! 0) = NODE_CALL"
    "mn_domain (tm_nodes sample_tool ! Suc 0) = NODE_RESOURCE"
    "mn_domain (tm_nodes sample_tool ! Suc (Suc 0)) = NODE_RESOURCE"
    "mn_domain (tm_nodes sample_tool ! Suc (Suc (Suc 0))) = NODE_CALL"
    "mn_record_kind (tm_nodes sample_tool ! Suc 0) = RECORD_FD"
    "mn_record_kind (tm_nodes sample_tool ! Suc (Suc 0)) = RECORD_FD"
    by (simp_all add: sample_tool_defs)
  show ?thesis
    by (simp add: build_resource_edges_def nodes len resource_step_def kinds sample_picks
        add_optional_edge_def add_edge_def reserve_edges_def model_reserve_def edge_def
        sample_edges_def)
qed

lemma sample_lifecycle:
  "\<exists>l. build_lifecycle doc_lib
     (sample_tool\<lparr>tm_edge_capacity := 32, tm_edges := sample_edges\<rparr>, calm_world) =
     Some (True, sample_tool\<lparr>tm_edge_capacity := 32, tm_edges := sample_edges, tm_lifecycle := Some l\<rparr>,
       calm_world)"
  by (simp add: build_lifecycle_def lifecycle_create_def lifecycle_node_def sample_tool_defs
      record_from_node_def lifecycle_eval ingest_fd_def format_fd_identifier_def
      fd_resource_class_def empty_lifecycle_def doc_lib_def lifecycle_finish_def)

lemma sample_finish:
  obtains m' where "model_finish doc_lib (Some sample_tool, calm_world) = Some (True, Some m', calm_world)"
    and "tm_edges m' = sample_edges" and "\<not> tm_finished sample_tool"
proof -
  obtain l where l: "build_lifecycle doc_lib
     (sample_tool\<lparr>tm_edge_capacity := 32, tm_edges := sample_edges\<rparr>, calm_world) =
     Some (True, sample_tool\<lparr>tm_edge_capacity := 32, tm_edges := sample_edges, tm_lifecycle := Some l\<rparr>,
       calm_world)" using sample_lifecycle by blast
  have len: "length (tm_nodes sample_tool) = 4" and same: "sample_tool\<lparr>tm_edges := [], tm_lifecycle := None\<rparr> = sample_tool"
    and fin: "\<not> tm_finished sample_tool"
    by (simp_all add: sample_tool_def empty_model_def)
  have slots: "replicate 4 None = [None, None, None, None]"
    by (simp add: numeral_eq_Suc)
  have "build_model doc_lib (sample_tool, calm_world) =
     Some (True, sample_tool\<lparr>tm_edge_capacity := 32, tm_edges := sample_edges, tm_lifecycle := Some l\<rparr>,
       calm_world)"
    using sample_calls sample_resources [of doc_lib] l
    by (simp add: build_model_def len slots)
  then have "model_finish doc_lib (Some sample_tool, calm_world) =
     Some (True, Some (sample_tool\<lparr>tm_edge_capacity := 32, tm_edges := sample_edges,
       tm_lifecycle := Some l, tm_finished := True\<rparr>), calm_world)"
    by (simp add: model_finish_def same fin len allocate_exits_def calm_world_def heap_request_def)
  with fin that show thesis by fastforce
qed

subsection \<open>Properties\<close>

text \<open>Claim C3. The call edges of a finished model pair enters with exits correctly: every RETURN
  edge joins an enter to a later exit of the same process, context and function; no two share
  an end; and at an exit, every enter of that function later than its partner (or, for an exit
  without one, every earlier enter) had already returned. Every PARENT edge joins a call to an
  earlier call of its context that is still open, a call has at most one parent, and every
  enter later than the parent (or, without a parent, every earlier enter) had returned.\<close>

theorem call_edges_correct:
  assumes "model_finish L (Some m, w) = Some (True, Some m', w')" and "\<not> tm_finished m"
  shows "returns_spec (tm_nodes m) (length (tm_nodes m)) (tm_edges m') \<and>
    parents_spec (tm_nodes m) (length (tm_nodes m)) (tm_edges m')"
  using built_specs [OF model_finish_built(1) [OF assms]] by blast

theorem call_edges_correct_witness:
  "returns_spec (tm_nodes sample_tool) (length (tm_nodes sample_tool)) sample_edges \<and>
   ret sample_edges 0 3"
proof -
  obtain m' where "model_finish doc_lib (Some sample_tool, calm_world) = Some (True, Some m', calm_world)"
    "tm_edges m' = sample_edges" "\<not> tm_finished sample_tool" by (rule sample_finish)
  from call_edges_correct [OF this(1,3)] this(2) show ?thesis
    by (simp add: ret_def sample_edges_def)
qed

text \<open>Claim C7. The lifetime edges of a finished model are exact: an edge joins the resource event that
  begins the life of a descriptor, of a block of memory or of a named resource of a process (an
  open, an allocation, a reallocation to a real pointer, an acquire, a replace or transfer to a
  named resource) to the event that finishes the life of the same resource in the same process
  (a close of that descriptor; a free or reallocation of that pointer; a release, replace or
  transfer of that class and identifier), the first one with a greater sequence number; and every
  event whose resource is ever finished later has the edge.\<close>

theorem lifetime_edges_exact:
  assumes "model_finish L (Some m, w) = Some (True, Some m', w')" and "\<not> tm_finished m"
  shows "edge EDGE_RESOURCE_LIFETIME b d \<in> set (tm_edges m') \<longleftrightarrow>
    b < length (tm_nodes m) \<and> d < length (tm_nodes m) \<and>
    mn_domain (tm_nodes m ! b) = NODE_RESOURCE \<and>
    ends_life_of L (tm_nodes m ! b) (tm_nodes m ! d) \<and>
    (\<forall>i<length (tm_nodes m). ends_life_of L (tm_nodes m ! b) (tm_nodes m ! i) \<longrightarrow>
       mn_sequence (tm_nodes m ! d) \<le> mn_sequence (tm_nodes m ! i) \<and>
       (mn_sequence (tm_nodes m ! i) = mn_sequence (tm_nodes m ! d) \<longrightarrow> d \<le> i))"
proof (cases "is_lifetime_birth L (tm_nodes m ! b)")
  case True
  then show ?thesis
    unfolding built_lifetime [OF model_finish_built(1) [OF assms]] find_lifetime_end_def
    by (auto simp: pick_min(1) ends_lifetime_iff)
next
  case False
  then show ?thesis
    unfolding built_lifetime [OF model_finish_built(1) [OF assms]] find_lifetime_end_def
    by (auto simp: ends_life_of_def birth_begins)
qed

theorem lifetime_edges_exact_witness:
  "edge EDGE_RESOURCE_LIFETIME 1 2 \<in> set sample_edges \<and>
   ends_life_of doc_lib (tm_nodes sample_tool ! 1) (tm_nodes sample_tool ! 2)"
proof -
  obtain m' where "model_finish doc_lib (Some sample_tool, calm_world) = Some (True, Some m', calm_world)"
    "tm_edges m' = sample_edges" "\<not> tm_finished sample_tool" by (rule sample_finish)
  from lifetime_edges_exact [OF this(1,3), of 1 2] this(2) show ?thesis
    by (simp add: sample_edges_def)
qed

text \<open>Claim C17. A resource event is attributed to exactly one enclosing call when there is one: the
  CAUSED edges join it to the call of its context with the greatest sequence among those whose
  span, from the enter to the exit that the RETURN edges give it, contains the event.\<close>

theorem caused_edges_exact:
  assumes "model_finish L (Some m, w) = Some (True, Some m', w')" and "\<not> tm_finished m"
  shows "edge EDGE_CALL_CAUSED_EVENT c i \<in> set (tm_edges m') \<longleftrightarrow>
    i < length (tm_nodes m) \<and> mn_domain (tm_nodes m ! i) = NODE_RESOURCE \<and>
    c < length (tm_nodes m) \<and> spans (tm_nodes m) (tm_edges m') c i \<and>
    (\<forall>d<length (tm_nodes m). spans (tm_nodes m) (tm_edges m') d i \<longrightarrow>
       mn_sequence (tm_nodes m ! d) \<le> mn_sequence (tm_nodes m ! c) \<and>
       (mn_sequence (tm_nodes m ! d) = mn_sequence (tm_nodes m ! c) \<longrightarrow> c \<le> d))"
  by (rule built_caused [OF model_finish_built(1) [OF assms]])

theorem caused_edges_exact_witness:
  "edge EDGE_CALL_CAUSED_EVENT 0 1 \<in> set sample_edges \<and> spans (tm_nodes sample_tool) sample_edges 0 1"
proof -
  obtain m' where "model_finish doc_lib (Some sample_tool, calm_world) = Some (True, Some m', calm_world)"
    "tm_edges m' = sample_edges" "\<not> tm_finished sample_tool" by (rule sample_finish)
  from caused_edges_exact [OF this(1,3), of 0 1] this(2) show ?thesis
    by (simp add: sample_edges_def)
qed

text \<open>The process edges of a finished model are exact: a fork or spawn node is joined to
  every node of the child process it names, and to no other.\<close>

theorem child_edges_exact:
  assumes "model_finish L (Some m, w) = Some (True, Some m', w')" and "\<not> tm_finished m"
  shows "edge EDGE_PROCESS_CHILD_EVENT i c \<in> set (tm_edges m') \<longleftrightarrow>
    i < length (tm_nodes m) \<and> c < length (tm_nodes m) \<and>
    mn_domain (tm_nodes m ! i) = NODE_RESOURCE \<and>
    mn_record_kind (tm_nodes m ! i) \<in> {RECORD_FORK, RECORD_SPAWN} \<and>
    mn_pid (tm_nodes m ! c) = mn_child_pid (tm_nodes m ! i)"
  by (rule built_children [OF model_finish_built(1) [OF assms]])

theorem child_edges_exact_witness:
  "edge EDGE_PROCESS_CHILD_EVENT 1 0 \<notin> set sample_edges \<and>
   mn_pid (tm_nodes sample_tool ! 0) \<noteq> mn_child_pid (tm_nodes sample_tool ! 1)"
proof -
  obtain m' where "model_finish doc_lib (Some sample_tool, calm_world) = Some (True, Some m', calm_world)"
    "tm_edges m' = sample_edges" "\<not> tm_finished sample_tool" by (rule sample_finish)
  from child_edges_exact [OF this(1,3), of 1 0] this(2) show ?thesis
    by (simp add: sample_tool_defs)
qed

text \<open>Finishing always returns, and a failed attempt leaves a usable model: whatever the
  allocator does, \<open>model_finish\<close> gives a status; the nodes and the run identity are kept in
  either case; after a failure there are no edges and no lifecycle and the model is not
  finished, so it can be finished again; a finished model is returned as it is.\<close>

theorem model_finish_returns:
  "\<exists>ok m' w'. model_finish L (Some m, w) = Some (ok, Some m', w') \<and>
     tm_nodes m' = tm_nodes m \<and> tm_run_id m' = tm_run_id m \<and> tm_finished m' = ok \<and>
     (if ok then (if tm_finished m then m' = m else (\<exists>l. tm_lifecycle m' = Some l \<and> store_ok l))
      else tm_edges m' = [] \<and> tm_lifecycle m' = None)"
proof (cases "tm_finished m")
  case True
  then show ?thesis by (auto simp: model_finish_def)
next
  case False
  from model_finish_total [OF this, of L w] False show ?thesis
    by (auto simp: finish_post_def)
qed

subsection \<open>Admission\<close>

inductive model_reachable :: "record_lib \<Rightarrow> model_state \<Rightarrow> bool" for L where
  model_created: "model_reachable L (empty_model, w)"
| model_ingested: "model_reachable L (m, w) \<Longrightarrow>
    model_ingest L (Some m, w) (Some r) = (b, Some m', w') \<Longrightarrow> model_reachable L (m', w')"
| model_finished: "model_reachable L (m, w) \<Longrightarrow>
    model_finish L (Some m, w) = Some (b, Some m', w') \<Longrightarrow> model_reachable L (m', w')"

definition node_ok :: "tool_model \<Rightarrow> model_node \<Rightarrow> bool" where
  "node_ok m n \<longleftrightarrow> mn_record_kind n \<noteq> RECORD_COMPLETE \<and>
     (mn_domain n = NODE_CALL \<longleftrightarrow> mn_record_kind n = RECORD_CALL) \<and>
     tm_run_id m = Some (mn_run_id n)"

definition model_ok :: "tool_model \<Rightarrow> bool" where
  "model_ok m \<longleftrightarrow> nodes_fit m \<and> edges_fit m \<and> (\<forall>n \<in> set (tm_nodes m). node_ok m n)"

lemma add_node_effect:
  assumes "add_node (m, w) r = (b, m', w')"
  obtains c where "m' = m\<lparr>tm_node_capacity := c,
      tm_nodes := tm_nodes m @ (if b then [copy_record r] else [])\<rparr>"
    and "nodes_fit m \<Longrightarrow> nodes_fit m'"
proof -
  obtain d c w1 where res: "model_reserve (length (tm_nodes m)) (tm_node_capacity m) w = (d, c, w1)"
    by (rule prod_cases3)
  have kept: "nodes_fit m \<Longrightarrow> fits MODEL_INITIAL_CAPACITY MODEL_LIMIT (tm_nodes m) c"
    using model_array.kept_fits [OF _ res] by blast
  have pushed: "d \<Longrightarrow> nodes_fit m \<Longrightarrow>
      fits MODEL_INITIAL_CAPACITY MODEL_LIMIT (tm_nodes m @ [copy_record r]) c"
    using res by (cases d) (simp_all add: model_array.push_fits)
  show thesis
    by (rule that [of c])
      (use assms res kept pushed in \<open>auto simp: add_node_def reserve_nodes_def
         simp del: copy_until.simps split: prod.splits bool.splits if_splits\<close>)
qed

lemma admit_run_id_effect:
  assumes "admit_run_id (m, w) rid = (b, m', w')"
  shows "m' = (if b then m\<lparr>tm_run_id := Some rid\<rparr> else m)"
    and "b \<Longrightarrow> tm_run_id m = None \<or> tm_run_id m = Some rid"
  using assms copy_text_raised [of rid w]
  by (auto simp: admit_run_id_def split: option.splits if_splits prod.splits)

lemma model_ingest_effect:
  assumes "model_ingest L (Some m, w) (Some r) = (b, Some m', w')" and "model_ok m"
  shows "model_ok m' \<and> tm_finished m' = tm_finished m \<and>
    tm_nodes m' = tm_nodes m @
      (if b \<and> ev_record_kind r \<noteq> RECORD_COMPLETE then [copy_record r] else []) \<and>
    (b \<longrightarrow> record_admissible L r \<and> tm_run_id m' = ev_run_id r)"
proof (cases "tm_finished m \<or> \<not> record_admissible L r")
  case True
  with assms show ?thesis by (auto simp: model_ingest_def)
next
  case False
  then obtain rid where rid: "ev_run_id r = Some rid"
    by (auto simp: record_admissible_def split: option.splits)
  obtain b1 m1 w1 where admit: "admit_run_id (m, w) rid = (b1, m1, w1)" by (rule prod_cases3)
  note run = admit_run_id_effect [OF admit]
  show ?thesis
  proof (cases b1)
    case b1: False
    with run False assms admit rid show ?thesis by (auto simp: model_ingest_def)
  next
    case b1: True
    have m1: "m1 = m\<lparr>tm_run_id := Some rid\<rparr>" using run b1 by simp
    have ok1: "model_ok m1"
      using assms(2) run(2) b1 by (auto simp: m1 model_ok_def node_ok_def)
    show ?thesis
    proof (cases "ev_record_kind r = RECORD_COMPLETE")
      case complete: True
      with b1 False assms(1) admit rid ok1 show ?thesis by (auto simp: model_ingest_def m1)
    next
      case complete: False
      obtain b2 m2 w2 where add: "add_node (m1, w1) r = (b2, m2, w2)" by (rule prod_cases3)
      with b1 False assms(1) admit rid complete have same: "b2 = b" "m2 = m'"
        by (simp_all add: model_ingest_def)
      obtain c where m2: "m2 = m1\<lparr>tm_node_capacity := c,
          tm_nodes := tm_nodes m1 @ (if b2 then [copy_record r] else [])\<rparr>"
        and fit: "nodes_fit m1 \<longrightarrow> nodes_fit m2"
        using add by (elim add_node_effect) blast
      have "node_ok m' (copy_record r)"
        using complete rid by (simp add: same [symmetric] m2 m1 node_ok_def copy_record_def)
      with ok1 fit have "model_ok m'"
        by (auto simp: same [symmetric] m2 model_ok_def node_ok_def)
      with m2 same complete rid False show ?thesis by (auto simp: m1)
    qed
  qed
qed

lemma model_finish_ok:
  assumes "model_finish L (Some m, w) = Some (b, Some m', w')" and "model_ok m"
  shows "model_ok m'"
proof (cases "tm_finished m")
  case True
  with assms show ?thesis by (simp add: model_finish_def)
next
  case False
  from model_finish_total [OF this, of L w] assms show ?thesis
    by (auto simp: finish_post_def model_ok_def node_ok_def)
qed

lemma model_reachable_ok: "model_reachable L s \<Longrightarrow> model_ok (fst s)"
proof (induction rule: model_reachable.induct)
  case (model_created w)
  show ?case by (simp add: model_ok_def empty_model_def)
next
  case (model_ingested m w r b m' w')
  with model_ingest_effect show ?case by auto
next
  case (model_finished m w b m' w')
  with model_finish_ok show ?case by auto
qed

text \<open>Claim C22. Every reachable model is consistent: nodes and edges stay within their capacity and
  the hard limit, no COMPLETE record is a node, the domain of a node is CALL exactly for call
  records, and every node carries the model's one run identity; an ingestion that succeeds
  appends exactly the copy of its record (nothing for COMPLETE) and one that fails adds none.\<close>

theorem model_ingest_consistent:
  assumes "model_reachable L (m, w)"
    and "model_ingest L (Some m, w) (Some r) = (b, Some m', w')"
  shows "model_ok m' \<and> tm_nodes m' = tm_nodes m @
      (if b \<and> ev_record_kind r \<noteq> RECORD_COMPLETE then [copy_record r] else []) \<and>
    (b \<longrightarrow> tm_run_id m' = ev_run_id r)"
  using model_ingest_effect [OF assms(2)] model_reachable_ok [OF assms(1)] by simp

lemma sample_model_ingest:
  "model_ingest doc_lib (Some empty_model, calm_world) (Some (sample_fd FD_OPEN 2)) =
     (True, Some (empty_model\<lparr>tm_run_id := Some ''r'', tm_node_capacity := 32,
        tm_nodes := [copy_record (sample_fd FD_OPEN 2)]\<rparr>), calm_world)"
  by (simp add: model_ingest_def sample_tool_defs record_admissible_def doc_lib_def
      admit_run_id_def copy_text_def heap_request_def add_node_def reserve_nodes_def
      model_reserve_def next_capacity_def MODEL_INITIAL_CAPACITY_def MODEL_LIMIT_def
      record_texts_def)

theorem model_ingest_consistent_witness:
  "model_ok (empty_model\<lparr>tm_run_id := Some ''r'', tm_node_capacity := 32,
     tm_nodes := [copy_record (sample_fd FD_OPEN 2)]\<rparr>)"
  using model_ingest_consistent [OF model_created sample_model_ingest] by blast

end
