(* ===== verification/Model_Lifecycle.thy ===== *)
theory Model_Lifecycle
  imports Model_Properties Event_Format
begin

section \<open>The lifecycle of a model is the lifecycle of its records\<close>

text \<open>
  The model keeps copies in which a NULL text has become empty, and rebuilds the lifecycle
  from these. \<open>same_view\<close> relates two records that the lifecycle cannot tell apart; a
  well-formed record and the record read back from its node are related so, hence the rebuilt
  lifecycle is the one obtained by ingesting the original records directly.
\<close>

definition same_view :: "event_record \<Rightarrow> event_record \<Rightarrow> bool" where
  "same_view r r' \<longleftrightarrow>
     ev_record_kind r = ev_record_kind r' \<and> ev_pid r = ev_pid r' \<and>
     ev_context_id r = ev_context_id r' \<and> ev_sequence r = ev_sequence r' \<and>
     ev_monotonic_ns r = ev_monotonic_ns r' \<and>
     ev_monotonic_ns_available r = ev_monotonic_ns_available r' \<and> ev_size r = ev_size r' \<and>
     ev_line_number r = ev_line_number r' \<and> function_text r = function_text r' \<and>
     file_text r = file_text r' \<and> ev_resource_kind r = ev_resource_kind r' \<and>
     ev_resource_class r = ev_resource_class r' \<and> ev_resource_id r = ev_resource_id r' \<and>
     text_or [] (ev_related_id r) = text_or [] (ev_related_id r')"

lemma same_viewD:
  assumes "same_view r r'"
  shows "new_entry r rid = new_entry r' rid" and "new_finding k r p = new_finding k r' p"
    and "released_by r = released_by r'" and "function_text r = function_text r'"
    and "file_text r = file_text r'" and "ev_pid r = ev_pid r'"
    and "ev_resource_class r = ev_resource_class r'" and "ev_resource_id r = ev_resource_id r'"
    and "ev_resource_kind r = ev_resource_kind r'"
  using assms
  by (auto simp: same_view_def new_entry_def new_finding_def released_by_def fun_eq_iff
      split: option.splits)

lemma same_view_ops:
  assumes "same_view r r'"
  shows "add_entry s r rid = add_entry s r' rid" and "add_finding s k r p = add_finding s k r' p"
    and "release_entry s r = release_entry s r'"
proof -
  note v = same_viewD [OF assms]
  show "add_entry s r rid = add_entry s r' rid" unfolding add_entry_def v ..
  have finding: "add_finding s k r p = add_finding s k r' p" for k p
    unfolding add_finding_def v ..
  then show "add_finding s k r p = add_finding s k r' p" .
  show "release_entry s r = release_entry s r'"
    unfolding release_entry_def v finding ..
qed

lemma same_view_resource:
  assumes "same_view r r'"
  shows "ingest_resource s r = ingest_resource s r'"
proof -
  have related: "text_or [] (ev_related_id r) = text_or [] (ev_related_id r')"
    using assms by (simp add: same_view_def)
  have alt: "ingest_resource (m, w) q =
      (case (ev_resource_class q, ev_resource_id q) of
          (Some cls, Some rid) \<Rightarrow>
            if cls = ''blocking-operation'' \<or> cls = ''pthread-terminal-attempt'' then (True, m, w)
            else (case ev_resource_kind q of
               RESOURCE_ACQUIRE \<Rightarrow>
                 (case find_latest m (ev_pid q) cls rid True of
                    None \<Rightarrow> add_entry (m, w) q rid
                  | Some i \<Rightarrow>
                      (case add_finding (m, w) FINDING_DUPLICATE_ACQUIRE q (Some (lm_entries m ! i)) of
                         (True, s1) \<Rightarrow> add_entry s1 q rid
                       | (False, s1) \<Rightarrow> (False, s1)))
             | RESOURCE_RELEASE \<Rightarrow> release_entry (m, w) q
             | RESOURCE_USE \<Rightarrow>
                 (case find_latest m (ev_pid q) cls rid True of
                    Some i \<Rightarrow> (True, m, w)
                  | None \<Rightarrow> add_finding (m, w) FINDING_INVALID_USE q
                      (entry_at m (find_latest m (ev_pid q) cls rid False)))
             | _ \<Rightarrow>
                 if text_or [] (ev_related_id q) = [] then add_finding (m, w) FINDING_BAD_REPLACE q
                        (entry_at m (find_latest m (ev_pid q) cls rid False))
                 else (case release_entry (m, w) q of
                              (True, s1) \<Rightarrow> add_entry s1 q (text_or [] (ev_related_id q))
                            | (False, s1) \<Rightarrow> (False, s1)))
        | _ \<Rightarrow> (False, m, raise_check w))" for m w q
  proof (cases "ev_related_id q")
    case None
    then show ?thesis
      by (simp add: ingest_resource_def split: option.split resource_kind.split)
  next
    case (Some related)
    show ?thesis
      unfolding ingest_resource_def Some prod.case option.case text_or_simps by simp
  qed
  obtain m w where s: "s = (m, w)" by (cases s)
  show ?thesis
    unfolding s alt same_viewD(6-9) [OF assms] same_view_ops [OF assms] related ..
qed

subsection \<open>Well-formed records\<close>

text \<open>What the parser guarantees (\<open>parse_line_sound\<close>) of the texts the lifecycle reads.\<close>

definition texts_present :: "event_record \<Rightarrow> bool" where
  "texts_present r \<longleftrightarrow> ev_function_name r \<noteq> None \<and> ev_file_name r \<noteq> None \<and>
     (ev_record_kind r = RECORD_ALLOC \<longrightarrow> ev_ptr r \<noteq> None) \<and>
     (ev_record_kind r = RECORD_RESOURCE \<longrightarrow> ev_resource_class r \<noteq> None \<and> ev_resource_id r \<noteq> None)"

lemma payload_texts_present:
  "payload_well_formed r \<Longrightarrow>
     ev_record_kind r \<in> {RECORD_RESOURCE, RECORD_FD, RECORD_ALLOC, RECORD_FORK, RECORD_EXEC,
       RECORD_EXEC_FAIL, RECORD_CALL, RECORD_SPAWN} \<Longrightarrow> texts_present r"
  by (auto simp: payload_well_formed_def texts_present_def located_def)

definition read_back :: "record_lib \<Rightarrow> event_record \<Rightarrow> event_record" where
  "read_back L r = record_from_node L (copy_record r)"

lemma read_back_fields:
  "ev_record_kind (read_back L r) = ev_record_kind r" "ev_pid (read_back L r) = ev_pid r"
  "ev_child_pid (read_back L r) = ev_child_pid r" "ev_context_id (read_back L r) = ev_context_id r"
  "ev_sequence (read_back L r) = ev_sequence r" "ev_monotonic_ns (read_back L r) = ev_monotonic_ns r"
  "ev_monotonic_ns_available (read_back L r) = ev_monotonic_ns_available r"
  "ev_size (read_back L r) = ev_size r" "ev_line_number (read_back L r) = ev_line_number r"
  "ev_resource_kind (read_back L r) = ev_resource_kind r" "ev_fd_kind (read_back L r) = ev_fd_kind r"
  "ev_alloc_kind (read_back L r) = ev_alloc_kind r" "ev_fd (read_back L r) = ev_fd r"
  "ev_cloexec (read_back L r) = 0 \<longleftrightarrow> ev_cloexec r = 0"
  "ev_ptr (read_back L r) = Some (text_or [] (ev_ptr r))"
  "ev_new_ptr (read_back L r) = Some (text_or [] (ev_new_ptr r))"
  "ev_related_id (read_back L r) = Some (text_or [] (ev_related_id r))"
  "ev_resource_class (read_back L r) = Some (text_or [] (node_resource_class r))"
  "ev_resource_id (read_back L r) = Some (text_or [] (ev_resource_id r))"
  "ev_run_id (read_back L r) = Some (text_or [] (ev_run_id r))"
  "ev_version (read_back L r) = log_version L"
  by (simp_all add: read_back_def record_from_node_def copy_record_def)

lemma read_back_texts:
  "texts_present r \<Longrightarrow> function_text (read_back L r) = function_text r"
  "texts_present r \<Longrightarrow> file_text (read_back L r) = file_text r"
  by (auto simp: texts_present_def function_text_def file_text_def read_back_def
      record_from_node_def copy_record_def)

lemmas read_back_simps = read_back_fields read_back_texts

lemma same_view_updates:
  assumes "texts_present r"
  shows "same_view ((read_back L r)\<lparr>ev_resource_kind := k, ev_resource_class := c,
      ev_resource_id := i, ev_related_id := None, ev_size := n\<rparr>)
    (r\<lparr>ev_resource_kind := k, ev_resource_class := c, ev_resource_id := i, ev_related_id := None,
      ev_size := n\<rparr>)"
    and "same_view (as_allocation (read_back L r) k i) (as_allocation r k i)"
    and "same_view (exec_record (read_back L r)) (exec_record r)"
    and "same_view (inherited_record (read_back L r) e) (inherited_record r e)"
    and "ev_record_kind r = RECORD_RESOURCE \<Longrightarrow> same_view (read_back L r) r"
  using assms read_back_texts [OF assms, of L]
  by (auto simp: same_view_def as_allocation_def exec_record_def inherited_record_def
      read_back_fields function_text_def file_text_def node_resource_class_def texts_present_def)

lemma fork_step_read_back:
  assumes "texts_present r"
  shows "fork_step (read_back L r) i s = fork_step r i s"
  unfolding fork_step_def read_back_fields same_view_ops(1) [OF same_view_updates(4) [OF assms]] ..

lemma fork_from_read_back:
  assumes "texts_present r"
  shows "fork_from (read_back L r) n i s = fork_from r n i s"
  by (induction n arbitrary: i s) (simp_all add: fork_step_read_back [OF assms] split: option.split prod.split bool.split)

lemma ingest_kind_read_back:
  assumes "texts_present r" and "pointer_is_null L None" and "pointer_is_null L (Some [])"
    and "ev_record_kind r \<notin> {RECORD_CALL, RECORD_SPAWN, RECORD_COMPLETE}"
  shows "ingest_kind L s (read_back L r) = ingest_kind L s r"
proof -
  note view = same_view_updates [OF assms(1), where L = L]
  have null: "pointer_is_null L (Some (text_or [] t)) = pointer_is_null L t" for t
    using assms(2,3) by (cases t) simp_all
  have alloc: "ingest_allocation L s (read_back L r) = ingest_allocation L s r"
    if "ev_record_kind r = RECORD_ALLOC"
  proof -
    obtain m w where s: "s = (m, w)" by (cases s)
    from assms(1) that obtain p where p: "ev_ptr r = Some p" by (auto simp: texts_present_def)
    have new: "as_allocation r k (Some (text_or [] (ev_new_ptr r))) = as_allocation r k (ev_new_ptr r)"
      if "\<not> pointer_is_null L (ev_new_ptr r)" for k
      using that assms(2) by (cases "ev_new_ptr r") simp_all
    show ?thesis
      unfolding ingest_allocation_def read_back_fields null same_view_resource [OF view(2)]
        same_view_ops(2) [OF view(2)] p
      using new by (simp add: s Let_def split: alloc_kind.split option.split prod.split bool.split)
  qed
  have fd: "ingest_fd s (read_back L r) = ingest_fd s r"
    using same_view_resource [OF view(1)] by (simp add: ingest_fd_def read_back_fields)
  have exec: "ingest_exec s (read_back L r) = ingest_exec s r"
    unfolding ingest_exec_def read_back_fields same_view_ops [OF view(3)] ..
  have fork: "ingest_fork s (read_back L r) = ingest_fork s r"
    using fork_from_read_back [OF assms(1)] by (simp add: ingest_fork_def read_back_fields)
  show ?thesis
    using assms(4) alloc fd exec fork same_view_resource [OF view(5)]
    by (cases "ev_record_kind r") (simp_all add: ingest_kind_def read_back_fields)
qed

lemma lifecycle_ingest_read_back:
  assumes "texts_present r" and "pointer_is_null L None" and "pointer_is_null L (Some [])"
    and "record_admissible L r" and "ev_record_kind r \<notin> {RECORD_CALL, RECORD_SPAWN, RECORD_COMPLETE}"
  shows "lifecycle_ingest L s (Some (read_back L r)) = lifecycle_ingest L s (Some r)"
proof -
  from assms(4) obtain rid where "ev_run_id r = Some rid"
    by (auto simp: record_admissible_def split: option.splits)
  then have run: "ev_run_id (read_back L r) = ev_run_id r" by (simp add: read_back_fields)
  with assms(4) have adm: "record_admissible L (read_back L r) = record_admissible L r"
    by (simp add: record_admissible_def read_back_fields)
  show ?thesis
    unfolding lifecycle_ingest_def prod.case option.case adm run
      ingest_kind_read_back [OF assms(1-3,5)] ..
qed

subsection \<open>The whole run\<close>

text \<open>Ingesting the original records directly, up to the first that is refused.\<close>

fun lifecycle_of_records ::
  "record_lib \<Rightarrow> event_record list \<Rightarrow> lifecycle_model option \<times> world \<Rightarrow>
   (bool \<times> lifecycle_model option \<times> world) option" where
  "lifecycle_of_records L [] s = Some (True, s)"
| "lifecycle_of_records L (r # rs) s =
     (case lifecycle_ingest L s (Some r) of
        None \<Rightarrow> None
      | Some (False, s1) \<Rightarrow> Some (False, s1)
      | Some (True, s1) \<Rightarrow> lifecycle_of_records L rs s1)"

definition lifecycle_kind :: "event_record \<Rightarrow> bool" where
  "lifecycle_kind r \<longleftrightarrow> ev_record_kind r \<notin> {RECORD_CALL, RECORD_SPAWN, RECORD_COMPLETE}"

text \<open>Claim C9. Nothing is lost by going through the model: for admissible records with the texts
  the parser guarantees, the lifecycle that the model rebuilds from its nodes is, step by step,
  allocator answer by allocator answer, the lifecycle of the original resource records,
  although the nodes hold empty texts where the records had none.\<close>

theorem model_lifecycle_faithful:
  assumes "pointer_is_null L None" and "pointer_is_null L (Some [])"
    and "\<forall>r \<in> set rs. record_admissible L r \<and> texts_present r \<and> ev_record_kind r \<noteq> RECORD_COMPLETE"
  shows "lifecycle_of_nodes L (map copy_record rs) s =
    lifecycle_of_records L (filter lifecycle_kind rs) s"
  using assms(3)
proof (induction rs arbitrary: s)
  case (Cons r rs)
  have node: "lifecycle_node (copy_record r) \<longleftrightarrow> lifecycle_kind r"
    using Cons.prems by (auto simp: lifecycle_node_def lifecycle_kind_def copy_record_def)
  show ?case
  proof (cases "lifecycle_kind r")
    case False
    with Cons node show ?thesis by simp
  next
    case True
    with Cons.prems assms have "lifecycle_ingest L s (Some (read_back L r)) = lifecycle_ingest L s (Some r)"
      by (intro lifecycle_ingest_read_back) (auto simp: lifecycle_kind_def)
    with Cons True node show ?thesis
      by (auto simp: read_back_def split: option.split prod.split bool.split)
  qed
qed simp

theorem model_lifecycle_faithful_witness:
  "lifecycle_of_nodes doc_lib
     (map copy_record [record_of sample_header sample_payload]) (Some empty_lifecycle, calm_world) =
   lifecycle_of_records doc_lib [record_of sample_header sample_payload]
     (Some empty_lifecycle, calm_world)"
  using model_lifecycle_faithful [of doc_lib "[record_of sample_header sample_payload]"
      "(Some empty_lifecycle, calm_world)"]
  by (simp add: doc_lib_def doc_pointer_is_null_def sample_header_def sample_payload_def
      header_record_def blank_record_def record_admissible_def texts_present_def lifecycle_kind_def)

end
