(* ===== verification/Model_Input.thy ===== *)
theory Model_Input
  imports Model_Properties Health_Facts
begin

section \<open>Building a model from two streams (src/model\_input.c, src/model\_cli.c)\<close>

text \<open>
  \<open>ingest_stream\<close> reads a stream to its end, observes every record for the stream's health and
  ingests those that belong (calls from the call stream, everything else from the resource
  stream); \<open>model_ingest_paths\<close> does this for both files and finishes the model when the two
  streams together are complete. A path is modelled by what \<open>fopen\<close> gives: an error, or the
  bytes of the file and the error \<open>fclose\<close> reports, if any. src/model\_cli.c holds a second
  copy of the admission test, modelled here as \<open>admitted_streams_are_complete\<close>.
\<close>

definition belongs :: "bool \<Rightarrow> event_record \<Rightarrow> bool" where
  "belongs calls r \<longleftrightarrow> ev_record_kind r \<noteq> RECORD_COMPLETE \<and>
     (if calls then ev_record_kind r = RECORD_CALL else ev_record_kind r \<noteq> RECORD_CALL)"

type_synonym input_state = "tool_model \<times> stream_health \<times> world"

text \<open>One admitted record: observed, then ingested when it belongs.\<close>

definition admit_record ::
  "record_lib \<Rightarrow> bool \<Rightarrow> input_state \<Rightarrow> event_record \<Rightarrow> bool \<times> input_state" where
  "admit_record L calls s r =
     (case s of (m, h, w) \<Rightarrow>
        case observe_record L w h r of
          (Some e, h1, w1) \<Rightarrow> (False, m, h1, raise_errno e w1)
        | (None, h1, w1) \<Rightarrow>
            if belongs calls r then
              (case model_ingest L (Some m, w1) (Some r) of (b, m1, w2) \<Rightarrow> (b, the m1, h1, w2))
            else (True, m, h1, w1))"

text \<open>The loop ends because every line that is read shortens the stream.\<close>

partial_function (option) ingest_stream ::
  "record_lib \<Rightarrow> bool \<Rightarrow> byte_stream \<Rightarrow> input_state \<Rightarrow> (bool \<times> input_state) option" where
  "ingest_stream L calls st s =
     (case read_line (snd (snd s)) (Some st) (line_max L) of (status, line, st1, w1) \<Rightarrow>
        let s1 = (fst s, fst (snd s), w1) in
        if status = LINE_EOF then Some (True, s1)
        else if status = LINE_MALFORMED
        then Some (False, fst s, fst (snd s), raise_errno EINVAL w1)
        else if status = LINE_ERROR then Some (False, s1)
        else (case parse_line L (Some line) of
                Inl e \<Rightarrow>
                  if e = PARSE_OTHER then ingest_stream L calls (the st1) s1
                  else Some (False, fst s, fst (snd s), raise_errno EINVAL w1)
              | Inr r \<Rightarrow>
                  (case admit_record L calls s1 r of
                     (b, s2) \<Rightarrow> if b then ingest_stream L calls (the st1) s2
                                else Some (False, s2))))"

record opened_file =
  of_stream :: byte_stream
  of_close :: "errno option"

definition ingest_path ::
  "record_lib \<Rightarrow> bool \<Rightarrow> errno + opened_file \<Rightarrow> input_state \<Rightarrow> (bool \<times> input_state) option" where
  "ingest_path L calls file s =
     (case file of
        Inl e \<Rightarrow> Some (False, fst s, fst (snd s), raise_errno e (snd (snd s)))
      | Inr f \<Rightarrow>
          (case ingest_stream L calls (of_stream f) s of
             None \<Rightarrow> None
           | Some (b, m, h, w) \<Rightarrow>
               (case of_close f of
                  Some e \<Rightarrow> if b then Some (False, m, h, raise_errno e w) else Some (b, m, h, w)
                | None \<Rightarrow> Some (b, m, h, w))))"

subsection \<open>The admission test\<close>

definition stream_valid :: "stream_health \<Rightarrow> bool" where
  "stream_valid h \<longleftrightarrow>
     0 < sh_records_observed h \<and> 0 < length (sh_producers h) \<and>
     sh_producer_write_failures h = 0 \<and> sh_duplicate_sequences h = 0 \<and>
     sh_nonmonotonic_sequences h = 0 \<and> sh_attempted_count_mismatches h = 0 \<and>
     sh_records_after_completion h = 0 \<and> sh_distinct_run_ids h = 1 \<and>
     sh_invalid_run_ids h = 0 \<and> \<not> sh_mixed_run_ids h \<and> \<not> sh_allocation_failed h"

definition pending_in :: "producer_health \<Rightarrow> stream_health \<Rightarrow> bool" where
  "pending_in p h \<longleftrightarrow>
     list_ex (\<lambda>c. pr_pid c = pr_pid p \<and> pr_context_id c = pr_context_id p \<and>
       pr_run_id c = pr_run_id p \<and> pr_pending_exec c) (sh_producers h)"

definition producer_complete :: "producer_health \<Rightarrow> stream_health \<Rightarrow> bool" where
  "producer_complete p resource =
     (let complete = (pr_completion_records p = 1 \<and> \<not> pr_write_failed p \<and>
                      pr_attempted_count_mismatches p = 0)
      in if complete \<or> pr_completion_records p \<noteq> 0 then complete else pending_in p resource)"

text \<open>The two nested loops run while the result stays true.\<close>

fun producers_complete :: "bool \<Rightarrow> producer_health list \<Rightarrow> stream_health \<Rightarrow> bool" where
  "producers_complete ok [] resource = ok"
| "producers_complete ok (p # ps) resource =
     (if ok then producers_complete (producer_complete p resource) ps resource else False)"

fun streams_loop :: "bool \<Rightarrow> stream_health list \<Rightarrow> stream_health \<Rightarrow> bool" where
  "streams_loop ok [] resource = ok"
| "streams_loop ok (h # hs) resource =
     (if ok then streams_loop (producers_complete (stream_valid h) (sh_producers h) resource) hs resource
      else False)"

definition streams_complete :: "stream_health \<Rightarrow> stream_health \<Rightarrow> bool" where
  "streams_complete resource call = streams_loop True [resource, call] resource"

definition model_ingest_paths ::
  "record_lib \<Rightarrow> tool_model option \<Rightarrow> (errno + opened_file) option \<Rightarrow>
   (errno + opened_file) option \<Rightarrow> world \<Rightarrow> (bool \<times> tool_model option \<times> world) option" where
  "model_ingest_paths L model resource_path call_path w =
     (case (model, resource_path, call_path) of
        (Some m, Some rf, Some cf) \<Rightarrow>
          (case ingest_path L False rf (m, empty_health, w) of
             None \<Rightarrow> None
           | Some (False, m1, h1, w1) \<Rightarrow> Some (False, Some m1, w1)
           | Some (True, m1, h1, w1) \<Rightarrow>
               (case ingest_path L True cf (m1, empty_health, w1) of
                  None \<Rightarrow> None
                | Some (False, m2, h2, w2) \<Rightarrow> Some (False, Some m2, w2)
                | Some (True, m2, h2, w2) \<Rightarrow>
                    if \<not> streams_complete h1 h2 then Some (False, Some m2, raise_errno EINVAL w2)
                    else model_finish L (Some m2, w2)))
      | _ \<Rightarrow> Some (False, model, raise_errno EINVAL w))"

subsection \<open>The second implementation of the admission test (src/model\_cli.c)\<close>

definition record_belongs_in_stream :: "event_record \<Rightarrow> bool \<Rightarrow> bool" where
  "record_belongs_in_stream r calls =
     (if calls then ev_record_kind r = RECORD_CALL else ev_record_kind r \<noteq> RECORD_CALL)"

definition stream_integrity_is_valid :: "stream_health option \<Rightarrow> bool" where
  "stream_integrity_is_valid health =
     (case health of
        None \<Rightarrow> False
      | Some h \<Rightarrow>
          sh_records_observed h > 0 \<and> length (sh_producers h) > 0 \<and>
          sh_producer_write_failures h = 0 \<and> sh_duplicate_sequences h = 0 \<and>
          sh_nonmonotonic_sequences h = 0 \<and> sh_attempted_count_mismatches h = 0 \<and>
          sh_records_after_completion h = 0 \<and> sh_distinct_run_ids h = 1 \<and>
          sh_invalid_run_ids h = 0 \<and> \<not> sh_mixed_run_ids h \<and> \<not> sh_allocation_failed h)"

fun execed_from :: "producer_health list \<Rightarrow> producer_health \<Rightarrow> bool" where
  "execed_from [] p = False"
| "execed_from (c # cs) p =
     (if pr_pid c = pr_pid p \<and> pr_context_id c = pr_context_id p \<and> pr_run_id c = pr_run_id p \<and>
         pr_pending_exec c then True else execed_from cs p)"

definition producer_completed_or_execed :: "producer_health \<Rightarrow> stream_health option \<Rightarrow> bool" where
  "producer_completed_or_execed p resource =
     (if pr_completion_records p = 1 \<and> \<not> pr_write_failed p \<and> pr_attempted_count_mismatches p = 0
      then True
      else case resource of
        None \<Rightarrow> False
      | Some h \<Rightarrow> if pr_completion_records p \<noteq> 0 then False else execed_from (sh_producers h) p)"

fun admitted_loop :: "stream_health list \<Rightarrow> stream_health \<Rightarrow> bool" where
  "admitted_loop [] resource = True"
| "admitted_loop (h # hs) resource =
     (if \<not> stream_integrity_is_valid (Some h) then False
      else if \<not> list_all (\<lambda>p. producer_completed_or_execed p (Some resource)) (sh_producers h)
      then False
      else admitted_loop hs resource)"

definition admitted_streams_are_complete :: "stream_health \<Rightarrow> stream_health \<Rightarrow> bool" where
  "admitted_streams_are_complete resource call = admitted_loop [resource, call] resource"

end
