(* ===== verification/Model_Input_Facts.thy ===== *)
theory Model_Input_Facts
  imports Model_Input Event_Facts
begin

section \<open>What an accepted pair of streams is\<close>

text \<open>
  \<open>delivers\<close> is the content of a stream: the records of its lines, in order, lines of other
  tools skipped. The loop reads exactly that, and an accepted pair of streams satisfies
  \<open>stream_accepted\<close>, which speaks of the records alone.
\<close>

inductive delivers :: "record_lib \<Rightarrow> byte_stream \<Rightarrow> event_record list \<Rightarrow> bool" for L where
  end_of_stream: "read_line w (Some st) (line_max L) = (LINE_EOF, line, st', w') \<Longrightarrow>
    delivers L st []"
| foreign_line: "read_line w (Some st) (line_max L) = (LINE_OK, line, Some st', w') \<Longrightarrow>
    parse_line L (Some line) = Inl PARSE_OTHER \<Longrightarrow> delivers L st' rs \<Longrightarrow> delivers L st rs"
| record_line: "read_line w (Some st) (line_max L) = (LINE_OK, line, Some st', w') \<Longrightarrow>
    parse_line L (Some line) = Inr r \<Longrightarrow> delivers L st' rs \<Longrightarrow> delivers L st (r # rs)"

lemma read_line_stream:
  "read_line w (Some st) n = (status, line, st', w') \<Longrightarrow> \<exists>s. st' = Some s"
  by (auto simp: read_line_def Let_def split: if_splits prod.splits)

lemma model_ingest_some: "\<exists>b m' w'. model_ingest L (Some m, w) (Some r) = (b, Some m', w')"
  by (auto simp: model_ingest_def split: prod.splits bool.splits)

subsection \<open>One record\<close>

text \<open>What the model has gained from a list of records.\<close>

definition gained :: "bool \<Rightarrow> tool_model \<Rightarrow> tool_model \<Rightarrow> event_record list \<Rightarrow> bool" where
  "gained calls m m' rs \<longleftrightarrow>
     tm_nodes m' = tm_nodes m @ map copy_record (filter (belongs calls) rs) \<and>
     tm_finished m' = tm_finished m"

lemma gained_append:
  "gained calls m m1 rs \<Longrightarrow> gained calls m1 m' rs' \<Longrightarrow> gained calls m m' (rs @ rs')"
  by (simp add: gained_def)

lemma admit_record_result:
  assumes "admit_record L calls (m, h, w) r = (b, m', h', w')"
  shows "model_ok m \<Longrightarrow> model_ok m'"
    and "health_inv L rs h \<Longrightarrow> health_inv L (rs @ [r]) h'"
    and "b \<Longrightarrow> model_ok m \<Longrightarrow> gained calls m m' [r]"
proof -
  obtain e h1 w1 where obs: "observe_record L w h r = (e, h1, w1)" by (rule prod_cases3)
  obtain b1 m1 w2 where ing: "model_ingest L (Some m, w1) (Some r) = (b1, Some m1, w2)"
    using model_ingest_some by blast
  from assms have h1: "h1 = h'"
    by (auto simp: admit_record_def obs ing split: option.splits if_splits)
  show "health_inv L (rs @ [r]) h'" if "health_inv L rs h"
    using health_inv_observe [OF that, of r w] obs h1 by simp
  show "model_ok m'" if "model_ok m"
    using assms that model_ingest_effect [OF ing that]
    by (auto simp: admit_record_def obs ing split: option.splits if_splits)
  show "gained calls m m' [r]" if b "model_ok m"
    using assms that(1) model_ingest_effect [OF ing that(2)]
    by (auto simp: admit_record_def obs ing gained_def belongs_def split: option.splits if_splits)
qed

subsection \<open>One stream\<close>

text \<open>
  The loop always ends. It keeps the model consistent; when it succeeds, the stream has
  delivered its records, the health has met them all and the model has gained those that
  belong.
\<close>

definition stream_post ::
  "record_lib \<Rightarrow> bool \<Rightarrow> byte_stream \<Rightarrow> tool_model \<Rightarrow> stream_health \<Rightarrow> bool \<Rightarrow> tool_model \<Rightarrow>
   stream_health \<Rightarrow> bool" where
  "stream_post L calls st m h b m' h' \<longleftrightarrow>
     (model_ok m \<longrightarrow> model_ok m') \<and>
     (b \<and> model_ok m \<longrightarrow> (\<exists>rs. delivers L st rs \<and> gained calls m m' rs \<and>
        (\<forall>rs0. health_inv L rs0 h \<longrightarrow> health_inv L (rs0 @ rs) h')))"

lemma stream_post_record:
  assumes "read_line w (Some st) (line_max L) = (LINE_OK, line, Some st', w1)"
    and "parse_line L (Some line) = Inr r"
    and "admit_record L calls (m, h, w1) r = (True, m1, h1, w2)"
    and "stream_post L calls st' m1 h1 b m' h'"
  shows "stream_post L calls st m h b m' h'"
proof -
  note one = admit_record_result [OF assms(3)]
  have "\<exists>rs. delivers L st rs \<and> gained calls m m' rs \<and>
      (\<forall>rs0. health_inv L rs0 h \<longrightarrow> health_inv L (rs0 @ rs) h')"
    if ok: b "model_ok m"
  proof -
    from assms(4) ok one(1) obtain rs where rs: "delivers L st' rs" "gained calls m1 m' rs"
      and inv: "\<And>rs0. health_inv L rs0 h1 \<Longrightarrow> health_inv L (rs0 @ rs) h'"
      by (auto simp: stream_post_def)
    have "gained calls m m' (r # rs)"
      using gained_append [OF one(3) [OF TrueI ok(2)] rs(2)] by simp
    moreover have "health_inv L (rs0 @ r # rs) h'" if "health_inv L rs0 h" for rs0
      using inv [OF one(2) [OF that]] by simp
    ultimately show ?thesis using record_line [OF assms(1,2) rs(1)] by blast
  qed
  with assms(4) one(1) show ?thesis by (auto simp: stream_post_def)
qed

lemma stream_post_foreign:
  assumes "read_line w (Some st) (line_max L) = (LINE_OK, line, Some st', w1)"
    and "parse_line L (Some line) = Inl PARSE_OTHER"
    and "stream_post L calls st' m h b m' h'"
  shows "stream_post L calls st m h b m' h'"
  using assms(3) foreign_line [OF assms(1,2)] unfolding stream_post_def by blast

lemma stream_post_stop:
  "stream_post L calls st m h False m h"
  "admit_record L calls (m, h, w) r = (False, m1, h1, w1) \<Longrightarrow> stream_post L calls st m h False m1 h1"
  using admit_record_result(1) by (auto simp: stream_post_def)

lemma stream_post_end:
  assumes "read_line w (Some st) (line_max L) = (LINE_EOF, line, st', w')"
  shows "stream_post L calls st m h True m h"
proof -
  have "gained calls m m []" by (simp add: gained_def)
  with end_of_stream [OF assms] show ?thesis
    unfolding stream_post_def by (metis append_Nil2)
qed

lemma ingest_stream_total:
  "\<exists>b m' h' w'. ingest_stream L calls st (m, h, w) = Some (b, m', h', w') \<and>
     stream_post L calls st m h b m' h'"
proof (induction "length (st_bytes st)" arbitrary: st m h w rule: less_induct)
  case less
  obtain status line st1 w1 where rl: "read_line w (Some st) (line_max L) = (status, line, st1, w1)"
    by (rule prod_cases4)
  obtain st' where st1: "st1 = Some st'" using read_line_stream [OF rl] by blast
  note rl = rl [unfolded st1]
  note step = ingest_stream.simps [of L calls st "(m, h, w)"]
  show ?case
  proof (cases status)
    case LINE_EOF
    with step rl have "ingest_stream L calls st (m, h, w) = Some (True, m, h, w1)" by simp
    with stream_post_end [OF rl [unfolded LINE_EOF]] show ?thesis by blast
  next
    case LINE_MALFORMED
    with step rl have "\<exists>w'. ingest_stream L calls st (m, h, w) = Some (False, m, h, w')" by simp
    with stream_post_stop(1) show ?thesis by blast
  next
    case LINE_ERROR
    with step rl have "\<exists>w'. ingest_stream L calls st (m, h, w) = Some (False, m, h, w')" by simp
    with stream_post_stop(1) show ?thesis by blast
  next
    case LINE_OK
    note rl = rl [unfolded LINE_OK]
    have short: "length (st_bytes st') < length (st_bytes st)"
      using read_line_progress [OF rl] by simp
    show ?thesis
    proof (cases "parse_line L (Some line)")
      case (Inl e)
      show ?thesis
      proof (cases "e = PARSE_OTHER")
        case True
        with Inl have other: "parse_line L (Some line) = Inl PARSE_OTHER" by simp
        from less [OF short, of m h w1] step rl other stream_post_foreign [OF rl other]
        show ?thesis by auto
      next
        case False
        with step rl Inl have "\<exists>w'. ingest_stream L calls st (m, h, w) = Some (False, m, h, w')"
          by simp
        with stream_post_stop(1) show ?thesis by blast
      qed
    next
      case (Inr r)
      obtain b m1 h1 w2 where adm: "admit_record L calls (m, h, w1) r = (b, m1, h1, w2)"
        by (rule prod_cases4)
      show ?thesis
      proof (cases b)
        case True
        with adm have adm: "admit_record L calls (m, h, w1) r = (True, m1, h1, w2)" by simp
        from less [OF short, of m1 h1 w2] step rl Inr adm stream_post_record [OF rl Inr adm]
        show ?thesis by auto
      next
        case False
        with adm have adm: "admit_record L calls (m, h, w1) r = (False, m1, h1, w2)" by simp
        with step rl Inr have "ingest_stream L calls st (m, h, w) = Some (False, m1, h1, w2)"
          by simp
        with stream_post_stop(2) [OF adm] show ?thesis by blast
      qed
    qed
  qed
qed

subsection \<open>The accepted streams\<close>

text \<open>
  A context that has no COMPLETE record is accepted when the resource stream shows that its
  process image was replaced: the last record of that context that starts, fails or ends an
  exec is an EXEC.
\<close>

definition exec_pending :: "event_record list \<Rightarrow> bool" where
  "exec_pending xs \<longleftrightarrow>
     (let ks = filter (\<lambda>k. k \<in> {RECORD_EXEC, RECORD_EXEC_FAIL, RECORD_COMPLETE})
                 (map ev_record_kind xs)
      in ks \<noteq> [] \<and> last ks = RECORD_EXEC)"

definition context_accepted :: "event_record list \<Rightarrow> event_record list \<Rightarrow> bool" where
  "context_accepted resource xs \<longleftrightarrow>
     context_complete xs \<or>
     ((\<forall>r \<in> set xs. ev_record_kind r \<noteq> RECORD_COMPLETE) \<and> sorted_wrt (<) (sequences xs) \<and>
      exec_pending resource)"

definition stream_accepted ::
  "record_lib \<Rightarrow> event_record list \<Rightarrow> event_record list \<Rightarrow> bool" where
  "stream_accepted L resource rs \<longleftrightarrow>
     rs \<noteq> [] \<and> (\<forall>r \<in> set rs. run_id_ok L r \<and> ev_run_id r = ev_run_id (hd rs)) \<and>
     (\<forall>r \<in> set rs. context_accepted (records_of resource (context_of r))
                                     (records_of rs (context_of r)))"

lemma pending_after: "pr_pending_exec (producer_after k xs) = exec_pending xs"
proof (induction xs rule: rev_induct)
  case Nil
  show ?case by (simp add: exec_pending_def fresh_producer_def split: prod.split)
next
  case (snoc r xs)
  then show ?case
    by (cases "ev_record_kind r")
       (simp_all add: exec_pending_def producer_step_def observe_counters_def Let_def stage_producer)
qed

lemma pending_in_records:
  assumes "observed_producers rs h"
  shows "pending_in p h \<longleftrightarrow> exec_pending (records_of rs (producer_key p))"
proof -
  let ?k = "producer_key p"
  have "pending_in p h \<longleftrightarrow> (\<exists>c \<in> set (sh_producers h). producer_key c = ?k \<and> pr_pending_exec c)"
    by (auto simp: pending_in_def list_ex_iff producer_key_def)
  also have "\<dots> \<longleftrightarrow> (\<exists>c. key_lookup producer_key (sh_producers h) ?k = Some c \<and> pr_pending_exec c)"
    using key_lookup_in [OF observed_producers_distinct [OF assms]] key_lookup_SomeD by metis
  also have "\<dots> \<longleftrightarrow> exec_pending (records_of rs ?k)"
    using observed_producers_lookup [OF assms, of ?k] pending_after [of ?k "records_of rs ?k"]
    by (auto simp: exec_pending_def)
  finally show ?thesis .
qed

lemma streams_complete_unfold:
  "streams_complete r c \<longleftrightarrow>
     stream_valid r \<and> (\<forall>p \<in> set (sh_producers r). producer_complete p r) \<and>
     stream_valid c \<and> (\<forall>p \<in> set (sh_producers c). producer_complete p r)"
proof -
  have loop: "producers_complete ok ps h \<longleftrightarrow> ok \<and> (\<forall>p \<in> set ps. producer_complete p h)" for ok ps h
    by (induction ps arbitrary: ok) auto
  show ?thesis by (auto simp: streams_complete_def loop)
qed

lemma stream_valid_clean:
  assumes "totals h"
  shows "stream_valid h \<longleftrightarrow>
    sh_producers h \<noteq> [] \<and> sh_records_observed h \<noteq> 0 \<and> sh_distinct_run_ids h = 1 \<and>
    sh_invalid_run_ids h = 0 \<and> \<not> sh_mixed_run_ids h \<and> \<not> sh_allocation_failed h \<and>
    (\<forall>p \<in> set (sh_producers h). producer_clean p)"
proof -
  have "sh_producer_write_failures h = 0 \<and> sh_duplicate_sequences h = 0 \<and>
      sh_nonmonotonic_sequences h = 0 \<and> sh_attempted_count_mismatches h = 0 \<and>
      sh_records_after_completion h = 0 \<longleftrightarrow> (\<forall>p \<in> set (sh_producers h). producer_clean p)"
    using assms by (auto simp: totals_def producer_clean_def)
  then show ?thesis by (auto simp: stream_valid_def)
qed

lemma valid_records:
  "stream_valid h \<Longrightarrow> health_inv L rs h \<Longrightarrow> \<not> sh_allocation_failed h \<and> list_all (run_id_ok L) rs"
  "stream_accepted L cs rs \<Longrightarrow> list_all (run_id_ok L) rs"
  using invalid_counted [of L rs h] by (auto simp: stream_valid_def stream_accepted_def list_all_iff)

text \<open>One stream, judged with the health of the resource stream.\<close>

lemma stream_accepted_exact:
  assumes "health_inv L rs h" and "health_inv L cs r"
    and "\<not> sh_allocation_failed r" and "list_all (run_id_ok L) cs"
  shows "stream_valid h \<and> (\<forall>p \<in> set (sh_producers h). producer_complete p r) \<longleftrightarrow>
    stream_accepted L cs rs \<and> \<not> sh_allocation_failed h"
proof (cases "\<not> sh_allocation_failed h \<and> list_all (run_id_ok L) rs")
  case False
  then show ?thesis using valid_records(1) [OF _ assms(1)] valid_records(2) by blast
next
  case True
  with assms(1) have obs: "observed_producers rs h" and run: "observed_run_id rs h"
    and tot: "totals h" and inv: "sh_invalid_run_ids h = 0"
    by (auto simp: health_inv_def filter_empty_conv list_all_iff)
  from assms(2-4) have res: "observed_producers cs r" by (simp add: health_inv_def)
  have one: "producer_clean p \<and> producer_complete p r \<longleftrightarrow>
      context_accepted (records_of cs k) xs"
    if "p = producer_after k xs" for p k xs
  proof -
    have "producer_clean p \<and> producer_complete p r \<longleftrightarrow>
        producer_clean p \<and> pr_completion_records p = 1 \<or>
        (producer_clean p \<and> pr_completion_records p = 0) \<and> pending_in p r"
      by (auto simp: producer_complete_def producer_clean_def Let_def)
    also have "\<dots> \<longleftrightarrow> context_accepted (records_of cs k) xs"
      unfolding pending_in_records [OF res] that producer_clean_complete producer_clean_open
        producer_after_key context_accepted_def
      by blast
    finally show ?thesis .
  qed
  have contexts: "(\<forall>p \<in> set (sh_producers h). producer_clean p) \<and>
      (\<forall>p \<in> set (sh_producers h). producer_complete p r) \<longleftrightarrow>
      (\<forall>x \<in> set rs. context_accepted (records_of cs (context_of x)) (records_of rs (context_of x)))"
    unfolding observed_producer_set [OF obs] ball_simps(9) using one [OF refl] by blast
  have valid: "\<forall>x \<in> set rs. run_id_ok L x" using True by (simp add: list_all_iff)
  show ?thesis
    unfolding stream_valid_clean [OF tot] observed_some(1) [OF obs] stream_accepted_def
    using contexts observed_some(2) [OF obs tot] observed_ids [OF run] inv valid True by blast
qed

lemma streams_complete_exact:
  assumes "health_inv L rs h" and "health_inv L cs c"
  shows "streams_complete h c \<longleftrightarrow>
    stream_accepted L rs rs \<and> stream_accepted L rs cs \<and>
    \<not> sh_allocation_failed h \<and> \<not> sh_allocation_failed c"
proof (cases "\<not> sh_allocation_failed h \<and> list_all (run_id_ok L) rs")
  case True
  then show ?thesis
    unfolding streams_complete_unfold
    using stream_accepted_exact [OF assms(1) assms(1)] stream_accepted_exact [OF assms(2) assms(1)]
    by blast
next
  case False
  then show ?thesis
    unfolding streams_complete_unfold
    using valid_records(1) [OF _ assms(1)] valid_records(2) by blast
qed

subsection \<open>One file\<close>

definition path_post ::
  "record_lib \<Rightarrow> bool \<Rightarrow> errno + opened_file \<Rightarrow> tool_model \<Rightarrow> stream_health \<Rightarrow> bool \<Rightarrow>
   tool_model \<Rightarrow> stream_health \<Rightarrow> bool" where
  "path_post L calls path m h b m' h' \<longleftrightarrow>
     (model_ok m \<longrightarrow> model_ok m') \<and>
     (b \<and> model_ok m \<longrightarrow> (\<exists>f rs. path = Inr f \<and> of_close f = None \<and> delivers L (of_stream f) rs \<and>
        gained calls m m' rs \<and> (\<forall>rs0. health_inv L rs0 h \<longrightarrow> health_inv L (rs0 @ rs) h')))"

lemma ingest_path_total:
  "\<exists>b m' h' w'. ingest_path L calls path (m, h, w) = Some (b, m', h', w') \<and>
     path_post L calls path m h b m' h'"
proof (cases path)
  case (Inl e)
  then have "ingest_path L calls path (m, h, w) = Some (False, m, h, raise_errno e w)"
    by (simp add: ingest_path_def)
  then show ?thesis by (auto simp: path_post_def)
next
  case (Inr f)
  obtain b m' h' w' where st: "ingest_stream L calls (of_stream f) (m, h, w) = Some (b, m', h', w')"
    and post: "stream_post L calls (of_stream f) m h b m' h'"
    using ingest_stream_total by blast
  show ?thesis
  proof (cases "of_close f")
    case None
    then have "ingest_path L calls path (m, h, w) = Some (b, m', h', w')"
      by (simp add: ingest_path_def Inr st)
    with post None Inr show ?thesis by (auto simp: path_post_def stream_post_def)
  next
    case (Some e)
    then have "ingest_path L calls path (m, h, w) =
        Some (False, m', h', if b then raise_errno e w' else w')"
      by (simp add: ingest_path_def Inr st)
    with post show ?thesis by (auto simp: path_post_def stream_post_def)
  qed
qed

subsection \<open>Both files\<close>

text \<open>What a successful construction guarantees of the two files and of the model.\<close>

definition paths_accepted ::
  "record_lib \<Rightarrow> tool_model \<Rightarrow> errno + opened_file \<Rightarrow> errno + opened_file \<Rightarrow> tool_model \<Rightarrow> bool" where
  "paths_accepted L m rf cf m' \<longleftrightarrow>
     (\<exists>f g rs cs. rf = Inr f \<and> cf = Inr g \<and> of_close f = None \<and> of_close g = None \<and>
        delivers L (of_stream f) rs \<and> delivers L (of_stream g) cs \<and>
        stream_accepted L rs rs \<and> stream_accepted L rs cs \<and>
        tm_nodes m' = tm_nodes m @ map copy_record (filter (belongs False) rs @ filter (belongs True) cs) \<and>
        (\<not> tm_finished m \<longrightarrow> built L (tm_nodes m') (tm_edges m')))"

lemma both_streams_accepted:
  assumes "path_post L False rf m empty_health True m1 h1" and "path_post L True cf m1 empty_health True m2 h2"
    and "streams_complete h1 h2" and "model_ok m"
    and "tm_nodes m' = tm_nodes m2" and "\<not> tm_finished m2 \<longrightarrow> built L (tm_nodes m2) (tm_edges m')"
  shows "paths_accepted L m rf cf m'"
proof -
  from assms(1,4) obtain f rs where f: "rf = Inr f" "of_close f = None" "delivers L (of_stream f) rs"
    and g1: "gained False m m1 rs"
    and i1: "\<And>rs0. health_inv L rs0 empty_health \<Longrightarrow> health_inv L (rs0 @ rs) h1"
    and ok: "model_ok m1"
    by (auto simp: path_post_def)
  from assms(2) ok obtain g cs where g: "cf = Inr g" "of_close g = None" "delivers L (of_stream g) cs"
    and g2: "gained True m1 m2 cs"
    and i2: "\<And>rs0. health_inv L rs0 empty_health \<Longrightarrow> health_inv L (rs0 @ cs) h2"
    by (auto simp: path_post_def)
  have "stream_accepted L rs rs" "stream_accepted L rs cs"
    using streams_complete_exact [OF i1 [OF health_inv_empty] i2 [OF health_inv_empty]] assms(3)
    by simp_all
  with f g g1 g2 assms(5,6) show ?thesis
    unfolding paths_accepted_def by (auto simp: gained_def)
qed

lemma model_finish_nodes:
  "\<exists>b m' w'. model_finish L (Some m, w) = Some (b, Some m', w') \<and> tm_nodes m' = tm_nodes m"
proof (cases "tm_finished m")
  case True
  then show ?thesis by (auto simp: model_finish_def)
next
  case False
  from model_finish_total [OF this, of L w] show ?thesis by (auto simp: finish_post_def)
qed

lemma model_ingest_paths_total:
  "\<exists>b m' w'. model_ingest_paths L (Some m) (Some rf) (Some cf) w = Some (b, Some m', w') \<and>
     (model_ok m \<longrightarrow> model_ok m' \<and> (b \<longrightarrow> paths_accepted L m rf cf m'))"
proof -
  obtain b1 m1 h1 w1 where r1: "ingest_path L False rf (m, empty_health, w) = Some (b1, m1, h1, w1)"
    and p1: "path_post L False rf m empty_health b1 m1 h1"
    using ingest_path_total by blast
  obtain b2 m2 h2 w2 where r2: "ingest_path L True cf (m1, empty_health, w1) = Some (b2, m2, h2, w2)"
    and p2: "path_post L True cf m1 empty_health b2 m2 h2"
    using ingest_path_total by blast
  have ok: "model_ok m \<longrightarrow> model_ok m1 \<and> model_ok m2" using p1 p2 by (simp add: path_post_def)
  show ?thesis
  proof (cases "b1 \<and> b2 \<and> streams_complete h1 h2")
    case False
    then have "\<exists>w' mx. model_ingest_paths L (Some m) (Some rf) (Some cf) w = Some (False, Some mx, w') \<and>
        (mx = m1 \<or> mx = m2)"
      by (cases b1; cases b2) (simp_all add: model_ingest_paths_def r1 r2)
    with ok show ?thesis by blast
  next
    case True
    then have run: "model_ingest_paths L (Some m) (Some rf) (Some cf) w = model_finish L (Some m2, w2)"
      by (simp add: model_ingest_paths_def r1 r2)
    obtain b m' w' where fin: "model_finish L (Some m2, w2) = Some (b, Some m', w')"
      and nodes: "tm_nodes m' = tm_nodes m2"
      using model_finish_nodes by blast
    have built: "\<not> tm_finished m2 \<longrightarrow> built L (tm_nodes m2) (tm_edges m')" if b
      using model_finish_built(1) fin that by simp
    have "model_ok m \<longrightarrow> model_ok m'" using ok model_finish_ok [OF fin] by blast
    moreover have "paths_accepted L m rf cf m'" if "model_ok m" b
      using both_streams_accepted [of L rf m m1 h1 cf m2 h2 m'] p1 p2 True that nodes
        built [OF that(2)] by simp
    ultimately show ?thesis using run fin by auto
  qed
qed

end
