(* ===== verification/Model_Input_Properties.thy ===== *)
theory Model_Input_Properties
  imports Model_Input_Facts Event_Format
begin

section \<open>Admission of a pair of streams, exactly\<close>

text \<open>
  Beside what a successful construction guarantees, the other direction: an accepted pair of
  streams of one run is admitted whenever memory is available and the nodes fit, and what
  remains is to finish the model.
\<close>

subsection \<open>A stream has one content\<close>

lemma read_line_world:
  assumes "read_line w (Some st) n = (status, line, st', w')" and "status \<noteq> LINE_ERROR"
  shows "read_line v (Some st) n = (status, line, st', v)"
  using assms by (auto simp: read_line_def Let_def split: if_splits prod.splits)

lemma delivers_unique: "delivers L st rs \<Longrightarrow> delivers L st rs' \<Longrightarrow> rs = rs'"
proof (induction arbitrary: rs' rule: delivers.induct)
  case (end_of_stream w st line st' w')
  from end_of_stream(2,1) show ?case
    by cases (use read_line_world [OF end_of_stream(1)] in auto)
next
  case (foreign_line w st line st' w' rs)
  from foreign_line(5) show ?case
    by cases (use read_line_world [OF foreign_line(1)] foreign_line(2,4) in auto)
next
  case (record_line w st line st' w' r rs)
  from record_line(5) show ?case
    by cases (use read_line_world [OF record_line(1)] record_line(2,4) in auto)
qed

subsection \<open>With memory available nothing is refused\<close>

lemma admissible_iff: "record_admissible L r \<longleftrightarrow> ev_version r = log_version L \<and> run_id_ok L r"
  by (auto simp: record_admissible_def run_id_ok_def split: option.split)

lemma model_ingest_ample:
  assumes "model_ok m" and "\<not> tm_finished m" and "record_admissible L r"
    and "tm_run_id m = None \<or> tm_run_id m = ev_run_id r"
    and "ev_record_kind r \<noteq> RECORD_COMPLETE \<Longrightarrow> length (tm_nodes m) < MODEL_LIMIT" and "ample w"
  shows "\<exists>m' w'. model_ingest L (Some m, w) (Some r) = (True, Some m', w') \<and> ample w'"
proof -
  from assms(3) obtain rid where rid: "ev_run_id r = Some rid"
    by (auto simp: record_admissible_def split: option.splits)
  obtain w1 where copy: "copy_text rid w = (Some rid, w1)" "ample w1"
    using copy_text_ample [OF assms(6)] by blast
  have "\<exists>m1 w2. admit_run_id (m, w) rid = (True, m1, w2) \<and> ample w2 \<and>
      tm_nodes m1 = tm_nodes m \<and> tm_node_capacity m1 = tm_node_capacity m"
    using assms(4,6) copy rid by (auto simp: admit_run_id_def)
  then obtain m1 w2 where admit: "admit_run_id (m, w) rid = (True, m1, w2)" "ample w2"
    and same: "tm_nodes m1 = tm_nodes m" "tm_node_capacity m1 = tm_node_capacity m"
    by blast
  show ?thesis
  proof (cases "ev_record_kind r = RECORD_COMPLETE")
    case True
    with assms(2,3) rid admit show ?thesis by (simp add: model_ingest_def)
  next
    case False
    with assms(1,5) obtain d w3 where
      room: "model_reserve (length (tm_nodes m)) (tm_node_capacity m) w2 = (True, d, w3)" "ample w3"
      using model_array.roomy [of "tm_node_capacity m" "length (tm_nodes m)" w2] admit(2)
      by (auto simp: model_ok_def fits_def)
    obtain w4 where "copy_until (record_texts r) w3 = (True, w4)" "ample w4"
      using copy_until_ample [OF room(2)] by blast
    with False assms(2,3) rid admit room same show ?thesis
      by (simp add: model_ingest_def add_node_def reserve_nodes_def)
  qed
qed

lemma observe_record_ample:
  assumes "run_id_ok L r" and "ample w"
  shows "\<exists>h' w'. observe_record L w h r = (None, h', w') \<and> ample w' \<and>
    (\<not> sh_allocation_failed h \<longrightarrow> \<not> sh_allocation_failed h')"
proof -
  obtain w1 where "heap_request w = (True, w1)" "ample w1"
    using heap_request_ample [OF assms(2)] by blast
  with assms show ?thesis
    by (auto simp: observe_record_cases find_or_add_producer_cases replace_producer_fields
        split: option.split)
qed

lemma admit_record_ample:
  assumes "model_ok m" and "\<not> tm_finished m" and "record_admissible L r"
    and "belongs calls r \<Longrightarrow> tm_run_id m = None \<or> tm_run_id m = ev_run_id r"
    and "belongs calls r \<Longrightarrow> length (tm_nodes m) < MODEL_LIMIT" and "ample w"
    and "\<not> sh_allocation_failed h"
  shows "\<exists>m' h' w'. admit_record L calls (m, h, w) r = (True, m', h', w') \<and> ample w' \<and>
    \<not> sh_allocation_failed h' \<and> \<not> tm_finished m' \<and>
    (if belongs calls r then tm_run_id m' = ev_run_id r else m' = m)"
proof -
  have "run_id_ok L r" using assms(3) by (simp add: admissible_iff)
  then obtain h1 w1 where obs: "observe_record L w h r = (None, h1, w1)" "ample w1"
    "\<not> sh_allocation_failed h1"
    using observe_record_ample [OF _ assms(6), of L r h] assms(7) by blast
  show ?thesis
  proof (cases "belongs calls r")
    case False
    with obs assms(2) show ?thesis by (simp add: admit_record_def)
  next
    case True
    obtain m1 w2 where ing: "model_ingest L (Some m, w1) (Some r) = (True, Some m1, w2)" "ample w2"
      using model_ingest_ample [OF assms(1-3) assms(4) [OF True] assms(5) [OF True] obs(2)] by blast
    with True obs assms(2) model_ingest_effect [OF ing(1) assms(1)] show ?thesis
      by (simp add: admit_record_def)
  qed
qed


text \<open>A stream's records can be admitted: valid, and those that belong are of the run \<open>rid\<close>.\<close>

definition admissible_stream ::
  "record_lib \<Rightarrow> bool \<Rightarrow> string \<Rightarrow> tool_model \<Rightarrow> event_record list \<Rightarrow> bool" where
  "admissible_stream L calls rid m rs \<longleftrightarrow>
     model_ok m \<and> \<not> tm_finished m \<and> (tm_run_id m = None \<or> tm_run_id m = Some rid) \<and>
     (\<forall>r \<in> set rs. record_admissible L r \<and> (belongs calls r \<longrightarrow> ev_run_id r = Some rid)) \<and>
     length (tm_nodes m) + length (filter (belongs calls) rs) \<le> MODEL_LIMIT"

lemma admissible_step:
  assumes "admissible_stream L calls rid m (r # rs)" and "ample w" and "\<not> sh_allocation_failed h"
  shows "\<exists>m' h' w'. admit_record L calls (m, h, w) r = (True, m', h', w') \<and> ample w' \<and>
    \<not> sh_allocation_failed h' \<and> admissible_stream L calls rid m' rs"
proof -
  from assms(1) have ok: "model_ok m" "\<not> tm_finished m" "record_admissible L r"
    and run: "belongs calls r \<Longrightarrow> tm_run_id m = None \<or> tm_run_id m = ev_run_id r"
    and room: "belongs calls r \<Longrightarrow> length (tm_nodes m) < MODEL_LIMIT"
    by (auto simp: admissible_stream_def)
  obtain m' h' w' where adm: "admit_record L calls (m, h, w) r = (True, m', h', w')" "ample w'"
    "\<not> sh_allocation_failed h'" "\<not> tm_finished m'"
    "if belongs calls r then tm_run_id m' = ev_run_id r else m' = m"
    using admit_record_ample [OF ok run room assms(2,3)] by blast
  note one = admit_record_result(1,3) [OF adm(1)]
  have "admissible_stream L calls rid m' rs"
    using assms(1) adm(4,5) one(1) [OF ok(1)] one(2) [OF TrueI ok(1)]
    by (auto simp: admissible_stream_def gained_def split: if_splits)
  with adm show ?thesis by blast
qed

lemma ingest_stream_ample:
  assumes "delivers L st rs" and "admissible_stream L calls rid m rs" and "ample w"
    and "\<not> sh_allocation_failed h"
  shows "\<exists>m' h' w'. ingest_stream L calls st (m, h, w) = Some (True, m', h', w') \<and> ample w' \<and>
    \<not> sh_allocation_failed h' \<and> admissible_stream L calls rid m' []"
  using assms
proof (induction arbitrary: m h w rule: delivers.induct)
  case (end_of_stream w0 st line st' w0')
  with read_line_world [OF end_of_stream(1), of w]
  have "ingest_stream L calls st (m, h, w) = Some (True, m, h, w)"
    by (simp add: ingest_stream.simps [of L calls st])
  with end_of_stream show ?case by blast
next
  case (foreign_line w0 st line st' w0' rs)
  with read_line_world [OF foreign_line(1), of w]
  have "ingest_stream L calls st (m, h, w) = ingest_stream L calls st' (m, h, w)"
    by (simp add: ingest_stream.simps [of L calls st])
  with foreign_line show ?case by simp
next
  case (record_line w0 st line st' w0' r rs)
  obtain m1 h1 w1 where adm: "admit_record L calls (m, h, w) r = (True, m1, h1, w1)" "ample w1"
    "\<not> sh_allocation_failed h1" "admissible_stream L calls rid m1 rs"
    using admissible_step [OF record_line(5,6,7)] by blast
  have "ingest_stream L calls st (m, h, w) = ingest_stream L calls st' (m1, h1, w1)"
    using read_line_world [OF record_line(1), of w] record_line(2) adm(1)
    by (simp add: ingest_stream.simps [of L calls st])
  with record_line.IH [OF adm(4,2,3)] show ?case by simp
qed

lemma ingest_path_ample:
  assumes "delivers L (of_stream f) rs" and "of_close f = None"
    and "admissible_stream L calls rid m rs" and "ample w"
  shows "\<exists>m' h' w'. ingest_path L calls (Inr f) (m, empty_health, w) = Some (True, m', h', w') \<and>
    ample w' \<and> \<not> sh_allocation_failed h' \<and> admissible_stream L calls rid m' [] \<and>
    tm_nodes m' = tm_nodes m @ map copy_record (filter (belongs calls) rs) \<and> health_inv L rs h'"
proof -
  have "\<not> sh_allocation_failed empty_health" by (simp add: empty_health_def)
  then obtain m' h' w' where run:
    "ingest_stream L calls (of_stream f) (m, empty_health, w) = Some (True, m', h', w')" "ample w'"
    "\<not> sh_allocation_failed h'" "admissible_stream L calls rid m' []"
    using ingest_stream_ample [OF assms(1,3,4)] by blast
  have path: "ingest_path L calls (Inr f) (m, empty_health, w) = Some (True, m', h', w')"
    using run(1) assms(2) by (simp add: ingest_path_def)
  have "path_post L calls (Inr f) m empty_health True m' h'"
    using ingest_path_total [of L calls "Inr f" m empty_health w] path by auto
  moreover have "model_ok m" using assms(3) by (simp add: admissible_stream_def)
  ultimately obtain rs' where del: "delivers L (of_stream f) rs'" and "gained calls m m' rs'"
    and inv: "\<And>rs0. health_inv L rs0 empty_health \<Longrightarrow> health_inv L (rs0 @ rs') h'"
    by (auto simp: path_post_def)
  moreover have "health_inv L rs' h'" using inv [OF health_inv_empty] by simp
  moreover have "rs' = rs" using delivers_unique [OF del assms(1)] .
  ultimately show ?thesis using path run by (simp add: gained_def)
qed


text \<open>
  The records a successful construction needs: both streams accepted, of one run, in the log's
  version, and few enough to fit.
\<close>

definition admissible_pair ::
  "record_lib \<Rightarrow> event_record list \<Rightarrow> event_record list \<Rightarrow> bool" where
  "admissible_pair L rs cs \<longleftrightarrow>
     stream_accepted L rs rs \<and> stream_accepted L rs cs \<and> ev_run_id (hd rs) = ev_run_id (hd cs) \<and>
     (\<forall>r \<in> set rs \<union> set cs. ev_version r = log_version L) \<and>
     length (filter (belongs False) rs) + length (filter (belongs True) cs) \<le> MODEL_LIMIT"

lemma pair_streams:
  assumes "admissible_pair L rs cs"
  obtains rid where "admissible_stream L False rid empty_model rs"
    and "\<And>m. admissible_stream L False rid m [] \<Longrightarrow>
      tm_nodes m = map copy_record (filter (belongs False) rs) \<Longrightarrow> admissible_stream L True rid m cs"
proof -
  from assms have acc: "stream_accepted L rs rs" "stream_accepted L rs cs"
    and heads: "ev_run_id (hd cs) = ev_run_id (hd rs)"
    and version: "\<forall>r \<in> set rs \<union> set cs. ev_version r = log_version L"
    by (simp_all add: admissible_pair_def)
  have one: "rs \<noteq> []" "cs \<noteq> []" "\<forall>r \<in> set rs \<union> set cs. ev_run_id r = ev_run_id (hd rs)"
    "\<forall>r \<in> set rs \<union> set cs. run_id_ok L r \<and> ev_version r = log_version L"
    using acc version unfolding stream_accepted_def heads by blast+
  from one(4) have adm: "\<forall>r \<in> set rs \<union> set cs. record_admissible L r"
    by (simp add: admissible_iff)
  from one(1,4) obtain rid where rid: "ev_run_id (hd rs) = Some rid"
    by (cases rs) (auto simp: run_id_ok_def)
  note same = one(3) [unfolded rid]
  show thesis
  proof (rule that [of rid])
    show "admissible_stream L False rid empty_model rs"
      using adm same assms
      by (auto simp: admissible_stream_def admissible_pair_def model_ok_def empty_model_def)
    show "admissible_stream L True rid m cs"
      if "admissible_stream L False rid m []"
        and "tm_nodes m = map copy_record (filter (belongs False) rs)" for m
      using adm same assms that
      by (auto simp: admissible_stream_def admissible_pair_def)
  qed
qed

lemma pair_ingested:
  assumes "delivers L (of_stream f) rs" and "delivers L (of_stream g) cs"
    and "of_close f = None" and "of_close g = None" and "admissible_pair L rs cs" and "ample w"
  obtains m1 h1 w1 m2 h2 w2 where
    "ingest_path L False (Inr f) (empty_model, empty_health, w) = Some (True, m1, h1, w1)"
    and "ingest_path L True (Inr g) (m1, empty_health, w1) = Some (True, m2, h2, w2)"
    and "streams_complete h1 h2" and "model_ok m2 \<and> \<not> tm_finished m2"
    and "tm_nodes m2 = map copy_record (filter (belongs False) rs @ filter (belongs True) cs)"
proof -
  obtain rid where s1: "admissible_stream L False rid empty_model rs"
    and s2: "\<And>m. admissible_stream L False rid m [] \<Longrightarrow>
      tm_nodes m = map copy_record (filter (belongs False) rs) \<Longrightarrow> admissible_stream L True rid m cs"
    using pair_streams [OF assms(5)] by blast
  obtain m1 h1 w1 where
    p1: "ingest_path L False (Inr f) (empty_model, empty_health, w) = Some (True, m1, h1, w1)"
    and a1: "ample w1" "\<not> sh_allocation_failed h1" "admissible_stream L False rid m1 []"
    and n1: "tm_nodes m1 = map copy_record (filter (belongs False) rs)" and i1: "health_inv L rs h1"
    using ingest_path_ample [OF assms(1,3) s1 assms(6)] by (auto simp: empty_model_def)
  obtain m2 h2 w2 where
    p2: "ingest_path L True (Inr g) (m1, empty_health, w1) = Some (True, m2, h2, w2)"
    and a2: "\<not> sh_allocation_failed h2" "admissible_stream L True rid m2 []"
    and n2: "tm_nodes m2 = tm_nodes m1 @ map copy_record (filter (belongs True) cs)"
    and i2: "health_inv L cs h2"
    using ingest_path_ample [OF assms(2,4) s2 [OF a1(3) n1] a1(1)] by blast
  have "streams_complete h1 h2"
    using streams_complete_exact [OF i1 i2] a1(2) a2(1) assms(5) by (simp add: admissible_pair_def)
  with that [OF p1 p2] a2(2) n1 n2 show thesis by (simp add: admissible_stream_def)
qed

subsection \<open>Written files\<close>

text \<open>
  The file a producer writes: one line per event. A line is a C string, so it holds no NUL, and
  it fits the reader's buffer.
\<close>

type_synonym written = "header \<times> payload"

definition file_of ::
  "(string \<Rightarrow> string) \<Rightarrow> (nat \<Rightarrow> string) \<Rightarrow> written list \<Rightarrow> byte_stream" where
  "file_of esc sz es = \<lparr>st_bytes = concat (map (\<lambda>(h, p). line_of esc sz h p @ [NL]) es), st_end = At_EOF\<rparr>"

definition writable ::
  "record_lib \<Rightarrow> (string \<Rightarrow> string) \<Rightarrow> (nat \<Rightarrow> string) \<Rightarrow> written \<Rightarrow> bool" where
  "writable L esc sz e \<longleftrightarrow> header_ok L esc (fst e) \<and> payload_ok esc (snd e) \<and>
     NUL \<notin> set (line_of esc sz (fst e) (snd e)) \<and>
     length (line_of esc sz (fst e) (snd e)) + 1 < line_max L"

lemma read_file_end: "0 < n \<Longrightarrow> read_line w (Some (file_of esc sz [])) n = (LINE_EOF, [], Some (file_of esc sz []), w)"
  by (simp add: read_line_def file_of_def)

context record_library
begin

lemma line_without_newline: "NL \<notin> set (line_of esc size_text h p)"
  using join_tabs_no_line_end [of "header_fields esc size_text h @ payload_fields esc size_text p"]
    header_fields_text payload_fields_text magic_no_line_end(1)
  by (auto simp: line_of_def header_fields_def)

lemma read_file_line:
  assumes "writable L esc size_text e"
  shows "read_line w (Some (file_of esc size_text (e # es))) (line_max L) =
    (LINE_OK, line_of esc size_text (fst e) (snd e) @ [NL], Some (file_of esc size_text es), w)"
  using assms line_without_newline
    read_line_newline [of "line_of esc size_text (fst e) (snd e)" "line_max L"
      "file_of esc size_text (e # es)" "st_bytes (file_of esc size_text es)" w]
  by (auto simp: file_of_def writable_def case_prod_beta)

lemma parse_written:
  "writable L esc size_text e \<Longrightarrow>
     parse_line L (Some (line_of esc size_text (fst e) (snd e) @ [NL])) = Inr (record_of (fst e) (snd e))"
  by (rule parse_line_event) (simp_all add: writable_def)

lemma delivers_written:
  assumes "\<forall>e \<in> set es. writable L esc size_text e" and "0 < line_max L"
  shows "delivers L (file_of esc size_text es) (map (\<lambda>(h, p). record_of h p) es)"
  using assms(1)
proof (induction es)
  case Nil
  show ?case using end_of_stream [OF read_file_end [OF assms(2)]] by simp
next
  case (Cons e es)
  then have "writable L esc size_text e" by simp
  from record_line [OF read_file_line [OF this] parse_written [OF this] Cons.IH] Cons.prems
  show ?case by (simp add: case_prod_beta)
qed

text \<open>Reading a written file is admitting its records.\<close>

lemma ingest_written:
  "0 < line_max L \<Longrightarrow> ingest_stream L calls (file_of esc size_text []) s = Some (True, s)"
  "writable L esc size_text e \<Longrightarrow> ingest_stream L calls (file_of esc size_text (e # es)) s =
     (case admit_record L calls s (record_of (fst e) (snd e)) of
        (b, s1) \<Rightarrow> if b then ingest_stream L calls (file_of esc size_text es) s1 else Some (False, s1))"
  using parse_written [of e]
  by (simp_all add: ingest_stream.simps [of L calls "file_of esc size_text []"]
      ingest_stream.simps [of L calls "file_of esc size_text (e # es)"] read_file_end read_file_line
      split: prod.split)

end

subsection \<open>A pair of files\<close>

definition sample_events :: "written list" where
  "sample_events =
     [(sample_header\<lparr>hd_sequence := 1\<rparr>, Fd_Event FD_OPEN 3 10 ''main'' ''a.c''),
      (sample_header\<lparr>hd_sequence := 2\<rparr>, Fd_Event FD_CLOSE 3 11 ''main'' ''a.c''),
      (sample_header\<lparr>hd_sequence := 3\<rparr>, Complete_Event 2 0)]"

definition sample_call_events :: "written list" where
  "sample_call_events = [(sample_header\<lparr>hd_sequence := 1\<rparr>, Complete_Event 0 0)]"

abbreviation sample_file :: "written list \<Rightarrow> errno + opened_file" where
  "sample_file es \<equiv> Inr \<lparr>of_stream = file_of doc_escape decimal es, of_close = None\<rparr>"

lemma sample_decimals:
  "decimal 0 = ''0''" "decimal (Suc 0) = ''1''" "decimal 2 = ''2''" "decimal 3 = ''3''"
  "signed_decimal 0 = ''0''" "signed_decimal 3 = ''3''" "signed_decimal 10 = ''10''"
  "signed_decimal 11 = ''11''" "signed_decimal 42 = ''42''" "decimal 100 = ''100''"
  by (simp_all add: signed_decimal_def decimal.simps digit_char_def)

lemma sample_writable:
  "list_all (writable doc_lib doc_escape decimal) sample_events"
  "list_all (writable doc_lib doc_escape decimal) sample_call_events"
  by (simp_all add: sample_events_def sample_call_events_def writable_def sample_header_def header_ok_def
      line_of_def header_fields_def sample_decimals opt_size_def opt_bounded_def doc_lib_def
      LONG_MAX_def SIZE_MAX_def EVENT_FD_MAX_def line_number_ok_def INT_MAX_def)

definition sample_event_record :: "nat \<Rightarrow> event_record" where
  "sample_event_record i = (case sample_events ! i of (h, p) \<Rightarrow> record_of h p)"

definition sample_input :: tool_model where
  "sample_input = empty_model\<lparr>tm_run_id := Some ''run-1'', tm_node_capacity := 32,
     tm_nodes := map copy_record [sample_event_record 0, sample_event_record 1]\<rparr>"

lemmas sample_record_defs = sample_event_record_def sample_events_def sample_header_def
  header_record_def blank_record_def zero_record_def

lemma observe_record_calm:
  assumes "run_id_ok L r"
  shows "\<exists>h'. observe_record L calm_world h r = (None, h', calm_world)"
  using assms
  by (auto simp: observe_record_cases find_or_add_producer_cases heap_request_def calm_world_def
      split: option.split)

lemma admit_record_calm:
  assumes "run_id_ok L r"
    and "belongs calls r \<Longrightarrow> model_ingest L (Some m, calm_world) (Some r) = (True, Some m', calm_world)"
    and "\<not> belongs calls r \<Longrightarrow> m' = m"
  shows "\<exists>h'. admit_record L calls (m, h, calm_world) r = (True, m', h', calm_world)"
  using observe_record_calm [OF assms(1), of h] assms(2,3) by (auto simp: admit_record_def)

lemma sample_ingest:
  "model_ingest doc_lib (Some empty_model, calm_world) (Some (sample_event_record 0)) =
     (True, Some (sample_input\<lparr>tm_nodes := [copy_record (sample_event_record 0)]\<rparr>), calm_world)"
  "model_ingest doc_lib
     (Some (sample_input\<lparr>tm_nodes := [copy_record (sample_event_record 0)]\<rparr>), calm_world)
     (Some (sample_event_record 1)) = (True, Some sample_input, calm_world)"
  by (simp_all add: sample_input_def sample_record_defs model_ingest_def empty_model_def
      calm_world_def record_admissible_def doc_lib_def admit_run_id_def copy_text_def
      heap_request_def add_node_def reserve_nodes_def model_reserve_def next_capacity_def
      MODEL_INITIAL_CAPACITY_def MODEL_LIMIT_def record_texts_def)

lemma sample_input_edges:
  "build_call_edges [None, None] (sample_input, calm_world) = (True, [None, None], sample_input, calm_world)"
  "build_resource_edges doc_lib [None, None] (sample_input, calm_world) =
     (True, sample_input\<lparr>tm_edge_capacity := 32, tm_edges := [edge EDGE_RESOURCE_LIFETIME 0 1]\<rparr>, calm_world)"
  by (simp_all add: sample_input_def sample_record_defs build_call_edges_def call_step_def
      build_resource_edges_def resource_step_def copy_record_def empty_model_def calm_world_def
      find_enclosing_call_def find_lifetime_end_def is_lifetime_birth_def encloses_def is_enter_def
      same_context_def ends_lifetime_def lifetime_matches_def add_optional_edge_def add_edge_def
      reserve_edges_def model_reserve_def edge_def heap_request_def next_capacity_def
      MODEL_INITIAL_CAPACITY_def MODEL_LIMIT_def numeral_2_eq_2)

lemma sample_input_lifecycle:
  "\<exists>l. build_lifecycle doc_lib (sample_input\<lparr>tm_edge_capacity := c, tm_edges := es\<rparr>, calm_world) =
     Some (True, sample_input\<lparr>tm_edge_capacity := c, tm_edges := es, tm_lifecycle := Some l\<rparr>, calm_world)"
  by (simp add: build_lifecycle_def lifecycle_create_def lifecycle_node_def sample_input_def
      sample_record_defs copy_record_def empty_model_def calm_world_def node_resource_class_def
      record_from_node_def lifecycle_eval ingest_fd_def format_fd_identifier_def
      fd_resource_class_def empty_lifecycle_def doc_lib_def lifecycle_finish_def)

lemma sample_input_finish:
  "\<exists>m'. model_finish doc_lib (Some sample_input, calm_world) = Some (True, Some m', calm_world)"
proof -
  let ?es = "[edge EDGE_RESOURCE_LIFETIME 0 1]"
  obtain l where "build_lifecycle doc_lib
      (sample_input\<lparr>tm_edge_capacity := 32, tm_edges := ?es\<rparr>, calm_world) =
      Some (True, sample_input\<lparr>tm_edge_capacity := 32, tm_edges := ?es, tm_lifecycle := Some l\<rparr>, calm_world)"
    using sample_input_lifecycle by blast
  moreover have "length (tm_nodes sample_input) = 2" "\<not> tm_finished sample_input"
    "sample_input\<lparr>tm_edges := [], tm_lifecycle := None\<rparr> = sample_input"
    by (simp_all add: sample_input_def empty_model_def)
  moreover have "replicate 2 (None :: nat option) = [None, None]" by (simp add: numeral_2_eq_2)
  moreover have "allocate_exits 2 calm_world = (True, calm_world)"
    by (simp add: allocate_exits_def heap_request_def calm_world_def)
  ultimately show ?thesis using sample_input_edges by (simp add: model_finish_def build_model_def)
qed

lemma sample_paths:
  "\<exists>h1 h2. ingest_path doc_lib False (sample_file sample_events) (empty_model, empty_health, calm_world) =
       Some (True, sample_input, h1, calm_world) \<and>
     ingest_path doc_lib True (sample_file sample_call_events) (sample_input, empty_health, calm_world) =
       Some (True, sample_input, h2, calm_world)"
proof -
  let ?m = "sample_input\<lparr>tm_nodes := [copy_record (sample_event_record 0)]\<rparr>"
  let ?r = sample_event_record and ?c = "case sample_call_events ! 0 of (h, p) \<Rightarrow> record_of h p"
  have valid: "run_id_ok doc_lib (?r 0)" "run_id_ok doc_lib (?r 1)" "run_id_ok doc_lib (?r 2)"
    "run_id_ok doc_lib ?c"
    by (simp_all add: sample_record_defs sample_call_events_def run_id_ok_def doc_lib_def)
  have kinds: "belongs False (sample_event_record 0)" "belongs False (sample_event_record 1)"
    "\<not> belongs False (sample_event_record 2)"
    "\<not> belongs True ?c"
    by (simp_all add: belongs_def sample_event_record_def sample_events_def sample_call_events_def)
  obtain h1 where a1: "admit_record doc_lib False (empty_model, empty_health, calm_world)
      (sample_event_record 0) = (True, ?m, h1, calm_world)"
    using admit_record_calm [OF valid(1), of False empty_model ?m empty_health] kinds sample_ingest
    by auto
  obtain h2 where a2: "admit_record doc_lib False (?m, h1, calm_world)
      (sample_event_record 1) = (True, sample_input, h2, calm_world)"
    using admit_record_calm [OF valid(2), of False ?m sample_input h1] kinds sample_ingest
    by auto
  obtain h3 where a3: "admit_record doc_lib False (sample_input, h2, calm_world)
      (sample_event_record 2) = (True, sample_input, h3, calm_world)"
    using admit_record_calm [OF valid(3), of False sample_input sample_input h2] kinds by auto
  obtain h4 where a4: "admit_record doc_lib True (sample_input, empty_health, calm_world) ?c =
      (True, sample_input, h4, calm_world)"
    using admit_record_calm [OF valid(4), of True sample_input sample_input empty_health] kinds by auto
  have lm: "0 < line_max doc_lib" by (simp add: doc_lib_def)
  have lists: "sample_events = [sample_events ! 0, sample_events ! 1, sample_events ! 2]"
    "sample_call_events = [sample_call_events ! 0]"
    by (simp_all add: sample_events_def sample_call_events_def)
  have written: "writable doc_lib doc_escape decimal (sample_events ! 0)"
    "writable doc_lib doc_escape decimal (sample_events ! 1)"
    "writable doc_lib doc_escape decimal (sample_events ! 2)"
    "writable doc_lib doc_escape decimal (sample_call_events ! 0)"
    using sample_writable by (simp_all add: sample_events_def sample_call_events_def)
  have "ingest_stream doc_lib False (file_of doc_escape decimal sample_events)
      (empty_model, empty_health, calm_world) = Some (True, sample_input, h3, calm_world)"
    using a1 a2 a3
    by (subst lists) (simp add: doc.ingest_written(1) [OF lm] doc.ingest_written(2) [OF written(1)]
      doc.ingest_written(2) [OF written(2) [unfolded One_nat_def]] doc.ingest_written(2) [OF written(3)]
      sample_event_record_def case_prod_beta)
  moreover have "ingest_stream doc_lib True (file_of doc_escape decimal sample_call_events)
      (sample_input, empty_health, calm_world) = Some (True, sample_input, h4, calm_world)"
    using a4
    by (subst lists) (simp add: doc.ingest_written(1) [OF lm] doc.ingest_written(2) [OF written(4)]
      case_prod_beta)
  ultimately show ?thesis by (simp add: ingest_path_def)
qed

lemma sample_admissible:
  "admissible_pair doc_lib (map (\<lambda>(h, p). record_of h p) sample_events)
     (map (\<lambda>(h, p). record_of h p) sample_call_events)"
  by (simp add: admissible_pair_def stream_accepted_def context_accepted_def context_complete_def
      records_of_def context_of_def sequences_def belongs_def run_id_ok_def doc_lib_def
      sample_events_def sample_call_events_def sample_header_def header_record_def blank_record_def
      zero_record_def MODEL_LIMIT_def)

lemma sample_delivers:
  "list_all (writable doc_lib doc_escape decimal) es \<Longrightarrow>
     delivers doc_lib (of_stream \<lparr>of_stream = file_of doc_escape decimal es, of_close = c\<rparr>)
       (map (\<lambda>(h, p). record_of h p) es)"
  using doc.delivers_written [of es] by (simp add: list_all_iff doc_lib_def)

lemmas sample_pair = sample_delivers [OF sample_writable(1)] sample_delivers [OF sample_writable(2)]

lemma sample_run:
  "\<exists>m'. model_ingest_paths doc_lib (Some empty_model) (Some (sample_file sample_events))
     (Some (sample_file sample_call_events)) calm_world = Some (True, Some m', calm_world)"
proof -
  obtain h1 h2 where runs:
    "ingest_path doc_lib False (sample_file sample_events) (empty_model, empty_health, calm_world) =
       Some (True, sample_input, h1, calm_world)"
    "ingest_path doc_lib True (sample_file sample_call_events) (sample_input, empty_health, calm_world) =
       Some (True, sample_input, h2, calm_world)"
    using sample_paths by blast
  moreover have "streams_complete h1 h2"
    by (rule pair_ingested [OF sample_pair _ _ sample_admissible ample_calm]) (use runs in auto)
  ultimately show ?thesis using sample_input_finish by (simp add: model_ingest_paths_def)
qed

subsection \<open>Properties\<close>

text \<open>Claim C14. The admission test is exact: with the two streams observed from empty healths, they
  are admitted together exactly when both are nonempty and each of one valid run, every
  producer context of either is complete or ends without a COMPLETE record while the resource
  stream shows its pending exec, and no allocation failed.\<close>

theorem admission_exact:
  "streams_complete (fst (observe_all L (empty_health, v) rs)) (fst (observe_all L (empty_health, w) cs)) \<longleftrightarrow>
     stream_accepted L rs rs \<and> stream_accepted L rs cs \<and>
     \<not> sh_allocation_failed (fst (observe_all L (empty_health, v) rs)) \<and>
     \<not> sh_allocation_failed (fst (observe_all L (empty_health, w) cs))"
  by (rule streams_complete_exact [OF health_inv_all health_inv_all])

text \<open>The two implementations of the admission test agree: the one of the library
  (model\_input.c) and the one of the command line tool (model\_cli.c) accept the same healths.\<close>

theorem admission_copies_agree:
  "streams_complete resource call = admitted_streams_are_complete resource call"
proof -
  have "execed_from cs p \<longleftrightarrow> list_ex (\<lambda>c. pr_pid c = pr_pid p \<and> pr_context_id c = pr_context_id p \<and>
      pr_run_id c = pr_run_id p \<and> pr_pending_exec c) cs" for cs p
    by (induction cs) auto
  then have "producer_completed_or_execed p (Some h) = producer_complete p h" for p h
    by (auto simp: producer_completed_or_execed_def producer_complete_def pending_in_def Let_def)
  moreover have "stream_integrity_is_valid (Some h) = stream_valid h" for h
    by (auto simp: stream_integrity_is_valid_def stream_valid_def)
  ultimately show ?thesis
    by (auto simp: streams_complete_unfold admitted_streams_are_complete_def list_all_iff)
qed


text \<open>Claim C20. A written file is read back: for any implementation of the documented field
  primitives, the reader and the parser deliver from the file of a list of well-formed events,
  line by line, exactly the records those events stand for, in order, as long as every line fits
  the reader's bounded buffer.\<close>

theorem written_file_delivered:
  assumes "record_library L esc sz" and "\<forall>e \<in> set es. writable L esc sz e" and "0 < line_max L"
  shows "delivers L (file_of esc sz es) (map (\<lambda>(h, p). record_of h p) es)"
  by (rule record_library.delivers_written [OF assms])

theorem written_file_delivered_witness:
  "delivers doc_lib (file_of doc_escape decimal sample_events)
     (map (\<lambda>(h, p). record_of h p) sample_events)"
  by (rule written_file_delivered [OF doc.record_library_axioms])
     (use sample_writable in \<open>simp_all add: list_all_iff doc_lib_def\<close>)

text \<open>Claim C5. Building a model from two files always returns, keeps the model consistent, and
  succeeds only on files it may accept: both were opened, read to the end and closed without
  error, their records form an accepted pair of streams, the nodes of the model are exactly
  the copies of the resource stream's non-call records followed by those of the call stream's
  call records, and its edges are the ones built from these nodes.\<close>

theorem model_ingest_paths_sound:
  assumes "model_ok m"
  shows "\<exists>ok m' w'. model_ingest_paths L (Some m) (Some rf) (Some cf) w = Some (ok, Some m', w') \<and>
    model_ok m' \<and> (ok \<longrightarrow> paths_accepted L m rf cf m')"
  using model_ingest_paths_total [of L m rf cf w] assms by blast

theorem model_ingest_paths_sound_witness:
  "\<exists>m' w'. model_ingest_paths doc_lib (Some empty_model) (Some (sample_file sample_events))
     (Some (sample_file sample_call_events)) calm_world = Some (True, Some m', w') \<and>
     paths_accepted doc_lib empty_model (sample_file sample_events) (sample_file sample_call_events) m'"
proof -
  have "model_ok empty_model" by (simp add: model_ok_def empty_model_def)
  from model_ingest_paths_sound [OF this, of doc_lib "sample_file sample_events"
      "sample_file sample_call_events" calm_world] sample_run
  show ?thesis by auto
qed

text \<open>Claim C19. An acceptable pair of files is admitted: if the two files deliver records that form
  an accepted pair of one run in the log's version and fit the model, then, with memory
  available, building a model from them is finishing the model that holds exactly those
  records' nodes.\<close>

theorem model_ingest_paths_admits:
  assumes "delivers L (of_stream f) rs" and "delivers L (of_stream g) cs"
    and "of_close f = None" and "of_close g = None" and "admissible_pair L rs cs" and "ample w"
  shows "\<exists>m w'. model_ingest_paths L (Some empty_model) (Some (Inr f)) (Some (Inr g)) w =
      model_finish L (Some m, w') \<and> \<not> tm_finished m \<and> model_ok m \<and>
      tm_nodes m = map copy_record (filter (belongs False) rs @ filter (belongs True) cs)"
  by (rule pair_ingested [OF assms]) (auto simp: model_ingest_paths_def)

theorem model_ingest_paths_admits_witness:
  "\<exists>m w'. model_ingest_paths doc_lib (Some empty_model) (Some (sample_file sample_events))
       (Some (sample_file sample_call_events)) calm_world = model_finish doc_lib (Some m, w') \<and>
     length (tm_nodes m) = 2"
  using model_ingest_paths_admits [OF sample_pair [where c = None] _ _ sample_admissible ample_calm]
  by (auto simp: belongs_def sample_events_def sample_call_events_def)

end
