(* ===== verification/Summary.thy ===== *)
theory Summary
  imports Record_Lib
begin

section \<open>The summary reader (src/summary.c)\<close>

text \<open>
  A cursor over a C string: the part of the text that is left, without the final NUL; at its
  end \<open>*cursor->current\<close> is NUL, which no test of the code accepts. A function that returns
  \<open>false\<close> gives \<open>None\<close>, or \<open>False\<close> with what it has stored so far. Reading a JSON string is
  \<open>p101_json_read_string\<close> of another package and a parameter.
\<close>

record json_lib =
  read_string :: "nat option \<Rightarrow> string \<Rightarrow> (string \<times> string) option"
    \<comment> \<open>capacity of the output (\<open>None\<close>: none is wanted), the cursor; the text and the cursor after it\<close>

definition JSON_MAX_DEPTH :: nat where "JSON_MAX_DEPTH = 64"
definition JSON_KEY_CAPACITY :: nat where "JSON_KEY_CAPACITY = 96"

subsection \<open>The scanner\<close>

definition is_json_space :: "char \<Rightarrow> bool" where
  "is_json_space c \<longleftrightarrow> c = CHR '' '' \<or> c = TAB \<or> c = NL \<or> c = CR"

definition skip_space :: "string \<Rightarrow> string" where
  "skip_space = dropWhile is_json_space"

text \<open>\<open>*cursor->current++ == c\<close>: the cursor behind \<open>c\<close>.\<close>

fun expect :: "char \<Rightarrow> string \<Rightarrow> string option" where
  "expect c [] = None"
| "expect c (d # s) = (if d = c then Some s else None)"

fun at_char :: "(char \<Rightarrow> bool) \<Rightarrow> string \<Rightarrow> bool" where
  "at_char P [] = False"
| "at_char P (c # s) = P c"

fun size_loop :: "nat \<Rightarrow> string \<Rightarrow> (nat \<times> string) option" where
  "size_loop parsed [] = Some (parsed, [])"
| "size_loop parsed (c # s) =
     (if is_digit c then
        if (SIZE_MAX - digit_value c) div 10 < parsed then None
        else size_loop (parsed * 10 + digit_value c) s
      else Some (parsed, c # s))"

definition parse_size :: "string \<Rightarrow> (nat \<times> string) option" where
  "parse_size s = (if at_char is_digit s then size_loop 0 s else None)"

text \<open>\<open>strncmp(cursor->current, word, strlen(word)) == 0\<close>\<close>

definition at_word :: "string \<Rightarrow> string \<Rightarrow> bool" where
  "at_word word s \<longleftrightarrow> take (length word) s = word"

definition parse_boolean :: "string \<Rightarrow> (bool \<times> string) option" where
  "parse_boolean s =
     (if at_word ''true'' s then Some (True, drop 4 s)
      else if at_word ''false'' s then Some (False, drop 5 s) else None)"

definition skip_digits :: "string \<Rightarrow> string" where
  "skip_digits = dropWhile is_digit"

text \<open>The three parts of a number: integer part, fraction, exponent.\<close>

definition number_integer :: "string \<Rightarrow> string option" where
  "number_integer s =
     (let s1 = (if at_char (\<lambda>c. c = CHR ''-'') s then tl s else s) in
      if at_char (\<lambda>c. c = CHR ''0'') s1 then
        (if at_char is_digit (tl s1) then None else Some (tl s1))
      else if at_char is_digit s1 then Some (skip_digits s1) else None)"

definition number_fraction :: "string \<Rightarrow> string option" where
  "number_fraction s =
     (if at_char (\<lambda>c. c = CHR ''.'') s then
        (if at_char is_digit (tl s) then Some (skip_digits (tl s)) else None)
      else Some s)"

definition number_exponent :: "string \<Rightarrow> string option" where
  "number_exponent s =
     (if at_char (\<lambda>c. c = CHR ''e'' \<or> c = CHR ''E'') s then
        (let s1 = (if at_char (\<lambda>c. c = CHR ''+'' \<or> c = CHR ''-'') (tl s) then tl (tl s) else tl s) in
         if at_char is_digit s1 then Some (skip_digits s1) else None)
      else Some s)"

definition skip_number :: "string \<Rightarrow> string option" where
  "skip_number s =
     (case number_integer s of
        None \<Rightarrow> None
      | Some s1 \<Rightarrow> (case number_fraction s1 of None \<Rightarrow> None | Some s2 \<Rightarrow> number_exponent s2))"

subsection \<open>Skipping a value\<close>

text \<open>
  \<open>skip_value\<close>, \<open>skip_object\<close> and \<open>skip_array\<close> call each other and their loops end only
  because every step consumes text, which the string reader decides; so they are one partial
  function over the place in the code: the start of a value, or the head of the loop over
  members or elements with its flag \<open>first\<close>. \<open>None\<close> is not returning, \<open>Some None\<close> returning
  \<open>false\<close>.
\<close>

datatype skip_at = At_Value | At_Members bool | At_Elements bool

partial_function (option) skip ::
  "json_lib \<Rightarrow> skip_at \<Rightarrow> nat \<Rightarrow> string \<Rightarrow> string option option" where
  "skip J at depth s =
     (case at of
        At_Value \<Rightarrow>
          if JSON_MAX_DEPTH \<le> depth then Some None
          else
            (let s1 = skip_space s in
             if at_char (\<lambda>c. c = CHR 0x22) s1 then Some (map_option snd (read_string J None s1))
             else if at_char (\<lambda>c. c = CHR ''{'') s1
             then skip J (At_Members True) (depth + 1) (skip_space (tl s1))
             else if at_char (\<lambda>c. c = CHR ''['') s1
             then skip J (At_Elements True) (depth + 1) (skip_space (tl s1))
             else if at_char (\<lambda>c. is_digit c \<or> c = CHR ''-'') s1 then Some (skip_number s1)
             else if at_word ''true'' s1 \<or> at_word ''null'' s1 then Some (Some (drop 4 s1))
             else if at_word ''false'' s1 then Some (Some (drop 5 s1))
             else Some None)
      | At_Members first \<Rightarrow>
          if at_char (\<lambda>c. c = CHR ''}'') s then Some (Some (tl s))
          else
            (case (if first then Some s else expect (CHR '','') s) of
               None \<Rightarrow> Some None
             | Some s1 \<Rightarrow>
                 (case read_string J (Some JSON_KEY_CAPACITY) (skip_space s1) of
                    None \<Rightarrow> Some None
                  | Some (key, s2) \<Rightarrow>
                      (case expect (CHR '':'') (skip_space s2) of
                         None \<Rightarrow> Some None
                       | Some s3 \<Rightarrow>
                           Option.bind (skip J At_Value depth s3)
                             (\<lambda>r. case r of
                                None \<Rightarrow> Some None
                              | Some s4 \<Rightarrow> skip J (At_Members False) depth (skip_space s4)))))
      | At_Elements first \<Rightarrow>
          if at_char (\<lambda>c. c = CHR '']'') s then Some (Some (tl s))
          else
            (case (if first then Some s else expect (CHR '','') s) of
               None \<Rightarrow> Some None
             | Some s1 \<Rightarrow>
                 Option.bind (skip J At_Value depth s1)
                   (\<lambda>r. case r of
                      None \<Rightarrow> Some None
                    | Some s2 \<Rightarrow> skip J (At_Elements False) depth (skip_space s2))))"

definition skip_value :: "json_lib \<Rightarrow> nat \<Rightarrow> string \<Rightarrow> string option option" where
  "skip_value J depth s = skip J At_Value depth s"

definition skip_object :: "json_lib \<Rightarrow> nat \<Rightarrow> string \<Rightarrow> string option option" where
  "skip_object J depth s = skip J (At_Members True) depth (skip_space (tl s))"

definition skip_array :: "json_lib \<Rightarrow> nat \<Rightarrow> string \<Rightarrow> string option option" where
  "skip_array J depth s = skip J (At_Elements True) depth (skip_space (tl s))"

subsection \<open>The loop over the members of an object\<close>

text \<open>
  The five readers share the shape of their loop over \<open>"key" : value\<close>; what differs is what
  they do with a key, here the argument \<open>handle\<close>. It gets the key, what has been stored so
  far and the cursor at the value. The cursor at the start is behind the opening brace.
\<close>

partial_function (option) each_member ::
  "json_lib \<Rightarrow> (string \<Rightarrow> 'st \<Rightarrow> string \<Rightarrow> ('st \<times> string option) option) \<Rightarrow> bool \<Rightarrow> 'st \<Rightarrow>
   string \<Rightarrow> ('st \<times> string option) option" where
  "each_member J handle first st s =
     (let s1 = skip_space s in
      if at_char (\<lambda>c. c = CHR ''}'') s1 then Some (st, Some (tl s1))
      else
        (case (if first then Some s1 else expect (CHR '','') s1) of
           None \<Rightarrow> Some (st, None)
         | Some s2 \<Rightarrow>
             (case read_string J (Some JSON_KEY_CAPACITY) (skip_space s2) of
                None \<Rightarrow> Some (st, None)
              | Some (key, s3) \<Rightarrow>
                  (case expect (CHR '':'') (skip_space s3) of
                     None \<Rightarrow> Some (st, None)
                   | Some s4 \<Rightarrow>
                       (case handle key st (skip_space s4) of
                          None \<Rightarrow> None
                        | Some (st1, None) \<Rightarrow> Some (st1, None)
                        | Some (st1, Some s5) \<Rightarrow> each_member J handle False st1 s5)))))"

text \<open>A member that is not asked for: its value is skipped.\<close>

definition skip_member :: "json_lib \<Rightarrow> nat \<Rightarrow> 'st \<Rightarrow> string \<Rightarrow> ('st \<times> string option) option" where
  "skip_member J depth st s = map_option (\<lambda>r. (st, r)) (skip_value J depth s)"

subsection \<open>Summaries\<close>

record resource_summary =
  rs_records :: nat
  rs_fd_leaks :: nat
  rs_allocation_leaks :: nat
  rs_bad_releases :: nat
  rs_exec_inheritances :: nat
  rs_generic_resource_leaks :: nat
  rs_generic_bad_releases :: nat
  rs_malformed :: nat
  rs_bad_version :: nat
  rs_refused :: nat
  rs_log_complete :: bool
  rs_parsed :: bool

record policy_summary =
  ps_records :: nat
  ps_findings :: nat
  ps_has_records :: bool
  ps_parsed :: bool

definition empty_resource_summary :: resource_summary where
  "empty_resource_summary = \<lparr>rs_records = 0, rs_fd_leaks = 0, rs_allocation_leaks = 0,
     rs_bad_releases = 0, rs_exec_inheritances = 0, rs_generic_resource_leaks = 0,
     rs_generic_bad_releases = 0, rs_malformed = 0, rs_bad_version = 0, rs_refused = 0,
     rs_log_complete = False, rs_parsed = False\<rparr>"

definition empty_policy_summary :: policy_summary where
  "empty_policy_summary =
     \<lparr>ps_records = 0, ps_findings = 0, ps_has_records = False, ps_parsed = False\<rparr>"

text \<open>The fields of the resource summary; \<open>seen\<close>, a bit set in the code, is a set of fields.\<close>

datatype size_field = FIELD_RECORDS | FIELD_FD_LEAKS | FIELD_ALLOCATION_LEAKS
  | FIELD_BAD_RELEASES | FIELD_EXEC_INHERITANCES | FIELD_GENERIC_RESOURCE_LEAKS
  | FIELD_GENERIC_BAD_RELEASES | FIELD_MALFORMED | FIELD_BAD_VERSION | FIELD_REFUSED

datatype resource_field = FIELD_SCHEMA | FIELD_SIZE size_field | FIELD_LOG_HEALTH

definition size_fields :: "size_field list" where
  "size_fields = [FIELD_RECORDS, FIELD_FD_LEAKS, FIELD_ALLOCATION_LEAKS, FIELD_BAD_RELEASES,
     FIELD_EXEC_INHERITANCES, FIELD_GENERIC_RESOURCE_LEAKS, FIELD_GENERIC_BAD_RELEASES,
     FIELD_MALFORMED, FIELD_BAD_VERSION, FIELD_REFUSED]"

fun size_field_name :: "size_field \<Rightarrow> string" where
  "size_field_name FIELD_RECORDS = ''records''"
| "size_field_name FIELD_FD_LEAKS = ''fd_leaks''"
| "size_field_name FIELD_ALLOCATION_LEAKS = ''allocation_leaks''"
| "size_field_name FIELD_BAD_RELEASES = ''bad_releases''"
| "size_field_name FIELD_EXEC_INHERITANCES = ''exec_inheritances''"
| "size_field_name FIELD_GENERIC_RESOURCE_LEAKS = ''generic_resource_leaks''"
| "size_field_name FIELD_GENERIC_BAD_RELEASES = ''generic_bad_releases''"
| "size_field_name FIELD_MALFORMED = ''malformed''"
| "size_field_name FIELD_BAD_VERSION = ''bad_version''"
| "size_field_name FIELD_REFUSED = ''refused''"

fun field_name :: "resource_field \<Rightarrow> string" where
  "field_name FIELD_SCHEMA = ''schema''"
| "field_name (FIELD_SIZE f) = size_field_name f"
| "field_name FIELD_LOG_HEALTH = ''log_health''"

definition resource_fields :: "resource_field list" where
  "resource_fields = FIELD_SCHEMA # map FIELD_SIZE size_fields @ [FIELD_LOG_HEALTH]"

text \<open>The chain of comparisons that sets \<open>field\<close>: every match overwrites, so the last one counts.\<close>

definition lookup_field :: "string \<Rightarrow> resource_field option" where
  "lookup_field key =
     fold (\<lambda>f found. if key = field_name f then Some f else found) resource_fields None"

fun put_size :: "size_field \<Rightarrow> nat \<Rightarrow> resource_summary \<Rightarrow> resource_summary" where
  "put_size FIELD_RECORDS n s = s\<lparr>rs_records := n\<rparr>"
| "put_size FIELD_FD_LEAKS n s = s\<lparr>rs_fd_leaks := n\<rparr>"
| "put_size FIELD_ALLOCATION_LEAKS n s = s\<lparr>rs_allocation_leaks := n\<rparr>"
| "put_size FIELD_BAD_RELEASES n s = s\<lparr>rs_bad_releases := n\<rparr>"
| "put_size FIELD_EXEC_INHERITANCES n s = s\<lparr>rs_exec_inheritances := n\<rparr>"
| "put_size FIELD_GENERIC_RESOURCE_LEAKS n s = s\<lparr>rs_generic_resource_leaks := n\<rparr>"
| "put_size FIELD_GENERIC_BAD_RELEASES n s = s\<lparr>rs_generic_bad_releases := n\<rparr>"
| "put_size FIELD_MALFORMED n s = s\<lparr>rs_malformed := n\<rparr>"
| "put_size FIELD_BAD_VERSION n s = s\<lparr>rs_bad_version := n\<rparr>"
| "put_size FIELD_REFUSED n s = s\<lparr>rs_refused := n\<rparr>"

subsection \<open>The health of the log\<close>

text \<open>State: \<open>found\<close> and \<open>*complete\<close>.\<close>

definition log_health_member ::
  "json_lib \<Rightarrow> string \<Rightarrow> bool \<times> bool \<Rightarrow> string \<Rightarrow> ((bool \<times> bool) \<times> string option) option" where
  "log_health_member J key st s =
     (if key = ''complete'' then
        (if fst st then Some (st, None)
         else (case parse_boolean s of
                 None \<Rightarrow> Some (st, None)
               | Some (b, s1) \<Rightarrow> Some ((True, b), Some s1)))
      else skip_member J 1 st s)"

definition parse_log_health ::
  "json_lib \<Rightarrow> bool \<Rightarrow> string \<Rightarrow> (bool \<times> string option) option" where
  "parse_log_health J complete s =
     (case expect (CHR ''{'') s of
        None \<Rightarrow> Some (complete, None)
      | Some s1 \<Rightarrow>
          (case each_member J (log_health_member J) True (False, complete) s1 of
             None \<Rightarrow> None
           | Some ((found, b), rest) \<Rightarrow> Some (b, if found then rest else None)))"

subsection \<open>The resource summary\<close>

record resource_state =
  rst_summary :: resource_summary
  rst_seen :: "resource_field set"
  rst_schema_ok :: bool

definition RESOURCE_SCHEMA :: string where
  "RESOURCE_SCHEMA = ''p101-resource-policy-findings-v1''"

definition resource_member ::
  "json_lib \<Rightarrow> string \<Rightarrow> resource_state \<Rightarrow> string \<Rightarrow> (resource_state \<times> string option) option" where
  "resource_member J key st s =
     (case lookup_field key of
        None \<Rightarrow> skip_member J 0 st s
      | Some f \<Rightarrow>
          if f \<in> rst_seen st then Some (st, None)
          else (case f of
            FIELD_SCHEMA \<Rightarrow>
              (case read_string J (Some JSON_KEY_CAPACITY) s of
                 None \<Rightarrow> Some (st, None)
               | Some (schema, s1) \<Rightarrow>
                   Some (st\<lparr>rst_seen := insert f (rst_seen st),
                            rst_schema_ok := (schema = RESOURCE_SCHEMA)\<rparr>, Some s1))
          | FIELD_SIZE g \<Rightarrow>
              (case parse_size s of
                 None \<Rightarrow> Some (st, None)
               | Some (n, s1) \<Rightarrow>
                   Some (st\<lparr>rst_summary := put_size g n (rst_summary st),
                            rst_seen := insert f (rst_seen st)\<rparr>, Some s1))
          | FIELD_LOG_HEALTH \<Rightarrow>
              (case parse_log_health J (rs_log_complete (rst_summary st)) s of
                 None \<Rightarrow> None
               | Some (b, None) \<Rightarrow>
                   Some (st\<lparr>rst_summary := (rst_summary st)\<lparr>rs_log_complete := b\<rparr>\<rparr>, None)
               | Some (b, Some s1) \<Rightarrow>
                   Some (st\<lparr>rst_summary := (rst_summary st)\<lparr>rs_log_complete := b\<rparr>,
                            rst_seen := insert f (rst_seen st)\<rparr>, Some s1))))"

definition start_resource :: resource_state where
  "start_resource =
     \<lparr>rst_summary = empty_resource_summary, rst_seen = {}, rst_schema_ok = False\<rparr>"

definition finish_resource :: "resource_state \<Rightarrow> string \<Rightarrow> bool \<times> resource_summary" where
  "finish_resource st s =
     (let ok = (skip_space s = [] \<and> (\<forall>f \<in> set resource_fields. f \<in> rst_seen st) \<and> rst_schema_ok st)
      in (ok, (rst_summary st)\<lparr>rs_parsed := ok\<rparr>))"

definition parse_resource_summary_json ::
  "json_lib \<Rightarrow> string option \<Rightarrow> resource_summary option \<Rightarrow> (bool \<times> resource_summary option) option" where
  "parse_resource_summary_json J text summary =
     (case (text, summary) of
        (Some t, Some _) \<Rightarrow>
          (case expect (CHR ''{'') (skip_space t) of
             None \<Rightarrow> Some (False, Some empty_resource_summary)
           | Some s \<Rightarrow>
               (case each_member J (resource_member J) True start_resource s of
                  None \<Rightarrow> None
                | Some (st, None) \<Rightarrow> Some (False, Some (rst_summary st))
                | Some (st, Some s1) \<Rightarrow>
                    (case finish_resource st s1 of (ok, sm) \<Rightarrow> Some (ok, Some sm))))
      | _ \<Rightarrow> Some (False, summary))"

text \<open>Sums in \<open>size_t\<close>, so modulo \<open>2 ^ 64\<close>.\<close>

definition resource_summary_finding_count :: "resource_summary option \<Rightarrow> 64 word" where
  "resource_summary_finding_count summary =
     (case summary of
        None \<Rightarrow> 0
      | Some s \<Rightarrow>
          if \<not> rs_parsed s then 0
          else (let count = of_nat (rs_fd_leaks s) + of_nat (rs_allocation_leaks s) +
                      of_nat (rs_bad_releases s) + of_nat (rs_exec_inheritances s) +
                      of_nat (rs_generic_resource_leaks s) + of_nat (rs_generic_bad_releases s) +
                      of_nat (rs_malformed s) + of_nat (rs_bad_version s) + of_nat (rs_refused s)
                in if rs_log_complete s then count else count + 1))"

subsection \<open>The policy summary\<close>

text \<open>State of the inner object: the summary, and which of \<open>records\<close> and \<open>findings\<close> were seen.\<close>

definition policy_member ::
  "json_lib \<Rightarrow> string \<Rightarrow> policy_summary \<times> bool \<times> bool \<Rightarrow> string \<Rightarrow>
   ((policy_summary \<times> bool \<times> bool) \<times> string option) option" where
  "policy_member J key st s =
     (case st of (sm, seen_records, seen_findings) \<Rightarrow>
        if key = ''records'' then
          (case (if seen_records then None else parse_size s) of
             None \<Rightarrow> Some (st, None)
           | Some (n, s1) \<Rightarrow>
               Some ((sm\<lparr>ps_records := n, ps_has_records := True\<rparr>, True, seen_findings), Some s1))
        else if key = ''findings'' then
          (case (if seen_findings then None else parse_size s) of
             None \<Rightarrow> Some (st, None)
           | Some (n, s1) \<Rightarrow> Some ((sm\<lparr>ps_findings := n\<rparr>, seen_records, True), Some s1))
        else skip_member J 0 st s)"

definition parse_policy_summary ::
  "json_lib \<Rightarrow> policy_summary \<Rightarrow> string \<Rightarrow> (policy_summary \<times> string option) option" where
  "parse_policy_summary J sm s =
     (case expect (CHR ''{'') s of
        None \<Rightarrow> Some (sm, None)
      | Some s1 \<Rightarrow>
          (case each_member J (policy_member J) True (sm, False, False) s1 of
             None \<Rightarrow> None
           | Some ((sm1, _, seen_findings), rest) \<Rightarrow>
               Some (sm1, if seen_findings then rest else None)))"

record policy_state =
  pst_summary :: policy_summary
  pst_seen_schema :: bool
  pst_seen_summary :: bool
  pst_schema_ok :: bool

definition policy_top_member ::
  "json_lib \<Rightarrow> string \<Rightarrow> string \<Rightarrow> policy_state \<Rightarrow> string \<Rightarrow>
   (policy_state \<times> string option) option" where
  "policy_top_member J schema key st s =
     (if key = ''schema'' then
        (case (if pst_seen_schema st then None else read_string J (Some JSON_KEY_CAPACITY) s) of
           None \<Rightarrow> Some (st, None)
         | Some (actual, s1) \<Rightarrow>
             Some (st\<lparr>pst_seen_schema := True, pst_schema_ok := (actual = schema)\<rparr>, Some s1))
      else if key = ''summary'' then
        (if pst_seen_summary st then Some (st, None)
         else (case parse_policy_summary J (pst_summary st) s of
                 None \<Rightarrow> None
               | Some (sm, None) \<Rightarrow> Some (st\<lparr>pst_summary := sm\<rparr>, None)
               | Some (sm, Some s1) \<Rightarrow>
                   Some (st\<lparr>pst_summary := sm, pst_seen_summary := True\<rparr>, Some s1)))
      else skip_member J 0 st s)"

definition start_policy :: policy_state where
  "start_policy = \<lparr>pst_summary = empty_policy_summary, pst_seen_schema = False,
     pst_seen_summary = False, pst_schema_ok = False\<rparr>"

definition parse_policy_summary_json ::
  "json_lib \<Rightarrow> string option \<Rightarrow> string option \<Rightarrow> policy_summary option \<Rightarrow>
   (bool \<times> policy_summary option) option" where
  "parse_policy_summary_json J text schema summary =
     (case (text, schema, summary) of
        (Some t, Some sc, Some _) \<Rightarrow>
          if sc = [] then Some (False, summary)
          else
            (case expect (CHR ''{'') (skip_space t) of
               None \<Rightarrow> Some (False, Some empty_policy_summary)
             | Some s \<Rightarrow>
                 (case each_member J (policy_top_member J sc) True start_policy s of
                    None \<Rightarrow> None
                  | Some (st, None) \<Rightarrow> Some (False, Some (pst_summary st))
                  | Some (st, Some s1) \<Rightarrow>
                      (let ok = (skip_space s1 = [] \<and> pst_seen_schema st \<and>
                                 pst_seen_summary st \<and> pst_schema_ok st)
                       in Some (ok, Some ((pst_summary st)\<lparr>ps_parsed := ok\<rparr>)))))
      | _ \<Rightarrow> Some (False, summary))"

subsection \<open>One number of the top level\<close>

text \<open>The key may be given with its quotes.\<close>

definition key_text :: "string \<Rightarrow> string option" where
  "key_text key =
     (let inner = (if 2 \<le> length key \<and> hd key = CHR 0x22 \<and> last key = CHR 0x22
                   then butlast (tl key) else key)
      in if inner = [] \<or> JSON_KEY_CAPACITY \<le> length inner then None else Some inner)"

text \<open>State: \<open>*value\<close>, \<open>None\<close> while \<open>found\<close> is false.\<close>

definition top_size_member ::
  "json_lib \<Rightarrow> string \<Rightarrow> string \<Rightarrow> nat option \<Rightarrow> string \<Rightarrow> (nat option \<times> string option) option" where
  "top_size_member J wanted key st s =
     (if key = wanted then
        (if st \<noteq> None then Some (st, None)
         else (case parse_size s of
                 None \<Rightarrow> Some (st, None) | Some (n, s1) \<Rightarrow> Some (Some n, Some s1)))
      else skip_member J 0 st s)"

definition find_top_level_size ::
  "json_lib \<Rightarrow> string \<Rightarrow> string \<Rightarrow> (bool \<times> nat option) option" where
  "find_top_level_size J text wanted =
     (case expect (CHR ''{'') (skip_space text) of
        None \<Rightarrow> Some (False, None)
      | Some s \<Rightarrow>
          (case each_member J (top_size_member J wanted) True None s of
             None \<Rightarrow> None
           | Some (st, None) \<Rightarrow> Some (False, st)
           | Some (st, Some s1) \<Rightarrow> Some (st \<noteq> None \<and> skip_space s1 = [], st)))"

text \<open>The result and what is written to \<open>*value\<close>, if anything.\<close>

definition parse_json_size ::
  "json_lib \<Rightarrow> string option \<Rightarrow> string option \<Rightarrow> (bool \<times> nat option) option" where
  "parse_json_size J text key =
     (case (text, key) of
        (Some t, Some k) \<Rightarrow>
          (case key_text k of None \<Rightarrow> Some (False, None) | Some wanted \<Rightarrow> find_top_level_size J t wanted)
      | _ \<Rightarrow> Some (False, None))"

subsection \<open>Texts with a length\<close>

text \<open>A text with a NUL inside is refused; otherwise it is copied with a NUL at its end.\<close>

definition copy_json_text :: "string option \<Rightarrow> world \<Rightarrow> string option \<times> world" where
  "copy_json_text text w =
     (case text of
        None \<Rightarrow> (None, w)
      | Some t \<Rightarrow>
          if length t = SIZE_MAX \<or> NUL \<in> set t then (None, w)
          else (case heap_request w of (True, w1) \<Rightarrow> (Some t, w1) | (False, w1) \<Rightarrow> (None, w1)))"

definition parse_json_size_n ::
  "json_lib \<Rightarrow> string option \<Rightarrow> string option \<Rightarrow> world \<Rightarrow> ((bool \<times> nat option) \<times> world) option" where
  "parse_json_size_n J text key w =
     (case copy_json_text text w of
        (None, w1) \<Rightarrow> Some ((False, None), w1)
      | (Some t, w1) \<Rightarrow> map_option (\<lambda>r. (r, w1)) (parse_json_size J (Some t) key))"

definition parse_resource_summary_json_n ::
  "json_lib \<Rightarrow> string option \<Rightarrow> resource_summary option \<Rightarrow> world \<Rightarrow>
   ((bool \<times> resource_summary option) \<times> world) option" where
  "parse_resource_summary_json_n J text summary w =
     (case copy_json_text text w of
        (None, w1) \<Rightarrow> Some ((False, summary), w1)
      | (Some t, w1) \<Rightarrow> map_option (\<lambda>r. (r, w1)) (parse_resource_summary_json J (Some t) summary))"

definition parse_policy_summary_json_n ::
  "json_lib \<Rightarrow> string option \<Rightarrow> string option \<Rightarrow> policy_summary option \<Rightarrow> world \<Rightarrow>
   ((bool \<times> policy_summary option) \<times> world) option" where
  "parse_policy_summary_json_n J text schema summary w =
     (case copy_json_text text w of
        (None, w1) \<Rightarrow> Some ((False, summary), w1)
      | (Some t, w1) \<Rightarrow>
          map_option (\<lambda>r. (r, w1)) (parse_policy_summary_json J (Some t) schema summary))"

end
