(* ===== verification/Summary_Facts.thy ===== *)
theory Summary_Facts
  imports Summary
begin

section \<open>Facts about the summary reader\<close>

text \<open>
  The contract of the string reader as a locale, with an instance that follows RFC 8259 for
  the escapes of one character; the scanner consumes text and always returns; \<open>skip_value\<close>
  accepts exactly the values of the JSON grammar nested less than 64 deep; the loop over
  members is a layout of the text and a fold of the handler.
\<close>

named_theorems scan_simps \<open>unfolding of the scanner\<close>

subsection \<open>The scanner\<close>

lemma skip_space_length: "length (skip_space s) \<le> length s"
  by (simp add: skip_space_def length_dropWhile_le)

lemma skip_space_idem [simp]: "skip_space (skip_space s) = skip_space s"
  unfolding skip_space_def by (rule dropWhile_idem)

lemma skip_space_nil [simp]: "skip_space [] = []"
  by (simp add: skip_space_def)

lemma skip_space_cons [simp]: "\<not> is_json_space c \<Longrightarrow> skip_space (c # s) = c # s"
  by (simp add: skip_space_def)

lemma skip_digits_length: "length (skip_digits s) \<le> length s"
  by (simp add: skip_digits_def length_dropWhile_le)

lemma expect_Some: "expect c s = Some r \<longleftrightarrow> s = c # r"
  by (cases s) auto

lemma at_char_cases:
  assumes "at_char P s"
  obtains c r where "s = c # r" "P c"
  using assms by (cases s) auto

lemma at_char_length: "at_char P s \<Longrightarrow> length (tl s) < length s"
  by (cases s) auto

lemma at_word_append: "at_word w s \<longleftrightarrow> (\<exists>r. s = w @ r)"
proof
  assume "at_word w s"
  then have "s = w @ drop (length w) s"
    unfolding at_word_def by (metis append_take_drop_id)
  then show "\<exists>r. s = w @ r" ..
qed (auto simp: at_word_def)

lemma size_loop_length: "size_loop n s = Some (m, r) \<Longrightarrow> length r \<le> length s"
  by (induction n s rule: size_loop.induct) (auto split: if_splits)

lemma parse_size_length: "parse_size s = Some (n, r) \<Longrightarrow> length r < length s"
  by (cases s) (auto simp: parse_size_def split: if_splits dest: size_loop_length)

lemma parse_boolean_length: "parse_boolean s = Some (b, r) \<Longrightarrow> length r < length s"
  by (auto simp: parse_boolean_def at_word_append split: if_splits)

lemma number_integer_length: "number_integer s = Some r \<Longrightarrow> length r < length s"
proof -
  assume h: "number_integer s = Some r"
  have s1: "length (if at_char (\<lambda>c. c = CHR ''-'') s then tl s else s) \<le> length s"
    by (cases s) auto
  have d: "length (skip_digits (c # t)) < length (c # t)" if "is_digit c" for c t
    using skip_digits_length [of t] that by (simp add: skip_digits_def)
  from h s1 show ?thesis
    by (auto simp: number_integer_def Let_def split: if_splits elim!: at_char_cases
        dest: d intro: le_less_trans skip_digits_length)
qed

lemma number_fraction_length: "number_fraction s = Some r \<Longrightarrow> length r \<le> length s"
  using skip_digits_length [of "tl s"] by (cases s) (auto simp: number_fraction_def split: if_splits)

lemma number_exponent_length: "number_exponent s = Some r \<Longrightarrow> length r \<le> length s"
  using skip_digits_length [of "tl s"] skip_digits_length [of "tl (tl s)"]
  by (cases s) (auto simp: number_exponent_def Let_def split: if_splits)

lemma skip_number_length: "skip_number s = Some r \<Longrightarrow> length r < length s"
  by (auto simp: skip_number_def split: option.splits
      dest!: number_integer_length number_fraction_length number_exponent_length)

subsection \<open>The contract of the string reader\<close>

abbreviation QUOTE :: char where "QUOTE \<equiv> CHR 0x22"

definition plain_text :: "string \<Rightarrow> bool" where
  "plain_text t \<longleftrightarrow> (\<forall>c \<in> set t. c \<noteq> QUOTE \<and> c \<noteq> BACKSLASH \<and> (32::nat) \<le> of_char c)"

definition quoted :: "string \<Rightarrow> string" where
  "quoted t = QUOTE # t @ [QUOTE]"

locale json_reader =
  fixes J :: json_lib
  assumes read_consumes: "read_string J cap s = Some (t, r) \<Longrightarrow> length r < length s"
    and read_starts: "read_string J cap s = Some (t, r) \<Longrightarrow> at_char (\<lambda>c. c = QUOTE) s"
    and read_plain: "plain_text t \<Longrightarrow> length t < n \<Longrightarrow>
      read_string J (Some n) (quoted t @ r) = Some (t, r)"
    and skip_plain: "plain_text t \<Longrightarrow> \<exists>u. read_string J None (quoted t @ r) = Some (u, r)"

text \<open>An instance: escapes of one character, no \<open>\\u\<close>.\<close>

fun doc_string :: "string \<Rightarrow> (string \<times> string) option" where
  "doc_string [] = None"
| "doc_string (c # s) =
     (if c = QUOTE then Some ([], s)
      else if c = BACKSLASH then
        (case s of
           [] \<Rightarrow> None
         | d # s1 \<Rightarrow>
             (case (if d \<in> {QUOTE, BACKSLASH, CHR ''/''} then Some d
                    else if d = CHR ''n'' then Some NL else if d = CHR ''t'' then Some TAB
                    else if d = CHR ''r'' then Some CR else if d = CHR ''b'' then Some (CHR 0x08)
                    else if d = CHR ''f'' then Some (CHR 0x0C) else None) of
                None \<Rightarrow> None
              | Some e \<Rightarrow> map_option (\<lambda>(t, r). (e # t, r)) (doc_string s1)))
      else if of_char c < (32::nat) then None
      else map_option (\<lambda>(t, r). (c # t, r)) (doc_string s))"

definition doc_read_string :: "nat option \<Rightarrow> string \<Rightarrow> (string \<times> string) option" where
  "doc_read_string cap s =
     (case expect QUOTE s of
        None \<Rightarrow> None
      | Some s1 \<Rightarrow>
          (case doc_string s1 of
             None \<Rightarrow> None
           | Some (t, r) \<Rightarrow>
               (case cap of
                  None \<Rightarrow> Some (t, r)
                | Some n \<Rightarrow> if length t < n then Some (t, r) else None)))"

definition doc_json :: json_lib where
  "doc_json = \<lparr>read_string = doc_read_string\<rparr>"

lemma doc_string_length: "doc_string s = Some (t, r) \<Longrightarrow> length r < length s"
proof (induction s arbitrary: t rule: doc_string.induct)
  case 1
  then show ?case by simp
next
  case (2 c s)
  show ?case
  proof (cases "c = QUOTE")
    case True
    with "2.prems" show ?thesis by simp
  next
    case nq: False
    show ?thesis
    proof (cases "c = BACKSLASH")
      case True
      with nq "2.prems" obtain d s1 e t1 where e: "s = d # s1" "doc_string s1 = Some (t1, r)"
        by (auto split: list.splits option.splits if_splits)
      have "length r < length s1"
        by (cases "d \<in> {QUOTE, BACKSLASH, CHR ''/''} \<or> d = CHR ''n'' \<or> d = CHR ''t'' \<or> d = CHR ''r''
            \<or> d = CHR ''b'' \<or> d = CHR ''f''")
          (use nq True "2.prems" e "2.IH"(1) in \<open>auto split: if_splits\<close>)
      with e show ?thesis by simp
    next
      case False
      with nq "2.prems" obtain t1 where "\<not> of_char c < (32::nat)" "doc_string s = Some (t1, r)"
        by (auto split: if_splits)
      with nq False "2.IH"(2) show ?thesis by fastforce
    qed
  qed
qed

lemma doc_string_plain: "plain_text t \<Longrightarrow> doc_string (t @ QUOTE # r) = Some (t, r)"
  by (induction t) (auto simp: plain_text_def)

interpretation docj: json_reader doc_json
proof
  fix cap s t r
  assume h: "read_string doc_json cap s = Some (t, r)"
  then show "length r < length s"
    by (auto simp: doc_json_def doc_read_string_def expect_Some split: option.splits if_splits
        dest!: doc_string_length)
  from h show "at_char (\<lambda>c. c = QUOTE) s"
    by (auto simp: doc_json_def doc_read_string_def expect_Some split: option.splits)
qed (auto simp: doc_json_def doc_read_string_def quoted_def doc_string_plain)

subsection \<open>Every reader returns\<close>

text \<open>A result that is there, and whose rest is shorter than the text it was read from.\<close>

definition consumes :: "string option option \<Rightarrow> string \<Rightarrow> bool" where
  "consumes result s \<longleftrightarrow> (\<exists>r. result = Some r \<and> (\<forall>t. r = Some t \<longrightarrow> length t < length s))"

lemma consumes_refuse [simp]: "consumes (Some None) s"
  by (simp add: consumes_def)

lemma consumes_accept [simp]: "consumes (Some (Some t)) s \<longleftrightarrow> length t < length s"
  by (simp add: consumes_def)

lemma consumes_longer: "consumes x t \<Longrightarrow> length t \<le> length s \<Longrightarrow> consumes x s"
  by (auto simp: consumes_def)

lemma consumes_if:
  "(b \<Longrightarrow> consumes x s) \<Longrightarrow> (\<not> b \<Longrightarrow> consumes y s) \<Longrightarrow> consumes (if b then x else y) s"
  by simp

lemma consumes_bind:
  assumes "consumes x t" and "length t \<le> length s"
    and "\<And>u. length u < length t \<Longrightarrow> consumes (f (Some u)) s" and "f None = Some None"
  shows "consumes (Option.bind x f) s"
proof -
  from assms(1) obtain r where r: "x = Some r" "\<forall>t'. r = Some t' \<longrightarrow> length t' < length t"
    by (auto simp: consumes_def)
  then show ?thesis using assms(3,4) by (cases r) auto
qed

context json_reader
begin

lemma skip_value_consumes_step:
  assumes "\<And>at depth t. length t < length s \<Longrightarrow> consumes (skip J at depth t) t"
  shows "consumes (skip J At_Value depth s) s"
proof -
  let ?s = "skip_space s"
  have sub: "consumes (skip J at d (skip_space (tl ?s))) s" if "at_char P ?s" for at d P
  proof -
    have l: "length (skip_space (tl ?s)) < length s"
      using skip_space_length [of "tl ?s"] skip_space_length [of s] at_char_length [OF that]
      by linarith
    show ?thesis by (rule consumes_longer [OF assms [OF l]]) (use l in simp)
  qed
  have str: "consumes (Some (map_option snd (read_string J None ?s))) s"
  proof (cases "read_string J None ?s")
    case (Some p)
    then obtain t r where "read_string J None ?s = Some (t, r)" by (cases p) auto
    with read_consumes [OF this] skip_space_length [of s] show ?thesis by simp
  qed simp
  have num: "consumes (Some (skip_number ?s)) s"
    using skip_space_length [of s] skip_number_length [of ?s] by (cases "skip_number ?s") auto
  have word: "consumes (Some (Some (drop n ?s))) s" if "at_word w ?s" "length w = n" "0 < n" for w n
    using that skip_space_length [of s] by (cases w) (auto simp: at_word_append)
  have w4: "consumes (Some (Some (drop 4 ?s))) s" if "at_word ''true'' ?s \<or> at_word ''null'' ?s"
    using that word [of "''true''" 4] word [of "''null''" 4] by auto
  have w5: "consumes (Some (Some (drop 5 ?s))) s" if "at_word ''false'' ?s"
    using that word [of "''false''" 5] by auto
  show ?thesis
    by (subst skip.simps, unfold Let_def skip_at.case)
      (intro consumes_if consumes_refuse str num w4 w5, (erule sub)+)
qed

lemma skip_consumes: "consumes (skip J at depth s) s"
proof (induction "length s" arbitrary: s at depth rule: less_induct)
  case less
  have shorter: "consumes (skip J at d t) t" if "length t < length s" for at d t
    using less that by blast
  have here: "consumes (skip J At_Value d s) s" for d
    by (rule skip_value_consumes_step) (rule shorter)
  have loop: "consumes (skip J at d (skip_space u)) s" if "length u < length s" for at d u
    using that skip_space_length [of u] shorter [of "skip_space u" at d]
    by (auto intro: consumes_longer)
  show ?case
  proof (cases at)
    case At_Value
    with here show ?thesis by simp
  next
    case (At_Members first)
    have body: "consumes (case read_string J (Some JSON_KEY_CAPACITY) (skip_space u) of
        None \<Rightarrow> Some None
      | Some (key, s2) \<Rightarrow>
          (case expect (CHR '':'') (skip_space s2) of
             None \<Rightarrow> Some None
           | Some s3 \<Rightarrow> Option.bind (skip J At_Value depth s3)
               (\<lambda>r. case r of None \<Rightarrow> Some None
                  | Some s4 \<Rightarrow> skip J (At_Members False) depth (skip_space s4)))) s"
      (is "consumes ?body s") if "length u \<le> length s" for u
    proof (cases "read_string J (Some JSON_KEY_CAPACITY) (skip_space u)")
      case None
      then show ?thesis by simp
    next
      case (Some p)
      then obtain key s2 where p: "read_string J (Some JSON_KEY_CAPACITY) (skip_space u) = Some (key, s2)"
        by (cases p) auto
      have s2: "length s2 < length s"
        using read_consumes [OF p] skip_space_length [of u] that by linarith
      show ?thesis
      proof (cases "expect (CHR '':'') (skip_space s2)")
        case None
        with p show ?thesis by simp
      next
        case (Some s3)
        then have "length s3 < length s"
          using s2 skip_space_length [of s2] by (simp add: expect_Some)
        then show ?thesis
          using p Some less_trans [of _ "length s3" "length s"]
          by (simp, intro consumes_bind [of _ s3] shorter) (auto intro: loop)
      qed
    qed
    show ?thesis
    proof (cases "at_char (\<lambda>c. c = CHR ''}'') s")
      case True
      then show ?thesis
        unfolding At_Members by (elim at_char_cases) (subst skip.simps, simp)
    next
      case False
      show ?thesis
      proof (cases "if first then Some s else expect (CHR '','') s")
        case None
        with False show ?thesis unfolding At_Members by (subst skip.simps) (simp split: if_splits)
      next
        case (Some u)
        then have "length u \<le> length s" by (auto simp: expect_Some split: if_splits)
        from body [OF this] Some False show ?thesis
          unfolding At_Members by (subst skip.simps) simp
      qed
    qed
  next
    case (At_Elements first)
    have body: "consumes (Option.bind (skip J At_Value depth u)
        (\<lambda>r. case r of None \<Rightarrow> Some None
           | Some s2 \<Rightarrow> skip J (At_Elements False) depth (skip_space s2))) s"
      if "length u \<le> length s" for u
    proof (rule consumes_bind [of _ u])
      show "consumes (skip J At_Value depth u) u"
        using that shorter [of u] skip_value_consumes_step [of u] shorter
        by (cases "length u = length s") (force)+
    qed (use that loop in auto)
    show ?thesis
    proof (cases "at_char (\<lambda>c. c = CHR '']'') s")
      case True
      then show ?thesis
        unfolding At_Elements by (elim at_char_cases) (subst skip.simps, simp)
    next
      case False
      show ?thesis
      proof (cases "if first then Some s else expect (CHR '','') s")
        case None
        with False show ?thesis unfolding At_Elements by (subst skip.simps) (simp split: if_splits)
      next
        case (Some u)
        then have "length u \<le> length s" by (auto simp: expect_Some split: if_splits)
        from body [OF this] Some False show ?thesis
          unfolding At_Elements by (subst skip.simps) simp
      qed
    qed
  qed
qed

lemma skip_value_returns: "\<exists>r. skip_value J depth s = Some r"
  using skip_consumes [of At_Value depth s] by (auto simp: consumes_def skip_value_def)

lemma skip_value_length: "skip_value J depth s = Some (Some r) \<Longrightarrow> length r < length s"
  using skip_consumes [of At_Value depth s] by (simp add: skip_value_def)

end

subsection \<open>The loop over members\<close>

text \<open>
  The layout of the members of an object: the keys, and for each the text at its value and the
  text behind it. Where a value ends is up to the reader of that value.
\<close>

inductive members_in ::
  "json_lib \<Rightarrow> bool \<Rightarrow> string \<Rightarrow> (string \<times> string \<times> string) list \<Rightarrow> string \<Rightarrow> bool"
  for J where
  last_member: "skip_space s = CHR ''}'' # r \<Longrightarrow> members_in J first s [] r"
| next_member: "\<lbrakk>\<not> at_char (\<lambda>c. c = CHR ''}'') (skip_space s);
    (if first then Some (skip_space s) else expect (CHR '','') (skip_space s)) = Some s2;
    read_string J (Some JSON_KEY_CAPACITY) (skip_space s2) = Some (k, s3);
    skip_space s3 = CHR '':'' # s4; members_in J False e ms r\<rbrakk> \<Longrightarrow>
    members_in J first s ((k, skip_space s4, e) # ms) r"

text \<open>A handler applied to one member after the other.\<close>

fun run_members ::
  "(string \<Rightarrow> 'st \<Rightarrow> string \<Rightarrow> ('st \<times> string option) option) \<Rightarrow>
   (string \<times> string \<times> string) list \<Rightarrow> 'st \<Rightarrow> 'st option" where
  "run_members h [] st = Some st"
| "run_members h ((k, v, e) # ms) st =
     (case h k st v of
        Some (st1, Some e1) \<Rightarrow> if e1 = e then run_members h ms st1 else None
      | _ \<Rightarrow> None)"

lemma run_members_Cons:
  "run_members h ((k, v, e) # ms) st = Some st' \<longleftrightarrow>
     (\<exists>st1. h k st v = Some (st1, Some e) \<and> run_members h ms st1 = Some st')"
  by (auto split: option.splits)

lemma each_member_layout:
  assumes "members_in J first s ms r" and "run_members h ms st = Some st'"
  shows "each_member J h first st s = Some (st', Some r)"
  using assms
proof (induction arbitrary: st rule: members_in.induct)
  case (last_member s r first)
  then show ?case by (subst each_member.simps) simp
next
  case (next_member s first s2 k s3 s4 e ms r)
  from next_member.prems obtain st1 where
    "h k st (skip_space s4) = Some (st1, Some e)" "run_members h ms st1 = Some st'"
    unfolding run_members_Cons by blast
  with next_member.hyps next_member.IH show ?case
    by (subst each_member.simps) (simp add: expect_Some)
qed

lemma each_member_result:
  assumes "each_member J h first st s = Some out"
  shows "\<forall>st' r. out = (st', Some r) \<longrightarrow>
    (\<exists>ms. members_in J first s ms r \<and> run_members h ms st = Some st')"
proof (rule each_member.raw_induct [OF _ assms])
  fix loop J handle first st s out
  assume ih: "\<And>J handle first st s out. loop J handle first st s = Some out \<Longrightarrow>
      \<forall>st' r. out = (st', Some r) \<longrightarrow>
        (\<exists>ms. members_in J first s ms r \<and> run_members handle ms st = Some st')"
    and step: "(let s1 = skip_space s in
      if at_char (\<lambda>c. c = CHR ''}'') s1 then Some (st, Some (tl s1))
      else
        (case (if first then Some s1 else expect (CHR '','') s1) of
           None \<Rightarrow> Some (st, None)
         | Some s2 \<Rightarrow>
             (case read_string J (Some JSON_KEY_CAPACITY) (skip_space s2) of
                None \<Rightarrow> Some (st, None)
              | Some (key, s3) \<Rightarrow>
                  (case expect (CHR '':'') (skip_space s3) of
                     None \<Rightarrow> Some (st, None)
                   | Some s4 \<Rightarrow>
                       (case handle key st (skip_space s4) of
                          None \<Rightarrow> None
                        | Some (st1, None) \<Rightarrow> Some (st1, None)
                        | Some (st1, Some s5) \<Rightarrow> loop J handle False st1 s5))))) = Some out"
  show "\<forall>st' r. out = (st', Some r) \<longrightarrow>
    (\<exists>ms. members_in J first s ms r \<and> run_members handle ms st = Some st')"
  proof (intro allI impI)
    fix st' r
    assume out: "out = (st', Some r)"
    show "\<exists>ms. members_in J first s ms r \<and> run_members handle ms st = Some st'"
    proof (cases "at_char (\<lambda>c. c = CHR ''}'') (skip_space s)")
      case True
      with step out have "members_in J first s [] r" "st' = st"
        by (auto elim!: at_char_cases intro: members_in.intros)
      then have "members_in J first s [] r \<and> run_members handle [] st = Some st'" by simp
      then show ?thesis ..
    next
      case False
      with step out obtain s2 k s3 s4 st1 s5 where p:
        "(if first then Some (skip_space s) else expect (CHR '','') (skip_space s)) = Some s2"
        "read_string J (Some JSON_KEY_CAPACITY) (skip_space s2) = Some (k, s3)"
        "expect (CHR '':'') (skip_space s3) = Some s4"
        "handle k st (skip_space s4) = Some (st1, Some s5)"
        "loop J handle False st1 s5 = Some (st', Some r)"
        by (simp add: Let_def split: option.splits prod.splits)
      from ih [OF p(5)] obtain ms where
        "members_in J False s5 ms r" "run_members handle ms st1 = Some st'" by blast
      with False p have "members_in J first s ((k, skip_space s4, s5) # ms) r \<and>
          run_members handle ((k, skip_space s4, s5) # ms) st = Some st'"
        by (auto intro!: members_in.next_member simp: expect_Some)
      then show ?thesis ..
    qed
  qed
qed

lemma each_member_exact:
  "each_member J h first st s = Some (st', Some r) \<longleftrightarrow>
     (\<exists>ms. members_in J first s ms r \<and> run_members h ms st = Some st')"
  using each_member_result [of J h first st s "(st', Some r)"]
  by (auto intro: each_member_layout)

text \<open>A handler that always returns and leaves no more text than it got.\<close>

definition handler_returns ::
  "(string \<Rightarrow> 'st \<Rightarrow> string \<Rightarrow> ('st \<times> string option) option) \<Rightarrow> bool" where
  "handler_returns h \<longleftrightarrow> (\<forall>k st s. \<exists>st' r. h k st s = Some (st', r) \<and>
     (\<forall>t. r = Some t \<longrightarrow> length t \<le> length s))"

context json_reader
begin

lemma each_member_returns:
  assumes "handler_returns h"
  shows "\<exists>st' r. each_member J h first st s = Some (st', r) \<and>
    (\<forall>t. r = Some t \<longrightarrow> length t < length s)"
proof (induction "length s" arbitrary: s st first rule: less_induct)
  case less
  let ?s = "skip_space s"
  have ls: "length ?s \<le> length s" by (rule skip_space_length)
  show ?case
  proof (cases "at_char (\<lambda>c. c = CHR ''}'') ?s")
    case True
    with at_char_length [OF True] ls show ?thesis
      by (subst each_member.simps) simp
  next
    case nobrace: False
    show ?thesis
    proof (cases "if first then Some ?s else expect (CHR '','') ?s")
      case None
      with nobrace show ?thesis by (subst each_member.simps) (simp split: if_splits)
    next
      case s2: (Some s2)
      then have l2: "length (skip_space s2) \<le> length s"
        using ls skip_space_length [of s2] by (auto simp: expect_Some split: if_splits)
      show ?thesis
      proof (cases "read_string J (Some JSON_KEY_CAPACITY) (skip_space s2)")
        case None
        with nobrace s2 show ?thesis by (subst each_member.simps) simp
      next
        case (Some p)
        then obtain k s3 where p: "read_string J (Some JSON_KEY_CAPACITY) (skip_space s2) = Some (k, s3)"
          by (cases p) auto
        show ?thesis
        proof (cases "expect (CHR '':'') (skip_space s3)")
          case None
          with nobrace s2 p show ?thesis by (subst each_member.simps) simp
        next
          case s4: (Some s4)
          have l4: "length (skip_space s4) < length s"
            using s4 l2 read_consumes [OF p] skip_space_length [of s3] skip_space_length [of s4]
            by (simp add: expect_Some)
          from assms obtain st1 o5 where h: "h k st (skip_space s4) = Some (st1, o5)"
            and l5: "\<forall>t. o5 = Some t \<longrightarrow> length t \<le> length (skip_space s4)"
            unfolding handler_returns_def by blast
          show ?thesis
          proof (cases o5)
            case None
            with nobrace s2 p s4 h show ?thesis by (subst each_member.simps) simp
          next
            case (Some s5)
            with l4 l5 have l: "length s5 < length s" by simp
            from less.hyps [OF l, of False st1] obtain st' r where
              "each_member J h False st1 s5 = Some (st', r)"
              "\<forall>t. r = Some t \<longrightarrow> length t < length s5" by blast
            with nobrace s2 p s4 h Some l show ?thesis
              by (subst each_member.simps) auto
          qed
        qed
      qed
    qed
  qed
qed

lemma skip_member_returns: "handler_returns (\<lambda>k. skip_member J depth)"
  using skip_value_returns skip_value_length
  by (fastforce simp: handler_returns_def skip_member_def dest: less_imp_le)

lemma skip_member_result: "\<exists>r. skip_member J depth st s = Some (st, r) \<and>
    (\<forall>t. r = Some t \<longrightarrow> length t \<le> length s)"
  using skip_value_returns [of depth s] skip_value_length [of depth s]
  by (auto simp: skip_member_def dest: less_imp_le)

lemma log_health_member_returns: "handler_returns (log_health_member J)"
  unfolding handler_returns_def
proof (intro allI)
  fix k :: string and st :: "bool \<times> bool" and s
  show "\<exists>st' r. log_health_member J k st s = Some (st', r) \<and>
      (\<forall>t. r = Some t \<longrightarrow> length t \<le> length s)"
    using skip_member_result [of 1 st s]
    by (auto simp: log_health_member_def split: option.splits dest: parse_boolean_length)
qed

lemma parse_log_health_returns:
  "\<exists>b r. parse_log_health J complete s = Some (b, r) \<and> (\<forall>t. r = Some t \<longrightarrow> length t \<le> length s)"
proof (cases "expect (CHR ''{'') s")
  case (Some s1)
  obtain f b r where "each_member J (log_health_member J) True (False, complete) s1 = Some ((f, b), r)"
    "\<forall>t. r = Some t \<longrightarrow> length t < length s1"
    using each_member_returns [OF log_health_member_returns, of True "(False, complete)" s1] by auto
  with Some show ?thesis by (auto simp: parse_log_health_def expect_Some)
qed (simp add: parse_log_health_def)

lemma resource_member_returns: "handler_returns (resource_member J)"
  unfolding handler_returns_def
proof (intro allI)
  fix k :: string and st :: resource_state and s
  obtain b r where h: "parse_log_health J (rs_log_complete (rst_summary st)) s = Some (b, r)"
    "\<forall>t. r = Some t \<longrightarrow> length t \<le> length s"
    using parse_log_health_returns by blast
  have str: "length t \<le> length s" if "read_string J (Some JSON_KEY_CAPACITY) s = Some (u, t)" for u t
    using read_consumes [OF that] by simp
  have num: "length t \<le> length s" if "parse_size s = Some (n, t)" for n t
    using parse_size_length [OF that] by simp
  show "\<exists>st' r. resource_member J k st s = Some (st', r) \<and>
      (\<forall>t. r = Some t \<longrightarrow> length t \<le> length s)"
    using skip_member_result [of 0 st s] h
    by (auto simp: resource_member_def split: option.splits resource_field.splits dest: str num)
qed

lemma policy_member_returns: "handler_returns (policy_member J)"
  unfolding handler_returns_def
proof (intro allI)
  fix k :: string and st :: "policy_summary \<times> bool \<times> bool" and s
  have num: "length t \<le> length s" if "parse_size s = Some (n, t)" for n t
    using parse_size_length [OF that] by simp
  show "\<exists>st' r. policy_member J k st s = Some (st', r) \<and>
      (\<forall>t. r = Some t \<longrightarrow> length t \<le> length s)"
    using skip_member_result [of 0 st s]
    by (cases st) (auto simp: policy_member_def split: option.splits if_splits dest: num)
qed

lemma parse_policy_summary_returns:
  "\<exists>sm' r. parse_policy_summary J sm s = Some (sm', r) \<and> (\<forall>t. r = Some t \<longrightarrow> length t \<le> length s)"
proof (cases "expect (CHR ''{'') s")
  case (Some s1)
  obtain sm1 a b r where "each_member J (policy_member J) True (sm, False, False) s1 = Some ((sm1, a, b), r)"
    "\<forall>t. r = Some t \<longrightarrow> length t < length s1"
    using each_member_returns [OF policy_member_returns, of True "(sm, False, False)" s1] by auto
  with Some show ?thesis by (auto simp: parse_policy_summary_def expect_Some)
qed (simp add: parse_policy_summary_def)

lemma policy_top_member_returns: "handler_returns (policy_top_member J schema)"
  unfolding handler_returns_def
proof (intro allI)
  fix k :: string and st :: policy_state and s
  obtain sm r where h: "parse_policy_summary J (pst_summary st) s = Some (sm, r)"
    "\<forall>t. r = Some t \<longrightarrow> length t \<le> length s"
    using parse_policy_summary_returns by blast
  have str: "length t \<le> length s" if "read_string J (Some JSON_KEY_CAPACITY) s = Some (u, t)" for u t
    using read_consumes [OF that] by simp
  show "\<exists>st' r. policy_top_member J schema k st s = Some (st', r) \<and>
      (\<forall>t. r = Some t \<longrightarrow> length t \<le> length s)"
    using skip_member_result [of 0 st s] h
    by (auto simp: policy_top_member_def split: option.splits if_splits dest: str)
qed

lemma top_size_member_returns: "handler_returns (top_size_member J wanted)"
  unfolding handler_returns_def
proof (intro allI)
  fix k :: string and st :: "nat option" and s
  have num: "length t \<le> length s" if "parse_size s = Some (n, t)" for n t
    using parse_size_length [OF that] by simp
  show "\<exists>st' r. top_size_member J wanted k st s = Some (st', r) \<and>
      (\<forall>t. r = Some t \<longrightarrow> length t \<le> length s)"
    using skip_member_result [of 0 st s]
    by (auto simp: top_size_member_def split: option.splits if_splits dest: num)
qed

end

end
