(* ===== verification/Summary_Grammar.thy ===== *)
theory Summary_Grammar
  imports Summary_Facts
begin

section \<open>The grammar that the summary reader skips\<close>

text \<open>
  Numbers and values as in RFC 8259, stated on texts and trees and not on cursors, and the
  proof that the scanner accepts them and nothing else. The rest of a number must not carry
  the number on; the depth of a value is the number of containers around its deepest member.
\<close>

subsection \<open>Numbers\<close>

definition digits_text :: "string \<Rightarrow> bool" where
  "digits_text d \<longleftrightarrow> d \<noteq> [] \<and> (\<forall>c \<in> set d. is_digit c)"

definition integer_text :: "string \<Rightarrow> bool" where
  "integer_text i \<longleftrightarrow> (\<exists>sign d. i = sign @ d \<and> sign \<in> {'''', ''-''} \<and> digits_text d \<and>
     (hd d = CHR ''0'' \<longrightarrow> d = ''0''))"

definition fraction_text :: "string \<Rightarrow> bool" where
  "fraction_text f \<longleftrightarrow> f = [] \<or> (\<exists>d. f = CHR ''.'' # d \<and> digits_text d)"

definition exponent_text :: "string \<Rightarrow> bool" where
  "exponent_text x \<longleftrightarrow> x = [] \<or> (\<exists>e sign d. x = e # sign @ d \<and>
     e \<in> {CHR ''e'', CHR ''E''} \<and> sign \<in> {'''', ''+'', ''-''} \<and> digits_text d)"

definition number_at :: "string \<Rightarrow> string \<Rightarrow> string \<Rightarrow> bool" where
  "number_at n s r \<longleftrightarrow> (\<exists>i f x. n = i @ f @ x \<and> s = n @ r \<and>
     integer_text i \<and> fraction_text f \<and> exponent_text x \<and> \<not> at_char is_digit r \<and>
     (f = [] \<longrightarrow> x = [] \<longrightarrow> \<not> at_char (\<lambda>c. c = CHR ''.'') r) \<and>
     (x = [] \<longrightarrow> \<not> at_char (\<lambda>c. c = CHR ''e'' \<or> c = CHR ''E'') r))"

lemma at_char_append [simp]: "at_char P (s @ r) \<longleftrightarrow> (if s = [] then at_char P r else P (hd s))"
  by (cases s) auto

lemma number_marks [simp]:
  "\<not> is_digit (CHR ''.'')" "\<not> is_digit (CHR ''e'')" "\<not> is_digit (CHR ''E'')"
  "\<not> is_digit (CHR ''+'')" "\<not> is_digit (CHR ''-'')" "is_digit (CHR ''0'')"
  by (simp_all add: is_digit_def)

lemma digits_text_hd: "digits_text d \<Longrightarrow> is_digit (hd d) \<and> d \<noteq> []"
  by (cases d) (auto simp: digits_text_def)

lemma skip_digits_append:
  "digits_text d \<Longrightarrow> \<not> at_char is_digit r \<Longrightarrow> skip_digits (d @ r) = r"
  by (cases r) (simp_all add: digits_text_def skip_digits_def)

lemma skip_digits_split:
  assumes "at_char is_digit s"
  obtains d where "s = d @ skip_digits s" "digits_text d" "\<not> at_char is_digit (skip_digits s)"
proof
  show "s = takeWhile is_digit s @ skip_digits s" by (simp add: skip_digits_def)
  show "digits_text (takeWhile is_digit s)"
    using assms by (cases s) (auto simp: digits_text_def dest: set_takeWhileD)
  show "\<not> at_char is_digit (skip_digits s)"
    unfolding skip_digits_def by (induction s) auto
qed

lemma optional_char:
  obtains sign where "s = sign @ (if at_char P s then tl s else s)"
    "sign = [] \<or> (\<exists>c. P c \<and> sign = [c])"
proof (cases "at_char P s")
  case True
  then show thesis by (elim at_char_cases, intro that [of "[hd s]"]) auto
qed (simp add: that [of "[]"])

lemma number_fraction_exact:
  "number_fraction s = Some r \<longleftrightarrow> (\<exists>f. fraction_text f \<and> s = f @ r \<and>
     (if f = [] then \<not> at_char (\<lambda>c. c = CHR ''.'') r else \<not> at_char is_digit r))"
  (is "?lhs \<longleftrightarrow> ?rhs")
proof
  assume h: ?lhs
  show ?rhs
  proof (cases "at_char (\<lambda>c. c = CHR ''.'') s")
    case True
    with h have d: "at_char is_digit (tl s)" "r = skip_digits (tl s)" "s = CHR ''.'' # tl s"
      by (auto simp: number_fraction_def split: if_splits elim!: at_char_cases)
    from skip_digits_split [OF d(1)] obtain t where
      "tl s = t @ r" "digits_text t" "\<not> at_char is_digit r" unfolding d(2) .
    with d(3) show ?thesis
      by (intro exI [of _ "CHR ''.'' # t"]) (auto simp: fraction_text_def)
  next
    case False
    with h show ?thesis by (intro exI [of _ "[]"]) (auto simp: number_fraction_def fraction_text_def)
  qed
next
  assume ?rhs
  then show ?lhs
    by (auto simp: number_fraction_def fraction_text_def skip_digits_append digits_text_hd split: if_splits)
qed

lemma number_exponent_exact:
  "number_exponent s = Some r \<longleftrightarrow> (\<exists>x. exponent_text x \<and> s = x @ r \<and>
     (if x = [] then \<not> at_char (\<lambda>c. c = CHR ''e'' \<or> c = CHR ''E'') r
      else \<not> at_char is_digit r))"
  (is "?lhs \<longleftrightarrow> ?rhs")
proof
  assume h: ?lhs
  show ?rhs
  proof (cases "at_char (\<lambda>c. c = CHR ''e'' \<or> c = CHR ''E'') s")
    case True
    then obtain e t where e: "s = e # t" "e \<in> {CHR ''e'', CHR ''E''}" by (auto elim!: at_char_cases)
    define u where "u = (if at_char (\<lambda>c. c = CHR ''+'' \<or> c = CHR ''-'') t then tl t else t)"
    from optional_char [of t "\<lambda>c. c = CHR ''+'' \<or> c = CHR ''-''"]
    obtain sign where u: "t = sign @ u" "sign \<in> {'''', ''+'', ''-''}"
      unfolding u_def by blast
    from h e have d: "at_char is_digit u" "r = skip_digits u"
      by (auto simp: number_exponent_def Let_def u_def split: if_splits)
    from skip_digits_split [OF d(1)] obtain w where
      w: "u = w @ r" "digits_text w" "\<not> at_char is_digit r" unfolding d(2) .
    have "exponent_text (e # sign @ w)"
      unfolding exponent_text_def using e(2) u(2) w(2) by blast
    with e u w show ?thesis by (intro exI [of _ "e # sign @ w"]) simp
  next
    case False
    with h show ?thesis by (intro exI [of _ "[]"]) (auto simp: number_exponent_def exponent_text_def)
  qed
next
  assume ?rhs
  then obtain x where x: "exponent_text x" "s = x @ r"
    "if x = [] then \<not> at_char (\<lambda>c. c = CHR ''e'' \<or> c = CHR ''E'') r else \<not> at_char is_digit r"
    by blast
  show ?lhs
  proof (cases "x = []")
    case True
    with x show ?thesis by (simp add: number_exponent_def)
  next
    case False
    with x obtain e sign d where e: "x = e # sign @ d" "e \<in> {CHR ''e'', CHR ''E''}"
      "sign \<in> {'''', ''+'', ''-''}" "digits_text d" "\<not> at_char is_digit r"
      by (auto simp: exponent_text_def)
    from digits_text_hd [OF e(4)] have "hd d \<noteq> CHR ''+''" "hd d \<noteq> CHR ''-''" "d \<noteq> []" by auto
    with e x(2) show ?thesis
      by (auto simp: number_exponent_def Let_def skip_digits_append digits_text_hd)
  qed
qed

lemma number_integer_exact:
  "number_integer s = Some r \<longleftrightarrow> (\<exists>i. integer_text i \<and> s = i @ r \<and> \<not> at_char is_digit r)"
  (is "?lhs \<longleftrightarrow> ?rhs")
proof
  assume h: ?lhs
  define u where "u = (if at_char (\<lambda>c. c = CHR ''-'') s then tl s else s)"
  from optional_char [of s "\<lambda>c. c = CHR ''-''"]
  obtain sign where u: "s = sign @ u" "sign \<in> {'''', ''-''}"
    unfolding u_def by blast
  from h have v: "(if at_char (\<lambda>c. c = CHR ''0'') u then
      (if at_char is_digit (tl u) then None else Some (tl u))
      else if at_char is_digit u then Some (skip_digits u) else None) = Some r"
    unfolding number_integer_def Let_def u_def .
  show ?rhs
  proof (cases "at_char (\<lambda>c. c = CHR ''0'') u")
    case True
    with v have "u = ''0'' @ r" "\<not> at_char is_digit r" by (auto elim!: at_char_cases split: if_splits)
    moreover have "integer_text (sign @ ''0'')"
      unfolding integer_text_def using u(2)
      by (intro exI [of _ sign] exI [of _ "''0''"]) (simp add: digits_text_def)
    ultimately show ?thesis using u(1) by (intro exI [of _ "sign @ ''0''"]) simp
  next
    case False
    with v have d: "at_char is_digit u" "r = skip_digits u" by (auto split: if_splits)
    from skip_digits_split [OF d(1)] obtain w where
      w: "u = w @ r" "digits_text w" "\<not> at_char is_digit r" unfolding d(2) .
    with False have "hd w \<noteq> CHR ''0''" by (cases w) (auto simp: digits_text_def)
    with u(2) w(2) have "integer_text (sign @ w)" unfolding integer_text_def by blast
    with u w show ?thesis by (intro exI [of _ "sign @ w"]) simp
  qed
next
  assume ?rhs
  then obtain i where i: "integer_text i" "s = i @ r" "\<not> at_char is_digit r" by blast
  from i(1) obtain sign d where d: "i = sign @ d" "sign \<in> {'''', ''-''}" "digits_text d"
    "hd d = CHR ''0'' \<longrightarrow> d = ''0''"
    unfolding integer_text_def by blast
  from d i have s: "s = sign @ d @ r" "sign \<in> {'''', ''-''}" "digits_text d"
    "hd d = CHR ''0'' \<longrightarrow> d = ''0''" "\<not> at_char is_digit r"
    by simp_all
  from digits_text_hd [OF s(3)] have "hd d \<noteq> CHR ''-''" "d \<noteq> []" by auto
  with s show ?lhs
    by (auto simp: number_integer_def Let_def skip_digits_append digits_text_hd)
qed

lemma skip_number_exact: "skip_number s = Some r \<longleftrightarrow> (\<exists>n. number_at n s r)"
proof
  assume "skip_number s = Some r"
  then obtain r1 r2 where h: "number_integer s = Some r1" "number_fraction r1 = Some r2"
    "number_exponent r2 = Some r"
    by (auto simp: skip_number_def split: option.splits)
  from h(1) obtain i where i: "integer_text i" "s = i @ r1" "\<not> at_char is_digit r1"
    unfolding number_integer_exact by blast
  from h(2) obtain f where f: "fraction_text f" "r1 = f @ r2"
    "if f = [] then \<not> at_char (\<lambda>c. c = CHR ''.'') r2 else \<not> at_char is_digit r2"
    unfolding number_fraction_exact by blast
  from h(3) obtain x where x: "exponent_text x" "r2 = x @ r"
    "if x = [] then \<not> at_char (\<lambda>c. c = CHR ''e'' \<or> c = CHR ''E'') r else \<not> at_char is_digit r"
    unfolding number_exponent_exact by blast
  have "number_at (i @ f @ x) s r"
    unfolding number_at_def
    using i f x by (intro exI [of _ i] exI [of _ f] exI [of _ x]) (auto split: if_splits)
  then show "\<exists>n. number_at n s r" ..
next
  assume "\<exists>n. number_at n s r"
  then obtain i f x where h: "s = i @ f @ x @ r" "integer_text i" "fraction_text f"
    "exponent_text x" "\<not> at_char is_digit r"
    "f = [] \<longrightarrow> x = [] \<longrightarrow> \<not> at_char (\<lambda>c. c = CHR ''.'') r"
    "x = [] \<longrightarrow> \<not> at_char (\<lambda>c. c = CHR ''e'' \<or> c = CHR ''E'') r"
    unfolding number_at_def by auto
  have mark_x: "x \<noteq> [] \<Longrightarrow> hd x \<in> {CHR ''e'', CHR ''E''}"
    using h(4) by (auto simp: exponent_text_def)
  have mark_f: "f \<noteq> [] \<Longrightarrow> hd f = CHR ''.''"
    using h(3) by (auto simp: fraction_text_def)
  have "number_exponent (x @ r) = Some r"
    unfolding number_exponent_exact using h by (intro exI [of _ x]) auto
  moreover have "number_fraction (f @ x @ r) = Some (x @ r)"
    unfolding number_fraction_exact using h mark_x by (intro exI [of _ f]) auto
  moreover have "number_integer (i @ f @ x @ r) = Some (f @ x @ r)"
    unfolding number_integer_exact using h mark_x mark_f by (intro exI [of _ i]) auto
  ultimately show "skip_number s = Some r" using h(1) by (simp add: skip_number_def)
qed

subsection \<open>Values\<close>

datatype json = JString string | JNumber string | JWord string | JArray "json list"
  | JObject "(string \<times> json) list"

text \<open>How many containers are around the deepest member.\<close>

primrec height :: "json \<Rightarrow> nat" where
  "height (JArray js) = foldr (\<lambda>h. max (Suc h)) (map height js) 0"
| "height (JObject ms) = foldr (\<lambda>(_, h). max (Suc h)) (map (map_prod id height) ms) 0"
| "height (JString t) = 0"
| "height (JNumber n) = 0"
| "height (JWord w) = 0"

text \<open>
  \<open>json_at J j s r\<close>: the text \<open>s\<close> starts, without space before it, with the value \<open>j\<close> and goes
  on with \<open>r\<close>. Of the elements and members of a container, all but the first have a comma in
  front.
\<close>

inductive json_at :: "json_lib \<Rightarrow> json \<Rightarrow> string \<Rightarrow> string \<Rightarrow> bool"
  and elements_at :: "json_lib \<Rightarrow> bool \<Rightarrow> json list \<Rightarrow> string \<Rightarrow> string \<Rightarrow> bool"
  and members_at :: "json_lib \<Rightarrow> bool \<Rightarrow> (string \<times> json) list \<Rightarrow> string \<Rightarrow> string \<Rightarrow> bool"
  for J where
  string_at: "at_char (\<lambda>c. c = QUOTE) s \<Longrightarrow> read_string J None s = Some (t, r) \<Longrightarrow>
    json_at J (JString t) s r"
| number_value: "number_at n s r \<Longrightarrow> json_at J (JNumber n) s r"
| word_at: "w \<in> {''true'', ''false'', ''null''} \<Longrightarrow> json_at J (JWord w) (w @ r) r"
| array_at: "elements_at J True js (skip_space s) r \<Longrightarrow> json_at J (JArray js) (CHR ''['' # s) r"
| object_at: "members_at J True ms (skip_space s) r \<Longrightarrow> json_at J (JObject ms) (CHR ''{'' # s) r"
| no_element: "elements_at J first [] (CHR '']'' # r) r"
| element: "\<lbrakk>s = (if first then s1 else CHR '','' # s1); json_at J j (skip_space s1) r1;
    elements_at J False js (skip_space r1) r\<rbrakk> \<Longrightarrow> elements_at J first (j # js) s r"
| no_member: "members_at J first [] (CHR ''}'' # r) r"
| member: "\<lbrakk>s = (if first then s1 else CHR '','' # s1);
    at_char (\<lambda>c. c = QUOTE) (skip_space s1);
    read_string J (Some JSON_KEY_CAPACITY) (skip_space s1) = Some (k, s2);
    skip_space s2 = CHR '':'' # s3; json_at J j (skip_space s3) r1;
    members_at J False ms (skip_space r1) r\<rbrakk> \<Longrightarrow> members_at J first ((k, j) # ms) s r"

lemma height_array: "d + height (JArray (j # js)) < n \<longleftrightarrow>
  Suc d + height j < n \<and> d + height (JArray js) < n"
  by auto

lemma height_object: "d + height (JObject ((k, j) # ms)) < n \<longleftrightarrow>
  Suc d + height j < n \<and> d + height (JObject ms) < n"
  by auto

declare height.simps(1,2) [simp del]

text \<open>The first character of a value decides which it is.\<close>

lemma number_at_head:
  assumes "number_at n s r"
  shows "at_char (\<lambda>c. is_digit c \<or> c = CHR ''-'') s"
proof -
  from assms obtain i u where i: "s = i @ u" "integer_text i"
    unfolding number_at_def by (elim exE conjE) (rule that, auto)
  from i(2) obtain sign d where "i = sign @ d" "sign \<in> {'''', ''-''}" "digits_text d"
    unfolding integer_text_def by blast
  with i(1) digits_text_hd [of d] show ?thesis by auto
qed

lemma digit_heads:
  "is_digit c \<or> c = CHR ''-'' \<Longrightarrow> c \<noteq> QUOTE \<and> c \<noteq> CHR ''{'' \<and> c \<noteq> CHR ''['' \<and> c \<noteq> CHR '']''
     \<and> c \<noteq> CHR ''}'' \<and> \<not> is_json_space c"
  by (auto simp: is_digit_def is_json_space_def)

lemma json_at_no_space:
  "json_at J j s r \<Longrightarrow> \<exists>c t. s = c # t \<and> \<not> is_json_space c \<and> c \<noteq> CHR '']'' \<and> c \<noteq> CHR ''}''"
  by (erule json_at.cases)
    (auto simp: is_json_space_def is_digit_def dest!: number_at_head elim!: at_char_cases)

subsection \<open>The scanner accepts the grammar\<close>

lemma skip_space_json: "json_at J j (skip_space s) r \<Longrightarrow> \<not> at_char (\<lambda>c. c = CHR '']'') (skip_space s)"
  by (drule json_at_no_space) auto

lemma skip_value_space: "skip J At_Value d (skip_space s) = skip J At_Value d s"
  by (subst (1 2) skip.simps) simp

lemma skip_accepts_step:
  "json_at J j s r \<Longrightarrow> \<forall>d. d + height j < JSON_MAX_DEPTH \<longrightarrow> skip J At_Value d s = Some (Some r)"
  "elements_at J first js s r \<Longrightarrow> \<forall>d. d + height (JArray js) < JSON_MAX_DEPTH \<longrightarrow>
     skip J (At_Elements first) (Suc d) s = Some (Some r)"
  "members_at J first ms s r \<Longrightarrow> \<forall>d. d + height (JObject ms) < JSON_MAX_DEPTH \<longrightarrow>
     skip J (At_Members first) (Suc d) s = Some (Some r)"
proof (induction rule: json_at_elements_at_members_at.inducts)
  case (string_at s t r)
  then show ?case by (elim at_char_cases) (subst skip.simps, simp add: is_json_space_def)
next
  case (number_value n s r)
  then have n: "skip_number s = Some r" unfolding skip_number_exact by blast
  from number_at_head [OF number_value] obtain c t where s: "s = c # t" "is_digit c \<or> c = CHR ''-''"
    by (rule at_char_cases)
  with digit_heads [OF s(2)] n show ?case by (subst skip.simps) simp
next
  case (word_at w r)
  then show ?case
    by (subst skip.simps) (auto simp: is_json_space_def is_digit_def at_word_def)
next
  case (array_at js s r)
  then show ?case by (subst skip.simps) (simp add: is_json_space_def)
next
  case (object_at ms s r)
  then show ?case by (subst skip.simps) (simp add: is_json_space_def)
next
  case (no_element first r)
  then show ?case by (subst skip.simps) simp
next
  case (element s first s1 j r1 js r)
  show ?case
  proof (intro allI impI)
    fix d
    assume "d + height (JArray (j # js)) < JSON_MAX_DEPTH"
    then have h: "Suc d + height j < JSON_MAX_DEPTH" "d + height (JArray js) < JSON_MAX_DEPTH"
      unfolding height_array by auto
    from json_at_no_space [OF element(2)] have "\<not> at_char (\<lambda>c. c = CHR '']'') s1"
      by (cases s1) (auto simp: is_json_space_def)
    with h element show "skip J (At_Elements first) (Suc d) s = Some (Some r)"
      by (subst skip.simps) (simp add: skip_value_space)
  qed
next
  case (no_member first r)
  then show ?case by (subst skip.simps) simp
next
  case (member s first s1 k s2 s3 j r1 ms r)
  show ?case
  proof (intro allI impI)
    fix d
    assume "d + height (JObject ((k, j) # ms)) < JSON_MAX_DEPTH"
    then have h: "Suc d + height j < JSON_MAX_DEPTH" "d + height (JObject ms) < JSON_MAX_DEPTH"
      unfolding height_object by auto
    show "skip J (At_Members first) (Suc d) s = Some (Some r)"
    proof (cases "at_char (\<lambda>c. c = CHR ''}'') s1")
      case False
      with h member show ?thesis by (subst skip.simps) (simp add: skip_value_space)
    next
      case True
      then have "at_char (\<lambda>c. c = CHR ''}'') (skip_space s1)"
        by (elim at_char_cases) (simp add: is_json_space_def)
      with member(2) show ?thesis by (elim at_char_cases) simp
    qed
  qed
qed

subsection \<open>The scanner accepts nothing else\<close>

definition spans :: "json_lib \<Rightarrow> skip_at \<Rightarrow> nat \<Rightarrow> string \<Rightarrow> string \<Rightarrow> bool" where
  "spans J at d s r =
     (case at of
        At_Value \<Rightarrow> \<exists>j. json_at J j (skip_space s) r \<and> d + height j < JSON_MAX_DEPTH
      | At_Elements first \<Rightarrow> \<forall>n. d = Suc n \<longrightarrow> n < JSON_MAX_DEPTH \<longrightarrow>
          (\<exists>js. elements_at J first js s r \<and> n + height (JArray js) < JSON_MAX_DEPTH)
      | At_Members first \<Rightarrow> \<forall>n. d = Suc n \<longrightarrow> n < JSON_MAX_DEPTH \<longrightarrow>
          (\<exists>ms. members_at J first ms s r \<and> n + height (JObject ms) < JSON_MAX_DEPTH))"

lemma spans_value: "json_at J j (skip_space s) r \<Longrightarrow> d + height j < JSON_MAX_DEPTH \<Longrightarrow> spans J At_Value d s r"
  by (auto simp: spans_def)

lemma spans_word:
  "at_word w (skip_space s) \<Longrightarrow> w \<in> {''true'', ''false'', ''null''} \<Longrightarrow> d < JSON_MAX_DEPTH \<Longrightarrow>
   spans J At_Value d s (drop (length w) (skip_space s))"
proof -
  assume w: "at_word w (skip_space s)" "w \<in> {''true'', ''false'', ''null''}" and d: "d < JSON_MAX_DEPTH"
  from w(1) obtain r where "skip_space s = w @ r" unfolding at_word_append ..
  with word_at [OF w(2)] d show ?thesis by (intro spans_value [of J "JWord w"]) simp_all
qed

lemma spans_elements:
  assumes "spans J (At_Elements True) (d + 1) (skip_space (tl (skip_space s))) r"
    and "at_char (\<lambda>c. c = CHR ''['') (skip_space s)" and "d < JSON_MAX_DEPTH"
  shows "spans J At_Value d s r"
proof -
  from assms(1,3) obtain js where js: "elements_at J True js (skip_space (tl (skip_space s))) r"
    "d + height (JArray js) < JSON_MAX_DEPTH" by (auto simp: spans_def)
  with assms(2) have "json_at J (JArray js) (skip_space s) r"
    by (elim at_char_cases) (simp add: array_at)
  then show ?thesis using js(2) by (rule spans_value)
qed

lemma spans_members:
  assumes "spans J (At_Members True) (d + 1) (skip_space (tl (skip_space s))) r"
    and "at_char (\<lambda>c. c = CHR ''{'') (skip_space s)" and "d < JSON_MAX_DEPTH"
  shows "spans J At_Value d s r"
proof -
  from assms(1,3) obtain ms where ms: "members_at J True ms (skip_space (tl (skip_space s))) r"
    "d + height (JObject ms) < JSON_MAX_DEPTH" by (auto simp: spans_def)
  with assms(2) have "json_at J (JObject ms) (skip_space s) r"
    by (elim at_char_cases) (simp add: object_at)
  then show ?thesis using ms(2) by (rule spans_value)
qed

lemma spans_element:
  assumes "if first then s = s1 else s = CHR '','' # s1" and "spans J At_Value d s1 r1"
    and "spans J (At_Elements False) d (skip_space r1) r"
  shows "spans J (At_Elements first) d s r"
proof -
  have "\<exists>js. elements_at J first js s r \<and> n + height (JArray js) < JSON_MAX_DEPTH"
    if n: "d = Suc n" "n < JSON_MAX_DEPTH" for n
  proof -
    from assms(2) n obtain j where j: "json_at J j (skip_space s1) r1" "Suc n + height j < JSON_MAX_DEPTH"
      by (auto simp: spans_def)
    from assms(3) n obtain js where js: "elements_at J False js (skip_space r1) r"
      "n + height (JArray js) < JSON_MAX_DEPTH"
      by (auto simp: spans_def)
    have "elements_at J first (j # js) s r"
      by (rule element [OF _ j(1) js(1)]) (use assms(1) in \<open>simp split: if_splits\<close>)
    with j js show ?thesis unfolding height_array [symmetric]
      by (intro exI [of _ "j # js"]) (simp only: height_array simp_thms)
  qed
  then show ?thesis by (simp add: spans_def)
qed

lemma spans_member:
  assumes "if first then s = s1 else s = CHR '','' # s1"
    and "at_char (\<lambda>c. c = QUOTE) (skip_space s1)"
    and "read_string J (Some JSON_KEY_CAPACITY) (skip_space s1) = Some (k, s2)"
    and "skip_space s2 = CHR '':'' # s3" and "spans J At_Value d s3 r1"
    and "spans J (At_Members False) d (skip_space r1) r"
  shows "spans J (At_Members first) d s r"
proof -
  have "\<exists>ms. members_at J first ms s r \<and> n + height (JObject ms) < JSON_MAX_DEPTH"
    if n: "d = Suc n" "n < JSON_MAX_DEPTH" for n
  proof -
    from assms(5) n obtain j where j: "json_at J j (skip_space s3) r1" "Suc n + height j < JSON_MAX_DEPTH"
      by (auto simp: spans_def)
    from assms(6) n obtain ms where ms: "members_at J False ms (skip_space r1) r"
      "n + height (JObject ms) < JSON_MAX_DEPTH"
      by (auto simp: spans_def)
    have "members_at J first ((k, j) # ms) s r"
      by (rule member [OF _ assms(2,3,4) j(1) ms(1)]) (use assms(1) in \<open>simp split: if_splits\<close>)
    with j ms show ?thesis
      by (intro exI [of _ "(k, j) # ms"]) (simp only: height_object simp_thms)
  qed
  then show ?thesis by (simp add: spans_def)
qed

definition starts_quoted :: "json_lib \<Rightarrow> bool" where
  "starts_quoted J \<longleftrightarrow>
     (\<forall>cap s t r. read_string J cap s = Some (t, r) \<longrightarrow> at_char (\<lambda>c. c = QUOTE) s)"

lemma skip_spans_step:
  assumes "skip J at d s = Some out"
  shows "starts_quoted J \<longrightarrow> (\<forall>r. out = Some r \<longrightarrow> spans J at d s r)"
proof (rule skip.raw_induct [OF _ assms])
  fix loop J at depth s out
  assume ih: "\<And>J at d s out. loop J at d s = Some out \<Longrightarrow>
      starts_quoted J \<longrightarrow> (\<forall>r. out = Some r \<longrightarrow> spans J at d s r)"
    and step: "(case at of
        At_Value \<Rightarrow>
          if JSON_MAX_DEPTH \<le> depth then Some None
          else
            (let s1 = skip_space s in
             if at_char (\<lambda>c. c = CHR 0x22) s1 then Some (map_option snd (read_string J None s1))
             else if at_char (\<lambda>c. c = CHR ''{'') s1
             then loop J (At_Members True) (depth + 1) (skip_space (tl s1))
             else if at_char (\<lambda>c. c = CHR ''['') s1
             then loop J (At_Elements True) (depth + 1) (skip_space (tl s1))
             else if at_char (\<lambda>c. is_digit c \<or> c = CHR ''-'') s1 then Some (skip_number s1)
             else if at_word ''true'' s1 \<or> at_word ''null'' s1 then Some (Some (drop 4 s1))
             else if at_word ''false'' s1 then Some (Some (drop 5 s1))
             else Some None)
      | At_Members first \<Rightarrow>
          if at_char (\<lambda>c. c = CHR ''}'') s then Some (Some (tl s))
          else
            (case (if first then Some s else expect (CHR '','') s) of
               None \<Rightarrow> Some None
             | Some s1 \<Rightarrow>
                 (case read_string J (Some JSON_KEY_CAPACITY) (skip_space s1) of
                    None \<Rightarrow> Some None
                  | Some (key, s2) \<Rightarrow>
                      (case expect (CHR '':'') (skip_space s2) of
                         None \<Rightarrow> Some None
                       | Some s3 \<Rightarrow>
                           Option.bind (loop J At_Value depth s3)
                             (\<lambda>r. case r of
                                None \<Rightarrow> Some None
                              | Some s4 \<Rightarrow> loop J (At_Members False) depth (skip_space s4)))))
      | At_Elements first \<Rightarrow>
          if at_char (\<lambda>c. c = CHR '']'') s then Some (Some (tl s))
          else
            (case (if first then Some s else expect (CHR '','') s) of
               None \<Rightarrow> Some None
             | Some s1 \<Rightarrow>
                 Option.bind (loop J At_Value depth s1)
                   (\<lambda>r. case r of
                      None \<Rightarrow> Some None
                    | Some s2 \<Rightarrow> loop J (At_Elements False) depth (skip_space s2)))) = Some out"
  have rec: "spans J at d s r" if "starts_quoted J" "loop J at d s = Some (Some r)" for at d s r
    using ih [OF that(2)] that(1) by blast
  show "starts_quoted J \<longrightarrow> (\<forall>r. out = Some r \<longrightarrow> spans J at depth s r)"
  proof (intro impI allI)
    fix r
    assume J: "starts_quoted J" and out: "out = Some r"
    show "spans J at depth s r"
    proof (cases at)
      case At_Value
      from step out have d: "depth < JSON_MAX_DEPTH"
        unfolding At_Value by (simp split: if_splits)
      show ?thesis
      proof (cases "at_char (\<lambda>c. c = QUOTE) (skip_space s)")
        case True
        with step out d obtain t where "read_string J None (skip_space s) = Some (t, r)"
          unfolding At_Value by (auto simp: map_option_case split: option.splits)
        from string_at [OF True this] d show ?thesis
          unfolding At_Value by (intro spans_value [of J "JString t"]) auto
      next
        case False
        note noquote = this
        show ?thesis
        proof (cases "at_char (\<lambda>c. c = CHR ''{'') (skip_space s) \<or>
            at_char (\<lambda>c. c = CHR ''['') (skip_space s)")
          case True
          then show ?thesis
          proof
            assume b: "at_char (\<lambda>c. c = CHR ''{'') (skip_space s)"
            with step out d noquote show ?thesis
              unfolding At_Value by (intro spans_members rec J) simp_all
          next
            assume b: "at_char (\<lambda>c. c = CHR ''['') (skip_space s)"
            then have "\<not> at_char (\<lambda>c. c = CHR ''{'') (skip_space s)" by (auto elim!: at_char_cases)
            with b step out d noquote show ?thesis
              unfolding At_Value by (intro spans_elements rec J) simp_all
          qed
        next
          case False
          then have noopen: "\<not> at_char (\<lambda>c. c = CHR ''{'') (skip_space s)"
            "\<not> at_char (\<lambda>c. c = CHR ''['') (skip_space s)" by auto
          show ?thesis
          proof (cases "at_char (\<lambda>c. is_digit c \<or> c = CHR ''-'') (skip_space s)")
            case True
            with noopen step out d noquote have "skip_number (skip_space s) = Some r"
              unfolding At_Value by simp
            then obtain n where "number_at n (skip_space s) r" unfolding skip_number_exact ..
            with d show ?thesis
              unfolding At_Value by (intro spans_value [of J "JNumber n"] number_value) auto
          next
            case False
            with noopen step out d noquote show ?thesis
              unfolding At_Value
              using spans_word [of "''true''" s depth J] spans_word [of "''null''" s depth J]
                spans_word [of "''false''" s depth J]
              by (auto simp: Let_def numeral_eq_Suc split: if_splits)
          qed
        qed
      qed
    next
      case (At_Members first)
      show ?thesis
      proof (cases "at_char (\<lambda>c. c = CHR ''}'') s")
        case True
        with step out show ?thesis
          unfolding At_Members
          by (elim at_char_cases) (auto simp: spans_def height.simps intro!: exI [of _ "[]"] no_member)
      next
        case False
        with step out obtain s1 k s2 s3 r1 where m:
          "(if first then Some s else expect (CHR '','') s) = Some s1"
          "read_string J (Some JSON_KEY_CAPACITY) (skip_space s1) = Some (k, s2)"
          "expect (CHR '':'') (skip_space s2) = Some s3"
          "loop J At_Value depth s3 = Some (Some r1)"
          "loop J (At_Members False) depth (skip_space r1) = Some (Some r)"
          unfolding At_Members
          by (auto simp: bind_eq_Some_conv split: option.splits)
        from m(2) J have "at_char (\<lambda>c. c = QUOTE) (skip_space s1)"
          unfolding starts_quoted_def by blast
        with m show ?thesis
          unfolding At_Members
          by (intro spans_member [of first s s1 J k s2 s3 depth r1])
            (auto simp: expect_Some intro: rec J)
      qed
    next
      case (At_Elements first)
      show ?thesis
      proof (cases "at_char (\<lambda>c. c = CHR '']'') s")
        case True
        with step out show ?thesis
          unfolding At_Elements
          by (elim at_char_cases) (auto simp: spans_def height.simps intro!: exI [of _ "[]"] no_element)
      next
        case False
        with step out obtain s1 r1 where
          "(if first then Some s else expect (CHR '','') s) = Some s1"
          "loop J At_Value depth s1 = Some (Some r1)"
          "loop J (At_Elements False) depth (skip_space r1) = Some (Some r)"
          unfolding At_Elements
          by (auto simp: bind_eq_Some_conv split: option.splits)
        then show ?thesis
          unfolding At_Elements
          by (intro spans_element [of first s s1 J depth r1]) (auto simp: expect_Some intro: rec J)
      qed
    qed
  qed
qed

context json_reader
begin

lemma reader_starts_quoted: "starts_quoted J"
  unfolding starts_quoted_def using read_starts by blast

lemma skip_value_accepts:
  "skip_value J d s = Some (Some r) \<longleftrightarrow>
     (\<exists>j. json_at J j (skip_space s) r \<and> d + height j < JSON_MAX_DEPTH)"
proof
  assume "skip_value J d s = Some (Some r)"
  from skip_spans_step [OF this [unfolded skip_value_def]] reader_starts_quoted
  show "\<exists>j. json_at J j (skip_space s) r \<and> d + height j < JSON_MAX_DEPTH"
    by (simp add: spans_def)
next
  assume "\<exists>j. json_at J j (skip_space s) r \<and> d + height j < JSON_MAX_DEPTH"
  then show "skip_value J d s = Some (Some r)"
    using skip_accepts_step(1) [of J _ "skip_space s" r]
    by (auto simp: skip_value_def skip_value_space)
qed

end

end
