(* ===== verification/Summary_Members.thy ===== *)
theory Summary_Members
  imports Summary_Grammar
begin

section \<open>Objects whose keys occur once\<close>

text \<open>
  The five loops over members refuse a key they have seen, read the value of a key they want
  and skip the others. Their common contract is the locale \<open>unique_members\<close>: the state stands
  for the map of what has been read so far. It is interpreted on the five handlers.
\<close>

subsection \<open>Numbers that fit\<close>

lemma size_step: "(SIZE_MAX - d) div 10 < n \<longleftrightarrow> SIZE_MAX < n * 10 + d" if "d < 10" for n d :: nat
proof -
  have "(SIZE_MAX - d) div 10 < n \<longleftrightarrow> SIZE_MAX - d < n * 10"
    by (simp add: div_less_iff_less_mult)
  moreover have "d \<le> SIZE_MAX" using that by (simp add: SIZE_MAX_def)
  ultimately show ?thesis by linarith
qed

lemma digit_value_bound: "is_digit c \<Longrightarrow> digit_value c < 10"
proof -
  assume "is_digit c"
  then have "(of_char c :: nat) \<le> 57" by (simp add: is_digit_def)
  then show ?thesis unfolding digit_value_def by linarith
qed

lemma digits_value_mono: "acc \<le> digits_value acc s"
proof (induction s arbitrary: acc)
  case (Cons c s)
  have "acc \<le> acc * 10 + digit_value c" by simp
  also have "\<dots> \<le> digits_value (acc * 10 + digit_value c) s" by (rule Cons.IH)
  finally show ?case by simp
qed simp

lemma size_loop_exact:
  "size_loop acc s = Some (n, r) \<longleftrightarrow>
     (\<exists>d. (\<forall>c \<in> set d. is_digit c) \<and> s = d @ r \<and> \<not> at_char is_digit r \<and>
        n = digits_value acc d \<and> (d = [] \<or> n \<le> SIZE_MAX))"
proof (induction acc s rule: size_loop.induct)
  case (1 acc)
  then show ?case by auto
next
  case (2 acc c s)
  show ?case
  proof (cases "is_digit c")
    case False
    then show ?thesis by (auto simp: Cons_eq_append_conv)
  next
    case digit: True
    note bound = digit_value_bound [OF digit]
    have split: "(\<exists>d. (\<forall>a \<in> set d. is_digit a) \<and> c # s = d @ r \<and> \<not> at_char is_digit r \<and>
          n = digits_value acc d \<and> (d = [] \<or> n \<le> SIZE_MAX)) \<longleftrightarrow>
        (\<exists>d. (\<forall>a \<in> set d. is_digit a) \<and> s = d @ r \<and> \<not> at_char is_digit r \<and>
          n = digits_value (acc * 10 + digit_value c) d \<and> n \<le> SIZE_MAX)"
      using digit by (auto simp: Cons_eq_append_conv)
    show ?thesis
    proof (cases "SIZE_MAX < acc * 10 + digit_value c")
      case True
      then have "\<not> digits_value (acc * 10 + digit_value c) d \<le> SIZE_MAX" for d
        using digits_value_mono [of "acc * 10 + digit_value c" d] by linarith
      with True digit show ?thesis unfolding split by (auto simp: size_step [OF bound])
    next
      case False
      with digit "2.IH" show ?thesis
        unfolding split by (auto simp: size_step [OF bound])
    qed
  qed
qed

lemma parse_size_exact:
  "parse_size s = Some (n, r) \<longleftrightarrow>
     (\<exists>d. digits_text d \<and> s = d @ r \<and> \<not> at_char is_digit r \<and> n = digits_value 0 d \<and> n \<le> SIZE_MAX)"
  (is "_ \<longleftrightarrow> ?rhs")
proof (cases "at_char is_digit s")
  case True
  then have "parse_size s = size_loop 0 s" by (simp add: parse_size_def)
  moreover have "(\<exists>d. (\<forall>c \<in> set d. is_digit c) \<and> s = d @ r \<and> \<not> at_char is_digit r \<and>
      n = digits_value 0 d \<and> (d = [] \<or> n \<le> SIZE_MAX)) \<longleftrightarrow> ?rhs"
    using True by (auto simp: digits_text_def)
  ultimately show ?thesis by (simp only: size_loop_exact)
next
  case False
  then show ?thesis by (auto simp: parse_size_def dest: digits_text_hd)
qed

lemma distinct_count_list: "distinct xs \<longleftrightarrow> (\<forall>x. count_list xs x \<le> 1)"
proof (induction xs)
  case (Cons a xs)
  have "a \<notin> set xs \<longleftrightarrow> count_list xs a = 0" by (simp add: count_list_0_iff)
  moreover have "count_list (a # xs) x \<le> 1 \<longleftrightarrow> count_list xs x \<le> (if x = a then 0 else 1)" for x
    by simp
  ultimately show ?case unfolding distinct.simps Cons.IH
    by (metis le_zero_eq zero_le_one)
qed simp

subsection \<open>The contract\<close>

locale unique_members =
  fixes J :: json_lib
    and handler :: "string \<Rightarrow> 'st \<Rightarrow> string \<Rightarrow> ('st \<times> string option) option"
    and lookup :: "string \<Rightarrow> 'f option"
    and reads :: "'f \<Rightarrow> string \<Rightarrow> 'x \<Rightarrow> string \<Rightarrow> bool"
    and state_of :: "('f \<Rightarrow> 'x option) \<Rightarrow> 'st"
    and depth :: nat
  assumes step: "handler k (state_of M) v = Some (st, Some e) \<longleftrightarrow>
     (case lookup k of
        None \<Rightarrow> skip_value J depth v = Some (Some e) \<and> st = state_of M
      | Some f \<Rightarrow> M f = None \<and> (\<exists>x. reads f v x e \<and> st = state_of (M(f \<mapsto> x))))"
begin

definition fields :: "(string \<times> string \<times> string) list \<Rightarrow> 'f list" where
  "fields ms = List.map_filter (\<lambda>m. lookup (fst m)) ms"

definition value_read :: "('f \<Rightarrow> 'x option) \<Rightarrow> string \<times> string \<times> string \<Rightarrow> bool" where
  "value_read M m \<longleftrightarrow> (case m of (k, v, e) \<Rightarrow>
     (case lookup k of
        None \<Rightarrow> skip_value J depth v = Some (Some e)
      | Some f \<Rightarrow> \<exists>x. M f = Some x \<and> reads f v x e))"

lemma fields_Cons: "fields (m # ms) = (case lookup (fst m) of None \<Rightarrow> fields ms | Some f \<Rightarrow> f # fields ms)"
  by (simp add: fields_def map_filter_simps split: option.splits)

lemma fields_Nil [simp]: "fields [] = []"
  by (simp add: fields_def map_filter_simps)

lemma run_from:
  "run_members handler ms (state_of M0) = Some st \<longleftrightarrow>
     (\<exists>M. st = state_of M \<and> distinct (fields ms) \<and> set (fields ms) \<inter> dom M0 = {} \<and>
        M0 \<subseteq>\<^sub>m M \<and> dom M = dom M0 \<union> set (fields ms) \<and> (\<forall>m \<in> set ms. value_read M m))"
  (is "_ \<longleftrightarrow> (\<exists>M. ?P ms M0 M)")
proof (induction ms arbitrary: M0)
  case Nil
  have "M0 \<subseteq>\<^sub>m M \<and> dom M = dom M0 \<longleftrightarrow> M = M0" for M
    by (auto simp: map_le_def intro: map_le_antisym)
  then show ?case by auto
next
  case (Cons m ms)
  obtain k v e where m: "m = (k, v, e)" by (cases m) auto
  have unfold: "run_members handler (m # ms) (state_of M0) = Some st \<longleftrightarrow>
      (\<exists>st1. handler k (state_of M0) v = Some (st1, Some e) \<and> run_members handler ms st1 = Some st)"
    unfolding m run_members_Cons ..
  show ?case
  proof (cases "lookup k")
    case None
    then have "?P (m # ms) M0 M \<longleftrightarrow> skip_value J depth v = Some (Some e) \<and> ?P ms M0 M" for M
      by (auto simp: m fields_Cons value_read_def)
    then show ?thesis unfolding unfold using Cons.IH [of M0] None by (auto simp: step)
  next
    case (Some f)
    have eq: "(\<exists>M. ?P (m # ms) M0 M) \<longleftrightarrow>
        (M0 f = None \<and> (\<exists>x M. reads f v x e \<and> ?P ms (M0(f \<mapsto> x)) M))"
    proof (intro iffI conjI)
      assume "\<exists>M. ?P (m # ms) M0 M"
      then obtain M where M: "?P (m # ms) M0 M" ..
      with Some show "M0 f = None" by (auto simp: m fields_Cons dom_def)
      from M Some obtain x where x: "M f = Some x" "reads f v x e"
        by (auto simp: m value_read_def)
      from M Some have "distinct (fields ms)" "f \<notin> set (fields ms)" "set (fields ms) \<inter> dom M0 = {}"
        "M0 \<subseteq>\<^sub>m M" "dom M = insert f (dom M0 \<union> set (fields ms))" "st = state_of M"
        "\<forall>m \<in> set ms. value_read M m"
        by (auto simp: m fields_Cons)
      with x have "?P ms (M0(f \<mapsto> x)) M" by (auto simp: map_le_def split: if_splits)
      with x show "\<exists>x M. reads f v x e \<and> ?P ms (M0(f \<mapsto> x)) M" by blast
    next
      assume "M0 f = None \<and> (\<exists>x M. reads f v x e \<and> ?P ms (M0(f \<mapsto> x)) M)"
      then obtain x M where h: "M0 f = None" "reads f v x e" "?P ms (M0(f \<mapsto> x)) M" by blast
      then have "M f = Some x" "M0 \<subseteq>\<^sub>m M" by (auto simp: map_le_def dom_def)
      with h Some have "?P (m # ms) M0 M"
        by (auto simp: m fields_Cons value_read_def)
      then show "\<exists>M. ?P (m # ms) M0 M" by (intro exI [of _ M])
    qed
    have "run_members handler (m # ms) (state_of M0) = Some st \<longleftrightarrow>
        M0 f = None \<and> (\<exists>x. reads f v x e \<and> run_members handler ms (state_of (M0(f \<mapsto> x))) = Some st)"
      unfolding unfold step Some option.case by blast
    then show ?thesis unfolding eq Cons.IH by blast
  qed
qed

lemma run_exact:
  "run_members handler ms (state_of Map.empty) = Some st \<longleftrightarrow>
     (\<exists>M. st = state_of M \<and> distinct (fields ms) \<and> dom M = set (fields ms) \<and>
        (\<forall>m \<in> set ms. value_read M m))"
  by (simp add: run_from)

text \<open>A field that is always found occurs exactly once among the keys.\<close>

lemma count_fields: "length (filter (\<lambda>m. lookup (fst m) = Some f) ms) = count_list (fields ms) f"
  by (induction ms) (auto simp: fields_Cons split: option.splits)

lemma all_fields_once:
  "distinct (fields ms) \<and> (\<forall>f. f \<in> set (fields ms)) \<longleftrightarrow>
     (\<forall>f. length (filter (\<lambda>m. lookup (fst m) = Some f) ms) = 1)"
proof -
  have "f \<in> set (fields ms) \<longleftrightarrow> count_list (fields ms) f \<noteq> 0" for f
    by (simp add: count_list_0_iff)
  moreover have "n \<le> 1 \<and> n \<noteq> 0 \<longleftrightarrow> n = 1" for n :: nat by auto
  ultimately show ?thesis
    unfolding count_fields distinct_count_list by blast
qed

end

text \<open>When only one key is wanted, and the state shows the value that was read for it.\<close>

definition key_only :: "string \<Rightarrow> string \<Rightarrow> unit option" where
  "key_only wanted k = (if k = wanted then Some () else None)"

lemma key_only_Some [simp]: "key_only wanted k = Some u \<longleftrightarrow> k = wanted"
  by (simp add: key_only_def)

definition found_once ::
  "json_lib \<Rightarrow> string \<Rightarrow> (string \<Rightarrow> 'x \<Rightarrow> string \<Rightarrow> bool) \<Rightarrow> nat \<Rightarrow> 'x \<Rightarrow>
   (string \<times> string \<times> string) list \<Rightarrow> bool" where
  "found_once J wanted reads depth x ms \<longleftrightarrow>
     length (filter (\<lambda>m. fst m = wanted) ms) = 1 \<and>
     (\<forall>(k, v, e) \<in> set ms. if k = wanted then reads v x e
        else skip_value J depth v = Some (Some e))"

locale single_member =
  unique_members J handler "key_only wanted" "\<lambda>_. reads" state_of depth
  for J :: json_lib
    and handler :: "string \<Rightarrow> 'st \<Rightarrow> string \<Rightarrow> ('st \<times> string option) option"
    and wanted :: string and reads :: "string \<Rightarrow> 'x \<Rightarrow> string \<Rightarrow> bool"
    and state_of :: "(unit \<Rightarrow> 'x option) \<Rightarrow> 'st" and depth :: nat +
  assumes state_shows: "state_of M = state_of (\<lambda>_. Some x) \<Longrightarrow> M () = Some x"
begin

lemma value_read_single:
  "M () = Some x \<Longrightarrow> value_read M (k, v, e) \<longleftrightarrow>
     (if k = wanted then reads v x e else skip_value J depth v = Some (Some e))"
  by (simp add: value_read_def key_only_def)

lemma fields_single:
  "distinct (fields ms) \<and> () \<in> set (fields ms) \<longleftrightarrow> length (filter (\<lambda>m. fst m = wanted) ms) = 1"
  using all_fields_once [of ms] by simp

lemma run_single:
  "run_members handler ms (state_of Map.empty) = Some (state_of (\<lambda>_. Some x)) \<longleftrightarrow>
     found_once J wanted reads depth x ms"
proof -
  have found: "found_once J wanted reads depth x ms \<longleftrightarrow>
      (distinct (fields ms) \<and> () \<in> set (fields ms)) \<and> (\<forall>m \<in> set ms. value_read M m)"
    if "M () = Some x" for M
    using that unfolding found_once_def fields_single
    by (auto simp: value_read_single split: if_splits)
  show ?thesis
  proof
    assume "run_members handler ms (state_of Map.empty) = Some (state_of (\<lambda>_. Some x))"
    then obtain M where M: "state_of M = state_of (\<lambda>_. Some x)" "distinct (fields ms)"
      "dom M = set (fields ms)" "\<forall>m \<in> set ms. value_read M m"
      unfolding run_exact by metis
    from state_shows [OF M(1)] M show "found_once J wanted reads depth x ms"
      by (subst found [of M]) auto
  next
    assume h: "found_once J wanted reads depth x ms"
    from h found [of "\<lambda>_. Some x"] have "distinct (fields ms)" "set (fields ms) = UNIV"
      "\<forall>m \<in> set ms. value_read (\<lambda>_. Some x) m" by auto
    then show "run_members handler ms (state_of Map.empty) = Some (state_of (\<lambda>_. Some x))"
      unfolding run_exact by (intro exI [of _ "\<lambda>_. Some x"]) auto
  qed
qed

end

subsection \<open>The health of the log\<close>

definition health_state :: "bool \<Rightarrow> (unit \<Rightarrow> bool option) \<Rightarrow> bool \<times> bool" where
  "health_state b0 M = (M () \<noteq> None, case M () of None \<Rightarrow> b0 | Some b \<Rightarrow> b)"

interpretation log_health: single_member J "log_health_member J" "''complete''"
  "\<lambda>v b e. parse_boolean v = Some (b, e)" "health_state b0" "Suc 0" for J b0
  by unfold_locales
    (auto simp: log_health_member_def key_only_def health_state_def skip_member_def
      split: option.splits)

text \<open>
  \<open>v\<close> is an object with one member \<open>complete\<close>, a boolean; the others are skipped at depth 1.
\<close>

definition health_at :: "json_lib \<Rightarrow> string \<Rightarrow> bool \<Rightarrow> string \<Rightarrow> bool" where
  "health_at J v b e \<longleftrightarrow> (\<exists>s ms. v = CHR ''{'' # s \<and> members_in J True s ms e \<and>
     found_once J ''complete'' (\<lambda>v b e. parse_boolean v = Some (b, e)) (Suc 0) b ms)"

lemma parse_log_health_exact:
  "parse_log_health J b0 v = Some (b, Some e) \<longleftrightarrow> health_at J v b e"
proof (cases "expect (CHR ''{'') v")
  case None
  then show ?thesis by (auto simp: parse_log_health_def health_at_def)
next
  case (Some s)
  then have v: "v = CHR ''{'' # s" by (simp add: expect_Some)
  have run: "run_members (log_health_member J) ms (False, b0) = Some (True, b) \<longleftrightarrow>
      found_once J ''complete'' (\<lambda>v b e. parse_boolean v = Some (b, e)) (Suc 0) b ms" for ms
    using log_health.run_single [of J ms b0 b] by (simp add: health_state_def)
  have "parse_log_health J b0 v = Some (b, Some e) \<longleftrightarrow>
      each_member J (log_health_member J) True (False, b0) s = Some ((True, b), Some e)"
    by (auto simp: parse_log_health_def Some split: option.splits prod.splits if_splits)
  also have "\<dots> \<longleftrightarrow> health_at J v b e"
    unfolding each_member_exact run health_at_def v by auto
  finally show ?thesis .
qed

subsection \<open>One number of the top level\<close>

definition size_state :: "(unit \<Rightarrow> nat option) \<Rightarrow> nat option" where
  "size_state M = M ()"

interpretation top_size: single_member J "top_size_member J wanted" wanted
  "\<lambda>v n e. parse_size v = Some (n, e)" size_state 0 for J wanted
  by unfold_locales
    (auto simp: top_size_member_def key_only_def size_state_def skip_member_def
      split: option.splits)

text \<open>The text is one object, and these are its members.\<close>

definition document :: "json_lib \<Rightarrow> string \<Rightarrow> (string \<times> string \<times> string) list \<Rightarrow> bool" where
  "document J t ms \<longleftrightarrow> (\<exists>s r. skip_space t = CHR ''{'' # s \<and> members_in J True s ms r \<and>
     skip_space r = [])"

lemma find_top_level_size_exact:
  "find_top_level_size J t wanted = Some (True, Some n) \<longleftrightarrow>
     (\<exists>ms. document J t ms \<and>
        found_once J wanted (\<lambda>v n e. parse_size v = Some (n, e)) 0 n ms)"
proof (cases "expect (CHR ''{'') (skip_space t)")
  case None
  then show ?thesis by (auto simp: find_top_level_size_def document_def)
next
  case (Some s)
  then have t: "skip_space t = CHR ''{'' # s" by (simp add: expect_Some)
  have run: "run_members (top_size_member J wanted) ms None = Some (Some n) \<longleftrightarrow>
      found_once J wanted (\<lambda>v n e. parse_size v = Some (n, e)) 0 n ms" for ms
    using top_size.run_single [of J wanted ms n] by (simp add: size_state_def)
  have "find_top_level_size J t wanted = Some (True, Some n) \<longleftrightarrow>
      (\<exists>r. each_member J (top_size_member J wanted) True None s = Some (Some n, Some r) \<and>
         skip_space r = [])"
    by (auto simp: find_top_level_size_def Some split: option.splits prod.splits)
  also have "\<dots> \<longleftrightarrow> (\<exists>ms. document J t ms \<and>
        found_once J wanted (\<lambda>v n e. parse_size v = Some (n, e)) 0 n ms)"
    unfolding each_member_exact run document_def t by auto
  finally show ?thesis .
qed

subsection \<open>The resource summary\<close>

text \<open>What is read for a field of the resource summary.\<close>

datatype field_value = Text string | Size nat | Flag bool

fun field_at :: "json_lib \<Rightarrow> resource_field \<Rightarrow> string \<Rightarrow> field_value \<Rightarrow> string \<Rightarrow> bool" where
  "field_at J FIELD_SCHEMA v (Text t) e \<longleftrightarrow> read_string J (Some JSON_KEY_CAPACITY) v = Some (t, e)"
| "field_at J (FIELD_SIZE g) v (Size n) e \<longleftrightarrow> parse_size v = Some (n, e)"
| "field_at J FIELD_LOG_HEALTH v (Flag b) e \<longleftrightarrow> health_at J v b e"
| "field_at J f v x e \<longleftrightarrow> False"

lemma field_at_schema:
  "field_at J FIELD_SCHEMA v x e \<longleftrightarrow>
     (\<exists>t. x = Text t \<and> read_string J (Some JSON_KEY_CAPACITY) v = Some (t, e))"
  by (cases x) auto

lemma field_at_size:
  "field_at J (FIELD_SIZE g) v x e \<longleftrightarrow> (\<exists>n. x = Size n \<and> parse_size v = Some (n, e))"
  by (cases x) auto

lemma field_at_health:
  "field_at J FIELD_LOG_HEALTH v x e \<longleftrightarrow> (\<exists>b. x = Flag b \<and> health_at J v b e)"
  by (cases x) auto

definition size_in :: "(resource_field \<Rightarrow> field_value option) \<Rightarrow> size_field \<Rightarrow> nat" where
  "size_in M g = (case M (FIELD_SIZE g) of Some (Size n) \<Rightarrow> n | _ \<Rightarrow> 0)"

definition summary_of :: "(resource_field \<Rightarrow> field_value option) \<Rightarrow> resource_summary" where
  "summary_of M = \<lparr>rs_records = size_in M FIELD_RECORDS, rs_fd_leaks = size_in M FIELD_FD_LEAKS,
     rs_allocation_leaks = size_in M FIELD_ALLOCATION_LEAKS,
     rs_bad_releases = size_in M FIELD_BAD_RELEASES,
     rs_exec_inheritances = size_in M FIELD_EXEC_INHERITANCES,
     rs_generic_resource_leaks = size_in M FIELD_GENERIC_RESOURCE_LEAKS,
     rs_generic_bad_releases = size_in M FIELD_GENERIC_BAD_RELEASES,
     rs_malformed = size_in M FIELD_MALFORMED, rs_bad_version = size_in M FIELD_BAD_VERSION,
     rs_refused = size_in M FIELD_REFUSED, rs_log_complete = (M FIELD_LOG_HEALTH = Some (Flag True)),
     rs_parsed = False\<rparr>"

definition resource_state_of :: "(resource_field \<Rightarrow> field_value option) \<Rightarrow> resource_state" where
  "resource_state_of M = \<lparr>rst_summary = summary_of M, rst_seen = dom M,
     rst_schema_ok = (M FIELD_SCHEMA = Some (Text RESOURCE_SCHEMA))\<rparr>"

lemma size_field_name_inj: "size_field_name f = size_field_name g \<longleftrightarrow> f = g"
  by (cases f; cases g; simp)

lemma size_field_name_other: "size_field_name f \<noteq> ''schema''" "size_field_name f \<noteq> ''log_health''"
  by (cases f; simp)+

lemma field_name_inj: "field_name f = field_name g \<longleftrightarrow> f = g"
  by (cases f; cases g) (auto simp: size_field_name_inj size_field_name_other
      size_field_name_other [symmetric])

lemma set_resource_fields: "set resource_fields = UNIV"
proof -
  have "f \<in> set resource_fields" for f
  proof (cases f)
    case (FIELD_SIZE g)
    then show ?thesis by (cases g) (simp_all add: resource_fields_def size_fields_def)
  qed (simp_all add: resource_fields_def)
  then show ?thesis by auto
qed

lemma lookup_field_exact: "lookup_field k = Some f \<longleftrightarrow> k = field_name f"
proof -
  have last: "fold (\<lambda>g found. if k = field_name g then Some g else found) gs a =
      (if \<exists>g \<in> set gs. k = field_name g then Some (THE g. k = field_name g) else a)" for gs a
  proof (induction gs arbitrary: a)
    case (Cons h gs)
    show ?case
    proof (cases "k = field_name h")
      case True
      then have "(THE g. k = field_name g) = h" by (simp add: field_name_inj)
      with True Cons show ?thesis by auto
    next
      case False
      with Cons show ?thesis by auto
    qed
  qed simp
  show ?thesis
  proof
    assume "lookup_field k = Some f"
    then obtain g where "k = field_name g" "f = (THE g. k = field_name g)"
      unfolding lookup_field_def last by (auto split: if_splits)
    then show "k = field_name f" by (simp add: field_name_inj)
  next
    assume "k = field_name f"
    then show "lookup_field k = Some f"
      unfolding lookup_field_def last by (simp add: set_resource_fields field_name_inj)
  qed
qed

lemma put_size_summary:
  "put_size g n (summary_of M) = summary_of (M(FIELD_SIZE g \<mapsto> Size n))"
  by (cases g) (simp_all add: summary_of_def size_in_def)

lemma health_summary:
  "(summary_of M)\<lparr>rs_log_complete := b\<rparr> = summary_of (M(FIELD_LOG_HEALTH \<mapsto> Flag b))"
  by (simp add: summary_of_def size_in_def)

lemma schema_summary: "summary_of (M(FIELD_SCHEMA \<mapsto> x)) = summary_of M"
  by (simp add: summary_of_def size_in_def)

lemma start_resource_state: "start_resource = resource_state_of Map.empty"
  by (simp add: start_resource_def resource_state_of_def summary_of_def size_in_def
      empty_resource_summary_def)

interpretation resource: unique_members J "resource_member J" lookup_field "field_at J"
  resource_state_of 0 for J
proof
  fix k M v st e
  show "resource_member J k (resource_state_of M) v = Some (st, Some e) \<longleftrightarrow>
     (case lookup_field k of
        None \<Rightarrow> skip_value J 0 v = Some (Some e) \<and> st = resource_state_of M
      | Some f \<Rightarrow> M f = None \<and> (\<exists>x. field_at J f v x e \<and> st = resource_state_of (M(f \<mapsto> x))))"
  proof (cases "lookup_field k")
    case None
    then show ?thesis by (auto simp: resource_member_def skip_member_def)
  next
    case (Some f)
    have seen: "f \<in> rst_seen (resource_state_of M) \<longleftrightarrow> M f \<noteq> None"
      by (auto simp: resource_state_of_def)
    show ?thesis
    proof (cases f)
      case FIELD_SCHEMA
      then show ?thesis
        using Some seen
        by (auto simp: resource_member_def field_at_schema resource_state_of_def schema_summary
            split: option.splits)
    next
      case (FIELD_SIZE g)
      then show ?thesis
        using Some seen
        by (auto simp: resource_member_def field_at_size resource_state_of_def put_size_summary
            split: option.splits)
    next
      case FIELD_LOG_HEALTH
      then show ?thesis
        using Some seen
        by (auto simp: resource_member_def field_at_health resource_state_of_def health_summary
            parse_log_health_exact [symmetric, of J _ _ _ "rs_log_complete (summary_of M)"]
            split: option.splits)
    qed
  qed
qed

definition resource_values ::
  "json_lib \<Rightarrow> (resource_field \<Rightarrow> field_value) \<Rightarrow> (string \<times> string \<times> string) list \<Rightarrow> bool" where
  "resource_values J V ms \<longleftrightarrow>
     (\<forall>f. length (filter (\<lambda>m. fst m = field_name f) ms) = 1) \<and>
     (\<forall>(k, v, e) \<in> set ms. (\<forall>f. k = field_name f \<longrightarrow> field_at J f v (V f) e) \<and>
        ((\<forall>f. k \<noteq> field_name f) \<longrightarrow> skip_value J 0 v = Some (Some e)))"

lemma resource_run:
  "(\<exists>st. run_members (resource_member J) ms start_resource = Some st \<and> rst_seen st = UNIV \<and> P st) \<longleftrightarrow>
     (\<exists>V. resource_values J V ms \<and> P (resource_state_of (\<lambda>f. Some (V f))))"
proof -
  have vals: "(\<forall>m \<in> set ms. resource.value_read J (\<lambda>f. Some (V f)) m) \<longleftrightarrow>
      (\<forall>(k, v, e) \<in> set ms. (\<forall>f. k = field_name f \<longrightarrow> field_at J f v (V f) e) \<and>
        ((\<forall>f. k \<noteq> field_name f) \<longrightarrow> skip_value J 0 v = Some (Some e)))" for V
  proof -
    have "resource.value_read J (\<lambda>f. Some (V f)) (k, v, e) \<longleftrightarrow>
        (\<forall>f. k = field_name f \<longrightarrow> field_at J f v (V f) e) \<and>
        ((\<forall>f. k \<noteq> field_name f) \<longrightarrow> skip_value J 0 v = Some (Some e))" for k v e
    proof (cases "lookup_field k")
      case None
      then have "k \<noteq> field_name f" for f using lookup_field_exact [of k f] by auto
      with None show ?thesis by (simp add: resource.value_read_def)
    next
      case (Some f)
      then have "k = field_name f" by (simp add: lookup_field_exact)
      with Some show ?thesis by (auto simp: resource.value_read_def field_name_inj)
    qed
    then have "resource.value_read J (\<lambda>f. Some (V f)) m \<longleftrightarrow> (case m of (k, v, e) \<Rightarrow>
        (\<forall>f. k = field_name f \<longrightarrow> field_at J f v (V f) e) \<and>
        ((\<forall>f. k \<noteq> field_name f) \<longrightarrow> skip_value J 0 v = Some (Some e)))" for m
      by (cases m) simp
    then show ?thesis by (simp only:)
  qed
  have once: "distinct (resource.fields ms) \<and> set (resource.fields ms) = UNIV \<longleftrightarrow>
      (\<forall>f. length (filter (\<lambda>m. fst m = field_name f) ms) = 1)"
    using resource.all_fields_once [of ms] by (simp add: lookup_field_exact UNIV_eq_I set_eq_iff)
  show ?thesis
  proof
    assume "\<exists>st. run_members (resource_member J) ms start_resource = Some st \<and> rst_seen st = UNIV \<and> P st"
    then obtain M where M: "dom M = UNIV" "P (resource_state_of M)" "distinct (resource.fields ms)"
      "dom M = set (resource.fields ms)" "\<forall>m \<in> set ms. resource.value_read J M m"
      unfolding start_resource_state resource.run_exact by (auto simp: resource_state_of_def)
    define V where "V f = the (M f)" for f
    from M(1) have "M f \<noteq> None" for f by (auto simp: dom_def)
    then have "M = (\<lambda>f. Some (V f))" by (auto simp: V_def)
    with M vals [of V] once show "\<exists>V. resource_values J V ms \<and> P (resource_state_of (\<lambda>f. Some (V f)))"
      unfolding resource_values_def by (intro exI [of _ V]) auto
  next
    assume "\<exists>V. resource_values J V ms \<and> P (resource_state_of (\<lambda>f. Some (V f)))"
    then obtain V where V: "resource_values J V ms" "P (resource_state_of (\<lambda>f. Some (V f)))" by blast
    then have "run_members (resource_member J) ms start_resource = Some (resource_state_of (\<lambda>f. Some (V f)))"
      unfolding start_resource_state resource.run_exact resource_values_def
      using vals [of V] once by (intro exI [of _ "\<lambda>f. Some (V f)"]) auto
    with V show "\<exists>st. run_members (resource_member J) ms start_resource = Some st \<and>
        rst_seen st = UNIV \<and> P st"
      by (auto simp: resource_state_of_def)
  qed
qed

text \<open>The summary that a total reading of the fields gives.\<close>

definition summary_from :: "(resource_field \<Rightarrow> field_value) \<Rightarrow> resource_summary" where
  "summary_from V = (summary_of (\<lambda>f. Some (V f)))\<lparr>rs_parsed := True\<rparr>"

lemma parse_resource_exact:
  "parse_resource_summary_json J (Some t) (Some s0) = Some (True, Some sm) \<longleftrightarrow>
     (\<exists>ms V. document J t ms \<and> resource_values J V ms \<and> V FIELD_SCHEMA = Text RESOURCE_SCHEMA \<and>
        sm = summary_from V)"
proof (cases "expect (CHR ''{'') (skip_space t)")
  case None
  then show ?thesis by (auto simp: parse_resource_summary_json_def document_def)
next
  case (Some s)
  then have t: "skip_space t = CHR ''{'' # s" by (simp add: expect_Some)
  have "parse_resource_summary_json J (Some t) (Some s0) = Some (True, Some sm) \<longleftrightarrow>
      (\<exists>st r. each_member J (resource_member J) True start_resource s = Some (st, Some r) \<and>
         skip_space r = [] \<and> rst_seen st = UNIV \<and> rst_schema_ok st \<and>
         sm = (rst_summary st)\<lparr>rs_parsed := True\<rparr>)"
    by (auto simp: parse_resource_summary_json_def Some finish_resource_def Let_def
        set_resource_fields split: option.splits prod.splits)
  also have "\<dots> \<longleftrightarrow> (\<exists>ms. document J t ms \<and>
      (\<exists>st. run_members (resource_member J) ms start_resource = Some st \<and> rst_seen st = UNIV \<and>
         (rst_schema_ok st \<and> sm = (rst_summary st)\<lparr>rs_parsed := True\<rparr>)))"
    unfolding each_member_exact document_def t by auto
  also have "\<dots> \<longleftrightarrow> (\<exists>ms V. document J t ms \<and> resource_values J V ms \<and>
      V FIELD_SCHEMA = Text RESOURCE_SCHEMA \<and> sm = summary_from V)"
    unfolding resource_run by (auto simp: resource_state_of_def summary_from_def)
  finally show ?thesis .
qed

subsection \<open>The policy summary\<close>

datatype count_field = COUNT_RECORDS | COUNT_FINDINGS

fun count_name :: "count_field \<Rightarrow> string" where
  "count_name COUNT_RECORDS = ''records''"
| "count_name COUNT_FINDINGS = ''findings''"

definition count_key :: "string \<Rightarrow> count_field option" where
  "count_key k = (if k = ''records'' then Some COUNT_RECORDS
     else if k = ''findings'' then Some COUNT_FINDINGS else None)"

lemma count_key_Some: "count_key k = Some f \<longleftrightarrow> k = count_name f"
  by (cases f) (auto simp: count_key_def)

text \<open>The summary with the counts \<open>C\<close>; \<open>records\<close> may be missing.\<close>

definition policy_of :: "(count_field \<Rightarrow> nat option) \<Rightarrow> policy_summary" where
  "policy_of C = \<lparr>ps_records = (case C COUNT_RECORDS of None \<Rightarrow> 0 | Some n \<Rightarrow> n),
     ps_findings = (case C COUNT_FINDINGS of None \<Rightarrow> 0 | Some n \<Rightarrow> n),
     ps_has_records = (C COUNT_RECORDS \<noteq> None), ps_parsed = False\<rparr>"

definition count_state :: "(count_field \<Rightarrow> nat option) \<Rightarrow> policy_summary \<times> bool \<times> bool" where
  "count_state C = (policy_of C, C COUNT_RECORDS \<noteq> None, C COUNT_FINDINGS \<noteq> None)"

interpretation policy_counts: unique_members J "policy_member J" count_key
  "\<lambda>_ v n e. parse_size v = Some (n, e)" count_state 0 for J
  by unfold_locales
    (auto simp: policy_member_def count_key_def count_state_def policy_of_def skip_member_def
      split: option.splits)

definition counts_read ::
  "json_lib \<Rightarrow> (count_field \<Rightarrow> nat option) \<Rightarrow> (string \<times> string \<times> string) list \<Rightarrow> bool" where
  "counts_read J C ms \<longleftrightarrow>
     (\<forall>f. length (filter (\<lambda>m. fst m = count_name f) ms) = (if C f = None then 0 else 1)) \<and>
     (\<forall>(k, v, e) \<in> set ms. (\<forall>f. k = count_name f \<longrightarrow> (\<exists>n. C f = Some n \<and> parse_size v = Some (n, e))) \<and>
        ((\<forall>f. k \<noteq> count_name f) \<longrightarrow> skip_value J 0 v = Some (Some e)))"

definition counts_at :: "json_lib \<Rightarrow> string \<Rightarrow> (count_field \<Rightarrow> nat option) \<Rightarrow> string \<Rightarrow> bool" where
  "counts_at J v C e \<longleftrightarrow> C COUNT_FINDINGS \<noteq> None \<and>
     (\<exists>s ms. v = CHR ''{'' # s \<and> members_in J True s ms e \<and> counts_read J C ms)"

lemma count_name_inj: "count_name f = count_name g \<longleftrightarrow> f = g"
  by (cases f; cases g) simp_all

lemma counts_run:
  "run_members (policy_member J) ms (empty_policy_summary, False, False) = Some st \<longleftrightarrow>
     (\<exists>C. st = count_state C \<and> counts_read J C ms)"
proof -
  have start: "(empty_policy_summary, False, False) = count_state Map.empty"
    by (simp add: count_state_def policy_of_def empty_policy_summary_def)
  have vals: "policy_counts.value_read J C m \<longleftrightarrow> (case m of (k, v, e) \<Rightarrow>
      (\<forall>f. k = count_name f \<longrightarrow> (\<exists>n. C f = Some n \<and> parse_size v = Some (n, e))) \<and>
      ((\<forall>f. k \<noteq> count_name f) \<longrightarrow> skip_value J 0 v = Some (Some e)))" for C m
  proof -
    obtain k v e where m: "m = (k, v, e)" by (cases m) auto
    show ?thesis
    proof (cases "count_key k")
      case None
      then have "k \<noteq> count_name f" for f using count_key_Some [of k f] by auto
      with None show ?thesis by (simp add: m policy_counts.value_read_def)
    next
      case (Some f)
      then have "k = count_name f" by (simp add: count_key_Some)
      with Some show ?thesis by (auto simp: m policy_counts.value_read_def count_name_inj)
    qed
  qed
  have once: "distinct (policy_counts.fields ms) \<and> dom C = set (policy_counts.fields ms) \<longleftrightarrow>
      (\<forall>f. length (filter (\<lambda>m. fst m = count_name f) ms) = (if C f = None then 0 else 1))" for C
  proof -
    have "length (filter (\<lambda>m. fst m = count_name f) ms) = count_list (policy_counts.fields ms) f" for f
      using policy_counts.count_fields [of f ms] by (simp add: count_key_Some)
    moreover have "f \<in> set (policy_counts.fields ms) \<longleftrightarrow> count_list (policy_counts.fields ms) f \<noteq> 0" for f
      by (simp add: count_list_0_iff)
    moreover have "n \<le> 1 \<and> (c \<longleftrightarrow> n \<noteq> 0) \<longleftrightarrow> n = (if \<not> c then 0 else 1)" for n :: nat and c by auto
    ultimately show ?thesis
      unfolding distinct_count_list set_eq_iff dom_def mem_Collect_eq
      by (metis (mono_tags, lifting))
  qed
  show ?thesis
    unfolding start policy_counts.run_exact counts_read_def vals [symmetric]
    using once by blast
qed

lemma parse_policy_counts_exact:
  "parse_policy_summary J empty_policy_summary v = Some (sm, Some e) \<longleftrightarrow>
     (\<exists>C. counts_at J v C e \<and> sm = policy_of C)"
proof (cases "expect (CHR ''{'') v")
  case None
  then show ?thesis by (auto simp: parse_policy_summary_def counts_at_def)
next
  case (Some s)
  then have v: "v = CHR ''{'' # s" by (simp add: expect_Some)
  have "parse_policy_summary J empty_policy_summary v = Some (sm, Some e) \<longleftrightarrow>
      (\<exists>b. each_member J (policy_member J) True (empty_policy_summary, False, False) s =
         Some ((sm, b, True), Some e))"
    by (auto simp: parse_policy_summary_def Some split: option.splits prod.splits if_splits)
  also have "\<dots> \<longleftrightarrow> (\<exists>C. counts_at J v C e \<and> sm = policy_of C)"
    unfolding each_member_exact counts_run counts_at_def v by (auto simp: count_state_def)
  finally show ?thesis .
qed

datatype policy_field = POLICY_SCHEMA | POLICY_SUMMARY

fun policy_name :: "policy_field \<Rightarrow> string" where
  "policy_name POLICY_SCHEMA = ''schema''"
| "policy_name POLICY_SUMMARY = ''summary''"

definition policy_key :: "string \<Rightarrow> policy_field option" where
  "policy_key k = (if k = ''schema'' then Some POLICY_SCHEMA
     else if k = ''summary'' then Some POLICY_SUMMARY else None)"

lemma policy_key_Some: "policy_key k = Some f \<longleftrightarrow> k = policy_name f"
  by (cases f) (auto simp: policy_key_def)

datatype policy_value = Policy_Text string | Policy_Counts "count_field \<Rightarrow> nat option"

fun policy_at :: "json_lib \<Rightarrow> policy_field \<Rightarrow> string \<Rightarrow> policy_value \<Rightarrow> string \<Rightarrow> bool" where
  "policy_at J POLICY_SCHEMA v (Policy_Text t) e \<longleftrightarrow>
     read_string J (Some JSON_KEY_CAPACITY) v = Some (t, e)"
| "policy_at J POLICY_SUMMARY v (Policy_Counts C) e \<longleftrightarrow> counts_at J v C e"
| "policy_at J f v x e \<longleftrightarrow> False"

lemma policy_at_schema:
  "policy_at J POLICY_SCHEMA v x e \<longleftrightarrow>
     (\<exists>t. x = Policy_Text t \<and> read_string J (Some JSON_KEY_CAPACITY) v = Some (t, e))"
  by (cases x) auto

lemma policy_at_summary:
  "policy_at J POLICY_SUMMARY v x e \<longleftrightarrow> (\<exists>C. x = Policy_Counts C \<and> counts_at J v C e)"
  by (cases x) auto

definition policy_state_of :: "string \<Rightarrow> (policy_field \<Rightarrow> policy_value option) \<Rightarrow> policy_state" where
  "policy_state_of schema M = \<lparr>
     pst_summary = (case M POLICY_SUMMARY of Some (Policy_Counts C) \<Rightarrow> policy_of C
                    | _ \<Rightarrow> empty_policy_summary),
     pst_seen_schema = (M POLICY_SCHEMA \<noteq> None), pst_seen_summary = (M POLICY_SUMMARY \<noteq> None),
     pst_schema_ok = (M POLICY_SCHEMA = Some (Policy_Text schema))\<rparr>"

interpretation policy: unique_members J "policy_top_member J schema" policy_key "policy_at J"
  "policy_state_of schema" 0 for J schema
proof
  fix k M v st e
  show "policy_top_member J schema k (policy_state_of schema M) v = Some (st, Some e) \<longleftrightarrow>
     (case policy_key k of
        None \<Rightarrow> skip_value J 0 v = Some (Some e) \<and> st = policy_state_of schema M
      | Some f \<Rightarrow> M f = None \<and> (\<exists>x. policy_at J f v x e \<and> st = policy_state_of schema (M(f \<mapsto> x))))"
  proof (cases "k = ''schema''")
    case True
    then show ?thesis
      by (auto simp: policy_top_member_def policy_key_def policy_at_schema policy_state_of_def
          split: option.splits)
  next
    case no_schema: False
    show ?thesis
    proof (cases "k = ''summary''")
      case True
      have "policy_top_member J schema k (policy_state_of schema M) v = Some (st, Some e) \<longleftrightarrow>
          M POLICY_SUMMARY = None \<and>
          (\<exists>sm. parse_policy_summary J empty_policy_summary v = Some (sm, Some e) \<and>
             st = (policy_state_of schema M)\<lparr>pst_summary := sm, pst_seen_summary := True\<rparr>)"
        using True
        by (cases "M POLICY_SUMMARY")
          (auto simp: policy_top_member_def policy_state_of_def split: option.splits)
      also have "\<dots> \<longleftrightarrow> M POLICY_SUMMARY = None \<and>
          (\<exists>C. counts_at J v C e \<and>
             st = policy_state_of schema (M(POLICY_SUMMARY \<mapsto> Policy_Counts C)))"
        unfolding parse_policy_counts_exact by (auto simp: policy_state_of_def)
      finally show ?thesis
        using True by (auto simp: policy_key_def policy_at_summary)
    next
      case False
      with no_schema show ?thesis
        by (auto simp: policy_top_member_def policy_key_def skip_member_def)
    qed
  qed
qed

text \<open>
  The members of an accepted document: the schema and the summary once each, the rest skipped.
\<close>

definition policy_values ::
  "json_lib \<Rightarrow> string \<Rightarrow> (count_field \<Rightarrow> nat option) \<Rightarrow> (string \<times> string \<times> string) list \<Rightarrow> bool" where
  "policy_values J schema C ms \<longleftrightarrow>
     (\<forall>f. length (filter (\<lambda>m. fst m = policy_name f) ms) = 1) \<and>
     (\<forall>(k, v, e) \<in> set ms.
        (k = ''schema'' \<longrightarrow> read_string J (Some JSON_KEY_CAPACITY) v = Some (schema, e)) \<and>
        (k = ''summary'' \<longrightarrow> counts_at J v C e) \<and>
        (k \<noteq> ''schema'' \<longrightarrow> k \<noteq> ''summary'' \<longrightarrow> skip_value J 0 v = Some (Some e)))"

lemma policy_fields: "set (policy.fields ms) = UNIV \<longleftrightarrow> (\<forall>f. f \<in> set (policy.fields ms))"
  by auto

lemma policy_run:
  "run_members (policy_top_member J schema) ms start_policy = Some st \<and>
     pst_seen_schema st \<and> pst_seen_summary st \<and> pst_schema_ok st \<longleftrightarrow>
   (\<exists>C. policy_values J schema C ms \<and>
      st = \<lparr>pst_summary = policy_of C, pst_seen_schema = True, pst_seen_summary = True,
        pst_schema_ok = True\<rparr>)"
proof -
  define full where "full C = (\<lambda>f. case f of POLICY_SCHEMA \<Rightarrow> Some (Policy_Text schema)
    | POLICY_SUMMARY \<Rightarrow> Some (Policy_Counts C))" for C
  have start: "start_policy = policy_state_of schema Map.empty"
    by (simp add: start_policy_def policy_state_of_def)
  have state: "policy_state_of schema (full C) = \<lparr>pst_summary = policy_of C, pst_seen_schema = True,
      pst_seen_summary = True, pst_schema_ok = True\<rparr>" for C
    by (simp add: policy_state_of_def full_def)
  have dom: "dom (full C) = UNIV" for C
    by (auto simp: full_def split: policy_field.splits)
  have vals: "policy.value_read J (full C) (k, v, e) \<longleftrightarrow>
      (k = ''schema'' \<longrightarrow> read_string J (Some JSON_KEY_CAPACITY) v = Some (schema, e)) \<and>
      (k = ''summary'' \<longrightarrow> counts_at J v C e) \<and>
      (k \<noteq> ''schema'' \<longrightarrow> k \<noteq> ''summary'' \<longrightarrow> skip_value J 0 v = Some (Some e))" for C k v e
    by (auto simp: policy.value_read_def policy_key_def full_def)
  have once: "distinct (policy.fields ms) \<and> set (policy.fields ms) = UNIV \<longleftrightarrow>
      (\<forall>f. length (filter (\<lambda>m. fst m = policy_name f) ms) = 1)"
    using policy.all_fields_once [of ms] by (simp add: policy_key_Some policy_fields)
  have whole: "policy_values J schema C ms \<longleftrightarrow> distinct (policy.fields ms) \<and>
      set (policy.fields ms) = UNIV \<and> (\<forall>m \<in> set ms. policy.value_read J (full C) m)" for C
    unfolding policy_values_def once [symmetric] by (auto simp: vals)
  show ?thesis
  proof
    assume h: "run_members (policy_top_member J schema) ms start_policy = Some st \<and>
      pst_seen_schema st \<and> pst_seen_summary st \<and> pst_schema_ok st"
    then obtain M where M: "st = policy_state_of schema M" "distinct (policy.fields ms)"
      "dom M = set (policy.fields ms)" "\<forall>m \<in> set ms. policy.value_read J M m"
      unfolding start policy.run_exact by blast
    from h M(1) have s: "M POLICY_SCHEMA = Some (Policy_Text schema)"
      by (simp add: policy_state_of_def)
    from h M(1) obtain x where x: "M POLICY_SUMMARY = Some x" by (auto simp: policy_state_of_def)
    then have "POLICY_SUMMARY \<in> set (policy.fields ms)" using M(3) by auto
    then have "filter (\<lambda>m. policy_key (fst m) = Some POLICY_SUMMARY) ms \<noteq> []"
      using policy.count_fields [of POLICY_SUMMARY ms] by (auto simp: count_list_0_iff)
    then obtain m where m: "m \<in> set ms" "policy_key (fst m) = Some POLICY_SUMMARY"
      by (auto simp: filter_empty_conv)
    obtain k v e where kve: "m = (k, v, e)" by (cases m) auto
    from M(4) m(1) have "policy.value_read J M (k, v, e)" unfolding kve by (rule bspec)
    with m(2) x obtain C where "x = Policy_Counts C"
      by (auto simp: kve policy.value_read_def policy_at_summary)
    with s x have full: "M = full C"
      by (intro ext) (auto simp: full_def split: policy_field.splits)
    with M dom show "\<exists>C. policy_values J schema C ms \<and>
      st = \<lparr>pst_summary = policy_of C, pst_seen_schema = True, pst_seen_summary = True,
        pst_schema_ok = True\<rparr>"
      by (intro exI [of _ C]) (simp add: whole state)
  next
    assume "\<exists>C. policy_values J schema C ms \<and>
      st = \<lparr>pst_summary = policy_of C, pst_seen_schema = True, pst_seen_summary = True,
        pst_schema_ok = True\<rparr>"
    then obtain C where C: "policy_values J schema C ms" "st = policy_state_of schema (full C)"
      by (auto simp: state)
    then have "run_members (policy_top_member J schema) ms start_policy = Some st"
      unfolding start policy.run_exact by (intro exI [of _ "full C"]) (auto simp: whole dom)
    with C show "run_members (policy_top_member J schema) ms start_policy = Some st \<and>
      pst_seen_schema st \<and> pst_seen_summary st \<and> pst_schema_ok st"
      by (simp add: state)
  qed
qed

lemma parse_policy_exact:
  assumes "schema \<noteq> []"
  shows "parse_policy_summary_json J (Some t) (Some schema) (Some s0) = Some (True, Some sm) \<longleftrightarrow>
     (\<exists>ms C. document J t ms \<and> policy_values J schema C ms \<and> sm = (policy_of C)\<lparr>ps_parsed := True\<rparr>)"
proof (cases "expect (CHR ''{'') (skip_space t)")
  case None
  with assms show ?thesis by (auto simp: parse_policy_summary_json_def document_def)
next
  case (Some s)
  then have t: "skip_space t = CHR ''{'' # s" by (simp add: expect_Some)
  have gen: "(\<exists>ms. D ms \<and> (\<exists>st. (\<exists>C. Q C ms \<and> st = R C) \<and> sm = S st)) \<longleftrightarrow>
      (\<exists>ms C. D ms \<and> Q C ms \<and> sm = S (R C))"
    for D :: "(string \<times> string \<times> string) list \<Rightarrow> bool"
      and Q :: "(count_field \<Rightarrow> nat option) \<Rightarrow> (string \<times> string \<times> string) list \<Rightarrow> bool"
      and R :: "(count_field \<Rightarrow> nat option) \<Rightarrow> policy_state" and S by blast
  have "parse_policy_summary_json J (Some t) (Some schema) (Some s0) = Some (True, Some sm) \<longleftrightarrow>
      (\<exists>st r. each_member J (policy_top_member J schema) True start_policy s = Some (st, Some r) \<and>
         skip_space r = [] \<and> pst_seen_schema st \<and> pst_seen_summary st \<and> pst_schema_ok st \<and>
         sm = (pst_summary st)\<lparr>ps_parsed := True\<rparr>)"
    using assms
    by (auto simp: parse_policy_summary_json_def Some Let_def split: option.splits prod.splits)
  also have "\<dots> \<longleftrightarrow> (\<exists>ms. document J t ms \<and>
      (\<exists>st. (run_members (policy_top_member J schema) ms start_policy = Some st \<and>
         pst_seen_schema st \<and> pst_seen_summary st \<and> pst_schema_ok st) \<and>
         sm = (pst_summary st)\<lparr>ps_parsed := True\<rparr>))"
    unfolding each_member_exact document_def t by auto
  also have "\<dots> \<longleftrightarrow> (\<exists>ms C. document J t ms \<and> policy_values J schema C ms \<and>
      sm = (policy_of C)\<lparr>ps_parsed := True\<rparr>)"
    unfolding policy_run gen by simp
  finally show ?thesis .
qed

end
