(* ===== verification/Summary_Properties.thy ===== *)
theory Summary_Properties
  imports Summary_Members
begin

section \<open>Properties of the summary reader\<close>

text \<open>
  The readers always return and report what they store in \<open>parsed\<close>; they accept exactly the
  documents of the formats, and read back a resource summary written with its members in any
  order; the number of findings is exact modulo \<open>2 ^ 64\<close>, and a document exists on which
  that number is zero although findings are reported.
\<close>

subsection \<open>Invariants of the loop over members\<close>

definition keeps ::
  "('st \<Rightarrow> bool) \<Rightarrow> (string \<Rightarrow> 'st \<Rightarrow> string \<Rightarrow> ('st \<times> string option) option) \<Rightarrow> bool" where
  "keeps P h \<longleftrightarrow> (\<forall>k st s st' r. P st \<longrightarrow> h k st s = Some (st', r) \<longrightarrow> P st')"

lemma keepsI: "(\<And>k st s st' r. P st \<Longrightarrow> h k st s = Some (st', r) \<Longrightarrow> P st') \<Longrightarrow> keeps P h"
  unfolding keeps_def by blast

lemma keepsD: "keeps P h \<Longrightarrow> P st \<Longrightarrow> h k st s = Some (st', r) \<Longrightarrow> P st'"
  unfolding keeps_def by blast

lemma each_member_invariant:
  assumes "each_member J h first st s = Some out"
  shows "keeps P h \<longrightarrow> P st \<longrightarrow> P (fst out)"
proof (rule each_member.raw_induct [OF _ assms])
  fix loop J handle first st s out
  assume ih: "\<And>J handle first st s out. loop J handle first st s = Some out \<Longrightarrow>
      keeps P handle \<longrightarrow> P st \<longrightarrow> P (fst out)"
    and step: "(let s1 = skip_space s in
      if at_char (\<lambda>c. c = CHR ''}'') s1 then Some (st, Some (tl s1))
      else
        (case (if first then Some s1 else expect (CHR '','') s1) of
           None \<Rightarrow> Some (st, None)
         | Some s2 \<Rightarrow>
             (case read_string J (Some JSON_KEY_CAPACITY) (skip_space s2) of
                None \<Rightarrow> Some (st, None)
              | Some (key, s3) \<Rightarrow>
                  (case expect (CHR '':'') (skip_space s3) of
                     None \<Rightarrow> Some (st, None)
                   | Some s4 \<Rightarrow>
                       (case handle key st (skip_space s4) of
                          None \<Rightarrow> None
                        | Some (st1, None) \<Rightarrow> Some (st1, None)
                        | Some (st1, Some s5) \<Rightarrow> loop J handle False st1 s5))))) = Some out"
  show "keeps P handle \<longrightarrow> P st \<longrightarrow> P (fst out)"
  proof (intro impI)
    assume keep: "keeps P handle" "P st"
    have rec: "P (fst out)" if "loop J handle False st1 s5 = Some out" "P st1" for st1 s5
      using ih [OF that(1)] that(2) keep(1) by simp
    from step keep(2) show "P (fst out)"
      by (auto simp: Let_def split: option.splits prod.splits if_splits
          dest: keepsD [OF keep] intro: rec)
  qed
qed

lemma put_size_parsed [simp]: "rs_parsed (put_size g n s) = rs_parsed s"
  by (cases g) simp_all

lemma resource_member_unparsed:
  "resource_member J k st s = Some (st', r) \<Longrightarrow> \<not> rs_parsed (rst_summary st) \<Longrightarrow>
   \<not> rs_parsed (rst_summary st')"
  by (auto simp: resource_member_def skip_member_def
      split: option.splits resource_field.splits if_splits prod.splits)

lemma policy_member_unparsed:
  "policy_member J k st s = Some (st', r) \<Longrightarrow> \<not> ps_parsed (fst st) \<Longrightarrow> \<not> ps_parsed (fst st')"
  by (auto simp: policy_member_def skip_member_def split: option.splits if_splits prod.splits)

lemma parse_policy_summary_unparsed:
  assumes "parse_policy_summary J sm s = Some (sm', r)" and "\<not> ps_parsed sm"
  shows "\<not> ps_parsed sm'"
proof (cases "expect (CHR ''{'') s")
  case None
  with assms show ?thesis by (simp add: parse_policy_summary_def)
next
  case (Some s1)
  with assms obtain a b r1 where
    e: "each_member J (policy_member J) True (sm, False, False) s1 = Some ((sm', a, b), r1)"
    by (auto simp: parse_policy_summary_def split: option.splits prod.splits)
  from each_member_invariant [OF e, of "\<lambda>st. \<not> ps_parsed (fst st)"] assms(2) show ?thesis
    by (auto dest: policy_member_unparsed intro: keepsI)
qed

lemma policy_top_member_unparsed:
  "policy_top_member J schema k st s = Some (st', r) \<Longrightarrow> \<not> ps_parsed (pst_summary st) \<Longrightarrow>
   \<not> ps_parsed (pst_summary st')"
  by (auto simp: policy_top_member_def skip_member_def
      split: option.splits if_splits prod.splits dest: parse_policy_summary_unparsed)

context json_reader
begin

lemma resource_reader_returns:
  "\<exists>ok out. parse_resource_summary_json J text summary = Some (ok, out) \<and>
     (text \<noteq> None \<longrightarrow> summary \<noteq> None \<longrightarrow> (\<exists>s. out = Some s \<and> (ok \<longleftrightarrow> rs_parsed s)))"
proof (cases "text = None \<or> summary = None")
  case True
  then show ?thesis by (auto simp: parse_resource_summary_json_def split: option.splits)
next
  case False
  then obtain t s0 where ts: "text = Some t" "summary = Some s0" by auto
  show ?thesis
  proof (cases "expect (CHR ''{'') (skip_space t)")
    case None
    then show ?thesis by (auto simp: ts parse_resource_summary_json_def empty_resource_summary_def)
  next
    case (Some s)
    obtain st r where e: "each_member J (resource_member J) True start_resource s = Some (st, r)"
      using each_member_returns [OF resource_member_returns] by blast
    have "\<not> rs_parsed (rst_summary st)"
      using each_member_invariant [OF e, of "\<lambda>st. \<not> rs_parsed (rst_summary st)"]
      by (auto dest: resource_member_unparsed intro: keepsI
          simp: start_resource_def empty_resource_summary_def)
    with e Some show ?thesis
      by (cases r) (auto simp: ts parse_resource_summary_json_def finish_resource_def Let_def)
  qed
qed

lemma policy_reader_returns:
  "\<exists>ok out. parse_policy_summary_json J text schema summary = Some (ok, out) \<and>
     (text \<noteq> None \<longrightarrow> schema \<noteq> None \<longrightarrow> schema \<noteq> Some [] \<longrightarrow> summary \<noteq> None \<longrightarrow>
       (\<exists>s. out = Some s \<and> (ok \<longleftrightarrow> ps_parsed s)))"
proof (cases "text = None \<or> schema = None \<or> schema = Some [] \<or> summary = None")
  case True
  then show ?thesis by (auto simp: parse_policy_summary_json_def split: option.splits)
next
  case False
  then obtain t sc s0 where ts: "text = Some t" "schema = Some sc" "sc \<noteq> []" "summary = Some s0" by auto
  show ?thesis
  proof (cases "expect (CHR ''{'') (skip_space t)")
    case None
    then show ?thesis by (auto simp: ts parse_policy_summary_json_def empty_policy_summary_def)
  next
    case (Some s)
    obtain st r where e: "each_member J (policy_top_member J sc) True start_policy s = Some (st, r)"
      using each_member_returns [OF policy_top_member_returns] by blast
    have "\<not> ps_parsed (pst_summary st)"
      using each_member_invariant [OF e, of "\<lambda>st. \<not> ps_parsed (pst_summary st)"]
      by (auto dest: policy_top_member_unparsed intro: keepsI
          simp: start_policy_def empty_policy_summary_def)
    with e Some show ?thesis
      by (cases r) (auto simp: ts parse_policy_summary_json_def Let_def)
  qed
qed

lemma size_reader_returns: "\<exists>ok n. parse_json_size J text key = Some (ok, n) \<and> (ok \<longrightarrow> n \<noteq> None)"
proof (cases "text = None \<or> key = None")
  case True
  then show ?thesis by (auto simp: parse_json_size_def split: option.splits)
next
  case False
  then obtain t k where tk: "text = Some t" "key = Some k" by auto
  show ?thesis
  proof (cases "key_text k")
    case None
    then show ?thesis by (auto simp: tk parse_json_size_def)
  next
    case wanted: (Some wanted)
    show ?thesis
    proof (cases "expect (CHR ''{'') (skip_space t)")
      case None
      with wanted show ?thesis by (auto simp: tk parse_json_size_def find_top_level_size_def)
    next
      case (Some s)
      obtain st r where e: "each_member J (top_size_member J wanted) True None s = Some (st, r)"
        using each_member_returns [OF top_size_member_returns] by blast
      with Some wanted show ?thesis
        by (cases r) (auto simp: tk parse_json_size_def find_top_level_size_def)
    qed
  qed
qed

end

subsection \<open>Writing a resource summary\<close>

text \<open>
  The members in the order \<open>fs\<close>, without white space; the same field can stand at any place.
\<close>

definition size_get :: "resource_summary \<Rightarrow> size_field \<Rightarrow> nat" where
  "size_get s g = (case g of FIELD_RECORDS \<Rightarrow> rs_records s | FIELD_FD_LEAKS \<Rightarrow> rs_fd_leaks s
     | FIELD_ALLOCATION_LEAKS \<Rightarrow> rs_allocation_leaks s | FIELD_BAD_RELEASES \<Rightarrow> rs_bad_releases s
     | FIELD_EXEC_INHERITANCES \<Rightarrow> rs_exec_inheritances s
     | FIELD_GENERIC_RESOURCE_LEAKS \<Rightarrow> rs_generic_resource_leaks s
     | FIELD_GENERIC_BAD_RELEASES \<Rightarrow> rs_generic_bad_releases s | FIELD_MALFORMED \<Rightarrow> rs_malformed s
     | FIELD_BAD_VERSION \<Rightarrow> rs_bad_version s | FIELD_REFUSED \<Rightarrow> rs_refused s)"

fun value_text :: "resource_summary \<Rightarrow> resource_field \<Rightarrow> string" where
  "value_text s FIELD_SCHEMA = quoted RESOURCE_SCHEMA"
| "value_text s (FIELD_SIZE g) = decimal (size_get s g)"
| "value_text s FIELD_LOG_HEALTH = CHR ''{'' # quoted ''complete'' @ CHR '':'' #
     (if rs_log_complete s then ''true'' else ''false'') @ ''}''"

fun members_text :: "resource_summary \<Rightarrow> bool \<Rightarrow> resource_field list \<Rightarrow> string" where
  "members_text s first [] = ''}''"
| "members_text s first (f # fs) = (if first then [] else '','') @ quoted (field_name f) @
     CHR '':'' # value_text s f @ members_text s False fs"

definition resource_text :: "resource_summary \<Rightarrow> resource_field list \<Rightarrow> string" where
  "resource_text s fs = CHR ''{'' # members_text s True fs"

text \<open>Where the values of the written members stand.\<close>

fun members_layout ::
  "resource_summary \<Rightarrow> resource_field list \<Rightarrow> (string \<times> string \<times> string) list" where
  "members_layout s [] = []"
| "members_layout s (f # fs) =
     (field_name f, value_text s f @ members_text s False fs, members_text s False fs) #
     members_layout s fs"

definition value_of :: "resource_summary \<Rightarrow> resource_field \<Rightarrow> field_value" where
  "value_of s f = (case f of FIELD_SCHEMA \<Rightarrow> Text RESOURCE_SCHEMA
     | FIELD_SIZE g \<Rightarrow> Size (size_get s g) | FIELD_LOG_HEALTH \<Rightarrow> Flag (rs_log_complete s))"

lemma summary_from_value_of: "summary_from (value_of s) = s\<lparr>rs_parsed := True\<rparr>"
  by (simp add: summary_from_def summary_of_def size_in_def value_of_def size_get_def)

lemma field_name_plain: "plain_text (field_name f)" "length (field_name f) < JSON_KEY_CAPACITY"
proof -
  have size: "plain_text (size_field_name g) \<and> length (size_field_name g) < JSON_KEY_CAPACITY" for g
    by (cases g) (simp_all add: plain_text_def JSON_KEY_CAPACITY_def)
  show "plain_text (field_name f)"
    using size by (cases f) (simp_all add: plain_text_def)
  show "length (field_name f) < JSON_KEY_CAPACITY"
    using size by (cases f) (simp_all add: JSON_KEY_CAPACITY_def)
qed

lemma value_text_head: "\<exists>c t. value_text s f = c # t \<and> \<not> is_json_space c"
proof (cases f)
  case (FIELD_SIZE g)
  obtain c t where d: "decimal (size_get s g) = c # t"
    using decimal_nonempty [of "size_get s g"] by (cases "decimal (size_get s g)") auto
  then have "is_digit c" using decimal_digits [of "size_get s g"] by simp
  with d digit_heads [of c] FIELD_SIZE show ?thesis by simp
qed (simp_all add: quoted_def is_json_space_def)

lemma value_text_space: "skip_space (value_text s f @ r) = value_text s f @ r"
  using value_text_head [of s f] by auto

lemma quote_space [simp]: "skip_space (quoted t @ r) = quoted t @ r"
  by (simp add: quoted_def is_json_space_def)

lemma members_text_space [simp]: "skip_space (members_text s first fs) = members_text s first fs"
  by (cases fs) (simp_all add: is_json_space_def quoted_def)

lemma members_text_head: "\<exists>c t. members_text s False fs = c # t \<and> \<not> is_digit c"
  by (cases fs) (simp_all add: is_digit_def)

lemma decimal_digits_text: "digits_text (decimal n)"
  using decimal_digits [of n] by (simp add: digits_text_def)

lemma member_not_closing: "\<not> at_char (\<lambda>c. c = CHR ''}'') (members_text s first (f # fs))"
  by (simp add: quoted_def)

context json_reader
begin

lemma written_members:
  "members_in J first (members_text s first fs) (members_layout s fs) []"
proof (induction fs arbitrary: first)
  case Nil
  then show ?case by (simp add: last_member is_json_space_def)
next
  case (Cons f fs)
  let ?tail = "CHR '':'' # value_text s f @ members_text s False fs"
  have read: "read_string J (Some JSON_KEY_CAPACITY) (quoted (field_name f) @ ?tail) =
      Some (field_name f, ?tail)"
    by (rule read_plain) (rule field_name_plain)+
  have colon: "skip_space ?tail = CHR '':'' # value_text s f @ members_text s False fs"
    by (simp add: is_json_space_def)
  have open_: "(if first then Some (members_text s first (f # fs))
      else expect (CHR '','') (members_text s first (f # fs))) = Some (quoted (field_name f) @ ?tail)"
    by simp
  show ?case
    using next_member [of "members_text s first (f # fs)" first "quoted (field_name f) @ ?tail" J
        "field_name f" ?tail "value_text s f @ members_text s False fs"
        "members_text s False fs" "members_layout s fs" "[]"]
      member_not_closing [of s first f fs] open_ read colon Cons.IH [of False]
    by (simp only: members_text_space quote_space value_text_space members_layout.simps simp_thms)
qed

lemma written_health:
  "health_at J (value_text s FIELD_LOG_HEALTH @ r) (rs_log_complete s) r"
proof -
  let ?word = "if rs_log_complete s then ''true'' else ''false''"
  let ?tail = "CHR '':'' # ?word @ CHR ''}'' # r"
  have key: "read_string J (Some JSON_KEY_CAPACITY) (quoted ''complete'' @ ?tail) =
      Some (''complete'', ?tail)"
    by (rule read_plain) (simp_all add: plain_text_def JSON_KEY_CAPACITY_def)
  have word: "skip_space (?word @ CHR ''}'' # r) = ?word @ CHR ''}'' # r"
    by (simp add: is_json_space_def)
  have "members_in J True (quoted ''complete'' @ ?tail)
      [(''complete'', ?word @ CHR ''}'' # r, CHR ''}'' # r)] r"
    using next_member [of "quoted ''complete'' @ ?tail" True "quoted ''complete'' @ ?tail" J
        "''complete''" ?tail "?word @ CHR ''}'' # r" "CHR ''}'' # r" "[]" r]
      last_member [of "CHR ''}'' # r" r J False] key
    unfolding word quote_space by (simp add: quoted_def is_json_space_def)
  moreover have "parse_boolean (?word @ CHR ''}'' # r) = Some (rs_log_complete s, CHR ''}'' # r)"
    by (simp add: parse_boolean_def at_word_def)
  ultimately show ?thesis
    unfolding health_at_def found_once_def
    by (intro exI [of _ "quoted ''complete'' @ ?tail"]
        exI [of _ "[(''complete'', ?word @ CHR ''}'' # r, CHR ''}'' # r)]"]) simp
qed

lemma written_value:
  assumes "\<forall>g. size_get s g \<le> SIZE_MAX"
  shows "field_at J f (value_text s f @ members_text s False fs) (value_of s f) (members_text s False fs)"
proof (cases f)
  case FIELD_SCHEMA
  have "read_string J (Some JSON_KEY_CAPACITY) (quoted RESOURCE_SCHEMA @ r) = Some (RESOURCE_SCHEMA, r)" for r
    by (rule read_plain) (simp_all add: plain_text_def JSON_KEY_CAPACITY_def RESOURCE_SCHEMA_def)
  with FIELD_SCHEMA show ?thesis by (simp add: value_of_def)
next
  case (FIELD_SIZE g)
  have "parse_size (decimal (size_get s g) @ members_text s False fs) =
      Some (size_get s g, members_text s False fs)"
    unfolding parse_size_exact
    using assms members_text_head [of s fs]
    by (intro exI [of _ "decimal (size_get s g)"])
      (auto simp: decimal_digits_text digits_value_decimal)
  with FIELD_SIZE show ?thesis by (simp add: value_of_def)
next
  case FIELD_LOG_HEALTH
  then show ?thesis using written_health [of s "members_text s False fs"] by (simp add: value_of_def)
qed

lemma written_resource:
  assumes "\<forall>g. size_get s g \<le> SIZE_MAX" and "distinct fs" and "set fs = UNIV"
  shows "parse_resource_summary_json J (Some (resource_text s fs)) (Some s0) =
    Some (True, Some (s\<lparr>rs_parsed := True\<rparr>))"
proof -
  have doc: "document J (resource_text s fs) (members_layout s fs)"
    unfolding document_def resource_text_def
    using written_members [of True s fs]
    by (intro exI [of _ "members_text s True fs"] exI [of _ "[]"]) (simp add: is_json_space_def)
  have names: "map fst (members_layout s fs) = map field_name fs" for fs
    by (induction fs) simp_all
  have once: "length (filter (\<lambda>m. fst m = field_name f) (members_layout s fs)) = 1" for f
  proof -
    have "length (filter (\<lambda>m. fst m = field_name f) (members_layout s gs)) = count_list gs f" for gs
      by (induction gs) (simp_all add: field_name_inj)
    moreover have "count_list fs f = 1"
      using assms(2,3) distinct_count_list [of fs] count_list_0_iff [of fs f]
      by (metis UNIV_I less_one nat_less_le)
    ultimately show ?thesis by simp
  qed
  have vals: "\<forall>(k, v, e) \<in> set (members_layout s gs).
      (\<forall>f. k = field_name f \<longrightarrow> field_at J f v (value_of s f) e) \<and>
      ((\<forall>f. k \<noteq> field_name f) \<longrightarrow> skip_value J 0 v = Some (Some e))" for gs
    by (induction gs) (auto simp: field_name_inj written_value [OF assms(1)])
  have "resource_values J (value_of s) (members_layout s fs)"
    unfolding resource_values_def using once vals by blast
  with doc show ?thesis
    unfolding parse_resource_exact
    by (intro exI [of _ "members_layout s fs"] exI [of _ "value_of s"])
      (simp add: summary_from_value_of, simp add: value_of_def)
qed

end

subsection \<open>The properties\<close>

text \<open>Claim C29. Every reader returns, on every text and with every string reader that consumes
  what it reads; the resource and the policy reader return true exactly when the summary they
  leave behind says \<open>parsed\<close>, and the size reader returns true only with a number.\<close>
theorem summary_readers_return:
  assumes "json_reader J"
  shows "(\<exists>ok out. parse_resource_summary_json J text summary = Some (ok, out) \<and>
      (text \<noteq> None \<longrightarrow> summary \<noteq> None \<longrightarrow> (\<exists>s. out = Some s \<and> (ok \<longleftrightarrow> rs_parsed s)))) \<and>
    (\<exists>ok out. parse_policy_summary_json J text schema policy = Some (ok, out) \<and>
      (text \<noteq> None \<longrightarrow> schema \<noteq> None \<longrightarrow> schema \<noteq> Some [] \<longrightarrow> policy \<noteq> None \<longrightarrow>
        (\<exists>s. out = Some s \<and> (ok \<longleftrightarrow> ps_parsed s)))) \<and>
    (\<exists>ok n. parse_json_size J text key = Some (ok, n) \<and> (ok \<longrightarrow> n \<noteq> None))"
  by (intro conjI json_reader.resource_reader_returns [OF assms]
      json_reader.policy_reader_returns [OF assms]
      json_reader.size_reader_returns [OF assms])

theorem summary_readers_return_witness:
  "\<exists>ok s. parse_resource_summary_json doc_json (Some ''{}'') (Some empty_resource_summary) =
      Some (ok, Some s) \<and> (ok \<longleftrightarrow> rs_parsed s)"
  using summary_readers_return [OF docj.json_reader_axioms, of "Some ''{}''"
      "Some empty_resource_summary" None None None] by auto

text \<open>Claim C25. The resource reader accepts exactly the documents that are one object in which
  each of the twelve fields occurs exactly once, in any order and among other members that
  are skipped, with the wanted schema, numbers that fit in a \<open>size_t\<close> and a health object
  with one boolean \<open>complete\<close>; it stores exactly the values that stand there.\<close>
theorem resource_summary_exact:
  "parse_resource_summary_json J (Some t) (Some s0) = Some (True, Some sm) \<longleftrightarrow>
     (\<exists>ms V. document J t ms \<and> resource_values J V ms \<and>
        V FIELD_SCHEMA = Text ''p101-resource-policy-findings-v1'' \<and> sm = summary_from V)"
  by (simp add: parse_resource_exact RESOURCE_SCHEMA_def)

text \<open>Claim C30. The policy reader accepts exactly the documents that are one object with one
  member \<open>schema\<close>, the wanted text, and one member \<open>summary\<close>, an object with one number
  \<open>findings\<close> and at most one number \<open>records\<close>; it stores these numbers.\<close>
theorem policy_summary_exact:
  assumes "schema \<noteq> []"
  shows "parse_policy_summary_json J (Some t) (Some schema) (Some s0) = Some (True, Some sm) \<longleftrightarrow>
     (\<exists>ms C. document J t ms \<and> policy_values J schema C ms \<and> sm = (policy_of C)\<lparr>ps_parsed := True\<rparr>)"
  using assms by (rule parse_policy_exact)

text \<open>Claim C26. A resource summary written with its members in any order is read back as it
  was, by every string reader that reads plain quoted texts.\<close>
theorem resource_summary_roundtrip:
  assumes "json_reader J" and "\<forall>g. size_get s g \<le> SIZE_MAX"
    and "distinct fs" and "set fs = UNIV"
  shows "parse_resource_summary_json J (Some (resource_text s fs)) (Some s0) =
    Some (True, Some (s\<lparr>rs_parsed := True\<rparr>))"
  using assms by (rule json_reader.written_resource)

definition wrapping_summary :: resource_summary where
  "wrapping_summary = empty_resource_summary\<lparr>rs_fd_leaks := SIZE_MAX, rs_allocation_leaks := 1,
     rs_log_complete := True\<rparr>"

lemma distinct_resource_fields: "distinct resource_fields"
  by (simp add: resource_fields_def size_fields_def)

lemma wrapping_sizes: "\<forall>g. size_get wrapping_summary g \<le> SIZE_MAX"
  by (simp add: wrapping_summary_def size_get_def empty_resource_summary_def SIZE_MAX_def
      split: size_field.splits)

theorem resource_summary_roundtrip_witness:
  "parse_resource_summary_json doc_json (Some (resource_text wrapping_summary (rev resource_fields)))
     (Some empty_resource_summary) = Some (True, Some (wrapping_summary\<lparr>rs_parsed := True\<rparr>))"
  by (rule resource_summary_roundtrip [OF docj.json_reader_axioms wrapping_sizes])
    (simp_all add: distinct_resource_fields set_resource_fields)

text \<open>The number of problems that the members of a document report: the counts of all fields but
  \<open>records\<close>, and one more for an incomplete log.\<close>

definition counts_in ::
  "json_lib \<Rightarrow> (string \<times> string \<times> string) list \<Rightarrow> (size_field \<Rightarrow> nat) \<Rightarrow> bool \<Rightarrow> bool" where
  "counts_in J ms N complete \<longleftrightarrow>
     (\<forall>g. \<exists>v e. (size_field_name g, v, e) \<in> set ms \<and> parse_size v = Some (N g, e)) \<and>
     (\<exists>v e. (''log_health'', v, e) \<in> set ms \<and> health_at J v complete e)"

definition problem_total :: "(size_field \<Rightarrow> nat) \<Rightarrow> bool \<Rightarrow> nat" where
  "problem_total N complete = (\<Sum>g | g \<noteq> FIELD_RECORDS. N g) + (if complete then 0 else 1)"

lemma problem_total_sum:
  "problem_total N complete = N FIELD_FD_LEAKS + N FIELD_ALLOCATION_LEAKS + N FIELD_BAD_RELEASES +
     N FIELD_EXEC_INHERITANCES + N FIELD_GENERIC_RESOURCE_LEAKS + N FIELD_GENERIC_BAD_RELEASES +
     N FIELD_MALFORMED + N FIELD_BAD_VERSION + N FIELD_REFUSED + (if complete then 0 else 1)"
proof -
  have "{g. g \<noteq> FIELD_RECORDS} = set (tl size_fields)"
    by (auto simp: size_fields_def intro: size_field.exhaust)
  then show ?thesis by (simp add: problem_total_def size_fields_def)
qed

lemma summary_finding_count:
  assumes "rs_parsed s"
  shows "unat (resource_summary_finding_count (Some s)) =
    problem_total (size_get s) (rs_log_complete s) mod 2 ^ 64"
proof -
  have "resource_summary_finding_count (Some s) =
      of_nat (problem_total (size_get s) (rs_log_complete s))"
    using assms
    by (simp add: resource_summary_finding_count_def problem_total_sum Let_def size_get_def)
  then show ?thesis by (simp add: unat_of_nat)
qed

lemma resource_values_counts:
  assumes "resource_values J V ms"
  shows "counts_in J ms (size_get (summary_from V)) (rs_log_complete (summary_from V))"
proof -
  have member: "\<exists>v e. (field_name f, v, e) \<in> set ms \<and> field_at J f v (V f) e" for f
  proof -
    have "length (filter (\<lambda>m. fst m = field_name f) ms) = 1"
      using assms by (simp add: resource_values_def)
    then have "filter (\<lambda>m. fst m = field_name f) ms \<noteq> []" by (cases ms) auto
    then obtain v e where "(field_name f, v, e) \<in> set ms" by (auto simp: filter_empty_conv)
    with assms show ?thesis unfolding resource_values_def by blast
  qed
  have stored: "size_get (summary_from V) g = n" if "V (FIELD_SIZE g) = Size n" for g n
    using that by (cases g) (simp_all add: summary_from_def summary_of_def size_in_def size_get_def)
  have "\<exists>v e. (size_field_name g, v, e) \<in> set ms \<and>
      parse_size v = Some (size_get (summary_from V) g, e)" for g
  proof -
    obtain v e n where "(size_field_name g, v, e) \<in> set ms" "V (FIELD_SIZE g) = Size n"
      "parse_size v = Some (n, e)"
      using member [of "FIELD_SIZE g"] by (auto simp: field_at_size)
    with stored show ?thesis by (intro exI conjI) simp_all
  qed
  moreover have "\<exists>v e. (''log_health'', v, e) \<in> set ms \<and>
      health_at J v (rs_log_complete (summary_from V)) e"
  proof -
    obtain v e b where "(field_name FIELD_LOG_HEALTH, v, e) \<in> set ms" "V FIELD_LOG_HEALTH = Flag b"
      "health_at J v b e"
      using member [of FIELD_LOG_HEALTH] by (auto simp only: field_at_health)
    then show ?thesis by (intro exI conjI) (simp_all add: summary_from_def summary_of_def)
  qed
  ultimately show ?thesis by (simp add: counts_in_def)
qed

text \<open>Claim C31. The number of findings of a document is the number of problems that it reports,
  modulo \<open>2 ^ 64\<close>: if the reader accepts the text, it is the sum of the counts that stand in the
  document under the nine names other than \<open>records\<close>, plus one when the log is not complete,
  reduced modulo \<open>2 ^ 64\<close>; so it is that sum exactly when the sum is below \<open>2 ^ 64\<close>, and a
  document that reports problems has the number 0 exactly when they are a multiple of
  \<open>2 ^ 64\<close>. If the reader refuses the text, the number is 0.\<close>
theorem document_finding_count:
  assumes "json_reader J"
    and "parse_resource_summary_json J (Some t) (Some s0) = Some (ok, Some sm)"
  shows "if ok then \<exists>ms N complete. document J t ms \<and> counts_in J ms N complete \<and>
      unat (resource_summary_finding_count (Some sm)) = problem_total N complete mod 2 ^ 64 \<and>
      (resource_summary_finding_count (Some sm) = 0 \<longleftrightarrow> 2 ^ 64 dvd problem_total N complete)
    else resource_summary_finding_count (Some sm) = 0"
proof (cases ok)
  case True
  then obtain ms V where ms: "document J t ms" "resource_values J V ms" and sm: "sm = summary_from V"
    using assms(2) by (auto simp: parse_resource_exact)
  have count: "unat (resource_summary_finding_count (Some sm)) =
      problem_total (size_get sm) (rs_log_complete sm) mod 2 ^ 64"
    by (rule summary_finding_count) (simp add: sm summary_from_def)
  then have "resource_summary_finding_count (Some sm) = 0 \<longleftrightarrow>
      2 ^ 64 dvd problem_total (size_get sm) (rs_log_complete sm)"
    by (simp only: unat_eq_zero [symmetric] dvd_eq_mod_eq_0)
  with True ms count resource_values_counts [OF ms(2)] sm show ?thesis by (simp only: if_True) blast
next
  case False
  from json_reader.resource_reader_returns [OF assms(1), of "Some t" "Some s0"] assms(2) False
  have "\<not> rs_parsed sm" by auto
  with False show ?thesis by (simp add: resource_summary_finding_count_def)
qed

theorem document_finding_count_witness:
  "\<exists>ms N complete. document doc_json (resource_text wrapping_summary resource_fields) ms \<and>
     counts_in doc_json ms N complete \<and> 2 ^ 64 dvd problem_total N complete \<and>
     0 < rs_fd_leaks wrapping_summary"
proof -
  have read: "parse_resource_summary_json doc_json (Some (resource_text wrapping_summary resource_fields))
      (Some empty_resource_summary) = Some (True, Some (wrapping_summary\<lparr>rs_parsed := True\<rparr>))"
    by (rule json_reader.written_resource [OF docj.json_reader_axioms wrapping_sizes])
      (simp_all add: distinct_resource_fields set_resource_fields)
  have "resource_summary_finding_count (Some (wrapping_summary\<lparr>rs_parsed := True\<rparr>)) = 0"
    by (simp add: resource_summary_finding_count_def wrapping_summary_def empty_resource_summary_def
        SIZE_MAX_def)
  with document_finding_count [OF docj.json_reader_axioms read] show ?thesis
    by (auto simp: wrapping_summary_def SIZE_MAX_def)
qed

text \<open>A document for the policy reader: \<open>{"schema":"s","summary":{"findings":0}}\<close>.\<close>

definition sample_policy :: string where
  "sample_policy = CHR ''{'' # quoted ''schema'' @ CHR '':'' # quoted ''s'' @ CHR '','' #
     quoted ''summary'' @ CHR '':'' # CHR ''{'' # quoted ''findings'' @ '':0}}''"

lemma sample_policy_read:
  "parse_policy_summary_json doc_json (Some sample_policy) (Some ''s'') (Some empty_policy_summary) =
     Some (True, Some (empty_policy_summary\<lparr>ps_parsed := True\<rparr>))"
  by (simp add: parse_policy_summary_json_def sample_policy_def quoted_def is_json_space_def
      each_member.simps doc_json_def doc_read_string_def JSON_KEY_CAPACITY_def
      policy_top_member_def start_policy_def parse_policy_summary_def policy_member_def
      empty_policy_summary_def parse_size_def is_digit_def digit_value_def SIZE_MAX_def Let_def)

theorem policy_summary_exact_witness:
  "\<exists>ms C. document doc_json sample_policy ms \<and> policy_values doc_json ''s'' C ms \<and>
     empty_policy_summary\<lparr>ps_parsed := True\<rparr> = (policy_of C)\<lparr>ps_parsed := True\<rparr>"
  using policy_summary_exact [of "''s''" doc_json sample_policy empty_policy_summary
      "empty_policy_summary\<lparr>ps_parsed := True\<rparr>"] sample_policy_read by blast

end
