(* ===== verification/Analysis.thy ===== *)
theory Analysis
  imports Model
begin

section \<open>The analysis of a model: state, findings, resource policy (src/analysis.c)\<close>

text \<open>
  \<open>tool_analysis\<close> is \<open>struct p101_tool_analysis\<close>. The causal order is the list of the original
  indices of its nodes; \<open>None\<close> while \<open>ordered\<close> is NULL. The text members of a published finding
  point into the buffers of the array element they were built in; \<open>of_block\<close> names the
  allocation of the array at that time, and \<open>an_block\<close> the present one: enlarging the array
  gives a new block.
\<close>

datatype analysis_policy =
  POLICY_RESOURCE | POLICY_SYNCHRONIZATION | POLICY_TRACE | POLICY_SANITIZER

record owned_finding =
  of_diagnostic_id :: string
  of_policy :: analysis_policy
  of_message :: string
  of_node_id :: string
  of_file_name :: string
  of_function_name :: string
  of_line_number :: int
  of_evidence_from :: string
  of_evidence_to :: string
  of_evidence_detail :: string
  of_block :: nat

record trace_context =
  tc_pid :: int
  tc_context :: nat
  tc_top :: "nat option"
  tc_max_depth :: nat
  tc_depth :: nat
  tc_unmatched :: nat
  tc_mismatched :: nat

record tool_analysis =
  an_model :: tool_model
  an_ordered :: "nat list option"
  an_findings :: "owned_finding list"
  an_finding_capacity :: nat
  an_block :: nat
  an_policy_counts :: "analysis_policy \<Rightarrow> nat"
  an_resource_records :: nat
  an_synchronization_records :: nat
  an_lock_order_edges :: nat
  an_call_records :: nat
  an_sanitizer_records :: nat
  an_sanitizer_counts :: "nat list"
  an_trace_contexts :: "trace_context list option"
  an_trace_tree :: string
  an_trace_tree_capacity :: nat
  an_trouble :: bool

type_synonym analysis_state = "tool_analysis \<times> world"

definition EVIDENCE_TEXT_SIZE :: nat where "EVIDENCE_TEXT_SIZE = 192"
definition NODE_ID_SIZE :: nat where "NODE_ID_SIZE = 384"
definition FINDING_INITIAL_CAPACITY :: nat where "FINDING_INITIAL_CAPACITY = 16"

text \<open>\<open>sizeof(struct owned_finding)\<close> on LP64: ten members and four buffers.\<close>

definition FINDING_BYTES :: nat where "FINDING_BYTES = 1040"

definition new_analysis :: "tool_model \<Rightarrow> tool_analysis" where
  "new_analysis m = \<lparr>an_model = m, an_ordered = None, an_findings = [], an_finding_capacity = 0,
     an_block = 0, an_policy_counts = (\<lambda>_. 0), an_resource_records = 0,
     an_synchronization_records = 0, an_lock_order_edges = 0, an_call_records = 0,
     an_sanitizer_records = 0, an_sanitizer_counts = [0, 0, 0, 0], an_trace_contexts = None,
     an_trace_tree = [], an_trace_tree_capacity = 0, an_trouble = False\<rparr>"

definition analysis_create :: "tool_model option \<Rightarrow> world \<Rightarrow> tool_analysis option \<times> world" where
  "analysis_create m w =
     (case m of
        None \<Rightarrow> (None, raise_errno EINVAL w)
      | Some m \<Rightarrow>
          (case heap_request w of
             (False, w1) \<Rightarrow> (None, raise_errno ENOMEM w1)
           | (True, w1) \<Rightarrow> (Some (new_analysis m), w1)))"

definition analysis_destroy :: "tool_analysis option \<Rightarrow> tool_analysis option" where
  "analysis_destroy a = None"

definition analysis_finding_count :: "tool_analysis option \<Rightarrow> nat" where
  "analysis_finding_count a = (case a of None \<Rightarrow> 0 | Some a \<Rightarrow> length (an_findings a))"

definition analysis_finding_at :: "tool_analysis option \<Rightarrow> nat \<Rightarrow> owned_finding option" where
  "analysis_finding_at a i =
     (case a of None \<Rightarrow> None
      | Some a \<Rightarrow> if i < length (an_findings a) then Some (an_findings a ! i) else None)"

text \<open>Reading a text member of a published finding: its buffer must still be allocated.\<close>

definition published_text :: "tool_analysis \<Rightarrow> owned_finding \<Rightarrow> (owned_finding \<Rightarrow> string) \<Rightarrow> string option" where
  "published_text a f sel = (if of_block f = an_block a then Some (sel f) else None)"

definition analysis_policy_finding_count :: "tool_analysis option \<Rightarrow> analysis_policy \<Rightarrow> nat" where
  "analysis_policy_finding_count a p = (case a of None \<Rightarrow> 0 | Some a \<Rightarrow> an_policy_counts a p)"

definition analysis_status :: "tool_analysis option \<Rightarrow> nat" where
  "analysis_status a =
     (case a of None \<Rightarrow> 2
      | Some a \<Rightarrow> if an_trouble a then 2 else if an_findings a = [] then 0 else 1)"

definition analysis_policy_status :: "tool_analysis option \<Rightarrow> analysis_policy \<Rightarrow> nat" where
  "analysis_policy_status a p =
     (case a of None \<Rightarrow> 2
      | Some a \<Rightarrow> if an_trouble a then 2 else if an_policy_counts a p = 0 then 0 else 1)"

subsection \<open>Findings\<close>

definition node_kind :: "model_node option \<Rightarrow> string" where
  "node_kind node =
     (case node of None \<Rightarrow> ''lifecycle''
      | Some n \<Rightarrow>
          if mn_record_kind n = RECORD_CALL
          then (if mn_call_kind n = CALL_ENTER then ''call-enter'' else ''call-exit'')
          else if mn_record_kind n = RECORD_RESOURCE then ''resource''
          else if mn_record_kind n = RECORD_FORK then ''fork''
          else if mn_record_kind n = RECORD_SPAWN then ''spawn''
          else if mn_record_kind n = RECORD_EXEC then ''exec''
          else if mn_record_kind n = RECORD_EXEC_FAIL then ''exec-fail''
          else if mn_record_kind n = RECORD_FD then ''fd''
          else ''allocation'')"

text \<open>\<open>snprintf\<close> into a buffer of \<open>n\<close> bytes keeps the first \<open>n - 1\<close> characters.\<close>

definition snprintf_text :: "nat \<Rightarrow> string \<Rightarrow> string" where
  "snprintf_text n t = take (n - 1) t"

definition format_node_id :: "model_node option \<Rightarrow> string" where
  "format_node_id node =
     (case node of None \<Rightarrow> ''lifecycle:unknown''
      | Some n \<Rightarrow> snprintf_text NODE_ID_SIZE
          ((if mn_domain n = NODE_CALL then ''call'' else ''resource'') @ '':'' @ mn_run_id n @ '':'' @
           signed_decimal (mn_pid n) @ '':'' @ decimal (mn_context_id n) @ '':'' @
           decimal (mn_sequence n) @ '':'' @ node_kind node))"

definition finding_reserve :: "nat \<Rightarrow> nat \<Rightarrow> world \<Rightarrow> bool \<times> nat \<times> world" where
  "finding_reserve n c w =
     (if n < c then (True, c, w)
      else let c1 = next_capacity FINDING_INITIAL_CAPACITY c in
        if SIZE_MAX div FINDING_BYTES < c1 then (False, c, raise_errno EOVERFLOW w)
        else (case heap_request w of
                (False, w1) \<Rightarrow> (False, c, raise_errno ENOMEM w1)
              | (True, w1) \<Rightarrow> (True, c1, w1)))"

definition reserve_findings :: "analysis_state \<Rightarrow> bool \<times> analysis_state" where
  "reserve_findings s =
     (case s of (a, w) \<Rightarrow>
        case finding_reserve (length (an_findings a)) (an_finding_capacity a) w of
          (b, c, w1) \<Rightarrow>
            (b, a\<lparr>an_finding_capacity := c,
                 an_block := (if c = an_finding_capacity a then an_block a else an_block a + 1)\<rparr>, w1))"

text \<open>A text of evidence must fit into its buffer.\<close>

definition evidence_fits :: "string option \<Rightarrow> bool" where
  "evidence_fits t = (case t of None \<Rightarrow> True | Some t \<Rightarrow> length t < EVIDENCE_TEXT_SIZE)"

definition finding_of ::
  "string \<Rightarrow> analysis_policy \<Rightarrow> string \<Rightarrow> model_node option \<Rightarrow> string option \<Rightarrow> string option \<Rightarrow>
   string option \<Rightarrow> nat \<Rightarrow> owned_finding" where
  "finding_of identifier policy message node src dst detail block =
     \<lparr>of_diagnostic_id = identifier, of_policy = policy, of_message = message,
      of_node_id = format_node_id node,
      of_file_name = (case node of None \<Rightarrow> ''?'' | Some n \<Rightarrow> mn_file_name n),
      of_function_name = (case node of None \<Rightarrow> ''?'' | Some n \<Rightarrow> mn_function_name n),
      of_line_number = (case node of None \<Rightarrow> 0 | Some n \<Rightarrow> mn_line_number n),
      of_evidence_from = text_or [] src, of_evidence_to = text_or [] dst,
      of_evidence_detail = text_or [] detail, of_block = block\<rparr>"

definition add_analysis_finding ::
  "analysis_state \<Rightarrow> string \<Rightarrow> analysis_policy \<Rightarrow> string \<Rightarrow> model_node option \<Rightarrow> string option \<Rightarrow>
   string option \<Rightarrow> string option \<Rightarrow> bool \<times> analysis_state" where
  "add_analysis_finding s identifier policy message node src dst detail =
     (case reserve_findings s of
        (False, s1) \<Rightarrow> (False, s1)
      | (True, a, w) \<Rightarrow>
          if \<not> evidence_fits src \<or> \<not> evidence_fits dst \<or> \<not> evidence_fits detail
          then (False, a, raise_errno EOVERFLOW w)
          else (True, a\<lparr>an_findings := an_findings a @
                   [finding_of identifier policy message node src dst detail (an_block a)],
                 an_policy_counts := (an_policy_counts a)(policy := an_policy_counts a policy + 1)\<rparr>, w))"

subsection \<open>The resource policy\<close>

text \<open>The node at a place of the order.\<close>

definition ordered_nodes :: "tool_analysis \<Rightarrow> model_node list" where
  "ordered_nodes a = map (\<lambda>i. tm_nodes (an_model a) ! i) (case an_ordered a of None \<Rightarrow> [] | Some xs \<Rightarrow> xs)"

definition find_node :: "tool_analysis \<Rightarrow> int \<Rightarrow> nat \<Rightarrow> nat \<Rightarrow> model_node option" where
  "find_node a pid context sequence =
     List.find (\<lambda>n. mn_pid n = pid \<and> mn_context_id n = context \<and> mn_sequence n = sequence)
       (ordered_nodes a)"

definition lifecycle_identifier :: "lifecycle_finding \<Rightarrow> string" where
  "lifecycle_identifier f =
     (let descriptor = lf_resource_class f = ''fd'';
          allocation = lf_resource_class f = ''allocation'';
          obligation = lf_resource_class f \<in> {''child-process'', ''pthread-joinable-thread''} in
      case lf_kind f of
        FINDING_LEAK \<Rightarrow> if obligation then ''P101-PROC-001'' else if descriptor then ''P101-FD-001''
          else if allocation then ''P101-ALLOC-001'' else ''P101-RESOURCE-001''
      | FINDING_DOUBLE_RELEASE \<Rightarrow> if descriptor then ''P101-FD-002''
          else if allocation then ''P101-ALLOC-002'' else ''P101-RESOURCE-002''
      | FINDING_STRAY_RELEASE \<Rightarrow> if descriptor then ''P101-FD-003''
          else if allocation then ''P101-ALLOC-003'' else ''P101-RESOURCE-003''
      | FINDING_BAD_REPLACE \<Rightarrow> if allocation then ''P101-ALLOC-004'' else ''P101-RESOURCE-004''
      | FINDING_DUPLICATE_ACQUIRE \<Rightarrow> ''P101-RESOURCE-005''
      | FINDING_EXEC_INHERIT \<Rightarrow> ''P101-FD-004''
      | FINDING_INVALID_USE \<Rightarrow> ''P101-RESOURCE-007'')"

definition lifecycle_messages :: "(string \<times> string) list" where
  "lifecycle_messages = [
     (''P101-FD-002'', ''descriptor was closed more than once''),
     (''P101-FD-003'', ''descriptor was closed without an observed acquisition''),
     (''P101-FD-004'', ''descriptor would be inherited across exec without CLOEXEC''),
     (''P101-ALLOC-001'', ''allocation is still live at the end of the run''),
     (''P101-ALLOC-002'', ''allocation was freed more than once''),
     (''P101-ALLOC-003'', ''pointer was freed without an observed allocation''),
     (''P101-ALLOC-004'', ''realloc referenced a pointer that was not live''),
     (''P101-RESOURCE-001'', ''resource is still live at the end of the run''),
     (''P101-RESOURCE-002'', ''resource was released more than once''),
     (''P101-RESOURCE-003'', ''resource was released without an observed acquisition''),
     (''P101-RESOURCE-004'', ''resource replacement referenced a resource that was not live''),
     (''P101-RESOURCE-007'', ''resource was used before acquisition, after release, or after ownership transfer'')]"

definition lifecycle_message :: "string \<Rightarrow> string" where
  "lifecycle_message identifier =
     (if identifier = ''P101-PROC-001''
      then ''child process was not reaped or joinable thread was not joined or detached''
      else if identifier = ''P101-FD-001'' then ''descriptor is still open at the end of the run''
      else (case List.find (\<lambda>p. fst p = identifier) lifecycle_messages of
              Some p \<Rightarrow> snd p
            | None \<Rightarrow> ''resource was acquired while the same identity was already live''))"

definition empty_allocation :: "model_node \<Rightarrow> bool" where
  "empty_allocation n \<longleftrightarrow> mn_record_kind n = RECORD_ALLOC \<and> mn_size n = 0 \<and>
     mn_alloc_kind n \<in> {ALLOC_ALLOC, ALLOC_REALLOC}"

fun resource_nodes_from :: "model_node list \<Rightarrow> analysis_state \<Rightarrow> bool \<times> analysis_state" where
  "resource_nodes_from [] s = (True, s)"
| "resource_nodes_from (n # ns) (a, w) =
     (let a1 = (if mn_domain n = NODE_RESOURCE
                then a\<lparr>an_resource_records := an_resource_records a + 1\<rparr> else a) in
      if empty_allocation n then
        (case add_analysis_finding (a1, w) ''P101-MEM-001'' POLICY_RESOURCE
                ''allocation size was zero at runtime'' (Some n) (Some (mn_ptr n))
                (Some (mn_new_ptr n)) None of
           (False, s1) \<Rightarrow> (False, s1)
         | (True, s1) \<Rightarrow> resource_nodes_from ns s1)
      else resource_nodes_from ns (a1, w))"

fun lifecycle_findings_from :: "nat \<Rightarrow> nat \<Rightarrow> analysis_state \<Rightarrow> bool \<times> analysis_state" where
  "lifecycle_findings_from 0 i s = (True, s)"
| "lifecycle_findings_from (Suc k) i (a, w) =
     (case model_lifecycle_finding_at (Some (an_model a)) i of
        None \<Rightarrow> (False, a, raise_errno EINVAL w)
      | Some f \<Rightarrow>
          (let identifier = lifecycle_identifier f in
           case add_analysis_finding (a, w) identifier POLICY_RESOURCE
                  (lifecycle_message identifier)
                  (find_node a (lf_pid f) (lf_context_id f) (lf_sequence f))
                  (Some (lf_resource_class f)) (Some (lf_resource_id f)) None of
             (False, s1) \<Rightarrow> (False, s1)
           | (True, s1) \<Rightarrow> lifecycle_findings_from k (Suc i) s1))"

definition analyze_resources :: "analysis_state \<Rightarrow> bool \<times> analysis_state" where
  "analyze_resources s =
     (case s of (a, w) \<Rightarrow>
        case resource_nodes_from (ordered_nodes a) (a\<lparr>an_resource_records := 0\<rparr>, w) of
          (False, s1) \<Rightarrow> (False, s1)
        | (True, s1) \<Rightarrow>
            lifecycle_findings_from (model_lifecycle_finding_count (Some (an_model a))) 0 s1)"

end
