(* ===== verification/Analysis_Heap.thy ===== *)
theory Analysis_Heap
  imports "P101_Prelude" "HOL-Library.Multiset"
begin

section \<open>The index heap of the causal order (src/analysis.c)\<close>

text \<open>
  \<open>heap_push\<close> and \<open>heap_pop\<close> keep indices in an array, the first \<open>size\<close> of which are a binary
  heap with the least index at the root. Both move a hole through the array and write the
  value once at its end. The contract of a queue of minima is the locale \<open>min_queue\<close>; the
  arrays interpret it.
\<close>

subsection \<open>The code\<close>

fun sift_up :: "nat list \<Rightarrow> nat \<Rightarrow> nat \<Rightarrow> nat list" where
  "sift_up heap index v =
     (if 0 < index then
        (let parent = (index - 1) div 2 in
         if heap ! parent \<le> v then heap[index := v]
         else sift_up (heap[index := heap ! parent]) parent v)
      else heap[index := v])"

declare sift_up.simps [simp del]

definition heap_push :: "nat \<Rightarrow> nat list \<times> nat \<Rightarrow> nat \<Rightarrow> (nat list \<times> nat) option" where
  "heap_push capacity q v =
     (case q of (heap, n) \<Rightarrow>
        if capacity \<le> n then None else Some (sift_up heap n v, n + 1))"

text \<open>The smaller of the two children.\<close>

definition least_child :: "nat list \<Rightarrow> nat \<Rightarrow> nat \<Rightarrow> nat" where
  "least_child heap n index =
     (let child = index * 2 + 1 in
      if child + 1 < n \<and> heap ! (child + 1) < heap ! child then child + 1 else child)"

lemma least_child_greater: "index < least_child heap n index"
  by (simp add: least_child_def Let_def)

function sift_down :: "nat list \<Rightarrow> nat \<Rightarrow> nat \<Rightarrow> nat \<Rightarrow> nat list \<times> nat" where
  "sift_down heap n index v =
     (if index * 2 + 1 < n then
        (let child = least_child heap n index in
         if v \<le> heap ! child then (heap, index)
         else sift_down (heap[index := heap ! child]) n child v)
      else (heap, index))"
  by auto
termination
proof (relation "measure (\<lambda>(heap, n, index, v). n - index)")
  fix heap :: "nat list" and n index v child :: nat
  assume h: "index * 2 + 1 < n" and c: "child = least_child heap n index"
  have "index < child" unfolding c by (rule least_child_greater)
  with h show "((heap[index := heap ! child], n, child, v), heap, n, index, v)
      \<in> measure (\<lambda>(heap, n, index, v). n - index)" by simp
qed simp

declare sift_down.simps [simp del]

definition heap_pop :: "nat list \<times> nat \<Rightarrow> nat \<times> nat list \<times> nat" where
  "heap_pop q =
     (case q of (heap, n) \<Rightarrow>
        let root = heap ! 0; m = n - 1; v = heap ! m in
        case sift_down heap m 0 v of
          (heap1, index) \<Rightarrow> (root, if 0 < m then heap1[index := v] else heap1, m))"

subsection \<open>The contract of a queue of minima\<close>

locale min_queue =
  fixes valid :: "'q \<Rightarrow> bool" and elems :: "'q \<Rightarrow> nat multiset" and room :: "'q \<Rightarrow> nat"
    and push :: "'q \<Rightarrow> nat \<Rightarrow> 'q option" and pop :: "'q \<Rightarrow> nat \<times> 'q"
  assumes push_room: "valid q \<Longrightarrow> size (elems q) < room q \<Longrightarrow>
      \<exists>q'. push q v = Some q' \<and> valid q' \<and> elems q' = add_mset v (elems q) \<and> room q' = room q"
    and push_full: "valid q \<Longrightarrow> room q \<le> size (elems q) \<Longrightarrow> push q v = None"
    and pop_least: "valid q \<Longrightarrow> elems q \<noteq> {#} \<Longrightarrow> pop q = (x, q') \<Longrightarrow>
      x \<in># elems q \<and> (\<forall>y \<in># elems q. x \<le> y) \<and> valid q' \<and> elems q' = elems q - {#x#} \<and>
      room q' = room q"
begin

lemma pop_Min: "valid q \<Longrightarrow> elems q \<noteq> {#} \<Longrightarrow> fst (pop q) = Min (set_mset (elems q))"
  using pop_least [of q "fst (pop q)" "snd (pop q)"] by (intro Min_eqI [symmetric]) auto

lemma pop_elems: "valid q \<Longrightarrow> elems q \<noteq> {#} \<Longrightarrow> elems q = add_mset (fst (pop q)) (elems (snd (pop q)))"
  using pop_least [of q "fst (pop q)" "snd (pop q)"] by auto

lemma push_Some: "valid q \<Longrightarrow> push q v = Some q' \<Longrightarrow> valid q' \<and> elems q' = add_mset v (elems q) \<and> room q' = room q"
  using push_room [of q v] push_full [of q v] by (cases "size (elems q) < room q") auto

text \<open>A queue whose elements are distinct: a set.\<close>

definition holds :: "'q \<Rightarrow> nat set \<Rightarrow> bool" where
  "holds q A \<longleftrightarrow> valid q \<and> finite A \<and> elems q = mset_set A"

lemma holds_push:
  assumes "holds q A" and "v \<notin> A" and "card A < room q"
  shows "\<exists>q'. push q v = Some q' \<and> holds q' (insert v A) \<and> room q' = room q"
  using assms push_room [of q v] by (auto simp: holds_def)

lemma holds_pop:
  assumes "holds q A" and "A \<noteq> {}"
  shows "\<exists>q'. pop q = (Min A, q') \<and> holds q' (A - {Min A}) \<and> room q' = room q"
proof -
  obtain x q' where p: "pop q = (x, q')" by (cases "pop q")
  from assms have "elems q \<noteq> {#}" "valid q" "set_mset (elems q) = A" "finite A" "elems q = mset_set A"
    by (auto simp: holds_def mset_set_empty_iff)
  with p pop_least [of q x q'] pop_Min [of q] show ?thesis
    by (auto simp: holds_def mset_set_Diff)
qed

lemma holds_empty: "holds q A \<Longrightarrow> elems q = {#} \<longleftrightarrow> A = {}"
  by (auto simp: holds_def mset_set_empty_iff)

end

subsection \<open>The arrays keep the contract\<close>

definition parent :: "nat \<Rightarrow> nat" where
  "parent j = (j - 1) div 2"

definition is_heap :: "nat list \<Rightarrow> nat \<Rightarrow> bool" where
  "is_heap heap n \<longleftrightarrow> (\<forall>j < n. 0 < j \<longrightarrow> heap ! parent j \<le> heap ! j)"

lemma parent_less: "0 < j \<Longrightarrow> parent j < j"
  by (simp add: parent_def)

lemma parent_children: "0 < j \<Longrightarrow> parent j = i \<longleftrightarrow> j = 2 * i + 1 \<or> j = 2 * i + 2"
  unfolding parent_def by presburger

lemma heap_root: "is_heap heap n \<Longrightarrow> j < n \<Longrightarrow> heap ! 0 \<le> heap ! j"
proof (induction j rule: less_induct)
  case (less j)
  show ?case
  proof (cases "j = 0")
    case False
    then have "heap ! 0 \<le> heap ! parent j" using less parent_less [of j] by force
    also have "\<dots> \<le> heap ! j" using less.prems False by (simp add: is_heap_def)
    finally show ?thesis .
  qed simp
qed

text \<open>The heap is in order but for the value at the hole, going up or going down.\<close>

definition up_ok :: "nat list \<Rightarrow> nat \<Rightarrow> nat \<Rightarrow> bool" where
  "up_ok g n i \<longleftrightarrow> (\<forall>j < n. 0 < j \<longrightarrow> j \<noteq> i \<longrightarrow> g ! parent j \<le> g ! j) \<and>
     (\<forall>j < n. 0 < j \<longrightarrow> parent j = i \<longrightarrow> 0 < i \<longrightarrow> g ! parent i \<le> g ! j)"

definition down_ok :: "nat list \<Rightarrow> nat \<Rightarrow> nat \<Rightarrow> bool" where
  "down_ok g n i \<longleftrightarrow> (\<forall>j < n. 0 < j \<longrightarrow> parent j \<noteq> i \<longrightarrow> g ! parent j \<le> g ! j) \<and>
     (\<forall>j < n. 0 < j \<longrightarrow> parent j = i \<longrightarrow> 0 < i \<longrightarrow> g ! parent i \<le> g ! j)"

lemma up_ok_swap:
  assumes "i < n" "n \<le> length h" "0 < i" "v < h ! parent i" "up_ok (h[i := v]) n i"
  shows "up_ok ((h[i := h ! parent i])[parent i := v]) n (parent i)"
proof -
  let ?p = "parent i" and ?g = "h[i := v]"
  let ?g1 = "(h[i := h ! ?p])[?p := v]"
  have p: "?p < i" "?p \<noteq> i" using assms(3) by (simp_all add: parent_less less_imp_neq)
  have g: "?g ! i = v" "k \<noteq> i \<Longrightarrow> ?g ! k = h ! k" for k using assms(1,2) by simp_all
  have g1: "?g1 ! ?p = v" "?g1 ! i = h ! ?p" "k \<noteq> i \<Longrightarrow> k \<noteq> ?p \<Longrightarrow> ?g1 ! k = h ! k" for k
    using assms(1,2) p by simp_all
  have order: "?g ! parent j \<le> ?g ! j" if "j < n" "0 < j" "j \<noteq> i" for j
    using assms(5) that by (simp add: up_ok_def)
  have below: "h ! ?p \<le> h ! j" if "j < n" "0 < j" "parent j = i" for j
  proof -
    have "j \<noteq> i" using that parent_less [of j] by auto
    moreover have "?g ! parent i \<le> ?g ! j" using assms(3,5) that unfolding up_ok_def by blast
    ultimately show ?thesis using p g by simp
  qed
  have sib: "h ! ?p \<le> h ! j" if "j < n" "0 < j" "parent j = ?p" "j \<noteq> i" for j
    using order [OF that(1,2,4)] that p g by simp
  show ?thesis
    unfolding up_ok_def
  proof (intro conjI allI impI)
    fix j
    assume j: "j < n" "0 < j" "j \<noteq> ?p"
    show "?g1 ! parent j \<le> ?g1 ! j"
    proof (cases "j = i")
      case True
      with g1 assms(4) show ?thesis by simp
    next
      case False
      note ord = order [OF j(1,2) False]
      consider "parent j = i" | "parent j = ?p" | "parent j \<noteq> i" "parent j \<noteq> ?p" by blast
      then show ?thesis
      proof cases
        case 1
        with below [OF j(1,2) 1] g1 False j show ?thesis by simp
      next
        case 2
        with sib [OF j(1,2) 2 False] g1 False j assms(4) show ?thesis by simp
      next
        case 3
        with ord g g1 False j show ?thesis by simp
      qed
    qed
  next
    fix j
    assume j: "j < n" "0 < j" "parent j = ?p" "0 < ?p"
    have pp: "parent ?p < ?p" using j(4) by (rule parent_less)
    have "?g ! parent ?p \<le> ?g ! ?p" using j(4) p assms(1) by (intro order) auto
    with pp p g have up: "h ! parent ?p \<le> h ! ?p" by simp
    have top: "?g1 ! parent ?p = h ! parent ?p" using pp p g1 by simp
    show "?g1 ! parent ?p \<le> ?g1 ! j"
    proof (cases "j = i")
      case True
      with up top g1 show ?thesis by simp
    next
      case False
      have "j \<noteq> ?p" using j(2,3) parent_less [of j] by auto
      with sib [OF j(1-3) False] up top g1 False show ?thesis by simp
    qed
  qed
qed

lemma take_swap:
  assumes "i < n" "p < n" "n \<le> length h" "i \<noteq> p"
  shows "mset (take n ((h[i := h ! p])[p := v])) = mset (take n (h[i := v]))"
proof -
  let ?t = "(take n h)[i := v]"
  have "(take n h)[i := h ! p, p := v] = ?t[i := ?t ! p, p := ?t ! i]"
    using assms by (simp add: list_update_swap)
  also have "mset \<dots> = mset ?t"
    using assms mset_swap [of p ?t i] by simp
  finally show ?thesis by (simp add: take_update_swap)
qed

lemma sift_up_ok:
  assumes "i < n" "n \<le> length h" "up_ok (h[i := v]) n i"
  shows "is_heap (sift_up h i v) n \<and> mset (take n (sift_up h i v)) = mset (take n (h[i := v])) \<and>
    length (sift_up h i v) = length h"
  using assms
proof (induction h i v rule: sift_up.induct)
  case (1 h i v)
  show ?case
  proof (cases "0 < i \<and> v < h ! parent i")
    case True
    then have up: "sift_up h i v = sift_up (h[i := h ! parent i]) (parent i) v"
      by (subst sift_up.simps) (simp add: parent_def Let_def)
    have "parent i < i" using True parent_less by blast
    with 1 True show ?thesis
      unfolding up using up_ok_swap [of i n h v] take_swap [of i n "parent i" h v]
      by (simp add: parent_def)
  next
    case False
    then have stop: "sift_up h i v = h[i := v]"
      by (subst sift_up.simps) (auto simp: parent_def Let_def)
    have "is_heap (h[i := v]) n"
      unfolding is_heap_def
    proof (intro allI impI)
      fix j
      assume j: "j < n" "0 < j"
      show "h[i := v] ! parent j \<le> h[i := v] ! j"
      proof (cases "j = i")
        case True
        with False j 1(2,3) parent_less [of i] show ?thesis by simp
      next
        case False
        with 1(4) j show ?thesis by (simp add: up_ok_def)
      qed
    qed
    with stop show ?thesis by simp
  qed
qed

lemma least_child_props:
  assumes "i * 2 + 1 < n"
  shows "least_child h n i < n" "0 < least_child h n i" "parent (least_child h n i) = i"
    "j < n \<Longrightarrow> 0 < j \<Longrightarrow> parent j = i \<Longrightarrow> h ! least_child h n i \<le> h ! j"
proof -
  show "least_child h n i < n" "0 < least_child h n i" "parent (least_child h n i) = i"
    using assms by (auto simp: least_child_def Let_def parent_def)
  assume "j < n" "0 < j" "parent j = i"
  then have "j = 2 * i + 1 \<or> j = 2 * i + 2" by (simp add: parent_children)
  with \<open>j < n\<close> assms show "h ! least_child h n i \<le> h ! j"
    by (auto simp: least_child_def Let_def mult.commute)
qed

lemma down_ok_swap:
  assumes "n \<le> length h" "i * 2 + 1 < n" "h ! least_child h n i < v" "down_ok (h[i := v]) n i"
  shows "down_ok ((h[i := h ! least_child h n i])[least_child h n i := v]) n (least_child h n i)"
proof -
  let ?c = "least_child h n i" and ?g = "h[i := v]"
  let ?g1 = "(h[i := h ! ?c])[?c := v]"
  note c = least_child_props(1-3) [OF assms(2), of h]
  note least = least_child_props(4) [OF assms(2), where h = h]
  have ic: "i < ?c" by (rule least_child_greater)
  have g: "?g ! i = v" "k \<noteq> i \<Longrightarrow> ?g ! k = h ! k" for k using assms(1,2) by simp_all
  have g1: "?g1 ! ?c = v" "?g1 ! i = h ! ?c" "k \<noteq> i \<Longrightarrow> k \<noteq> ?c \<Longrightarrow> ?g1 ! k = h ! k" for k
    using assms(1,2) c(1) ic by simp_all
  have order: "?g ! parent j \<le> ?g ! j" if "j < n" "0 < j" "parent j \<noteq> i" for j
    using assms(4) that unfolding down_ok_def by blast
  show ?thesis
    unfolding down_ok_def
  proof (intro conjI allI impI)
    fix j
    assume j: "j < n" "0 < j" "parent j \<noteq> ?c"
    show "?g1 ! parent j \<le> ?g1 ! j"
    proof (cases "j = ?c")
      case True
      with c g1 assms(3) show ?thesis by simp
    next
      case jc: False
      show ?thesis
      proof (cases "j = i")
        case True
        have "?g ! parent i \<le> ?g ! ?c"
          using assms(4) c j(2) unfolding True down_ok_def by blast
        moreover have "parent i < i" using j(2) unfolding True by (rule parent_less)
        ultimately show ?thesis using True g g1 ic by simp
      next
        case False
        show ?thesis
        proof (cases "parent j = i")
          case True
          with least [OF j(1,2)] g1 False jc show ?thesis by simp
        next
          case np: False
          with order [OF j(1,2) np] g g1 False jc j(3) show ?thesis by simp
        qed
      qed
    qed
  next
    fix j
    assume j: "j < n" "0 < j" "parent j = ?c" "0 < ?c"
    have "?c < j" using j(2,3) parent_less [of j] by simp
    moreover have "?g ! ?c \<le> ?g ! j" using order [OF j(1,2)] j(3) ic by simp
    ultimately show "?g1 ! parent ?c \<le> ?g1 ! j" using c(3) g g1 ic by simp
  qed
qed

lemma sift_down_ok:
  assumes "i < n" "n \<le> length h" "down_ok (h[i := v]) n i" "sift_down h n i v = (h1, i1)"
  shows "is_heap (h1[i1 := v]) n \<and> mset (take n (h1[i1 := v])) = mset (take n (h[i := v])) \<and>
    length h1 = length h"
  using assms
proof (induction h n i v rule: sift_down.induct)
  case (1 h n i v)
  let ?c = "least_child h n i"
  show ?case
  proof (cases "i * 2 + 1 < n \<and> h ! ?c < v")
    case True
    then have down: "sift_down h n i v = sift_down (h[i := h ! ?c]) n ?c v"
      by (subst sift_down.simps) (simp add: Let_def)
    from True have i2: "i * 2 + 1 < n" by simp
    note c = least_child_props(1) [OF i2, of h]
    have ic: "i < ?c" by (rule least_child_greater)
    have "is_heap (h1[i1 := v]) n \<and>
        mset (take n (h1[i1 := v])) = mset (take n ((h[i := h ! ?c])[?c := v])) \<and>
        length h1 = length (h[i := h ! ?c])"
      using True c 1(3,5) down_ok_swap [OF 1(3) i2 _ 1(4)] down
      by (intro "1.IH") simp_all
    then show ?thesis using take_swap [of i n ?c h v] 1(2,3) c ic by simp
  next
    case False
    then have "sift_down h n i v = (h, i)"
      by (subst sift_down.simps) (auto simp: Let_def)
    with 1(5) have stop: "h1 = h" "i1 = i" by simp_all
    have "is_heap (h[i := v]) n"
      unfolding is_heap_def
    proof (intro allI impI)
      fix j
      assume j: "j < n" "0 < j"
      show "h[i := v] ! parent j \<le> h[i := v] ! j"
      proof (cases "parent j = i")
        case True
        then have ji: "j = 2 * i + 1 \<or> j = 2 * i + 2" using j(2) by (simp add: parent_children)
        with j(1) have "i * 2 + 1 < n" by auto
        moreover from this False have "v \<le> h ! ?c" by simp
        moreover have "j \<noteq> i" using ji by auto
        ultimately show ?thesis
          using least_child_props(4) [where h = h and i = i and n = n and j = j] j True 1(2,3) by simp
      next
        case False
        with 1(4) j show ?thesis by (simp add: down_ok_def)
      qed
    qed
    with stop show ?thesis by simp
  qed
qed

definition heap_valid :: "nat list \<times> nat \<Rightarrow> bool" where
  "heap_valid q \<longleftrightarrow> snd q \<le> length (fst q) \<and> is_heap (fst q) (snd q)"

definition heap_elems :: "nat list \<times> nat \<Rightarrow> nat multiset" where
  "heap_elems q = mset (take (snd q) (fst q))"

definition heap_room :: "nat list \<times> nat \<Rightarrow> nat" where
  "heap_room q = length (fst q)"

lemma heap_elems_size: "heap_valid q \<Longrightarrow> size (heap_elems q) = snd q"
  by (simp add: heap_valid_def heap_elems_def)

interpretation heap: min_queue heap_valid heap_elems heap_room
  "\<lambda>q. heap_push (heap_room q) q" heap_pop
proof
  fix q :: "nat list \<times> nat" and v
  assume valid: "heap_valid q"
  obtain h n where q: "q = (h, n)" by (cases q)
  show "\<exists>q'. heap_push (heap_room q) q v = Some q' \<and> heap_valid q' \<and>
      heap_elems q' = add_mset v (heap_elems q) \<and> heap_room q' = heap_room q"
    if "size (heap_elems q) < heap_room q"
  proof -
    have n: "n < length h" using that valid heap_elems_size [OF valid] by (simp add: q heap_room_def)
    have "up_ok (h[n := v]) (Suc n) n"
      unfolding up_ok_def
    proof (intro conjI allI impI)
      fix j
      assume "j < Suc n" "0 < j" "j \<noteq> n"
      moreover from this have "parent j < n" using parent_less [of j] by simp
      ultimately show "h[n := v] ! parent j \<le> h[n := v] ! j"
        using valid by (simp add: q heap_valid_def is_heap_def)
    next
      fix j
      assume "j < Suc n" "0 < j" "parent j = n"
      then show "h[n := v] ! parent n \<le> h[n := v] ! j" using parent_less [of j] by simp
    qed
    from sift_up_ok [OF _ _ this] n have "is_heap (sift_up h n v) (Suc n)"
      "mset (take (Suc n) (sift_up h n v)) = mset (take (Suc n) (h[n := v]))"
      "length (sift_up h n v) = length h" by simp_all
    with n show ?thesis
      by (simp add: q heap_push_def heap_valid_def heap_elems_def heap_room_def
          take_Suc_conv_app_nth)
  qed
  show "heap_push (heap_room q) q v = None" if "heap_room q \<le> size (heap_elems q)"
    using that valid heap_elems_size [OF valid] by (simp add: q heap_push_def heap_room_def)
next
  fix q q' :: "nat list \<times> nat" and x
  assume valid: "heap_valid q" and ne: "heap_elems q \<noteq> {#}" and pop: "heap_pop q = (x, q')"
  obtain h n where q: "q = (h, n)" by (cases q)
  obtain m where n: "n = Suc m" "m < length h" "is_heap h (Suc m)"
    using valid ne by (cases n) (auto simp: q heap_valid_def heap_elems_def)
  obtain h1 i where down: "sift_down h m 0 (h ! m) = (h1, i)" by (cases "sift_down h m 0 (h ! m)")
  have x: "x = h ! 0" and q': "q' = (if 0 < m then h1[i := h ! m] else h1, m)"
    using pop down by (auto simp: q n(1) heap_pop_def Let_def)
  have elems: "heap_elems q = add_mset (h ! m) (mset (take m h))"
    using n by (simp add: q heap_elems_def take_Suc_conv_app_nth)
  have root: "y \<in># heap_elems q \<Longrightarrow> x \<le> y" for y
    using n heap_root [of h n] unfolding x
    by (auto simp: q heap_elems_def in_set_conv_nth)
  have mem: "x \<in># heap_elems q"
    unfolding x using n by (auto simp: q heap_elems_def in_set_conv_nth intro!: exI [of _ 0])
  have rest: "heap_valid q' \<and> heap_elems q' = heap_elems q - {#x#} \<and> heap_room q' = heap_room q"
  proof (cases "m = 0")
    case True
    with down have "h1 = h" by (simp add: sift_down.simps)
    with True q' elems x n show ?thesis
      by (simp add: heap_valid_def heap_elems_def heap_room_def is_heap_def q)
  next
    case False
    have "down_ok (h[0 := h ! m]) m 0"
      unfolding down_ok_def
    proof (intro conjI allI impI)
      fix j
      assume "j < m" "0 < j" "parent j \<noteq> 0"
      then show "h[0 := h ! m] ! parent j \<le> h[0 := h ! m] ! j"
        using n(3) by (simp add: is_heap_def)
    qed simp
    from sift_down_ok [OF _ _ this down] False n have ok: "is_heap (h1[i := h ! m]) m"
      "mset (take m (h1[i := h ! m])) = mset (take m (h[0 := h ! m]))" "length h1 = length h"
      by simp_all
    have "mset (take m (h[0 := h ! m])) = heap_elems q - {#x#}"
    proof -
      have "x \<in># mset (take m h)"
        using False n x by (auto simp: in_set_conv_nth intro!: exI [of _ 0])
      then obtain A where "mset (take m h) = add_mset x A" by (rule multi_member_split [THEN exE])
      with False n elems mset_update [of 0 "take m h" "h ! m"] x show ?thesis
        by (simp add: take_update_swap)
    qed
    with ok q' False n show ?thesis
      by (simp add: heap_valid_def heap_elems_def heap_room_def q)
  qed
  with root mem show "x \<in># heap_elems q \<and> (\<forall>y \<in># heap_elems q. x \<le> y) \<and> heap_valid q' \<and>
      heap_elems q' = heap_elems q - {#x#} \<and> heap_room q' = heap_room q" by blast
qed

end
