(* ===== verification/Analysis_Order.thy ===== *)
theory Analysis_Order
  imports Analysis Analysis_Heap "HOL-Library.Product_Lexorder"
begin

section \<open>The causal order of the nodes (build_causal_order in src/analysis.c)\<close>

text \<open>
  The nodes of the model are ordered by Kahn's algorithm: arcs are the edges of the model and
  the steps between consecutive nodes of one context; among the nodes without an open
  predecessor the one with the least index comes next. The arcs are linked lists in one array
  (\<open>graph_arc\<close>), their heads and the numbers of open predecessors two arrays. Walking a
  linked list is a \<open>partial_function (option)\<close>, \<open>None\<close> being a walk that does not end.
\<close>

record graph_arc =
  ga_to :: nat
  ga_next :: "nat option"

record arc_graph =
  ag_arcs :: "graph_arc list"
  ag_heads :: "nat option list"
  ag_indegree :: "nat list"

definition ordered_node_compare :: "model_node list \<Rightarrow> nat \<Rightarrow> nat \<Rightarrow> int" where
  "ordered_node_compare nodes l r =
     (let a = nodes ! l; b = nodes ! r in
      if mn_pid a \<noteq> mn_pid b then (if mn_pid a < mn_pid b then - 1 else 1)
      else if mn_context_id a \<noteq> mn_context_id b
        then (if mn_context_id a < mn_context_id b then - 1 else 1)
      else if mn_sequence a \<noteq> mn_sequence b
        then (if mn_sequence a < mn_sequence b then - 1 else 1)
      else if l = r then 0 else if l < r then - 1 else 1)"

text \<open>\<open>qsort\<close>: an arrangement in which the comparison is nowhere positive.\<close>

fun insert_by :: "('a \<Rightarrow> 'a \<Rightarrow> int) \<Rightarrow> 'a \<Rightarrow> 'a list \<Rightarrow> 'a list" where
  "insert_by cmp x [] = [x]"
| "insert_by cmp x (y # ys) = (if cmp x y \<le> 0 then x # y # ys else y # insert_by cmp x ys)"

definition qsort :: "('a \<Rightarrow> 'a \<Rightarrow> int) \<Rightarrow> 'a list \<Rightarrow> 'a list" where
  "qsort cmp xs = foldr (insert_by cmp) xs []"

subsection \<open>Arcs\<close>

partial_function (option) has_arc :: "graph_arc list \<Rightarrow> nat option \<Rightarrow> nat \<Rightarrow> bool option" where
  "has_arc arcs arc dst =
     (case arc of
        None \<Rightarrow> Some False
      | Some i \<Rightarrow> if ga_to (arcs ! i) = dst then Some True else has_arc arcs (ga_next (arcs ! i)) dst)"

text \<open>The outer option is not returning, the sum the status.\<close>

definition add_arc ::
  "nat \<Rightarrow> nat \<Rightarrow> arc_graph \<Rightarrow> nat \<Rightarrow> nat \<Rightarrow> (unit + arc_graph) option" where
  "add_arc capacity n g src dst =
     (if n \<le> src \<or> n \<le> dst \<or> capacity < length (ag_arcs g) then Some (Inl ())
      else
        (case (if src = dst then Some True else has_arc (ag_arcs g) (ag_heads g ! src) dst) of
           None \<Rightarrow> None
         | Some True \<Rightarrow> Some (Inr g)
         | Some False \<Rightarrow>
             if length (ag_arcs g) = capacity then Some (Inl ())
             else Some (Inr (g\<lparr>
               ag_arcs := ag_arcs g @ [\<lparr>ga_to = dst, ga_next = ag_heads g ! src\<rparr>],
               ag_heads := (ag_heads g)[src := Some (length (ag_arcs g))],
               ag_indegree := (ag_indegree g)[dst := ag_indegree g ! dst + 1]\<rparr>))))"

fun add_arcs :: "nat \<Rightarrow> nat \<Rightarrow> arc_graph \<Rightarrow> (nat \<times> nat) list \<Rightarrow> (unit + arc_graph) option" where
  "add_arcs capacity n g [] = Some (Inr g)"
| "add_arcs capacity n g ((src, dst) # es) =
     (case add_arc capacity n g src dst of
        None \<Rightarrow> None
      | Some (Inl u) \<Rightarrow> Some (Inl u)
      | Some (Inr g1) \<Rightarrow> add_arcs capacity n g1 es)"

text \<open>The steps between neighbours of the sorted array that are of one context.\<close>

fun context_steps :: "model_node list \<Rightarrow> nat list \<Rightarrow> (nat \<times> nat) list" where
  "context_steps nodes (i # j # is) =
     (if same_context (nodes ! i) (nodes ! j) then [(i, j)] else []) @ context_steps nodes (j # is)"
| "context_steps nodes is = []"

definition empty_graph :: "nat \<Rightarrow> arc_graph" where
  "empty_graph n = \<lparr>ag_arcs = [], ag_heads = replicate n None, ag_indegree = replicate n 0\<rparr>"

subsection \<open>Emitting the nodes\<close>

text \<open>The nodes without predecessors, in the order of the indices.\<close>

fun push_all :: "nat \<Rightarrow> nat list \<times> nat \<Rightarrow> nat list \<Rightarrow> (nat list \<times> nat) option" where
  "push_all n q [] = Some q"
| "push_all n q (v # vs) = (case heap_push n q v of None \<Rightarrow> None | Some q1 \<Rightarrow> push_all n q1 vs)"

partial_function (option) relax ::
  "nat \<Rightarrow> graph_arc list \<Rightarrow> nat option \<Rightarrow> nat list \<Rightarrow> nat list \<times> nat \<Rightarrow>
   (errno + nat list \<times> nat list \<times> nat) option" where
  "relax n arcs arc indegree q =
     (case arc of
        None \<Rightarrow> Some (Inr (indegree, q))
      | Some i \<Rightarrow>
          if length arcs \<le> i then Some (Inl EINVAL)
          else
            (let dst = ga_to (arcs ! i) in
             if n \<le> dst \<or> indegree ! dst = 0 then Some (Inl EINVAL)
             else
               (let indegree1 = indegree[dst := indegree ! dst - 1] in
                if indegree1 ! dst = 0 then
                  (case heap_push n q dst of
                     None \<Rightarrow> Some (Inl EOVERFLOW)
                   | Some q1 \<Rightarrow> relax n arcs (ga_next (arcs ! i)) indegree1 q1)
                else relax n arcs (ga_next (arcs ! i)) indegree1 q)))"

function emit ::
  "nat \<Rightarrow> arc_graph \<Rightarrow> nat list \<Rightarrow> nat list \<times> nat \<Rightarrow> nat list \<Rightarrow> (errno + nat list) option" where
  "emit n g indegree q out =
     (if snd q = 0 then Some (Inr out)
      else
        (case heap_pop q of
           (current, q1) \<Rightarrow>
             if n \<le> current \<or> n \<le> length out then Some (Inl EINVAL)
             else
               (case relax n (ag_arcs g) (ag_heads g ! current) indegree q1 of
                  None \<Rightarrow> None
                | Some (Inl e) \<Rightarrow> Some (Inl e)
                | Some (Inr (indegree1, q2)) \<Rightarrow> emit n g indegree1 q2 (out @ [current]))))"
  by auto
termination by (relation "measure (\<lambda>(n, g, indegree, q, out). n - length out)") auto

declare emit.simps [simp del]

subsection \<open>The whole construction\<close>

fun requests :: "nat \<Rightarrow> world \<Rightarrow> bool list \<times> world" where
  "requests 0 w = ([], w)"
| "requests (Suc k) w =
     (case heap_request w of (b, w1) \<Rightarrow> (case requests k w1 of (bs, w2) \<Rightarrow> (b # bs, w2)))"

definition model_arcs :: "tool_model \<Rightarrow> (nat \<times> nat) list" where
  "model_arcs m = map (\<lambda>e. (me_from e, me_to e)) (tm_edges m)"

definition sorted_nodes :: "tool_model \<Rightarrow> nat list" where
  "sorted_nodes m = qsort (ordered_node_compare (tm_nodes m)) [0..<length (tm_nodes m)]"

text \<open>
  The status of the last call of \<open>add_arc\<close> or \<open>heap_push\<close> is what is returned when the order
  turns out to be incomplete: it is a success as soon as there was one such call.
\<close>

definition build_causal_order :: "analysis_state \<Rightarrow> (bool \<times> analysis_state) option" where
  "build_causal_order s =
     (case s of (a, w) \<Rightarrow>
        let m = an_model a; n = length (tm_nodes m); capacity = length (tm_edges m) + n in
        if SIZE_MAX - n < length (tm_edges m) then Some (False, a, raise_errno EOVERFLOW w)
        else
          (case requests 6 w of
             (granted, w1) \<Rightarrow>
               let a1 = (if hd granted then a\<lparr>an_ordered := Some []\<rparr> else a) in
               if \<not> list_all (\<lambda>b. b) granted then Some (False, a1, raise_errno ENOMEM w1)
               else
                 (let edges = model_arcs m; steps = context_steps (tm_nodes m) (sorted_nodes m) in
                  case add_arcs capacity n (empty_graph n) edges of
                    None \<Rightarrow> None
                  | Some (Inl _) \<Rightarrow> Some (False, a1, raise_errno EINVAL w1)
                  | Some (Inr g1) \<Rightarrow>
                      (case add_arcs capacity n g1 steps of
                         None \<Rightarrow> None
                       | Some (Inl _) \<Rightarrow> Some (False, a1, raise_errno EINVAL w1)
                       | Some (Inr g) \<Rightarrow>
                           (let free = filter (\<lambda>v. ag_indegree g ! v = 0) [0..<n] in
                            case push_all n (replicate n 0, 0) free of
                              None \<Rightarrow> Some (False, a1, raise_errno EOVERFLOW w1)
                            | Some q \<Rightarrow>
                                (case emit n g (ag_indegree g) q [] of
                                   None \<Rightarrow> None
                                 | Some (Inl e) \<Rightarrow> Some (e \<noteq> EOVERFLOW, a1, raise_errno e w1)
                                 | Some (Inr out) \<Rightarrow>
                                     if length out \<noteq> n
                                     then Some (edges \<noteq> [] \<or> steps \<noteq> [] \<or> free \<noteq> [],
                                       a1\<lparr>an_trouble := True\<rparr>, raise_errno EINVAL w1)
                                     else Some (True, a1\<lparr>an_ordered := Some out\<rparr>, w1)))))))"

end
