(* ===== verification/Analysis_Order_Facts.thy ===== *)
theory Analysis_Order_Facts
  imports Analysis_Order
begin

section \<open>The causal order is the greedy topological order\<close>

text \<open>
  \<open>arcs_of\<close> is the relation that the graph stores; \<open>available\<close> the nodes whose predecessors have
  all been emitted. The loop emits the least available node until there is none; it emits
  every node exactly when the relation has no cycle. None of its defensive checks fires.
\<close>

subsection \<open>Sorting\<close>

definition node_key :: "model_node list \<Rightarrow> nat \<Rightarrow> int \<times> nat \<times> nat \<times> nat" where
  "node_key nodes i =
     (mn_pid (nodes ! i), mn_context_id (nodes ! i), mn_sequence (nodes ! i), i)"

lemma compare_key: "ordered_node_compare nodes l r \<le> 0 \<longleftrightarrow> node_key nodes l \<le> node_key nodes r"
  by (auto simp: ordered_node_compare_def node_key_def Let_def less_eq_prod_def)

lemma insert_by_set: "mset (insert_by cmp x xs) = add_mset x (mset xs)"
  by (induction xs) auto

lemma qsort_mset [simp]: "mset (qsort cmp xs) = mset xs"
  unfolding qsort_def by (induction xs) (simp_all add: insert_by_set)

lemma insert_by_sorted:
  fixes key :: "'a \<Rightarrow> 'k::linorder"
  assumes "\<And>x y. cmp x y \<le> 0 \<longleftrightarrow> key x \<le> key y" and "sorted (map key xs)"
  shows "sorted (map key (insert_by cmp x xs))"
  using assms(2)
proof (induction xs)
  case (Cons y ys)
  have s: "set (insert_by cmp x ys) = insert x (set ys)"
    using insert_by_set [of cmp x ys] by (metis set_mset_add_mset_insert set_mset_mset)
  show ?case
  proof (cases "key x \<le> key y")
    case True
    then have "insert_by cmp x (y # ys) = x # y # ys" by (simp add: assms(1))
    moreover have "\<forall>z \<in> set ys. key x \<le> key z" using True Cons.prems by auto
    ultimately show ?thesis using True Cons.prems by simp
  next
    case False
    then have "insert_by cmp x (y # ys) = y # insert_by cmp x ys" by (simp add: assms(1))
    moreover have "sorted (map key (insert_by cmp x ys))" using Cons by simp
    moreover have "key y \<le> key x" using False by simp
    ultimately show ?thesis using Cons.prems by (simp add: s)
  qed
qed simp

lemma qsort_sorted:
  fixes key :: "'a \<Rightarrow> 'k::linorder"
  assumes "\<And>x y. cmp x y \<le> 0 \<longleftrightarrow> key x \<le> key y"
  shows "sorted (map key (qsort cmp xs))"
  unfolding qsort_def
proof (induction xs)
  case (Cons x xs)
  then show ?case unfolding foldr_Cons comp_apply by (intro insert_by_sorted assms)
qed simp

lemma sorted_nodes_props:
  "sorted (map (node_key (tm_nodes m)) (sorted_nodes m))"
  "set (sorted_nodes m) = {..<length (tm_nodes m)}" "distinct (sorted_nodes m)"
proof -
  show "sorted (map (node_key (tm_nodes m)) (sorted_nodes m))"
    unfolding sorted_nodes_def by (rule qsort_sorted) (rule compare_key)
  have e: "mset (sorted_nodes m) = mset [0..<length (tm_nodes m)]"
    by (simp add: sorted_nodes_def)
  from mset_eq_setD [OF e] show "set (sorted_nodes m) = {..<length (tm_nodes m)}"
    by (simp only: set_upt lessThan_atLeast0)
  from mset_eq_imp_distinct_iff [OF e] show "distinct (sorted_nodes m)" by simp
qed

lemma context_steps_length: "is \<noteq> [] \<Longrightarrow> length (context_steps nodes is) < length is"
  by (induction nodes "is" rule: context_steps.induct) auto

lemma context_steps_set: "(u, v) \<in> set (context_steps nodes is) \<Longrightarrow> u \<in> set is \<and> v \<in> set is"
  by (induction nodes "is" rule: context_steps.induct) auto

text \<open>Two nodes of one context are joined by steps, in the order of their keys.\<close>

lemma context_steps_path:
  assumes "sorted (map (node_key nodes) is)" and "distinct is"
    and "u \<in> set is" and "v \<in> set is" and "same_context (nodes ! u) (nodes ! v)"
    and "node_key nodes u < node_key nodes v"
  shows "(u, v) \<in> (set (context_steps nodes is))\<^sup>+"
  using assms
proof (induction nodes "is" arbitrary: u rule: context_steps.induct)
  case (1 nodes i j "is")
  let ?R = "set (context_steps nodes (i # j # is))"
  have sub: "set (context_steps nodes (j # is)) \<subseteq> ?R" by auto
  show ?case
  proof (cases "u = i")
    case False
    have "v \<noteq> i"
    proof
      assume "v = i"
      with 1(2,4) False have "node_key nodes v \<le> node_key nodes u" by auto
      with 1(7) show False by simp
    qed
    with 1 False have "(u, v) \<in> (set (context_steps nodes (j # is)))\<^sup>+" by simp
    then show ?thesis using trancl_mono [OF _ sub] by blast
  next
    case True
    from 1(7) True have vi: "v \<noteq> i" by auto
    then have v: "v \<in> set (j # is)" using 1(5) by simp
    have j: "node_key nodes i \<le> node_key nodes j" "node_key nodes j \<le> node_key nodes v"
      using 1(2) v by auto
    with 1(6) True have same: "same_context (nodes ! i) (nodes ! j)" "same_context (nodes ! j) (nodes ! v)"
      by (auto simp: same_context_def node_key_def less_eq_prod_def)
    then have step: "(i, j) \<in> ?R" by simp
    show ?thesis
    proof (cases "v = j")
      case True
      with step \<open>u = i\<close> show ?thesis by auto
    next
      case False
      have "node_key nodes j \<noteq> node_key nodes v" using False by (auto simp: node_key_def)
      with j have "node_key nodes j < node_key nodes v" by simp
      with 1 v same have "(j, v) \<in> (set (context_steps nodes (j # is)))\<^sup>+" by simp
      then have "(j, v) \<in> ?R\<^sup>+" using trancl_mono [OF _ sub] by blast
      with step \<open>u = i\<close> show ?thesis by (meson trancl_into_trancl2)
    qed
  qed
qed auto

subsection \<open>The linked lists\<close>

inductive chain :: "graph_arc list \<Rightarrow> nat option \<Rightarrow> nat list \<Rightarrow> bool" for arcs where
  chain_end: "chain arcs None []"
| chain_arc: "i < length arcs \<Longrightarrow> chain arcs (ga_next (arcs ! i)) ts \<Longrightarrow>
    chain arcs (Some i) (ga_to (arcs ! i) # ts)"

inductive_cases chain_NoneE: "chain arcs None ts"
inductive_cases chain_SomeE: "chain arcs (Some i) ts"

lemma chain_append: "chain arcs a ts \<Longrightarrow> chain (arcs @ rest) a ts"
proof (induction rule: chain.induct)
  case (chain_arc i ts)
  then have "(arcs @ rest) ! i = arcs ! i" by (simp add: nth_append)
  with chain_arc show ?case using chain.chain_arc [of i "arcs @ rest" ts] by simp
qed (rule chain_end)

lemma chain_has_arc: "chain arcs a ts \<Longrightarrow> has_arc arcs a dst = Some (dst \<in> set ts)"
proof (induction rule: chain.induct)
  case chain_end
  then show ?case by (subst has_arc.simps) simp
next
  case (chain_arc i ts)
  then show ?case by (subst has_arc.simps) auto
qed

text \<open>The graph stores the relation \<open>R\<close> on the nodes below \<open>n\<close>.\<close>

definition stores :: "nat \<Rightarrow> arc_graph \<Rightarrow> (nat \<times> nat) set \<Rightarrow> bool" where
  "stores n g R \<longleftrightarrow> finite R \<and> irrefl R \<and> R \<subseteq> {..<n} \<times> {..<n} \<and>
     length (ag_heads g) = n \<and> length (ag_indegree g) = n \<and> length (ag_arcs g) = card R \<and>
     (\<forall>u < n. \<exists>ts. chain (ag_arcs g) (ag_heads g ! u) ts \<and> distinct ts \<and> set ts = R `` {u}) \<and>
     (\<forall>v < n. ag_indegree g ! v = card {u. (u, v) \<in> R})"

lemma stores_empty: "stores n (empty_graph n) {}"
  by (auto simp: stores_def empty_graph_def intro: chain_end)

lemma add_arc_stores:
  assumes "stores n g R" and "src < n" and "dst < n" and "card R < capacity"
  shows "\<exists>g'. add_arc capacity n g src dst = Some (Inr g') \<and>
    stores n g' (if src = dst then R else insert (src, dst) R)"
proof -
  from assms(1,2) obtain ts where ts: "chain (ag_arcs g) (ag_heads g ! src) ts" "distinct ts"
    "set ts = R `` {src}" unfolding stores_def by blast
  show ?thesis
  proof (cases "src = dst \<or> (src, dst) \<in> R")
    case True
    then have same: "(if src = dst then R else insert (src, dst) R) = R" by auto
    have "length (ag_arcs g) = card R" using assms(1) by (simp add: stores_def)
    with True ts assms(2-4) chain_has_arc [OF ts(1), of dst]
    have "add_arc capacity n g src dst = Some (Inr g)"
      by (auto simp: add_arc_def)
    with assms(1) show ?thesis unfolding same by blast
  next
    case False
    let ?arc = "\<lparr>ga_to = dst, ga_next = ag_heads g ! src\<rparr>"
    let ?g = "g\<lparr>ag_arcs := ag_arcs g @ [?arc],
       ag_heads := (ag_heads g)[src := Some (length (ag_arcs g))],
       ag_indegree := (ag_indegree g)[dst := ag_indegree g ! dst + 1]\<rparr>"
    let ?R = "insert (src, dst) R"
    have "add_arc capacity n g src dst = Some (Inr ?g)"
      using False ts assms chain_has_arc [OF ts(1), of dst]
      by (auto simp: add_arc_def stores_def)
    moreover have "stores n ?g ?R"
      unfolding stores_def
    proof (intro conjI allI impI)
      show "finite ?R" "irrefl ?R" "?R \<subseteq> {..<n} \<times> {..<n}" "length (ag_heads ?g) = n"
        "length (ag_indegree ?g) = n" "length (ag_arcs ?g) = card ?R"
        using assms False by (auto simp: stores_def irrefl_def)
      fix u
      assume u: "u < n"
      show "\<exists>ts. chain (ag_arcs ?g) (ag_heads ?g ! u) ts \<and> distinct ts \<and> set ts = ?R `` {u}"
      proof (cases "u = src")
        case True
        have "chain (ag_arcs g @ [?arc]) (Some (length (ag_arcs g))) (dst # ts)"
          using chain_arc [of "length (ag_arcs g)" "ag_arcs g @ [?arc]" ts]
            chain_append [OF ts(1), of "[?arc]"] by simp
        with True u ts False assms(1) show ?thesis
          by (intro exI [of _ "dst # ts"]) (auto simp: stores_def)
      next
        case False
        from assms(1) u obtain us where us: "chain (ag_arcs g) (ag_heads g ! u) us" "distinct us"
          "set us = R `` {u}" unfolding stores_def by blast
        with False show ?thesis
          using chain_append [OF us(1), of "[?arc]"] by (intro exI [of _ us]) auto
      qed
    next
      fix v
      assume v: "v < n"
      have fin: "finite {u. (u, v) \<in> R}"
      proof (rule finite_subset)
        show "{u. (u, v) \<in> R} \<subseteq> fst ` R" by force
        show "finite (fst ` R)" using assms(1) by (simp add: stores_def)
      qed
      have "{u. (u, v) \<in> ?R} = (if v = dst then insert src {u. (u, v) \<in> R} else {u. (u, v) \<in> R})"
        by auto
      then show "ag_indegree ?g ! v = card {u. (u, v) \<in> ?R}"
        using assms(1,3) v False fin by (auto simp: stores_def nth_list_update)
    qed
    ultimately show ?thesis using False by auto
  qed
qed

lemma add_arcs_stores:
  assumes "stores n g R" and "\<forall>(u, v) \<in> set es. u < n \<and> v < n" and "card R + length es \<le> capacity"
  shows "\<exists>g'. add_arcs capacity n g es = Some (Inr g') \<and>
    stores n g' (R \<union> {(u, v) \<in> set es. u \<noteq> v})"
  using assms
proof (induction es arbitrary: g R)
  case Nil
  then show ?case by simp
next
  case (Cons e es)
  obtain u v where e: "e = (u, v)" by (cases e)
  from add_arc_stores [OF Cons.prems(1), of u v capacity] Cons.prems e obtain g1 where
    g1: "add_arc capacity n g u v = Some (Inr g1)"
      "stores n g1 (if u = v then R else insert (u, v) R)" by auto
  have "card (if u = v then R else insert (u, v) R) + length es \<le> capacity"
    using Cons.prems(1,3) card_insert_le_m1 [of "Suc (card R)" R "(u, v)"]
    by (auto simp: stores_def card_insert_if)
  from Cons.IH [OF g1(2) _ this] Cons.prems(2) obtain g' where
    "add_arcs capacity n g1 es = Some (Inr g')"
    "stores n g' ((if u = v then R else insert (u, v) R) \<union> {(u, v) \<in> set es. u \<noteq> v})" by auto
  moreover have "(if u = v then R else insert (u, v) R) \<union> {(u, v) \<in> set es. u \<noteq> v} =
      R \<union> {(u, v) \<in> set (e # es). u \<noteq> v}" by (auto simp: e)
  ultimately show ?case using g1 by (simp add: e)
qed

subsection \<open>One node and its arcs\<close>

lemma relax_result:
  assumes "chain arcs a ts" and "distinct ts" and "\<forall>d \<in> set ts. d < n \<and> 0 < indegree ! d"
    and "length indegree = n" and "heap.holds q A" and "heap_room q = n"
    and "A \<subseteq> {..<n}" and "A \<inter> set ts = {}"
  shows "\<exists>indegree' q'. relax n arcs a indegree q = Some (Inr (indegree', q')) \<and>
    length indegree' = n \<and>
    (\<forall>v < n. indegree' ! v = indegree ! v - (if v \<in> set ts then 1 else 0)) \<and>
    heap.holds q' (A \<union> {d \<in> set ts. indegree ! d = 1}) \<and> heap_room q' = n"
  using assms
proof (induction arbitrary: indegree q A rule: chain.induct)
  case chain_end
  then show ?case by (subst relax.simps) simp
next
  case (chain_arc i ts)
  let ?d = "ga_to (arcs ! i)"
  let ?indegree = "indegree[?d := indegree ! ?d - 1]"
  from chain_arc.prems have d: "?d < n" "0 < indegree ! ?d" "?d \<notin> set ts" "distinct ts"
    "?d \<notin> A" "A \<inter> set ts = {}" by auto
  have others: "\<forall>v \<in> set ts. v < n \<and> 0 < ?indegree ! v"
    using chain_arc.prems d by (auto simp: nth_list_update)
  show ?case
  proof (cases "indegree ! ?d = 1")
    case True
    have "card A < n"
    proof -
      have "card (insert ?d A) \<le> card {..<n}"
        using d chain_arc.prems(6) by (intro card_mono) auto
      moreover have "finite A" using chain_arc.prems(6) finite_subset by blast
      ultimately show ?thesis using d by simp
    qed
    with heap.holds_push [OF chain_arc.prems(4) d(5)] chain_arc.prems(5)
    obtain q1 where q1: "heap_push n q ?d = Some q1" "heap.holds q1 (insert ?d A)" "heap_room q1 = n"
      by auto
    have step: "relax n arcs (Some i) indegree q = relax n arcs (ga_next (arcs ! i)) ?indegree q1"
      using chain_arc.hyps d True q1 chain_arc.prems(3) by (subst relax.simps) simp
    have "insert ?d A \<subseteq> {..<n}" "insert ?d A \<inter> set ts = {}" "length ?indegree = n"
      using d chain_arc.prems by auto
    from chain_arc.IH [OF d(4) others this(3) q1(2,3) this(1,2)] obtain indegree' q' where r:
      "relax n arcs (ga_next (arcs ! i)) ?indegree q1 = Some (Inr (indegree', q'))"
      "length indegree' = n"
      "\<forall>v < n. indegree' ! v = ?indegree ! v - (if v \<in> set ts then 1 else 0)"
      "heap.holds q' (insert ?d A \<union> {v \<in> set ts. ?indegree ! v = 1})" "heap_room q' = n"
      by blast
    have "insert ?d A \<union> {v \<in> set ts. ?indegree ! v = 1} =
        A \<union> {v \<in> set (?d # ts). indegree ! v = 1}"
      using True d chain_arc.prems(3) by (auto simp: nth_list_update)
    with r step d chain_arc.prems(3) show ?thesis by (auto simp: nth_list_update)
  next
    case False
    then have step: "relax n arcs (Some i) indegree q = relax n arcs (ga_next (arcs ! i)) ?indegree q"
      using chain_arc.hyps d chain_arc.prems(3) by (subst relax.simps) (simp add: Let_def)
    have "length ?indegree = n" using chain_arc.prems by simp
    from chain_arc.IH [OF d(4) others this chain_arc.prems(4,5,6) d(6)] obtain indegree' q' where r:
      "relax n arcs (ga_next (arcs ! i)) ?indegree q = Some (Inr (indegree', q'))"
      "length indegree' = n"
      "\<forall>v < n. indegree' ! v = ?indegree ! v - (if v \<in> set ts then 1 else 0)"
      "heap.holds q' (A \<union> {v \<in> set ts. ?indegree ! v = 1})" "heap_room q' = n"
      by blast
    have "A \<union> {v \<in> set ts. ?indegree ! v = 1} = A \<union> {v \<in> set (?d # ts). indegree ! v = 1}"
      using False d chain_arc.prems(3) by (auto simp: nth_list_update)
    with r step d chain_arc.prems(3) show ?thesis by (auto simp: nth_list_update)
  qed
qed

subsection \<open>The greedy order\<close>

definition available :: "nat \<Rightarrow> (nat \<times> nat) set \<Rightarrow> nat set \<Rightarrow> nat set" where
  "available n R S = {v. v < n \<and> v \<notin> S \<and> (\<forall>u. (u, v) \<in> R \<longrightarrow> u \<in> S)}"

definition greedy :: "nat \<Rightarrow> (nat \<times> nat) set \<Rightarrow> nat list \<Rightarrow> bool" where
  "greedy n R out \<longleftrightarrow> (\<forall>k < length out. available n R (set (take k out)) \<noteq> {} \<and>
     out ! k = Min (available n R (set (take k out))))"

lemma greedy_Nil [simp]: "greedy n R []"
  by (simp add: greedy_def)

lemma greedy_snoc:
  "greedy n R out \<Longrightarrow> available n R (set out) \<noteq> {} \<Longrightarrow>
   greedy n R (out @ [Min (available n R (set out))])"
  unfolding greedy_def by (simp add: All_less_Suc nth_append)

lemma available_finite [simp]: "finite (available n R S)"
  by (simp add: available_def)

lemma available_Min:
  assumes "available n R S \<noteq> {}"
  shows "Min (available n R S) < n" "Min (available n R S) \<notin> S"
    "\<forall>u. (u, Min (available n R S)) \<in> R \<longrightarrow> u \<in> S"
proof -
  from Min_in [OF available_finite assms] have "Min (available n R S) \<in>
    {v. v < n \<and> v \<notin> S \<and> (\<forall>u. (u, v) \<in> R \<longrightarrow> u \<in> S)}" by (simp only: available_def)
  then show "Min (available n R S) < n" "Min (available n R S) \<notin> S"
    "\<forall>u. (u, Min (available n R S)) \<in> R \<longrightarrow> u \<in> S" by (blast dest: CollectD)+
qed

definition emitting ::
  "nat \<Rightarrow> (nat \<times> nat) set \<Rightarrow> nat list \<Rightarrow> nat list \<times> nat \<Rightarrow> nat list \<Rightarrow> bool" where
  "emitting n R indegree q out \<longleftrightarrow> greedy n R out \<and> distinct out \<and> set out \<subseteq> {..<n} \<and>
     (\<forall>v \<in> set out. \<forall>u. (u, v) \<in> R \<longrightarrow> u \<in> set out) \<and> length indegree = n \<and>
     (\<forall>v < n. indegree ! v = card {u. (u, v) \<in> R \<and> u \<notin> set out}) \<and>
     heap.holds q (available n R (set out)) \<and> heap_room q = n"

lemma emitting_step:
  assumes g: "stores n g R" and inv: "emitting n R indegree q out"
    and ne: "available n R (set out) \<noteq> {}"
  defines "current \<equiv> Min (available n R (set out))"
  shows "\<exists>q1 indegree' q'. heap_pop q = (current, q1) \<and> current < n \<and> length out < n \<and>
    relax n (ag_arcs g) (ag_heads g ! current) indegree q1 = Some (Inr (indegree', q')) \<and>
    emitting n R indegree' q' (out @ [current])"
proof -
  let ?A = "available n R (set out)"
  note cur = available_Min [OF ne, folded current_def]
  from heap.holds_pop [of q ?A] inv ne obtain q1 where
    q1: "heap_pop q = (current, q1)" "heap.holds q1 (?A - {current})" "heap_room q1 = n"
    by (auto simp: emitting_def current_def)
  have short: "length out < n"
  proof -
    have "card (insert current (set out)) \<le> card {..<n}"
      using inv cur by (intro card_mono) (auto simp: emitting_def)
    then show ?thesis using inv cur by (simp add: emitting_def distinct_card)
  qed
  from g cur(1) obtain ts where ts: "chain (ag_arcs g) (ag_heads g ! current) ts" "distinct ts"
    "set ts = R `` {current}" unfolding stores_def by blast
  have fin: "finite {u. (u, v) \<in> R \<and> u \<notin> S}" for v and S :: "nat set"
  proof (rule finite_subset)
    show "{u. (u, v) \<in> R \<and> u \<notin> S} \<subseteq> fst ` R" by force
    show "finite (fst ` R)" using g by (simp add: stores_def)
  qed
  have degree: "\<And>v. v < n \<Longrightarrow> indegree ! v = card {u. (u, v) \<in> R \<and> u \<notin> set out}"
    using inv by (simp add: emitting_def)
  have pos: "\<forall>d \<in> set ts. d < n \<and> 0 < indegree ! d"
  proof
    fix d
    assume "d \<in> set ts"
    then have d: "(current, d) \<in> R" "d < n" using ts(3) g by (auto simp: stores_def)
    then have "current \<in> {u. (u, d) \<in> R \<and> u \<notin> set out}" using cur by simp
    then have "0 < card {u. (u, d) \<in> R \<and> u \<notin> set out}" using fin by (auto simp: card_gt_0_iff)
    with d degree show "d < n \<and> 0 < indegree ! d" by simp
  qed
  have disjoint: "(?A - {current}) \<inter> set ts = {}"
    using ts(3) cur by (auto simp: available_def)
  from relax_result [OF ts(1,2) pos _ q1(2,3) _ disjoint] inv obtain indegree' q' where r:
    "relax n (ag_arcs g) (ag_heads g ! current) indegree q1 = Some (Inr (indegree', q'))"
    "length indegree' = n"
    "\<forall>v < n. indegree' ! v = indegree ! v - (if v \<in> set ts then 1 else 0)"
    "heap.holds q' (?A - {current} \<union> {d \<in> set ts. indegree ! d = 1})" "heap_room q' = n"
    by (auto simp: emitting_def available_def)
  have left: "{u. (u, v) \<in> R \<and> u \<notin> insert current (set out)} =
      {u. (u, v) \<in> R \<and> u \<notin> set out} - {current}" for v by auto
  have degree': "indegree' ! v = card {u. (u, v) \<in> R \<and> u \<notin> insert current (set out)}" if "v < n" for v
    unfolding left using that r(3) degree [OF that] ts(3) cur fin by auto
  have one: "{u. (u, d) \<in> R \<and> u \<notin> set out} = {current}"
    if "indegree ! d = 1" "(current, d) \<in> R" "d < n" for d
  proof -
    from degree [OF that(3)] that(1) have "card {u. (u, d) \<in> R \<and> u \<notin> set out} = 1" by simp
    then obtain x where x: "{u. (u, d) \<in> R \<and> u \<notin> set out} = {x}" by (rule card_1_singletonE)
    moreover have "current \<in> {u. (u, d) \<in> R \<and> u \<notin> set out}" using that(2) cur by simp
    ultimately show ?thesis by simp
  qed
  have next_available: "?A - {current} \<union> {d \<in> set ts. indegree ! d = 1} =
      available n R (insert current (set out))"
  proof (intro equalityI subsetI)
    fix v
    assume v: "v \<in> ?A - {current} \<union> {d \<in> set ts. indegree ! d = 1}"
    show "v \<in> available n R (insert current (set out))"
    proof (cases "v \<in> ?A - {current}")
      case True
      then show ?thesis by (auto simp: available_def)
    next
      case False
      with v ts(3) have d: "(current, v) \<in> R" "indegree ! v = 1" by auto
      with g have "v < n" "v \<noteq> current" by (auto simp: stores_def irrefl_def)
      moreover have "v \<notin> set out" using d inv cur by (auto simp: emitting_def)
      ultimately show ?thesis using one [OF d(2,1)] by (auto simp: available_def)
    qed
  next
    fix v
    assume v: "v \<in> available n R (insert current (set out))"
    show "v \<in> ?A - {current} \<union> {d \<in> set ts. indegree ! d = 1}"
    proof (cases "(current, v) \<in> R")
      case True
      with v cur have "{u. (u, v) \<in> R \<and> u \<notin> set out} = {current}" by (auto simp: available_def)
      with v True ts(3) degree [of v] show ?thesis by (auto simp: available_def)
    next
      case False
      with v show ?thesis by (auto simp: available_def)
    qed
  qed
  have "emitting n R indegree' q' (out @ [current])"
    unfolding emitting_def
    using inv cur r(2,4,5) degree' next_available greedy_snoc [of n R out] ne
    by (auto simp: emitting_def current_def)
  with q1 cur short r(1) show ?thesis by blast
qed

lemma emit_result:
  assumes "stores n g R" and "emitting n R indegree q out"
  shows "\<exists>out'. emit n g indegree q out = Some (Inr out') \<and> greedy n R out' \<and> distinct out' \<and>
    set out' \<subseteq> {..<n} \<and> (\<forall>v \<in> set out'. \<forall>u. (u, v) \<in> R \<longrightarrow> u \<in> set out') \<and>
    available n R (set out') = {}"
  using assms(2)
proof (induction "n - length out" arbitrary: indegree q out rule: less_induct)
  case less
  have empty: "snd q = 0 \<longleftrightarrow> available n R (set out) = {}"
    using less.prems heap.holds_empty [of q "available n R (set out)"] heap_elems_size [of q]
    by (auto simp: emitting_def heap.holds_def)
  show ?case
  proof (cases "available n R (set out) = {}")
    case True
    with empty less.prems show ?thesis by (subst emit.simps) (auto simp: emitting_def)
  next
    case False
    from emitting_step [OF assms(1) less.prems False] obtain c q1 indegree' q' where s:
      "heap_pop q = (c, q1)" "c < n" "length out < n"
      "relax n (ag_arcs g) (ag_heads g ! c) indegree q1 = Some (Inr (indegree', q'))"
      "emitting n R indegree' q' (out @ [c])" by blast
    have "emit n g indegree q out = emit n g indegree' q' (out @ [c])"
      using False empty s by (subst emit.simps) simp
    moreover from s(3) have "n - length (out @ [c]) < n - length out" by simp
    ultimately show ?thesis using less.hyps s(5) by simp
  qed
qed

subsection \<open>Greedy orders and cycles\<close>

lemma available_sub: "available n R S \<subseteq> {..<n} - S"
  by (auto simp: available_def)

lemma stuck_cycle:
  assumes "finite R" and "acyclic R" and "R \<subseteq> {..<n} \<times> {..<n}" and "available n R S = {}"
  shows "{..<n} \<subseteq> S"
proof (rule ccontr)
  assume "\<not> {..<n} \<subseteq> S"
  then obtain x where x: "x \<in> {..<n} - S" by auto
  have "wf R" using assms(1,2) by (rule finite_acyclic_wf)
  from wfE_min [OF this x] obtain z where z: "z \<in> {..<n} - S" "\<And>y. (y, z) \<in> R \<Longrightarrow> y \<notin> {..<n} - S"
    by blast
  with assms(3) have "z \<in> available n R S" by (auto simp: available_def)
  with assms(4) show False by simp
qed

text \<open>In a greedy order every arc goes forward.\<close>

definition precedes :: "nat list \<Rightarrow> nat \<Rightarrow> nat \<Rightarrow> bool" where
  "precedes xs u v \<longleftrightarrow> (\<exists>i j. i < j \<and> j < length xs \<and> xs ! i = u \<and> xs ! j = v)"

lemma greedy_forward:
  assumes "greedy n R out" and "v \<in> set out" and "(u, v) \<in> R"
  shows "precedes out u v"
proof -
  from assms(2) obtain j where j: "j < length out" "out ! j = v" by (auto simp: in_set_conv_nth)
  with assms(1) have "available n R (set (take j out)) \<noteq> {}"
    "v = Min (available n R (set (take j out)))" by (auto simp: greedy_def)
  with available_Min(3) [of n R "set (take j out)"] assms(3) have "u \<in> set (take j out)" by blast
  then obtain i where "i < j" "out ! i = u" using j(1) by (auto simp: in_set_conv_nth)
  with j show ?thesis unfolding precedes_def by blast
qed

lemma precedes_trans:
  assumes "distinct xs" and "precedes xs u v" and "precedes xs v w"
  shows "precedes xs u w"
  using assms unfolding precedes_def by (metis nth_eq_iff_index_eq order.strict_trans)

lemma precedes_irrefl: "distinct xs \<Longrightarrow> \<not> precedes xs u u"
  unfolding precedes_def by (metis less_irrefl nth_eq_iff_index_eq order.strict_trans)

lemma forward_acyclic:
  assumes "distinct xs" and "\<forall>(u, v) \<in> R. precedes xs u v"
  shows "acyclic R"
proof -
  have "precedes xs u v" if "(u, v) \<in> R\<^sup>+" for u v
    using that assms by (induction rule: trancl_induct) (auto intro: precedes_trans)
  then show ?thesis using precedes_irrefl [OF assms(1)] by (auto simp: acyclic_def)
qed

text \<open>The loop emits every node exactly when there is no cycle.\<close>

lemma emitted_all:
  assumes "finite R" and "R \<subseteq> {..<n} \<times> {..<n}" and "greedy n R out" and "distinct out"
    and "set out \<subseteq> {..<n}" and "available n R (set out) = {}"
  shows "length out = n \<longleftrightarrow> acyclic R"
proof
  assume "length out = n"
  with assms(4,5) have "set out = {..<n}"
    by (intro card_subset_eq) (simp_all add: distinct_card)
  with assms(2) greedy_forward [OF assms(3)] show "acyclic R"
    by (intro forward_acyclic [OF assms(4)]) auto
next
  assume "acyclic R"
  with stuck_cycle [of R n "set out"] assms have "set out = {..<n}" by auto
  with distinct_card [OF assms(4)] show "length out = n" by simp
qed

subsection \<open>What the arcs mean\<close>

definition edge_pairs :: "tool_model \<Rightarrow> (nat \<times> nat) set" where
  "edge_pairs m = {(me_from e, me_to e) | e. e \<in> set (tm_edges m) \<and> me_from e \<noteq> me_to e}"

definition context_order :: "tool_model \<Rightarrow> (nat \<times> nat) set" where
  "context_order m = {(u, v). u < length (tm_nodes m) \<and> v < length (tm_nodes m) \<and>
     same_context (tm_nodes m ! u) (tm_nodes m ! v) \<and>
     node_key (tm_nodes m) u < node_key (tm_nodes m) v}"

text \<open>What must come before what: the edges of the model, and the sequence of every context.\<close>

definition causes :: "tool_model \<Rightarrow> (nat \<times> nat) set" where
  "causes m = edge_pairs m \<union> context_order m"

definition arcs_of :: "tool_model \<Rightarrow> (nat \<times> nat) set" where
  "arcs_of m = {(u, v) \<in> set (model_arcs m) \<union> set (context_steps (tm_nodes m) (sorted_nodes m)).
     u \<noteq> v}"

definition edges_in_range :: "tool_model \<Rightarrow> bool" where
  "edges_in_range m \<longleftrightarrow> (\<forall>e \<in> set (tm_edges m).
     me_from e < length (tm_nodes m) \<and> me_to e < length (tm_nodes m))"

lemma context_steps_order:
  assumes "sorted (map (node_key nodes) is)" and "distinct is"
    and "(u, v) \<in> set (context_steps nodes is)"
  shows "same_context (nodes ! u) (nodes ! v) \<and> node_key nodes u < node_key nodes v"
  using assms
proof (induction nodes "is" rule: context_steps.induct)
  case (1 nodes i j "is")
  have "node_key nodes i \<noteq> node_key nodes j" using 1(3) by (auto simp: node_key_def)
  with 1 show ?case by (auto split: if_splits simp: less_le)
qed auto

lemma arcs_of_causes: "arcs_of m \<subseteq> causes m"
proof
  fix p
  assume p: "p \<in> arcs_of m"
  obtain u v where uv: "p = (u, v)" by (cases p)
  show "p \<in> causes m"
  proof (cases "(u, v) \<in> set (model_arcs m)")
    case True
    with p show ?thesis by (auto simp: uv causes_def edge_pairs_def model_arcs_def arcs_of_def)
  next
    case False
    with p uv have s: "(u, v) \<in> set (context_steps (tm_nodes m) (sorted_nodes m))"
      by (simp add: arcs_of_def)
    from context_steps_order [OF sorted_nodes_props(1,3) s] context_steps_set [OF s]
      sorted_nodes_props(2) [of m]
    show ?thesis by (auto simp: uv causes_def context_order_def)
  qed
qed

lemma causes_arcs_of: "causes m \<subseteq> (arcs_of m)\<^sup>+"
proof
  fix p
  assume p: "p \<in> causes m"
  obtain u v where uv: "p = (u, v)" by (cases p)
  let ?S = "set (context_steps (tm_nodes m) (sorted_nodes m))"
  have sub: "?S \<subseteq> arcs_of m"
    using context_steps_order [OF sorted_nodes_props(1,3)] by (fastforce simp: arcs_of_def)
  show "p \<in> (arcs_of m)\<^sup>+"
  proof (cases "(u, v) \<in> edge_pairs m")
    case True
    then have "(u, v) \<in> arcs_of m" by (auto simp: edge_pairs_def arcs_of_def model_arcs_def)
    then show ?thesis unfolding uv ..
  next
    case False
    with p uv have c: "(u, v) \<in> context_order m" by (simp add: causes_def)
    then have "(u, v) \<in> ?S\<^sup>+"
      using context_steps_path [OF sorted_nodes_props(1,3) [of m], of u v] sorted_nodes_props(2) [of m]
      by (simp add: context_order_def)
    with trancl_mono sub show ?thesis unfolding uv by blast
  qed
qed

lemma trancl_causes: "(causes m)\<^sup>+ = (arcs_of m)\<^sup>+"
proof
  show "(arcs_of m)\<^sup>+ \<subseteq> (causes m)\<^sup>+" using trancl_mono arcs_of_causes by (metis subrelI)
  have "(causes m)\<^sup>+ \<subseteq> ((arcs_of m)\<^sup>+)\<^sup>+" using trancl_mono causes_arcs_of by (metis subrelI)
  then show "(causes m)\<^sup>+ \<subseteq> (arcs_of m)\<^sup>+" by simp
qed

lemma acyclic_causes: "acyclic (causes m) \<longleftrightarrow> acyclic (arcs_of m)"
  by (simp add: acyclic_def trancl_causes)

lemma closed_trancl:
  assumes "\<forall>v \<in> S. \<forall>u. (u, v) \<in> R \<longrightarrow> u \<in> S" and "(u, v) \<in> R\<^sup>+" and "v \<in> S"
  shows "u \<in> S"
  using assms(2,3,1) by (induction rule: trancl_induct) auto

lemma available_causes:
  assumes "\<forall>v \<in> S. \<forall>u. (u, v) \<in> arcs_of m \<longrightarrow> u \<in> S"
  shows "available n (arcs_of m) S = available n (causes m) S"
proof -
  have "u \<in> S" if v: "\<forall>u. (u, v) \<in> arcs_of m \<longrightarrow> u \<in> S" and "(u, v) \<in> causes m" for u v
  proof -
    from that(2) causes_arcs_of have "(u, v) \<in> (arcs_of m)\<^sup>+" by blast
    then show ?thesis
    proof (cases rule: tranclE)
      case base
      with v show ?thesis by blast
    next
      case (step w)
      with v have "w \<in> S" by blast
      with closed_trancl [OF assms step(1)] show ?thesis by blast
    qed
  qed
  moreover have "(u, v) \<in> causes m" if "(u, v) \<in> arcs_of m" for u v
    using that arcs_of_causes by blast
  ultimately show ?thesis unfolding available_def by blast
qed

lemma greedy_closed:
  assumes "greedy n R out" and "k \<le> length out"
  shows "\<forall>v \<in> set (take k out). \<forall>u. (u, v) \<in> R \<longrightarrow> u \<in> set (take k out)"
proof (intro ballI allI impI)
  fix v u
  assume v: "v \<in> set (take k out)" and uv: "(u, v) \<in> R"
  then obtain j where j: "j < k" "j < length out" "out ! j = v" by (auto simp: in_set_conv_nth)
  with assms(1) have "available n R (set (take j out)) \<noteq> {}"
    "v = Min (available n R (set (take j out)))" by (auto simp: greedy_def)
  with available_Min(3) [of n R "set (take j out)"] uv have "u \<in> set (take j out)" by blast
  with j(1) show "u \<in> set (take k out)"
    using set_take_subset_set_take [of j k out] by auto
qed

lemma greedy_causes: "greedy n (arcs_of m) out \<Longrightarrow> greedy n (causes m) out"
proof -
  assume g: "greedy n (arcs_of m) out"
  have "available n (arcs_of m) (set (take k out)) = available n (causes m) (set (take k out))"
    if "k < length out" for k
    using that by (intro available_causes greedy_closed [OF g]) simp
  with g show ?thesis unfolding greedy_def by simp
qed

subsection \<open>The construction\<close>

lemma requests_ample:
  "ample w \<Longrightarrow> \<exists>w'. requests k w = (replicate k True, w') \<and> ample w' \<and> w_raised w' = w_raised w"
proof (induction k arbitrary: w)
  case (Suc k)
  from heap_request_ample [OF Suc.prems] obtain w1 where
    "heap_request w = (True, w1)" "ample w1" "w_raised w1 = w_raised w" by blast
  with Suc.IH [of w1] show ?case by auto
qed simp

lemma requests_length: "length (fst (requests k w)) = k"
proof (induction k arbitrary: w)
  case (Suc k)
  obtain b w1 bs w2 where "heap_request w = (b, w1)" "requests k w1 = (bs, w2)"
    by (metis surj_pair)
  with Suc [of w1] show ?case by simp
qed simp

lemma push_all_result:
  assumes "heap.holds q A" and "heap_room q = n" and "distinct vs" and "A \<inter> set vs = {}"
    and "A \<union> set vs \<subseteq> {..<n}"
  shows "\<exists>q'. push_all n q vs = Some q' \<and> heap.holds q' (A \<union> set vs) \<and> heap_room q' = n"
  using assms
proof (induction vs arbitrary: q A)
  case (Cons v vs)
  have "card A < n"
  proof -
    have "card (insert v A) \<le> card {..<n}" using Cons.prems by (intro card_mono) auto
    moreover have "finite A" using Cons.prems(5) finite_subset by auto
    ultimately show ?thesis using Cons.prems(4) by simp
  qed
  with heap.holds_push [OF Cons.prems(1), of v] Cons.prems(2,4) obtain q1 where
    q1: "heap_push n q v = Some q1" "heap.holds q1 (insert v A)" "heap_room q1 = n" by auto
  from Cons.IH [OF q1(2,3)] Cons.prems obtain q' where
    "push_all n q1 vs = Some q'" "heap.holds q' (insert v A \<union> set vs)" "heap_room q' = n" by auto
  with q1 show ?case by simp
qed simp

lemma empty_heap_holds: "heap.holds (replicate n 0, 0) {}" "heap_room (replicate n 0, 0) = n"
  by (simp_all add: heap.holds_def heap_valid_def heap_elems_def heap_room_def is_heap_def)

text \<open>The graph of the model, and what the emission loop does with it.\<close>

lemma graph_result:
  assumes "edges_in_range m"
  defines "n \<equiv> length (tm_nodes m)"
  shows "\<exists>g1 g q out. add_arcs (length (tm_edges m) + n) n (empty_graph n) (model_arcs m) = Some (Inr g1) \<and>
    add_arcs (length (tm_edges m) + n) n g1 (context_steps (tm_nodes m) (sorted_nodes m)) = Some (Inr g) \<and>
    push_all n (replicate n 0, 0) (filter (\<lambda>v. ag_indegree g ! v = 0) [0..<n]) = Some q \<and>
    emit n g (ag_indegree g) q [] = Some (Inr out) \<and> greedy n (causes m) out \<and> distinct out \<and>
    set out \<subseteq> {..<n} \<and> (length out = n \<longleftrightarrow> acyclic (causes m)) \<and>
    (filter (\<lambda>v. ag_indegree g ! v = 0) [0..<n] = [] \<longrightarrow> out = [])"
proof -
  let ?cap = "length (tm_edges m) + n" and ?steps = "context_steps (tm_nodes m) (sorted_nodes m)"
  let ?R1 = "{(u, v) \<in> set (model_arcs m). u \<noteq> v}"
  have e: "\<forall>(u, v) \<in> set (model_arcs m). u < n \<and> v < n"
    using assms by (auto simp: edges_in_range_def model_arcs_def)
  from add_arcs_stores [OF stores_empty e, of ?cap] obtain g1 where
    g1: "add_arcs ?cap n (empty_graph n) (model_arcs m) = Some (Inr g1)" "stores n g1 ?R1"
    by (auto simp: model_arcs_def)
  have s: "\<forall>(u, v) \<in> set ?steps. u < n \<and> v < n"
    using context_steps_set sorted_nodes_props(2) [of m] unfolding n_def by fastforce
  have room: "card ?R1 + length ?steps \<le> ?cap"
  proof -
    have "card ?R1 \<le> length (model_arcs m)"
      by (rule order_trans [OF card_mono card_length]) auto
    moreover have "length ?steps \<le> n"
    proof (cases "sorted_nodes m = []")
      case False
      from context_steps_length [OF this, of "tm_nodes m"] have "length ?steps \<le> length (sorted_nodes m)"
        by simp
      also have "\<dots> = n" using sorted_nodes_props(2,3) [of m] distinct_card [of "sorted_nodes m"]
        by (simp add: n_def)
      finally show ?thesis .
    qed simp
    ultimately show ?thesis by (simp add: model_arcs_def)
  qed
  have R: "?R1 \<union> {(u, v) \<in> set ?steps. u \<noteq> v} = arcs_of m" by (auto simp: arcs_of_def)
  from add_arcs_stores [OF g1(2) s room] obtain g where
    g: "add_arcs ?cap n g1 ?steps = Some (Inr g)" "stores n g (arcs_of m)" unfolding R by blast
  let ?free = "filter (\<lambda>v. ag_indegree g ! v = 0) [0..<n]"
  have free: "set ?free = available n (arcs_of m) {}"
  proof -
    have "ag_indegree g ! v = 0 \<longleftrightarrow> (\<forall>u. (u, v) \<notin> arcs_of m)" if "v < n" for v
    proof -
      have "finite {u. (u, v) \<in> arcs_of m}"
      proof (rule finite_subset)
        show "{u. (u, v) \<in> arcs_of m} \<subseteq> fst ` arcs_of m" by force
        show "finite (fst ` arcs_of m)" using g(2) by (simp add: stores_def)
      qed
      with g(2) that show ?thesis by (auto simp: stores_def)
    qed
    then show ?thesis by (auto simp: available_def)
  qed
  have "distinct ?free" "{} \<inter> set ?free = {}" "{} \<union> set ?free \<subseteq> {..<n}" by auto
  from push_all_result [OF empty_heap_holds this] obtain q where
    q: "push_all n (replicate n 0, 0) ?free = Some q" "heap.holds q (available n (arcs_of m) {})"
      "heap_room q = n"
    unfolding free by auto
  have "emitting n (arcs_of m) (ag_indegree g) q []"
    using g(2) q(2,3) by (simp add: emitting_def stores_def)
  from emit_result [OF g(2) this] obtain out where out:
    "emit n g (ag_indegree g) q [] = Some (Inr out)" "greedy n (arcs_of m) out" "distinct out"
    "set out \<subseteq> {..<n}" "available n (arcs_of m) (set out) = {}" by blast
  have "length out = n \<longleftrightarrow> acyclic (causes m)"
    using emitted_all [OF _ _ out(2,3,4,5)] g(2) by (simp add: acyclic_causes stores_def)
  moreover have "?free = [] \<longrightarrow> out = []"
  proof
    assume "?free = []"
    with free have none: "available n (arcs_of m) {} = {}" by (metis set_empty)
    show "out = []"
    proof (rule ccontr)
      assume "out \<noteq> []"
      with out(2) have "available n (arcs_of m) (set (take 0 out)) \<noteq> {}"
        unfolding greedy_def by blast
      with none show False by simp
    qed
  qed
  ultimately show ?thesis using g1(1) g(1) q(1) out greedy_causes [OF out(2)] by blast
qed

lemma acyclic_empty_model: "tm_nodes m = [] \<Longrightarrow> edges_in_range m \<Longrightarrow> acyclic (causes m)"
  by (auto simp: causes_def edge_pairs_def context_order_def edges_in_range_def acyclic_def)

lemma build_exact:
  assumes "edges_in_range (an_model a)"
    and "length (tm_edges (an_model a)) + length (tm_nodes (an_model a)) \<le> SIZE_MAX" and "ample w"
  shows "\<exists>w' xs. w_raised w' = w_raised w \<and> ample w' \<and>
    greedy (length (tm_nodes (an_model a))) (causes (an_model a)) xs \<and> distinct xs \<and>
    set xs \<subseteq> {..<length (tm_nodes (an_model a))} \<and>
    (length xs = length (tm_nodes (an_model a)) \<longleftrightarrow> acyclic (causes (an_model a))) \<and>
    build_causal_order (a, w) =
      (if acyclic (causes (an_model a)) then Some (True, a\<lparr>an_ordered := Some xs\<rparr>, w')
       else Some (True, a\<lparr>an_ordered := Some [], an_trouble := True\<rparr>, raise_errno EINVAL w'))"
proof -
  let ?m = "an_model a"
  let ?n = "length (tm_nodes ?m)"
  from requests_ample [OF assms(3), of 6] obtain w' where
    w': "requests 6 w = (replicate 6 True, w')" "ample w'" "w_raised w' = w_raised w" by blast
  from graph_result [OF assms(1)] obtain g1 g q out where r:
    "add_arcs (length (tm_edges ?m) + ?n) ?n (empty_graph ?n) (model_arcs ?m) = Some (Inr g1)"
    "add_arcs (length (tm_edges ?m) + ?n) ?n g1 (context_steps (tm_nodes ?m) (sorted_nodes ?m)) = Some (Inr g)"
    "push_all ?n (replicate ?n 0, 0) (filter (\<lambda>v. ag_indegree g ! v = 0) [0..<?n]) = Some q"
    "emit ?n g (ag_indegree g) q [] = Some (Inr out)" "greedy ?n (causes ?m) out" "distinct out"
    "set out \<subseteq> {..<?n}" "length out = ?n \<longleftrightarrow> acyclic (causes ?m)"
    "filter (\<lambda>v. ag_indegree g ! v = 0) [0..<?n] = [] \<longrightarrow> out = []" by blast
  have fits: "\<not> SIZE_MAX - ?n < length (tm_edges ?m)" using assms(2) by linarith
  have granted: "hd (replicate 6 True)" "list_all (\<lambda>b. b) (replicate 6 True)"
    by (simp_all add: list_all_iff numeral_eq_Suc)
  have called: "model_arcs ?m \<noteq> [] \<or> context_steps (tm_nodes ?m) (sorted_nodes ?m) \<noteq> [] \<or>
      filter (\<lambda>v. ag_indegree g ! v = 0) [0..<?n] \<noteq> []" if "\<not> acyclic (causes ?m)"
  proof (rule ccontr)
    assume "\<not> ?thesis"
    then have "arcs_of ?m = {}" by (auto simp: arcs_of_def)
    then have "acyclic (arcs_of ?m)" by (simp add: acyclic_def)
    with that show False by (simp add: acyclic_causes)
  qed
  have "build_causal_order (a, w) =
      (if acyclic (causes ?m) then Some (True, a\<lparr>an_ordered := Some out\<rparr>, w')
       else Some (True, a\<lparr>an_ordered := Some [], an_trouble := True\<rparr>, raise_errno EINVAL w'))"
    unfolding build_causal_order_def prod.case Let_def w'(1) if_not_P [OF fits]
    using r granted called by simp
  with w' r(5-8) show ?thesis by blast
qed

end
