(* ===== verification/Analysis_Facts.thy ===== *)
theory Analysis_Facts
  imports Analysis
begin

section \<open>Facts about the findings of an analysis\<close>

text \<open>
  The findings array is a growable array whose limit is the largest capacity whose bytes a
  \<open>size_t\<close> counts. \<open>stored\<close> is its invariant: the per-policy counts are the numbers of findings
  of each policy, and every finding carries the block of its time. \<open>appends\<close> says what an
  operation of the analysis does to the findings.
\<close>

definition FINDING_LIMIT :: nat where "FINDING_LIMIT = 16 * 2 ^ 49"

lemma finding_limit_bytes:
  "SIZE_MAX div FINDING_BYTES < 2 * FINDING_LIMIT" "FINDING_LIMIT \<le> SIZE_MAX div FINDING_BYTES"
  by (simp_all add: SIZE_MAX_def FINDING_BYTES_def FINDING_LIMIT_def)

lemma finding_limit_doubling: "FINDING_LIMIT = FINDING_INITIAL_CAPACITY * 2 ^ 49"
  by (simp add: FINDING_INITIAL_CAPACITY_def FINDING_LIMIT_def)

lemma next_within:
  assumes "doubling FINDING_INITIAL_CAPACITY c" and "c < FINDING_LIMIT"
  shows "\<not> SIZE_MAX div FINDING_BYTES < next_capacity FINDING_INITIAL_CAPACITY c"
proof -
  have "next_capacity FINDING_INITIAL_CAPACITY c \<le> FINDING_INITIAL_CAPACITY * 2 ^ 49"
    using assms unfolding finding_limit_doubling
    by (intro doubling_double_le) (auto simp: FINDING_INITIAL_CAPACITY_def)
  then show ?thesis
    using finding_limit_bytes(2) unfolding finding_limit_doubling by linarith
qed

interpretation finding_array: growable finding_reserve FINDING_INITIAL_CAPACITY FINDING_LIMIT
proof
  show "0 < FINDING_INITIAL_CAPACITY \<and> (\<exists>m. FINDING_LIMIT = FINDING_INITIAL_CAPACITY * 2 ^ m)"
    using finding_limit_doubling by (intro conjI exI [of _ 49]) (simp_all add: FINDING_INITIAL_CAPACITY_def)
next
  fix n c w c' w'
  assume h: "finding_reserve n c w = (True, c', w')" "n \<le> c"
  have lim: "c < FINDING_LIMIT" if "\<not> SIZE_MAX div FINDING_BYTES < next_capacity FINDING_INITIAL_CAPACITY c"
    using that finding_limit_bytes(1)
    by (cases "c = 0") (auto simp: next_capacity_def FINDING_LIMIT_def)
  show "n < c' \<and> (c' = c \<or> c < FINDING_LIMIT \<and> c' = next_capacity FINDING_INITIAL_CAPACITY c) \<and>
      w_raised w' = w_raised w"
    using h lim
    by (auto simp: finding_reserve_def Let_def next_capacity_def FINDING_INITIAL_CAPACITY_def
        split: if_splits prod.splits bool.splits)
next
  fix n c w c' w'
  assume "finding_reserve n c w = (False, c', w')"
  then show "c' = c \<and> w_raised w' \<noteq> w_raised w"
    by (auto simp: finding_reserve_def Let_def raise_errno_def split: if_splits prod.splits bool.splits)
next
  fix n c w
  assume h: "n \<le> c" "c \<le> FINDING_LIMIT" "FINDING_LIMIT \<le> n"
  then have "SIZE_MAX div FINDING_BYTES < next_capacity FINDING_INITIAL_CAPACITY c"
    using finding_limit_bytes(1) by (auto simp: next_capacity_def FINDING_LIMIT_def)
  with h show "fst (finding_reserve n c w) = False" by (simp add: finding_reserve_def)
next
  fix n c w
  assume h: "doubling FINDING_INITIAL_CAPACITY c" "n \<le> c" "n < FINDING_LIMIT" "ample w"
  show "\<exists>c' w'. finding_reserve n c w = (True, c', w') \<and> ample w'"
  proof (cases "n < c")
    case True
    with h show ?thesis by (simp add: finding_reserve_def)
  next
    case False
    with h have "c < FINDING_LIMIT" by simp
    from next_within [OF h(1) this] False heap_request_ample [OF h(4)] show ?thesis
      by (auto simp: finding_reserve_def)
  qed
qed

subsection \<open>The invariant\<close>

text \<open>The number of enlargements after which an array has the capacity \<open>c\<close>.\<close>

definition generation :: "nat \<Rightarrow> nat \<Rightarrow> bool" where
  "generation c k \<longleftrightarrow> (c = 0 \<and> k = 0) \<or> (\<exists>j. k = Suc j \<and> c = FINDING_INITIAL_CAPACITY * 2 ^ j)"

lemma generation_next: "generation c k \<Longrightarrow> generation (next_capacity FINDING_INITIAL_CAPACITY c) (Suc k)"
  by (auto simp: generation_def next_capacity_def FINDING_INITIAL_CAPACITY_def)

lemma generation_small:
  assumes "generation c k"
  shows "k \<le> 1 \<longleftrightarrow> c \<le> 16"
proof -
  from assms consider "c = 0" "k = 0" | j where "k = Suc j" "c = 16 * 2 ^ j"
    by (auto simp: generation_def FINDING_INITIAL_CAPACITY_def)
  then show ?thesis
  proof cases
    case 2
    have "16 * 2 ^ j \<le> (16 :: nat) \<longleftrightarrow> j = 0"
    proof (cases j)
      case (Suc n)
      have "1 \<le> (2 :: nat) ^ n" by simp
      then have "16 < 16 * (2 * 2 ^ n :: nat)" by linarith
      then show ?thesis using Suc by simp
    qed simp
    with 2 show ?thesis by simp
  qed simp
qed

lemma generation_doubling: "generation c k \<Longrightarrow> doubling FINDING_INITIAL_CAPACITY c"
  by (auto simp: generation_def doubling_def)

definition stored :: "tool_analysis \<Rightarrow> bool" where
  "stored a \<longleftrightarrow> generation (an_finding_capacity a) (an_block a) \<and>
     length (an_findings a) \<le> an_finding_capacity a \<and> an_finding_capacity a \<le> FINDING_LIMIT \<and>
     (an_block a \<le> 1 \<or> an_finding_capacity a \<le> 2 * length (an_findings a)) \<and>
     (\<forall>i < length (an_findings a). of_block (an_findings a ! i) \<le> an_block a \<and>
        (of_block (an_findings a ! i) = an_block a \<longleftrightarrow>
           an_block a \<le> 1 \<or> an_finding_capacity a \<le> 2 * i)) \<and>
     (\<forall>p. an_policy_counts a p = length (filter (\<lambda>f. of_policy f = p) (an_findings a)))"

lemma stored_new: "stored (new_analysis m)"
  by (simp add: stored_def new_analysis_def generation_def)

lemma stored_fits:
  "stored a \<Longrightarrow> fits FINDING_INITIAL_CAPACITY FINDING_LIMIT (an_findings a) (an_finding_capacity a)"
  by (auto simp: stored_def fits_def dest: generation_doubling)

text \<open>The other fields of the analysis do not matter.\<close>

definition same_findings :: "tool_analysis \<Rightarrow> tool_analysis \<Rightarrow> bool" where
  "same_findings a b \<longleftrightarrow> an_findings a = an_findings b \<and>
     an_finding_capacity a = an_finding_capacity b \<and> an_block a = an_block b \<and>
     an_policy_counts a = an_policy_counts b"

lemma stored_same: "same_findings a b \<Longrightarrow> stored a = stored b"
  by (simp add: same_findings_def stored_def)

lemma stored_blocks:
  "stored a \<Longrightarrow> i < length (an_findings a) \<Longrightarrow> of_block (an_findings a ! i) \<le> an_block a"
  "stored a \<Longrightarrow> i < length (an_findings a) \<Longrightarrow> of_block (an_findings a ! i) = an_block a \<longleftrightarrow>
     an_block a \<le> 1 \<or> an_finding_capacity a \<le> 2 * i"
  by (simp_all add: stored_def)

lemma reserve_findings_stored:
  assumes "stored a" and "reserve_findings (a, w) = (b, a1, w1)"
  shows "stored a1" "\<exists>c k. a1 = a\<lparr>an_finding_capacity := c, an_block := k\<rparr>"
    "b \<Longrightarrow> length (an_findings a) < an_finding_capacity a1" "b \<Longrightarrow> w_raised w1 = w_raised w"
    "\<not> b \<Longrightarrow> w_raised w1 \<noteq> w_raised w"
proof -
  let ?n = "length (an_findings a)" and ?c = "an_finding_capacity a"
  obtain c where res: "finding_reserve ?n ?c w = (b, c, w1)"
    and a1: "a1 = a\<lparr>an_finding_capacity := c,
      an_block := (if c = ?c then an_block a else an_block a + 1)\<rparr>"
    using assms(2) by (auto simp: reserve_findings_def split: prod.splits)
  show "\<exists>c k. a1 = a\<lparr>an_finding_capacity := c, an_block := k\<rparr>" using a1 by blast
  from assms(1) have n: "?n \<le> ?c" by (simp add: stored_def)
  have kept: "b \<Longrightarrow> ?n < c \<and> (c = ?c \<or> ?c < FINDING_LIMIT \<and> c = next_capacity FINDING_INITIAL_CAPACITY ?c)
      \<and> w_raised w1 = w_raised w"
    using finding_array.grown [of ?n ?c w c w1] res n by simp
  have refused: "\<not> b \<Longrightarrow> c = ?c \<and> w_raised w1 \<noteq> w_raised w"
    using finding_array.refused [of ?n ?c w c w1] res by simp
  show "b \<Longrightarrow> ?n < an_finding_capacity a1" "b \<Longrightarrow> w_raised w1 = w_raised w"
    "\<not> b \<Longrightarrow> w_raised w1 \<noteq> w_raised w"
    using kept refused by (simp_all add: a1)
  show "stored a1"
  proof (cases "c = ?c")
    case True
    then have "a1 = a" by (simp add: a1)
    with assms(1) show ?thesis by simp
  next
    case False
    with kept refused have c: "?c < FINDING_LIMIT" "c = next_capacity FINDING_INITIAL_CAPACITY ?c"
      by (cases b; simp)+
    have full: "?n = ?c"
    proof (rule ccontr)
      assume "?n \<noteq> ?c"
      with n res have "c = ?c" by (simp add: finding_reserve_def)
      with False show False ..
    qed
    have fits: "fits FINDING_INITIAL_CAPACITY FINDING_LIMIT (an_findings a) c"
      using finding_array.kept_fits [OF stored_fits [OF assms(1)] res] .
    have gen: "generation c (Suc (an_block a))"
      using assms(1) c(2) by (simp add: stored_def generation_next)
    have zero: "an_block a = 0 \<longleftrightarrow> ?c = 0" and double: "?c \<noteq> 0 \<Longrightarrow> c = 2 * ?n"
      using assms(1) c(2) full
      by (auto simp: stored_def generation_def next_capacity_def FINDING_INITIAL_CAPACITY_def)
    have old: "of_block (an_findings a ! i) < Suc (an_block a)" if "i < ?n" for i
      using stored_blocks(1) [OF assms(1) that] by simp
    have late: "\<not> (Suc (an_block a) \<le> 1 \<or> c \<le> 2 * i)" if "i < ?n" for i
      using that zero double full by auto
    have room: "Suc (an_block a) \<le> 1 \<or> c \<le> 2 * ?n" using zero double by auto
    have a1': "a1 = a\<lparr>an_finding_capacity := c, an_block := Suc (an_block a)\<rparr>"
      using False by (simp add: a1)
    have blocks: "\<forall>i < ?n. of_block (an_findings a ! i) \<le> Suc (an_block a) \<and>
        (of_block (an_findings a ! i) = Suc (an_block a) \<longleftrightarrow> Suc (an_block a) \<le> 1 \<or> c \<le> 2 * i)"
    proof (intro allI impI)
      fix i
      assume "i < ?n"
      from old [OF this] late [OF this] show "of_block (an_findings a ! i) \<le> Suc (an_block a) \<and>
        (of_block (an_findings a ! i) = Suc (an_block a) \<longleftrightarrow> Suc (an_block a) \<le> 1 \<or> c \<le> 2 * i)"
        by linarith
    qed
    have counts: "\<forall>p. an_policy_counts a p = length (filter (\<lambda>f. of_policy f = p) (an_findings a))"
      using assms(1) by (simp add: stored_def)
    have bounds: "?n \<le> c" "c \<le> FINDING_LIMIT" using fits by (simp_all add: fits_def)
    show ?thesis
      unfolding stored_def a1' using gen room blocks counts bounds by simp
  qed
qed

lemma add_finding_result:
  assumes "stored a"
    and "add_analysis_finding (a, w) identifier policy message node src dst detail = (b, a1, w1)"
  shows "stored a1"
    "\<exists>c k. a1 = (if b then a\<lparr>an_finding_capacity := c, an_block := k,
         an_findings := an_findings a @ [finding_of identifier policy message node src dst detail k],
         an_policy_counts := (an_policy_counts a)(policy := an_policy_counts a policy + 1)\<rparr>
       else a\<lparr>an_finding_capacity := c, an_block := k\<rparr>)"
    "b \<Longrightarrow> w_raised w1 = w_raised w" "\<not> b \<Longrightarrow> w_raised w1 \<noteq> w_raised w"
proof -
  obtain d a2 w2 where res: "reserve_findings (a, w) = (d, a2, w2)" by (metis surj_pair)
  note r = reserve_findings_stored [OF assms(1) res]
  from r(2) obtain c k where a2: "a2 = a\<lparr>an_finding_capacity := c, an_block := k\<rparr>" by blast
  let ?f = "finding_of identifier policy message node src dst detail k"
  let ?ok = "evidence_fits src \<and> evidence_fits dst \<and> evidence_fits detail"
  have out: "(b, a1, w1) = (if \<not> d then (False, a2, w2) else if \<not> ?ok then (False, a2, raise_errno EOVERFLOW w2)
      else (True, a2\<lparr>an_findings := an_findings a2 @ [?f],
         an_policy_counts := (an_policy_counts a2)(policy := an_policy_counts a2 policy + 1)\<rparr>, w2))"
    using assms(2) res by (auto simp: add_analysis_finding_def a2)
  show "stored a1"
  proof (cases "d \<and> ?ok")
    case True
    have p: "of_policy ?f = policy" "of_block ?f = k" by (simp_all add: finding_of_def)
    from True out have "a1 = a2\<lparr>an_findings := an_findings a2 @ [?f],
         an_policy_counts := (an_policy_counts a2)(policy := an_policy_counts a2 policy + 1)\<rparr>" by simp
    with r(1,3) True p show ?thesis
      by (auto simp: stored_def a2 nth_append less_Suc_eq)
  next
    case False
    with out have "a1 = a2" by (auto split: if_splits)
    with r(1) show ?thesis by simp
  qed
  show "\<exists>c k. a1 = (if b then a\<lparr>an_finding_capacity := c, an_block := k,
         an_findings := an_findings a @ [finding_of identifier policy message node src dst detail k],
         an_policy_counts := (an_policy_counts a)(policy := an_policy_counts a policy + 1)\<rparr>
       else a\<lparr>an_finding_capacity := c, an_block := k\<rparr>)"
    using out by (intro exI [of _ c] exI [of _ k]) (auto simp: a2 split: if_splits)
  show "b \<Longrightarrow> w_raised w1 = w_raised w" "\<not> b \<Longrightarrow> w_raised w1 \<noteq> w_raised w"
    using out r(4,5) by (auto simp: raise_errno_def split: if_splits)
qed

subsection \<open>Reports\<close>

text \<open>A finding without the block it is stored in, and what an operation adds of them.\<close>

definition report :: "owned_finding \<Rightarrow> owned_finding" where
  "report f = f\<lparr>of_block := 0\<rparr>"

definition reports :: "tool_analysis \<Rightarrow> owned_finding list" where
  "reports a = map report (an_findings a)"

lemma report_finding_of [simp]:
  "report (finding_of identifier policy message node src dst detail k) =
     finding_of identifier policy message node src dst detail 0"
  by (simp add: report_def finding_of_def)

text \<open>Everything but the findings.\<close>

definition rest_same :: "tool_analysis \<Rightarrow> tool_analysis \<Rightarrow> bool" where
  "rest_same a b \<longleftrightarrow> (\<exists>fs c k pc. b = a\<lparr>an_findings := fs, an_finding_capacity := c, an_block := k,
     an_policy_counts := pc\<rparr>)"

lemma rest_same_refl [simp]: "rest_same a a"
proof -
  have "a = a\<lparr>an_findings := an_findings a, an_finding_capacity := an_finding_capacity a,
      an_block := an_block a, an_policy_counts := an_policy_counts a\<rparr>" by simp
  then show ?thesis unfolding rest_same_def by blast
qed

lemma rest_same_trans: "rest_same a b \<Longrightarrow> rest_same b c \<Longrightarrow> rest_same a c"
proof -
  assume "rest_same a b" "rest_same b c"
  then obtain fs c1 k pc where "c = b\<lparr>an_findings := fs, an_finding_capacity := c1, an_block := k,
     an_policy_counts := pc\<rparr>" and "rest_same a b" unfolding rest_same_def by blast
  then show ?thesis unfolding rest_same_def by force
qed

lemma rest_same_fields:
  assumes "rest_same a b"
  shows "an_model b = an_model a" "an_ordered b = an_ordered a"
    "an_resource_records b = an_resource_records a"
    "an_synchronization_records b = an_synchronization_records a"
    "an_call_records b = an_call_records a" "an_trouble b = an_trouble a"
  using assms by (auto simp: rest_same_def)

lemma rest_same_records:
  assumes "rest_same (a\<lparr>an_resource_records := j\<rparr>) b"
  shows "rest_same (a\<lparr>an_resource_records := k\<rparr>) (b\<lparr>an_resource_records := k\<rparr>)"
proof -
  from assms obtain fs c i pc where b: "b = a\<lparr>an_resource_records := j, an_findings := fs,
      an_finding_capacity := c, an_block := i, an_policy_counts := pc\<rparr>"
    unfolding rest_same_def by auto
  have "b\<lparr>an_resource_records := k\<rparr> = a\<lparr>an_resource_records := k, an_findings := fs,
      an_finding_capacity := c, an_block := i, an_policy_counts := pc\<rparr>" unfolding b by simp
  then show ?thesis unfolding rest_same_def by blast
qed

lemma add_finding_step:
  assumes "stored a"
    and "add_analysis_finding (a, w) identifier policy message node src dst detail = (b, a1, w1)"
  shows "stored a1" "rest_same a a1"
    "reports a1 = reports a @
      (if b then [finding_of identifier policy message node src dst detail 0] else [])"
proof -
  note r = add_finding_result [OF assms]
  show "stored a1" by (rule r(1))
  from r(2) obtain c k where a1: "a1 = (if b then a\<lparr>an_finding_capacity := c, an_block := k,
       an_findings := an_findings a @ [finding_of identifier policy message node src dst detail k],
       an_policy_counts := (an_policy_counts a)(policy := an_policy_counts a policy + 1)\<rparr>
     else a\<lparr>an_finding_capacity := c, an_block := k\<rparr>)" by blast
  have same: "a = a\<lparr>an_findings := an_findings a, an_policy_counts := an_policy_counts a\<rparr>" by simp
  show "rest_same a a1"
  proof (cases b)
    case True
    then show ?thesis unfolding rest_same_def a1 if_P [OF True]
      by (intro exI [of _ "an_findings a @ [finding_of identifier policy message node src dst detail k]"]
          exI [of _ c] exI [of _ k]
          exI [of _ "(an_policy_counts a)(policy := an_policy_counts a policy + 1)"]) simp
  next
    case False
    then show ?thesis unfolding rest_same_def a1 if_not_P [OF False]
      by (intro exI [of _ "an_findings a"] exI [of _ c] exI [of _ k] exI [of _ "an_policy_counts a"]) simp
  qed
  show "reports a1 = reports a @
      (if b then [finding_of identifier policy message node src dst detail 0] else [])"
    by (simp add: a1 reports_def)
qed

text \<open>With memory, and below the limit, only evidence that does not fit is refused.\<close>

lemma add_finding_ample:
  assumes "stored a" and "ample w" and "length (an_findings a) < FINDING_LIMIT"
  shows "\<exists>a1 w1. add_analysis_finding (a, w) identifier policy message node src dst detail =
    (evidence_fits src \<and> evidence_fits dst \<and> evidence_fits detail, a1, w1) \<and> ample w1"
proof -
  have "doubling FINDING_INITIAL_CAPACITY (an_finding_capacity a)"
    "length (an_findings a) \<le> an_finding_capacity a"
    using stored_fits [OF assms(1)] by (simp_all add: fits_def)
  from finding_array.roomy [OF this assms(3,2)] obtain c w1 where
    "finding_reserve (length (an_findings a)) (an_finding_capacity a) w = (True, c, w1)" "ample w1"
    by blast
  then show ?thesis
    by (auto simp: add_analysis_finding_def reserve_findings_def ample_def raise_errno_def)
qed

subsection \<open>The resource policy\<close>

definition empty_allocation_report :: "model_node \<Rightarrow> owned_finding" where
  "empty_allocation_report n = finding_of ''P101-MEM-001'' POLICY_RESOURCE
     ''allocation size was zero at runtime'' (Some n) (Some (mn_ptr n)) (Some (mn_new_ptr n)) None 0"

definition lifecycle_report :: "tool_analysis \<Rightarrow> lifecycle_finding \<Rightarrow> owned_finding" where
  "lifecycle_report a f = finding_of (lifecycle_identifier f) POLICY_RESOURCE
     (lifecycle_message (lifecycle_identifier f))
     (find_node a (lf_pid f) (lf_context_id f) (lf_sequence f))
     (Some (lf_resource_class f)) (Some (lf_resource_id f)) None 0"

definition lifecycle_findings :: "tool_model \<Rightarrow> lifecycle_finding list" where
  "lifecycle_findings m = (case tm_lifecycle m of None \<Rightarrow> [] | Some l \<Rightarrow> lm_findings l)"

lemma lifecycle_findings_at:
  "model_lifecycle_finding_count (Some m) = length (lifecycle_findings m)"
  "i < length (lifecycle_findings m) \<Longrightarrow>
     model_lifecycle_finding_at (Some m) i = Some (lifecycle_findings m ! i)"
  by (auto simp: model_lifecycle_finding_count_def model_lifecycle_finding_at_def
      lifecycle_finding_count_def lifecycle_finding_at_def lifecycle_findings_def
      split: option.splits)

text \<open>The texts that a report quotes fit into their buffers.\<close>

definition quotes_fit :: "owned_finding \<Rightarrow> bool" where
  "quotes_fit f \<longleftrightarrow> length (of_evidence_from f) < EVIDENCE_TEXT_SIZE \<and>
     length (of_evidence_to f) < EVIDENCE_TEXT_SIZE \<and>
     length (of_evidence_detail f) < EVIDENCE_TEXT_SIZE"

lemma quotes_fit_finding_of:
  "quotes_fit (finding_of identifier policy message node src dst detail k) \<longleftrightarrow>
     evidence_fits src \<and> evidence_fits dst \<and> evidence_fits detail"
  by (auto simp: quotes_fit_def finding_of_def evidence_fits_def EVIDENCE_TEXT_SIZE_def
      split: option.splits)

lemma find_node_same: "rest_same a b \<Longrightarrow> find_node b = find_node a"
  by (intro ext) (simp add: find_node_def ordered_nodes_def rest_same_fields)

lemma resource_nodes_from_result:
  assumes "stored a" and "ample w"
    and "length (an_findings a) + length (filter empty_allocation ns) \<le> FINDING_LIMIT"
  shows "\<exists>a1 w1 k. resource_nodes_from ns (a, w) =
      (list_all quotes_fit (map empty_allocation_report (filter empty_allocation ns)), a1, w1) \<and>
    ample w1 \<and> stored a1 \<and> rest_same (a\<lparr>an_resource_records := k\<rparr>) a1 \<and>
    (list_all quotes_fit (map empty_allocation_report (filter empty_allocation ns)) \<longrightarrow>
      reports a1 = reports a @ map empty_allocation_report (filter empty_allocation ns) \<and>
      k = an_resource_records a + length (filter (\<lambda>n. mn_domain n = NODE_RESOURCE) ns))"
  using assms
proof (induction ns arbitrary: a w)
  case Nil
  have "a\<lparr>an_resource_records := an_resource_records a\<rparr> = a" by simp
  with Nil show ?case by (auto intro!: exI [of _ "an_resource_records a"])
next
  case (Cons n ns)
  let ?k = "an_resource_records a + (if mn_domain n = NODE_RESOURCE then 1 else 0)"
  let ?a = "a\<lparr>an_resource_records := ?k\<rparr>"
  have a: "(if mn_domain n = NODE_RESOURCE
      then a\<lparr>an_resource_records := an_resource_records a + 1\<rparr> else a) = ?a" by simp
  have st: "stored ?a" "an_findings ?a = an_findings a" "reports ?a = reports a"
    using Cons.prems(1) stored_same [of ?a a] by (simp_all add: same_findings_def reports_def)
  have step: "resource_nodes_from (n # ns) (a, w) =
      (if empty_allocation n then
        (case add_analysis_finding (?a, w) ''P101-MEM-001'' POLICY_RESOURCE
                ''allocation size was zero at runtime'' (Some n) (Some (mn_ptr n))
                (Some (mn_new_ptr n)) None of
           (False, s1) \<Rightarrow> (False, s1)
         | (True, s1) \<Rightarrow> resource_nodes_from ns s1)
      else resource_nodes_from ns (?a, w))"
    by (simp only: resource_nodes_from.simps Let_def a)
  show ?case
  proof (cases "empty_allocation n")
    case False
    with Cons.prems st Cons.IH [of ?a w] obtain a1 w1 k where
      "resource_nodes_from ns (?a, w) =
        (list_all quotes_fit (map empty_allocation_report (filter empty_allocation ns)), a1, w1)"
      "ample w1" "stored a1" "rest_same (a\<lparr>an_resource_records := k\<rparr>) a1"
      "list_all quotes_fit (map empty_allocation_report (filter empty_allocation ns)) \<longrightarrow>
        reports a1 = reports a @ map empty_allocation_report (filter empty_allocation ns) \<and>
        k = ?k + length (filter (\<lambda>n. mn_domain n = NODE_RESOURCE) ns)" by auto
    with False show ?thesis unfolding step by auto
  next
    case True
    let ?add = "add_analysis_finding (?a, w) ''P101-MEM-001'' POLICY_RESOURCE
        ''allocation size was zero at runtime'' (Some n) (Some (mn_ptr n)) (Some (mn_new_ptr n)) None"
    have "length (an_findings ?a) < FINDING_LIMIT" using Cons.prems(3) True by simp
    from add_finding_ample [OF st(1) Cons.prems(2) this, of "''P101-MEM-001''" POLICY_RESOURCE
        "''allocation size was zero at runtime''" "Some n" "Some (mn_ptr n)" "Some (mn_new_ptr n)" None]
    obtain a1 w1 where add: "?add = (quotes_fit (empty_allocation_report n), a1, w1)" "ample w1"
      by (auto simp: empty_allocation_report_def quotes_fit_finding_of)
    note r = add_finding_step [OF st(1) add(1)]
    have rep: "reports a1 = reports a @ (if quotes_fit (empty_allocation_report n)
        then [empty_allocation_report n] else [])"
      using r(3) st(3) by (simp add: empty_allocation_report_def)
    show ?thesis
    proof (cases "quotes_fit (empty_allocation_report n)")
      case False
      with True add r(1,2) show ?thesis unfolding step
        by (intro exI [of _ a1] exI [of _ w1] exI [of _ ?k]) simp
    next
      case fit: True
      have "length (an_findings a1) = Suc (length (an_findings a))"
        using arg_cong [OF rep, of length] fit by (simp add: reports_def)
      with Cons.IH [OF r(1) add(2)] Cons.prems(3) True obtain a2 w2 k where s:
        "resource_nodes_from ns (a1, w1) =
          (list_all quotes_fit (map empty_allocation_report (filter empty_allocation ns)), a2, w2)"
        "ample w2" "stored a2" "rest_same (a1\<lparr>an_resource_records := k\<rparr>) a2"
        "list_all quotes_fit (map empty_allocation_report (filter empty_allocation ns)) \<longrightarrow>
          reports a2 = reports a1 @ map empty_allocation_report (filter empty_allocation ns) \<and>
          k = an_resource_records a1 + length (filter (\<lambda>n. mn_domain n = NODE_RESOURCE) ns)"
        by auto
      have "rest_same (a\<lparr>an_resource_records := k\<rparr>) (a1\<lparr>an_resource_records := k\<rparr>)"
        using rest_same_records [OF r(2), of k] by simp
      with s(4) have "rest_same (a\<lparr>an_resource_records := k\<rparr>) a2" by (rule rest_same_trans [rotated])
      with True fit add s rep rest_same_fields(3) [OF r(2)] show ?thesis unfolding step
        by (intro exI [of _ a2] exI [of _ w2] exI [of _ k]) simp
    qed
  qed
qed

lemma lifecycle_findings_from_result:
  assumes "stored a" and "ample w" and "i + k = length (lifecycle_findings (an_model a))"
    and "length (an_findings a) + k \<le> FINDING_LIMIT"
  defines "fs \<equiv> map (lifecycle_report a) (drop i (lifecycle_findings (an_model a)))"
  shows "\<exists>a1 w1. lifecycle_findings_from k i (a, w) = (list_all quotes_fit fs, a1, w1) \<and>
    ample w1 \<and> stored a1 \<and> rest_same a a1 \<and>
    (list_all quotes_fit fs \<longrightarrow> reports a1 = reports a @ fs)"
  using assms(1-4) unfolding fs_def
proof (induction k arbitrary: i a w)
  case 0
  then show ?case by simp
next
  case (Suc k)
  let ?f = "lifecycle_findings (an_model a) ! i"
  have i: "i < length (lifecycle_findings (an_model a))" using Suc.prems(3) by simp
  then have drop: "drop i (lifecycle_findings (an_model a)) =
      ?f # drop (Suc i) (lifecycle_findings (an_model a))" by (simp add: Cons_nth_drop_Suc)
  let ?add = "add_analysis_finding (a, w) (lifecycle_identifier ?f) POLICY_RESOURCE
      (lifecycle_message (lifecycle_identifier ?f))
      (find_node a (lf_pid ?f) (lf_context_id ?f) (lf_sequence ?f))
      (Some (lf_resource_class ?f)) (Some (lf_resource_id ?f)) None"
  have "length (an_findings a) < FINDING_LIMIT" using Suc.prems(4) by simp
  from add_finding_ample [OF Suc.prems(1,2) this, of "lifecycle_identifier ?f" POLICY_RESOURCE
      "lifecycle_message (lifecycle_identifier ?f)"
      "find_node a (lf_pid ?f) (lf_context_id ?f) (lf_sequence ?f)"
      "Some (lf_resource_class ?f)" "Some (lf_resource_id ?f)" None]
  obtain a1 w1 where add: "?add = (quotes_fit (lifecycle_report a ?f), a1, w1)" "ample w1"
    by (auto simp: lifecycle_report_def quotes_fit_finding_of)
  note r = add_finding_step [OF Suc.prems(1) add(1)]
  have rep: "reports a1 = reports a @ (if quotes_fit (lifecycle_report a ?f)
      then [lifecycle_report a ?f] else [])"
    using r(3) by (simp add: lifecycle_report_def)
  have step: "lifecycle_findings_from (Suc k) i (a, w) =
      (case ?add of (False, s1) \<Rightarrow> (False, s1) | (True, s1) \<Rightarrow> lifecycle_findings_from k (Suc i) s1)"
    by (simp add: lifecycle_findings_at(2) [OF i] Let_def)
  show ?case
  proof (cases "quotes_fit (lifecycle_report a ?f)")
    case False
    with add r(1,2) show ?thesis unfolding step drop by simp
  next
    case True
    have len: "length (an_findings a1) = Suc (length (an_findings a))"
      using arg_cong [OF rep, of length] True by (simp add: reports_def)
    have same: "lifecycle_report a1 = lifecycle_report a"
      using find_node_same [OF r(2)] by (intro ext) (simp add: lifecycle_report_def)
    have model: "an_model a1 = an_model a" using rest_same_fields [OF r(2)] by simp
    from Suc.IH [OF r(1) add(2), of "Suc i"] Suc.prems(3,4) len model same obtain a2 w2 where s:
      "lifecycle_findings_from k (Suc i) (a1, w1) =
        (list_all quotes_fit (map (lifecycle_report a) (drop (Suc i) (lifecycle_findings (an_model a)))), a2, w2)"
      "ample w2" "stored a2" "rest_same a1 a2"
      "list_all quotes_fit (map (lifecycle_report a) (drop (Suc i) (lifecycle_findings (an_model a)))) \<longrightarrow>
        reports a2 = reports a1 @ map (lifecycle_report a) (drop (Suc i) (lifecycle_findings (an_model a)))"
      by auto
    from r(2) s(4) have "rest_same a a2" by (rule rest_same_trans)
    with True add s rep show ?thesis unfolding step drop by simp
  qed
qed

text \<open>The reports of the resource policy, in their order.\<close>

definition resource_reports :: "tool_analysis \<Rightarrow> owned_finding list" where
  "resource_reports a = map empty_allocation_report (filter empty_allocation (ordered_nodes a)) @
     map (lifecycle_report a) (lifecycle_findings (an_model a))"

lemma analyze_resources_result:
  assumes "stored a" and "ample w"
    and "length (an_findings a) + length (resource_reports a) \<le> FINDING_LIMIT"
  shows "\<exists>a1 w1 k. analyze_resources (a, w) = (list_all quotes_fit (resource_reports a), a1, w1) \<and>
    ample w1 \<and> stored a1 \<and> rest_same (a\<lparr>an_resource_records := k\<rparr>) a1 \<and>
    (list_all quotes_fit (resource_reports a) \<longrightarrow> reports a1 = reports a @ resource_reports a \<and>
      k = length (filter (\<lambda>n. mn_domain n = NODE_RESOURCE) (ordered_nodes a)))"
proof -
  let ?a = "a\<lparr>an_resource_records := 0\<rparr>"
  let ?empty = "map empty_allocation_report (filter empty_allocation (ordered_nodes a))"
  let ?life = "map (lifecycle_report a) (lifecycle_findings (an_model a))"
  have st: "stored ?a" "reports ?a = reports a" "an_findings ?a = an_findings a"
    using assms(1) stored_same [of ?a a] by (simp_all add: same_findings_def reports_def)
  have nodes: "ordered_nodes ?a = ordered_nodes a" by (simp add: ordered_nodes_def)
  have room: "length (an_findings ?a) + length (filter empty_allocation (ordered_nodes a)) \<le> FINDING_LIMIT"
    using assms(3) by (simp add: resource_reports_def)
  from resource_nodes_from_result [OF st(1) assms(2) room] obtain a1 w1 k where n:
    "resource_nodes_from (ordered_nodes a) (?a, w) = (list_all quotes_fit ?empty, a1, w1)"
    "ample w1" "stored a1" "rest_same (a\<lparr>an_resource_records := k\<rparr>) a1"
    "list_all quotes_fit ?empty \<longrightarrow> reports a1 = reports a @ ?empty \<and>
      k = length (filter (\<lambda>n. mn_domain n = NODE_RESOURCE) (ordered_nodes a))"
    using st by auto
  show ?thesis
  proof (cases "list_all quotes_fit ?empty")
    case False
    with n show ?thesis
      by (intro exI [of _ a1] exI [of _ w1] exI [of _ k])
        (simp add: analyze_resources_def resource_reports_def)
  next
    case True
    have model: "an_model a1 = an_model a" using rest_same_fields(1) [OF n(4)] by simp
    have find: "find_node a1 = find_node a"
      using find_node_same [OF n(4)] by (intro ext) (simp add: find_node_def ordered_nodes_def)
    have same: "lifecycle_report a1 = lifecycle_report a"
      by (intro ext) (simp add: lifecycle_report_def find)
    from n(5) True have "reports a1 = reports a @ ?empty" by blast
    from arg_cong [OF this, of length] have rep: "length (an_findings a1) =
        length (an_findings a) + length (filter empty_allocation (ordered_nodes a))"
      by (simp add: reports_def)
    have "length (an_findings a1) = length (an_findings a) + length (filter empty_allocation (ordered_nodes a))"
      using rep by simp
    with assms(3) model have room: "length (an_findings a1) + length (lifecycle_findings (an_model a1)) \<le> FINDING_LIMIT"
      by (simp add: resource_reports_def)
    from lifecycle_findings_from_result [OF n(3,2) _ room, of 0] obtain a2 w2 where l:
      "lifecycle_findings_from (length (lifecycle_findings (an_model a1))) 0 (a1, w1) =
        (list_all quotes_fit ?life, a2, w2)" "ample w2" "stored a2" "rest_same a1 a2"
      "list_all quotes_fit ?life \<longrightarrow> reports a2 = reports a1 @ ?life"
      by (auto simp: model same)
    from n(4) l(4) have "rest_same (a\<lparr>an_resource_records := k\<rparr>) a2" by (rule rest_same_trans)
    with True n l model show ?thesis
      by (intro exI [of _ a2] exI [of _ w2] exI [of _ k])
        (simp add: analyze_resources_def resource_reports_def lifecycle_findings_at nodes)
  qed
qed

end
