(* ===== verification/Analysis_Trace.thy ===== *)
theory Analysis_Trace
  imports Analysis Keyed_Table
begin

section \<open>The trace policy (analyze_trace in src/analysis.c)\<close>

text \<open>
  One walk over the causal order keeps a stack of open calls for every process and context. The
  stacks are linked lists in one array (\<open>trace_entry\<close>); a fork makes the stack of the child
  share the entries of its parent. Every call is written as a line of the call tree. The walk
  along a stack is a \<open>partial_function (option)\<close>, and so is the loop that doubles a capacity;
  \<open>None\<close> would be a loop that does not end.
\<close>

record trace_entry =
  te_node :: nat
  te_previous :: "nat option"

definition TRACE_LINE_SIZE :: nat where "TRACE_LINE_SIZE = 2048"
definition TRACE_MAX_INDENTATION :: nat where "TRACE_MAX_INDENTATION = 120"
definition TRACE_INITIAL_CAPACITY :: nat where "TRACE_INITIAL_CAPACITY = 4096"

subsection \<open>The contexts\<close>

type_synonym trace_key = "int \<times> nat"

definition trace_key :: "trace_context \<Rightarrow> trace_key" where
  "trace_key c = (tc_pid c, tc_context c)"

definition new_trace_context :: "trace_key \<Rightarrow> trace_context" where
  "new_trace_context k = \<lparr>tc_pid = fst k, tc_context = snd k, tc_top = None, tc_max_depth = 0,
     tc_depth = 0, tc_unmatched = 0, tc_mismatched = 0\<rparr>"

definition trace_table :: "analysis_state \<Rightarrow> trace_context list" where
  "trace_table s = (case an_trace_contexts (fst s) of None \<Rightarrow> [] | Some cs \<Rightarrow> cs)"

definition put_trace_table :: "analysis_state \<Rightarrow> trace_context list \<Rightarrow> analysis_state" where
  "put_trace_table s cs = ((fst s)\<lparr>an_trace_contexts := Some cs\<rparr>, snd s)"

text \<open>The index of the context; at most as many contexts as ordered nodes are stored.\<close>

definition find_trace_context :: "analysis_state \<Rightarrow> trace_key \<Rightarrow> nat option \<times> analysis_state" where
  "find_trace_context s k =
     (case key_index trace_key (trace_table s) k of
        Some i \<Rightarrow> (Some i, s)
      | None \<Rightarrow>
          if length (ordered_nodes (fst s)) \<le> length (trace_table s)
          then (None, fst s, raise_errno EOVERFLOW (snd s))
          else (Some (length (trace_table s)),
            put_trace_table s (trace_table s @ [new_trace_context k])))"

subsection \<open>The call tree\<close>

definition trace_line :: "model_node \<Rightarrow> nat \<Rightarrow> bool \<Rightarrow> string" where
  "trace_line n depth entering =
     (let indentation = (if TRACE_MAX_INDENTATION div 2 < depth then TRACE_MAX_INDENTATION
        else depth * 2);
        arguments = (if mn_arguments n = ''-'' then [] else mn_arguments n);
        result = (if mn_result n = ''-'' then [] else mn_result n) in
      ''#'' @ decimal (mn_sequence n) @ '' pid '' @ signed_decimal (mn_pid n) @ '' context '' @
      decimal (mn_context_id n) @ '' '' @ replicate indentation (CHR '' '') @
      (if entering then mn_call_name n @ ''('' @ arguments @ '')''
       else ''-> '' @ mn_call_name n @ (if result = [] then [] else '' = '') @ result) @
      ''  ['' @ mn_file_name n @ '':'' @ signed_decimal (mn_line_number n) @ '']'' @ [CHR 0x0A])"

partial_function (option) double_until :: "nat \<Rightarrow> nat \<Rightarrow> nat option" where
  "double_until required c =
     (if c < required \<and> c \<le> SIZE_MAX div 2 then double_until required (c * 2) else Some c)"

definition append_trace :: "analysis_state \<Rightarrow> string \<Rightarrow> (bool \<times> analysis_state) option" where
  "append_trace s t =
     (case s of (a, w) \<Rightarrow>
        if SIZE_MAX - length (an_trace_tree a) - 1 < length t
        then Some (False, a, raise_errno EOVERFLOW w)
        else
          (let required = length (an_trace_tree a) + length t + 1 in
           if required \<le> an_trace_tree_capacity a
           then Some (True, a\<lparr>an_trace_tree := an_trace_tree a @ t\<rparr>, w)
           else
             (case double_until required (if an_trace_tree_capacity a = 0 then TRACE_INITIAL_CAPACITY
                     else an_trace_tree_capacity a) of
                None \<Rightarrow> None
              | Some c \<Rightarrow>
                  if c < required then Some (False, a, raise_errno EOVERFLOW w)
                  else (case heap_request w of
                          (False, w1) \<Rightarrow> Some (False, a, raise_errno ENOMEM w1)
                        | (True, w1) \<Rightarrow>
                            Some (True, a\<lparr>an_trace_tree := an_trace_tree a @ t,
                              an_trace_tree_capacity := c\<rparr>, w1)))))"

definition append_trace_line ::
  "analysis_state \<Rightarrow> model_node \<Rightarrow> nat \<Rightarrow> bool \<Rightarrow> (bool \<times> analysis_state) option" where
  "append_trace_line s n depth entering =
     (if TRACE_LINE_SIZE \<le> length (trace_line n depth entering)
      then Some (False, fst s, raise_errno EOVERFLOW (snd s))
      else append_trace s (trace_line n depth entering))"

subsection \<open>One node\<close>

definition same_call :: "model_node \<Rightarrow> model_node \<Rightarrow> bool" where
  "same_call active n \<longleftrightarrow> mn_call_name active = mn_call_name n \<and>
     mn_file_name active = mn_file_name n \<and> mn_function_name active = mn_function_name n"

definition pop_call :: "trace_entry list \<Rightarrow> trace_context \<Rightarrow> nat \<Rightarrow> trace_context" where
  "pop_call es c t = c\<lparr>tc_top := te_previous (es ! t), tc_depth := tc_depth c - 1\<rparr>"

definition inherit_calls ::
  "model_node list \<Rightarrow> trace_entry list \<Rightarrow> model_node \<Rightarrow> trace_context \<Rightarrow> trace_context \<Rightarrow> trace_context" where
  "inherit_calls nodes es n parent child =
     (let c = child\<lparr>tc_top := tc_top parent, tc_depth := tc_depth parent,
        tc_max_depth := tc_depth parent\<rparr> in
      case tc_top c of
        None \<Rightarrow> c
      | Some t \<Rightarrow> if mn_call_name (nodes ! te_node (es ! t)) = mn_function_name n then pop_call es c t else c)"

definition trace_fork ::
  "trace_entry list \<Rightarrow> model_node \<Rightarrow> analysis_state \<Rightarrow> bool \<times> analysis_state" where
  "trace_fork es n s =
     (case find_trace_context s (mn_pid n, mn_context_id n) of
        (parent, s1) \<Rightarrow>
          (case find_trace_context s1 (mn_child_pid n, mn_context_id n) of
             (child, s2) \<Rightarrow>
               (case (parent, child) of
                  (Some p, Some c) \<Rightarrow>
                    (True, put_trace_table s2 ((trace_table s2)[c :=
                       inherit_calls (ordered_nodes (fst s2)) es n (trace_table s2 ! p)
                         (trace_table s2 ! c)]))
                | _ \<Rightarrow> (False, s2))))"

definition trace_enter ::
  "trace_entry list \<Rightarrow> nat \<Rightarrow> model_node \<Rightarrow> nat \<Rightarrow> analysis_state \<Rightarrow>
   (bool \<times> trace_entry list \<times> analysis_state) option" where
  "trace_enter es i n c s =
     (case append_trace_line s n (tc_depth (trace_table s ! c)) True of
        None \<Rightarrow> None
      | Some (False, s1) \<Rightarrow> Some (False, es, s1)
      | Some (True, s1) \<Rightarrow>
          (let context = trace_table s1 ! c; depth = tc_depth context + 1 in
           Some (True, es @ [\<lparr>te_node = i, te_previous = tc_top context\<rparr>],
             put_trace_table s1 ((trace_table s1)[c := context\<lparr>tc_top := Some (length es),
               tc_depth := depth, tc_max_depth := max (tc_max_depth context) depth\<rparr>]))))"

definition trace_exit ::
  "trace_entry list \<Rightarrow> model_node \<Rightarrow> nat \<Rightarrow> analysis_state \<Rightarrow> (bool \<times> analysis_state) option" where
  "trace_exit es n c s =
     (case append_trace_line s n (tc_depth (trace_table s ! c) - 1) False of
        None \<Rightarrow> None
      | Some (False, s1) \<Rightarrow> Some (False, s1)
      | Some (True, s1) \<Rightarrow>
          (let context = trace_table s1 ! c; put = (\<lambda>x. put_trace_table s1 ((trace_table s1)[c := x])) in
           case tc_top context of
             None \<Rightarrow> Some (add_analysis_finding
               (put (context\<lparr>tc_unmatched := tc_unmatched context + 1\<rparr>)) ''P101-TRACE-001'' POLICY_TRACE
               ''call exit has no matching active call'' (Some n) None None (Some (mn_call_name n)))
           | Some t \<Rightarrow>
               if same_call (ordered_nodes (fst s1) ! te_node (es ! t)) n
               then Some (True, put (pop_call es context t))
               else Some (add_analysis_finding
                 (put (context\<lparr>tc_mismatched := tc_mismatched context + 1\<rparr>)) ''P101-TRACE-002'' POLICY_TRACE
                 ''call exit does not match the active call'' (Some n) None None (Some (mn_call_name n)))))"

definition trace_step ::
  "nat \<Rightarrow> trace_entry list \<Rightarrow> analysis_state \<Rightarrow> (bool \<times> trace_entry list \<times> analysis_state) option" where
  "trace_step i es s =
     (let n = ordered_nodes (fst s) ! i in
      if mn_domain n = NODE_RESOURCE \<and> mn_record_kind n = RECORD_FORK
      then (case trace_fork es n s of (b, s1) \<Rightarrow> Some (b, es, s1))
      else if mn_domain n \<noteq> NODE_CALL then Some (True, es, s)
      else
        (case find_trace_context
                ((fst s)\<lparr>an_call_records := an_call_records (fst s) + 1\<rparr>, snd s)
                (mn_pid n, mn_context_id n) of
           (None, s1) \<Rightarrow> Some (False, es, s1)
         | (Some c, s1) \<Rightarrow>
             if mn_call_kind n = CALL_ENTER then trace_enter es i n c s1
             else map_option (\<lambda>(b, s2). (b, es, s2)) (trace_exit es n c s1)))"

fun trace_from ::
  "nat \<Rightarrow> nat \<Rightarrow> trace_entry list \<Rightarrow> analysis_state \<Rightarrow>
   (bool \<times> trace_entry list \<times> analysis_state) option" where
  "trace_from 0 i es s = Some (True, es, s)"
| "trace_from (Suc k) i es s =
     (case trace_step i es s of
        None \<Rightarrow> None
      | Some (False, es1, s1) \<Rightarrow> Some (False, es1, s1)
      | Some (True, es1, s1) \<Rightarrow> trace_from k (Suc i) es1 s1)"

subsection \<open>The calls left open, and the whole policy\<close>

partial_function (option) report_open ::
  "trace_entry list \<Rightarrow> nat option \<Rightarrow> analysis_state \<Rightarrow> (bool \<times> analysis_state) option" where
  "report_open es open_top s =
     (case open_top of
        None \<Rightarrow> Some (True, s)
      | Some t \<Rightarrow>
          (let n = ordered_nodes (fst s) ! te_node (es ! t) in
           case add_analysis_finding s ''P101-TRACE-003'' POLICY_TRACE
                  ''call remained open at the end of the event stream'' (Some n) None None
                  (Some (mn_call_name n)) of
             (b, s1) \<Rightarrow> if b then report_open es (te_previous (es ! t)) s1 else Some (False, s1)))"

fun report_contexts ::
  "nat \<Rightarrow> nat \<Rightarrow> trace_entry list \<Rightarrow> analysis_state \<Rightarrow> (bool \<times> analysis_state) option" where
  "report_contexts 0 c es s = Some (True, s)"
| "report_contexts (Suc k) c es s =
     (case report_open es (tc_top (trace_table s ! c)) s of
        None \<Rightarrow> None
      | Some (False, s1) \<Rightarrow> Some (False, s1)
      | Some (True, s1) \<Rightarrow> report_contexts k (Suc c) es s1)"

definition analyze_trace :: "analysis_state \<Rightarrow> (bool \<times> analysis_state) option" where
  "analyze_trace s =
     (case s of (a, w) \<Rightarrow>
        (case heap_request w of
           (contexts, w1) \<Rightarrow>
             (case heap_request w1 of
                (entries, w2) \<Rightarrow>
                  let a1 = a\<lparr>an_trace_contexts := (if contexts then Some [] else None)\<rparr> in
                  if \<not> contexts \<or> \<not> entries then Some (False, a1, raise_errno ENOMEM w2)
                  else
                    (case trace_from (length (ordered_nodes a)) 0 [] (a1, w2) of
                       None \<Rightarrow> None
                     | Some (False, es, s1) \<Rightarrow> Some (False, s1)
                     | Some (True, es, s1) \<Rightarrow>
                         report_contexts (length (trace_table s1)) 0 es s1))))"

end
