(* ===== verification/Analysis_Trace_Facts.thy ===== *)
theory Analysis_Trace_Facts
  imports Analysis_Trace Analysis_Facts
begin

section \<open>Facts about the trace policy\<close>

text \<open>
  The abstract meaning of the walk is a machine (\<open>calls_state\<close>) that keeps a plain list of open
  calls for every context. \<open>traced\<close> relates it to the linked entries and the table of contexts.
\<close>

subsection \<open>The abstract machine\<close>

record calls_state =
  cs_keys :: "trace_key list"
  cs_open :: "trace_key \<Rightarrow> nat list"
  cs_calls :: nat
  cs_lines :: string
  cs_reports :: "owned_finding list"

definition call_report :: "string \<Rightarrow> string \<Rightarrow> model_node \<Rightarrow> owned_finding" where
  "call_report identifier message n =
     finding_of identifier POLICY_TRACE message (Some n) None None (Some (mn_call_name n)) 0"

definition note_key :: "nat \<Rightarrow> trace_key \<Rightarrow> calls_state \<Rightarrow> calls_state option" where
  "note_key room k c =
     (if k \<in> set (cs_keys c) then Some c
      else if length (cs_keys c) < room then Some (c\<lparr>cs_keys := cs_keys c @ [k]\<rparr>) else None)"

definition note_line :: "string \<Rightarrow> calls_state \<Rightarrow> calls_state option" where
  "note_line t c = (if length t < TRACE_LINE_SIZE then Some (c\<lparr>cs_lines := cs_lines c @ t\<rparr>) else None)"

definition note_report :: "owned_finding \<Rightarrow> calls_state \<Rightarrow> calls_state option" where
  "note_report f c = (if quotes_fit f then Some (c\<lparr>cs_reports := cs_reports c @ [f]\<rparr>) else None)"

definition set_open :: "trace_key \<Rightarrow> nat list \<Rightarrow> calls_state \<Rightarrow> calls_state" where
  "set_open k js c = c\<lparr>cs_open := (cs_open c)(k := js)\<rparr>"

text \<open>The child of a fork runs inside the calls of its parent, without the call that forked.\<close>

definition forked_calls :: "model_node list \<Rightarrow> model_node \<Rightarrow> nat list \<Rightarrow> nat list" where
  "forked_calls nodes n js =
     (case js of [] \<Rightarrow> []
      | j # rest \<Rightarrow> if mn_call_name (nodes ! j) = mn_function_name n then rest else js)"

definition enter_step :: "nat \<Rightarrow> model_node \<Rightarrow> trace_key \<Rightarrow> calls_state \<Rightarrow> calls_state option" where
  "enter_step i n k c =
     map_option (set_open k (i # cs_open c k)) (note_line (trace_line n (length (cs_open c k)) True) c)"

definition exit_step :: "model_node list \<Rightarrow> model_node \<Rightarrow> trace_key \<Rightarrow> calls_state \<Rightarrow> calls_state option" where
  "exit_step nodes n k c =
     Option.bind (note_line (trace_line n (length (cs_open c k) - 1) False) c) (\<lambda>c1.
       (case cs_open c k of
          [] \<Rightarrow> note_report (call_report ''P101-TRACE-001'' ''call exit has no matching active call'' n) c1
        | j # js \<Rightarrow>
            if same_call (nodes ! j) n then Some (set_open k js c1)
            else note_report (call_report ''P101-TRACE-002'' ''call exit does not match the active call'' n) c1))"

definition calls_step :: "model_node list \<Rightarrow> nat \<Rightarrow> calls_state \<Rightarrow> calls_state option" where
  "calls_step nodes i c =
     (let n = nodes ! i; room = length nodes; k = (mn_pid n, mn_context_id n);
        child = (mn_child_pid n, mn_context_id n) in
      if mn_domain n = NODE_RESOURCE \<and> mn_record_kind n = RECORD_FORK
      then Option.bind (note_key room k c) (\<lambda>c1. Option.bind (note_key room child c1) (\<lambda>c2.
        Some (set_open child (forked_calls nodes n (cs_open c2 k)) c2)))
      else if mn_domain n \<noteq> NODE_CALL then Some c
      else Option.bind (note_key room k (c\<lparr>cs_calls := cs_calls c + 1\<rparr>)) (\<lambda>c1.
        if mn_call_kind n = CALL_ENTER then enter_step i n k c1 else exit_step nodes n k c1))"

fun calls_run :: "model_node list \<Rightarrow> nat \<Rightarrow> nat \<Rightarrow> calls_state \<Rightarrow> calls_state option" where
  "calls_run nodes 0 i c = Some c"
| "calls_run nodes (Suc k) i c = Option.bind (calls_step nodes i c) (calls_run nodes k (Suc i))"

definition open_report :: "model_node list \<Rightarrow> nat \<Rightarrow> owned_finding" where
  "open_report nodes j =
     call_report ''P101-TRACE-003'' ''call remained open at the end of the event stream'' (nodes ! j)"

text \<open>What is reported of the calls left open: by context, the innermost call first.\<close>

definition open_reports :: "model_node list \<Rightarrow> calls_state \<Rightarrow> owned_finding list" where
  "open_reports nodes c = concat (map (\<lambda>k. map (open_report nodes) (cs_open c k)) (cs_keys c))"

definition start_calls :: "tool_analysis \<Rightarrow> calls_state" where
  "start_calls a = \<lparr>cs_keys = [], cs_open = (\<lambda>_. []), cs_calls = an_call_records a,
     cs_lines = an_trace_tree a, cs_reports = reports a\<rparr>"

definition calls_of :: "tool_analysis \<Rightarrow> calls_state option" where
  "calls_of a = calls_run (ordered_nodes a) (length (ordered_nodes a)) 0 (start_calls a)"

subsection \<open>The table of contexts\<close>

lemma trace_table_put [simp]: "trace_table (put_trace_table s cs) = cs"
  by (simp add: trace_table_def put_trace_table_def)

lemma put_trace_table_fields [simp]:
  "snd (put_trace_table s cs) = snd s" "ordered_nodes (fst (put_trace_table s cs)) = ordered_nodes (fst s)"
  "an_trace_tree (fst (put_trace_table s cs)) = an_trace_tree (fst s)"
  "an_trace_tree_capacity (fst (put_trace_table s cs)) = an_trace_tree_capacity (fst s)"
  "reports (fst (put_trace_table s cs)) = reports (fst s)"
  "an_findings (fst (put_trace_table s cs)) = an_findings (fst s)"
  "an_call_records (fst (put_trace_table s cs)) = an_call_records (fst s)"
  "stored (fst (put_trace_table s cs)) = stored (fst s)"
  using stored_same [of "fst (put_trace_table s cs)" "fst s"]
  by (simp_all add: put_trace_table_def ordered_nodes_def reports_def same_findings_def)

interpretation trace_contexts: keyed_table trace_key new_trace_context trace_table find_trace_context
  by unfold_locales
    (auto simp: find_trace_context_def trace_key_def new_trace_context_def trace_table_def
      put_trace_table_def split: if_splits)

lemma find_trace_context_effect:
  "find_trace_context s k = (r, s1) \<Longrightarrow>
     (if r = None then fst s1 = fst s
      else snd s1 = snd s \<and> (\<exists>cs. s1 = put_trace_table s cs \<or> s1 = s))"
  by (auto simp: find_trace_context_def split: option.splits if_splits)

subsection \<open>The call tree\<close>

definition TRACE_TREE_LIMIT :: nat where "TRACE_TREE_LIMIT = 4096 * 2 ^ 51"

lemma tree_limit: "SIZE_MAX div 2 < TRACE_TREE_LIMIT" "TRACE_TREE_LIMIT \<le> SIZE_MAX"
  by (simp_all add: SIZE_MAX_def TRACE_TREE_LIMIT_def)

lemma double_until_reaches:
  assumes "c = 4096 * 2 ^ j" and "j \<le> 51"
  shows "\<exists>i\<le>51. double_until required c = Some (4096 * 2 ^ i) \<and>
    (required \<le> TRACE_TREE_LIMIT \<longrightarrow> required \<le> 4096 * 2 ^ i)"
  using assms
proof (induction "51 - j" arbitrary: j c)
  case 0
  then have "j = 51" by simp
  with 0 have "c = TRACE_TREE_LIMIT" by (simp add: TRACE_TREE_LIMIT_def)
  with tree_limit(1) \<open>j = 51\<close> show ?case
    by (intro exI [of _ 51]) (simp add: double_until.simps TRACE_TREE_LIMIT_def)
next
  case (Suc d)
  show ?case
  proof (cases "c < required")
    case False
    with Suc.prems show ?thesis by (intro exI [of _ j]) (simp add: double_until.simps)
  next
    case True
    have j: "j \<le> 50" "d = 51 - Suc j" using Suc(2) by simp_all
    have "(2 :: nat) ^ j \<le> 2 ^ 50" using j by (intro power_increasing) simp_all
    then have "c \<le> SIZE_MAX div 2" using Suc.prems(1) by (simp add: SIZE_MAX_def)
    with True Suc.hyps(1) [of "Suc j" "c * 2"] j Suc.prems show ?thesis
      by (simp add: double_until.simps)
  qed
qed

definition tree_ok :: "tool_analysis \<Rightarrow> bool" where
  "tree_ok a \<longleftrightarrow> (an_trace_tree_capacity a = 0 \<and> an_trace_tree a = []) \<or>
     (\<exists>j\<le>51. an_trace_tree_capacity a = 4096 * 2 ^ j \<and> length (an_trace_tree a) < an_trace_tree_capacity a)"

lemma append_trace_result:
  assumes "tree_ok a"
  shows "\<exists>b c w1. append_trace (a, w) t =
      Some (b, (if b then a\<lparr>an_trace_tree := an_trace_tree a @ t, an_trace_tree_capacity := c\<rparr> else a), w1) \<and>
    (b \<longrightarrow> tree_ok (a\<lparr>an_trace_tree := an_trace_tree a @ t, an_trace_tree_capacity := c\<rparr>)) \<and>
    (ample w \<and> length (an_trace_tree a) + length t < TRACE_TREE_LIMIT \<longrightarrow> b \<and> ample w1)"
proof -
  let ?first = "if an_trace_tree_capacity a = 0 then TRACE_INITIAL_CAPACITY else an_trace_tree_capacity a"
  let ?required = "length (an_trace_tree a) + length t + 1"
  obtain j where j: "j \<le> 51" "?first = 4096 * 2 ^ j"
    using assms by (auto simp: tree_ok_def TRACE_INITIAL_CAPACITY_def intro: that [of 0])
  consider (wraps) "SIZE_MAX - length (an_trace_tree a) - 1 < length t"
    | (room) "\<not> SIZE_MAX - length (an_trace_tree a) - 1 < length t" "?required \<le> an_trace_tree_capacity a"
    | (grow) "\<not> SIZE_MAX - length (an_trace_tree a) - 1 < length t" "\<not> ?required \<le> an_trace_tree_capacity a"
    by blast
  then show ?thesis
  proof cases
    case wraps
    then have "\<not> length (an_trace_tree a) + length t < TRACE_TREE_LIMIT" using tree_limit(2) by linarith
    with wraps show ?thesis by (intro exI [of _ False]) (simp add: append_trace_def)
  next
    case room
    have "a\<lparr>an_trace_tree := t', an_trace_tree_capacity := an_trace_tree_capacity a\<rparr> =
        a\<lparr>an_trace_tree := t'\<rparr>" for t' by simp
    moreover have "tree_ok (a\<lparr>an_trace_tree := an_trace_tree a @ t\<rparr>)"
      using assms room(2) by (auto simp: tree_ok_def)
    ultimately show ?thesis using room
      by (intro exI [of _ True] exI [of _ "an_trace_tree_capacity a"] exI [of _ w])
        (simp add: append_trace_def)
  next
    case grow
    from double_until_reaches [OF j(2,1), of ?required] obtain i where i: "i \<le> 51"
      "double_until ?required ?first = Some (4096 * 2 ^ i)"
      "?required \<le> TRACE_TREE_LIMIT \<longrightarrow> ?required \<le> 4096 * 2 ^ i" by blast
    let ?c = "4096 * 2 ^ i"
    obtain ok w1 where req: "heap_request w = (ok, w1)" by fastforce
    have step: "append_trace (a, w) t =
        (if ?c < ?required then Some (False, a, raise_errno EOVERFLOW w)
         else if ok then Some (True, a\<lparr>an_trace_tree := an_trace_tree a @ t, an_trace_tree_capacity := ?c\<rparr>, w1)
         else Some (False, a, raise_errno ENOMEM w1))"
      using grow i(2) req by (simp add: append_trace_def Let_def)
    have tree: "tree_ok (a\<lparr>an_trace_tree := an_trace_tree a @ t, an_trace_tree_capacity := ?c\<rparr>)"
      if "\<not> ?c < ?required" using that i(1) by (auto simp: tree_ok_def)
    have amp: "ok \<and> ample w1" if "ample w" using heap_request_ample [OF that] req by auto
    show ?thesis
    proof (cases "?c < ?required \<or> \<not> ok")
      case True
      with step amp i(3) show ?thesis by (intro exI [of _ False]) auto
    next
      case False
      with step amp tree show ?thesis
        by (intro exI [of _ True] exI [of _ ?c] exI [of _ w1]) simp
    qed
  qed
qed

subsection \<open>The relation\<close>

fun linked :: "trace_entry list \<Rightarrow> nat option \<Rightarrow> nat list \<Rightarrow> bool" where
  "linked es t [] \<longleftrightarrow> t = None"
| "linked es t (j # js) \<longleftrightarrow>
     (\<exists>i. t = Some i \<and> i < length es \<and> te_node (es ! i) = j \<and> linked es (te_previous (es ! i)) js)"

lemma linked_append: "linked es t js \<Longrightarrow> linked (es @ fs) t js"
  by (induction js arbitrary: t) (auto simp: nth_append)

lemma linked_None [simp]: "linked es None js \<longleftrightarrow> js = []"
  by (cases js) auto

lemma linked_Some: "linked es (Some i) js \<longleftrightarrow>
    (\<exists>rest. js = te_node (es ! i) # rest \<and> i < length es \<and> linked es (te_previous (es ! i)) rest)"
  by (cases js) auto

definition context_ok :: "trace_entry list \<Rightarrow> calls_state \<Rightarrow> trace_context \<Rightarrow> bool" where
  "context_ok es c x \<longleftrightarrow> linked es (tc_top x) (cs_open c (trace_key x)) \<and>
     tc_depth x = length (cs_open c (trace_key x)) \<and> tc_depth x \<le> tc_max_depth x"

definition traced :: "model_node list \<Rightarrow> trace_entry list \<Rightarrow> analysis_state \<Rightarrow> calls_state \<Rightarrow> bool" where
  "traced nodes es s c \<longleftrightarrow> ordered_nodes (fst s) = nodes \<and>
     map trace_key (trace_table s) = cs_keys c \<and> distinct (cs_keys c) \<and>
     (\<forall>x \<in> set (trace_table s). context_ok es c x) \<and> (\<forall>k. k \<notin> set (cs_keys c) \<longrightarrow> cs_open c k = []) \<and>
     an_trace_tree (fst s) = cs_lines c \<and> reports (fst s) = cs_reports c \<and>
     an_call_records (fst s) = cs_calls c \<and> tree_ok (fst s) \<and> stored (fst s)"

lemma context_ok_append: "context_ok es c x \<Longrightarrow> context_ok (es @ fs) c x"
  by (simp add: context_ok_def linked_append)

lemma traced_append: "traced nodes es s c \<Longrightarrow> traced nodes (es @ fs) s c"
  by (auto simp: traced_def intro: context_ok_append)

lemma context_ok_same [simp]:
  "context_ok es (c\<lparr>cs_keys := ks\<rparr>) x = context_ok es c x"
  "context_ok es (c\<lparr>cs_calls := m\<rparr>) x = context_ok es c x"
  "context_ok es (c\<lparr>cs_lines := t\<rparr>) x = context_ok es c x"
  "context_ok es (c\<lparr>cs_reports := rs\<rparr>) x = context_ok es c x"
  by (simp_all add: context_ok_def)

lemma tree_ok_same: "an_trace_tree a = an_trace_tree b \<Longrightarrow>
    an_trace_tree_capacity a = an_trace_tree_capacity b \<Longrightarrow> tree_ok a = tree_ok b"
  by (simp add: tree_ok_def)

lemma tree_ok_put [simp]: "tree_ok (fst (put_trace_table s cs)) = tree_ok (fst s)"
  by (rule tree_ok_same) simp_all

lemma find_context_traced:
  assumes "traced nodes es s c" and "find_trace_context s k = (r, s1)"
  shows "case r of
      None \<Rightarrow> note_key (length nodes) k c = None \<and> fst s1 = fst s
    | Some j \<Rightarrow> snd s1 = snd s \<and> (\<exists>c1. note_key (length nodes) k c = Some c1 \<and>
        cs_open c1 = cs_open c \<and> traced nodes es s1 c1 \<and> j < length (trace_table s1) \<and>
        trace_key (trace_table s1 ! j) = k)"
proof -
  have nodes: "ordered_nodes (fst s) = nodes" and keys: "map trace_key (trace_table s) = cs_keys c"
    using assms(1) by (simp_all add: traced_def)
  have len: "length (cs_keys c) = length (trace_table s)" using arg_cong [OF keys, of length] by simp
  have mem: "k \<in> set (cs_keys c) \<longleftrightarrow> key_index trace_key (trace_table s) k \<noteq> None"
    unfolding keys [symmetric] using key_lookup_None [of trace_key "trace_table s" k]
    by (auto simp: key_lookup_index)
  show ?thesis
  proof (cases "key_index trace_key (trace_table s) k")
    case (Some j)
    with assms(2) have "r = Some j" "s1 = s" by (simp_all add: find_trace_context_def)
    moreover from Some mem have "note_key (length nodes) k c = Some c" by (simp add: note_key_def)
    ultimately show ?thesis using assms(1) key_index_Some [OF Some] by simp
  next
    case None
    with mem have new: "k \<notin> set (cs_keys c)" by simp
    show ?thesis
    proof (cases "length (ordered_nodes (fst s)) \<le> length (trace_table s)")
      case True
      with None assms(2) have "r = None" "fst s1 = fst s" by (auto simp: find_trace_context_def)
      moreover have "note_key (length nodes) k c = None" using new True nodes len by (simp add: note_key_def)
      ultimately show ?thesis by simp
    next
      case False
      with None assms(2) have r: "r = Some (length (trace_table s))"
        "s1 = put_trace_table s (trace_table s @ [new_trace_context k])"
        by (auto simp: find_trace_context_def)
      have noted: "note_key (length nodes) k c = Some (c\<lparr>cs_keys := cs_keys c @ [k]\<rparr>)"
        using new False nodes len by (simp add: note_key_def)
      have key: "trace_key (new_trace_context k) = k" by (simp add: trace_key_def new_trace_context_def)
      have "cs_open c k = []" using assms(1) new unfolding traced_def by blast
      then have "context_ok es c (new_trace_context k)"
        unfolding context_ok_def key by (simp add: new_trace_context_def)
      with assms(1) new key have "traced nodes es s1 (c\<lparr>cs_keys := cs_keys c @ [k]\<rparr>)"
        by (auto simp: traced_def r(2))
      with noted key show ?thesis by (simp add: r)
    qed
  qed
qed

lemma put_context_traced:
  assumes "traced nodes es s c" and "j < length (trace_table s)" and "trace_key (trace_table s ! j) = k"
    and "trace_key x = k" and "linked es (tc_top x) js" and "tc_depth x = length js"
    and "tc_depth x \<le> tc_max_depth x"
  shows "traced nodes es (put_trace_table s ((trace_table s)[j := x])) (set_open k js c)"
proof -
  have keys: "map trace_key ((trace_table s)[j := x]) = cs_keys c"
    using map_key_update [OF assms(2), of trace_key x] assms(1,3,4) by (simp add: traced_def)
  have k: "k \<in> set (cs_keys c)"
  proof -
    have "set (cs_keys c) = trace_key ` set (trace_table s)"
      using assms(1) by (metis list.set_map traced_def)
    with assms(2,3) show ?thesis by auto
  qed
  have dist: "distinct (map trace_key (trace_table s))" using assms(1) by (simp add: traced_def)
  have "context_ok es (set_open k js c) y" if y: "y \<in> set ((trace_table s)[j := x])" for y
  proof (cases "y = x")
    case True
    with assms(4-7) show ?thesis by (simp add: context_ok_def set_open_def)
  next
    case False
    with y obtain i where i: "i < length (trace_table s)" "y = trace_table s ! i" "i \<noteq> j"
      by (metis in_set_conv_nth length_list_update nth_list_update_eq nth_list_update_neq)
    with dist assms(2,3) have "trace_key y \<noteq> k" by (metis distinct_conv_nth length_map nth_map)
    moreover have "context_ok es c y" using assms(1) i by (auto simp: traced_def)
    ultimately show ?thesis by (simp add: context_ok_def set_open_def)
  qed
  with keys k assms(1) show ?thesis by (auto simp: traced_def set_open_def)
qed

subsection \<open>Outcomes\<close>

definition within :: "calls_state \<Rightarrow> bool" where
  "within c \<longleftrightarrow> length (cs_lines c) < TRACE_TREE_LIMIT \<and> length (cs_reports c) \<le> FINDING_LIMIT"

text \<open>
  What an operation started in the world \<open>w\<close> returns, against the abstract machine: a success is
  a step of the machine, and with memory a step of the machine within the limits succeeds.
\<close>

definition kept :: "tool_analysis \<Rightarrow> bool" where
  "kept a \<longleftrightarrow> stored a \<and> tree_ok a"

definition outcome ::
  "model_node list \<Rightarrow> world \<Rightarrow> calls_state option \<Rightarrow> bool \<times> trace_entry list \<times> analysis_state \<Rightarrow> bool" where
  "outcome nodes w co r \<longleftrightarrow> (case r of (b, es, s1) \<Rightarrow>
     kept (fst s1) \<and> (b \<longrightarrow> (\<exists>c1. co = Some c1 \<and> traced nodes es s1 c1)) \<and>
     (ample w \<and> (\<exists>c1. co = Some c1 \<and> within c1) \<longrightarrow> b \<and> ample (snd s1)))"

lemma outcome_success:
  "traced nodes es s c \<Longrightarrow> snd s = w \<Longrightarrow> outcome nodes w (Some c) (True, es, s)"
  by (auto simp: outcome_def traced_def kept_def)

lemma outcome_failure: "kept (fst s) \<Longrightarrow> outcome nodes w None (False, es, s)"
  by (simp add: outcome_def)

text \<open>An operation that fails ends the walk; one that succeeds is followed by the next.\<close>

lemma outcome_bind:
  assumes "outcome nodes w co (b, es, s)"
    and "\<And>c. co = Some c \<Longrightarrow> b \<Longrightarrow> traced nodes es s c \<Longrightarrow> outcome nodes (snd s) (f c) r"
    and "\<not> b \<Longrightarrow> r = (False, es, s)"
    and "\<And>c c1. co = Some c \<Longrightarrow> f c = Some c1 \<Longrightarrow> within c1 \<Longrightarrow> within c"
  shows "outcome nodes w (Option.bind co f) r"
proof (cases b)
  case True
  with assms(1) obtain c where c: "co = Some c" "traced nodes es s c" by (auto simp: outcome_def)
  from assms(2) [OF c(1) True c(2)] have o: "outcome nodes (snd s) (f c) r" .
  from assms(1) have "ample w \<and> within c \<longrightarrow> ample (snd s)" by (auto simp: outcome_def c(1))
  with o assms(4) [OF c(1)] show ?thesis
    by (auto simp: outcome_def c(1) split: prod.splits)
next
  case False
  have "ample w \<and> (\<exists>c1. Option.bind co f = Some c1 \<and> within c1) \<longrightarrow> False"
  proof
    assume h: "ample w \<and> (\<exists>c1. Option.bind co f = Some c1 \<and> within c1)"
    then obtain c c1 where "co = Some c" "f c = Some c1" "within c1" by (auto simp: bind_eq_Some_conv)
    with assms(4) h have "ample w \<and> (\<exists>c1. co = Some c1 \<and> within c1)" by blast
    with assms(1) False show False by (auto simp: outcome_def)
  qed
  with assms(1,3) False show ?thesis by (auto simp: outcome_def)
qed

lemma append_trace_line_outcome:
  assumes "traced nodes es s c"
  shows "\<exists>b s1. append_trace_line s n d entering = Some (b, s1) \<and>
    outcome nodes (snd s) (note_line (trace_line n d entering) c) (b, es, s1) \<and>
    trace_table s1 = trace_table s"
proof -
  obtain a w where s: "s = (a, w)" by (cases s)
  let ?t = "trace_line n d entering"
  have st: "stored a" "tree_ok a" "an_trace_tree a = cs_lines c"
    using assms by (simp_all add: traced_def s)
  show ?thesis
  proof (cases "length ?t < TRACE_LINE_SIZE")
    case False
    with st show ?thesis
      by (intro exI [of _ False])
        (simp add: append_trace_line_def note_line_def outcome_def s trace_table_def kept_def)
  next
    case True
    from append_trace_result [OF st(2), of w ?t] obtain b cap w1 where r:
      "append_trace (a, w) ?t = Some (b, (if b then a\<lparr>an_trace_tree := an_trace_tree a @ ?t,
          an_trace_tree_capacity := cap\<rparr> else a), w1)"
      "b \<longrightarrow> tree_ok (a\<lparr>an_trace_tree := an_trace_tree a @ ?t, an_trace_tree_capacity := cap\<rparr>)"
      "ample w \<and> length (an_trace_tree a) + length ?t < TRACE_TREE_LIMIT \<longrightarrow> b \<and> ample w1" by blast
    let ?a = "a\<lparr>an_trace_tree := an_trace_tree a @ ?t, an_trace_tree_capacity := cap\<rparr>"
    have same: "stored ?a = stored a" "reports ?a = reports a" "ordered_nodes ?a = ordered_nodes a"
      "trace_table (?a, w1) = trace_table (a, w)"
      using stored_same [of ?a a]
      by (simp_all add: same_findings_def reports_def ordered_nodes_def trace_table_def)
    have "traced nodes es (?a, w1) (c\<lparr>cs_lines := cs_lines c @ ?t\<rparr>)" if b
      using assms r(2) that same by (simp add: traced_def s)
    with True r st same show ?thesis
      by (intro exI [of _ b]) (cases b; auto simp: append_trace_line_def note_line_def outcome_def s
          within_def trace_table_def kept_def)
  qed
qed

lemma rest_same_trace:
  assumes "rest_same a b"
  shows "an_trace_contexts b = an_trace_contexts a" "an_trace_tree b = an_trace_tree a"
    "an_trace_tree_capacity b = an_trace_tree_capacity a" "ordered_nodes b = ordered_nodes a"
    "an_call_records b = an_call_records a"
  using assms by (auto simp: rest_same_def ordered_nodes_def)

lemma add_finding_outcome:
  assumes "traced nodes es s c"
    and "add_analysis_finding s identifier POLICY_TRACE message (Some n) None None (Some (mn_call_name n)) = (b, s1)"
  shows "outcome nodes (snd s) (note_report (call_report identifier message n) c) (b, es, s1) \<and>
    trace_table s1 = trace_table s"
proof -
  obtain a w a1 w1 where s: "s = (a, w)" "s1 = (a1, w1)" by (metis surj_pair)
  let ?f = "call_report identifier message n"
  have st: "stored a" and reps: "reports a = cs_reports c" using assms(1) by (simp_all add: traced_def s)
  have add: "add_analysis_finding (a, w) identifier POLICY_TRACE message (Some n) None None
      (Some (mn_call_name n)) = (b, a1, w1)" using assms(2) s by simp
  note r = add_finding_step [OF st add] and same = rest_same_trace [OF add_finding_step(2) [OF st add]]
  have fit: "quotes_fit ?f \<longleftrightarrow> evidence_fits (Some (mn_call_name n))"
    by (simp add: call_report_def quotes_fit_finding_of evidence_fits_def)
  have "quotes_fit ?f" if b
    using add that unfolding fit add_analysis_finding_def by (auto split: prod.splits bool.splits if_splits)
  moreover have "b \<and> ample w1" if "ample w" "quotes_fit ?f" "length (cs_reports c @ [?f]) \<le> FINDING_LIMIT"
  proof -
    have "length (an_findings a) < FINDING_LIMIT"
      using that(3) arg_cong [OF reps, of length] by (simp add: reports_def)
    have "\<exists>a1 w1. add_analysis_finding (a, w) identifier POLICY_TRACE message (Some n) None None
        (Some (mn_call_name n)) = (evidence_fits None \<and> evidence_fits None \<and>
        evidence_fits (Some (mn_call_name n)), a1, w1) \<and> ample w1"
      by (rule add_finding_ample [OF st that(1) \<open>length (an_findings a) < FINDING_LIMIT\<close>])
    with add that(2) fit show ?thesis by (auto simp: evidence_fits_def)
  qed
  moreover have "traced nodes es (a1, w1) (c\<lparr>cs_reports := cs_reports c @ [?f]\<rparr>)" if b
    using assms(1) r(1,3) same that tree_ok_same [of a1 a]
    by (simp add: traced_def s trace_table_def call_report_def)
  moreover have "tree_ok a1" using assms(1) same tree_ok_same [of a1 a] by (simp add: traced_def s)
  ultimately show ?thesis
    using r(1) same(1) by (auto simp: outcome_def note_report_def s within_def trace_table_def kept_def)
qed

subsection \<open>One node\<close>

lemma within_note_key: "note_key room k c = Some c1 \<Longrightarrow> within c1 = within c"
  by (auto simp: note_key_def within_def split: if_splits)

lemma within_note_line: "note_line t c = Some c1 \<Longrightarrow> within c1 \<Longrightarrow> within c"
  by (auto simp: note_line_def within_def split: if_splits)

lemma within_note_report: "note_report f c = Some c1 \<Longrightarrow> within c1 \<Longrightarrow> within c"
  by (auto simp: note_report_def within_def split: if_splits)

lemma within_set_open [simp]: "within (set_open k js c) = within c"
  by (simp add: within_def set_open_def)

lemma inherit_linked:
  assumes "linked es (tc_top parent) js" and "tc_depth parent = length js" and "trace_key child = k"
  shows "trace_key (inherit_calls nodes es n parent child) = k"
    "linked es (tc_top (inherit_calls nodes es n parent child)) (forked_calls nodes n js)"
    "tc_depth (inherit_calls nodes es n parent child) = length (forked_calls nodes n js)"
    "tc_depth (inherit_calls nodes es n parent child) \<le> tc_max_depth (inherit_calls nodes es n parent child)"
  using assms
  by (auto simp: inherit_calls_def Let_def forked_calls_def pop_call_def trace_key_def linked_Some
      split: option.splits list.splits)

lemma traced_context:
  "traced nodes es s c \<Longrightarrow> j < length (trace_table s) \<Longrightarrow> context_ok es c (trace_table s ! j)"
  by (simp add: traced_def)

lemma traced_kept: "traced nodes es s c \<Longrightarrow> kept (fst s)"
  by (simp add: traced_def kept_def)

lemma kept_put [simp]: "kept (fst (put_trace_table s cs)) = kept (fst s)"
  by (simp add: kept_def)

lemma trace_fork_outcome:
  assumes "traced nodes es s c" and "trace_fork es n s = (b, s1)"
  defines "k \<equiv> (mn_pid n, mn_context_id n)" and "child \<equiv> (mn_child_pid n, mn_context_id n)"
  shows "outcome nodes (snd s) (Option.bind (note_key (length nodes) k c) (\<lambda>c1.
      Option.bind (note_key (length nodes) child c1) (\<lambda>c2.
        Some (set_open child (forked_calls nodes n (cs_open c2 k)) c2)))) (b, es, s1)"
proof -
  obtain p s2 where p: "find_trace_context s k = (p, s2)" by (rule prod.exhaust)
  obtain q s3 where q: "find_trace_context s2 child = (q, s3)" by (rule prod.exhaust)
  note fp = find_context_traced [OF assms(1) p]
  show ?thesis
  proof (cases p)
    case None
    with fp have none: "note_key (length nodes) k c = None" "fst s2 = fst s" by simp_all
    have "b = False" "s1 = s3" using assms(2) p q None
      by (simp_all add: trace_fork_def k_def child_def split: prod.splits)
    moreover have "kept (fst s3)"
    proof -
      have "kept (fst s2)" using none traced_kept [OF assms(1)] by simp
      then show ?thesis using find_trace_context_effect [OF q] by (auto split: if_splits)
    qed
    ultimately show ?thesis using none by (simp add: outcome_failure)
  next
    case (Some j)
    with fp obtain c1 where c1: "snd s2 = snd s" "note_key (length nodes) k c = Some c1"
      "cs_open c1 = cs_open c" "traced nodes es s2 c1" "j < length (trace_table s2)"
      "trace_key (trace_table s2 ! j) = k" by auto
    note fq = find_context_traced [OF c1(4) q]
    show ?thesis
    proof (cases q)
      case None
      with fq have "note_key (length nodes) child c1 = None" "fst s3 = fst s2" by simp_all
      moreover from None have "b = False" "s1 = s3" using assms(2) p q Some
        by (simp_all add: trace_fork_def k_def child_def split: prod.splits)
      ultimately show ?thesis using traced_kept [OF c1(4)] c1(2) by (simp add: outcome_failure)
    next
      case q': (Some i)
      with fq obtain c2 where c2: "snd s3 = snd s2" "note_key (length nodes) child c1 = Some c2"
        "cs_open c2 = cs_open c1" "traced nodes es s3 c2" "i < length (trace_table s3)"
        "trace_key (trace_table s3 ! i) = child" by auto
      have nodes: "ordered_nodes (fst s3) = nodes" using c2(4) by (simp add: traced_def)
      have kept: "j < length (trace_table s3) \<and> trace_table s3 ! j = trace_table s2 ! j"
        using c1(5) q q' trace_contexts.miss_add [of s2 child i s3] trace_contexts.hit [of s2 child]
        by (cases "key_index trace_key (trace_table s2) child") (auto simp: nth_append)
      let ?x = "inherit_calls nodes es n (trace_table s3 ! j) (trace_table s3 ! i)"
      have s1: "b = True" "s1 = put_trace_table s3 ((trace_table s3)[i := ?x])"
        using assms(2) p q Some q' nodes by (simp_all add: trace_fork_def k_def child_def)
      have "context_ok es c2 (trace_table s3 ! j)"
        by (rule traced_context [OF c2(4) conjunct1 [OF kept]])
      then have "linked es (tc_top (trace_table s3 ! j)) (cs_open c2 k)"
        "tc_depth (trace_table s3 ! j) = length (cs_open c2 k)"
        using kept c1(6) by (simp_all add: context_ok_def)
      note inh = inherit_linked [OF this c2(6), of nodes n]
      have "traced nodes es s1 (set_open child (forked_calls nodes n (cs_open c2 k)) c2)"
        unfolding s1 by (rule put_context_traced [OF c2(4-6) inh])
      then show ?thesis using c1(1,2) c2(1,2) s1 by (simp add: outcome_success)
    qed
  qed
qed

lemma trace_enter_outcome:
  assumes "traced nodes es s c" and "j < length (trace_table s)" and "trace_key (trace_table s ! j) = k"
  shows "\<exists>r. trace_enter es i n j s = Some r \<and> outcome nodes (snd s) (enter_step i n k c) r"
proof -
  let ?d = "tc_depth (trace_table s ! j)"
  have ok: "context_ok es c (trace_table s ! j)" using traced_context [OF assms(1,2)] .
  with assms(3) have d: "?d = length (cs_open c k)" by (simp add: context_ok_def)
  from append_trace_line_outcome [OF assms(1), of n ?d True] obtain b s1 where line:
    "append_trace_line s n ?d True = Some (b, s1)"
    "outcome nodes (snd s) (note_line (trace_line n ?d True) c) (b, es, s1)"
    "trace_table s1 = trace_table s" by blast
  let ?x = "trace_table s ! j" and ?e = "\<lparr>te_node = i, te_previous = tc_top (trace_table s ! j)\<rparr>"
  let ?y = "?x\<lparr>tc_top := Some (length es), tc_depth := ?d + 1, tc_max_depth := max (tc_max_depth ?x) (?d + 1)\<rparr>"
  let ?r = "if b then (True, es @ [?e], put_trace_table s1 ((trace_table s1)[j := ?y])) else (False, es, s1)"
  have run: "trace_enter es i n j s = Some ?r"
    using line(1,3) by (cases b) (simp_all add: trace_enter_def Let_def)
  have "outcome nodes (snd s) (Option.bind (note_line (trace_line n ?d True) c)
      (\<lambda>c1. Some (set_open k (i # cs_open c k) c1))) ?r"
  proof (rule outcome_bind [OF line(2)])
    fix c1
    assume c1: "note_line (trace_line n ?d True) c = Some c1" and b and t: "traced nodes es s1 c1"
    have opens: "cs_open c1 = cs_open c" using c1 by (auto simp: note_line_def split: if_splits)
    have link: "linked (es @ [?e]) (tc_top ?y) (i # cs_open c k)"
      using ok assms(3) linked_append [of es "tc_top ?x"] by (simp add: context_ok_def)
    have "traced nodes (es @ [?e]) (put_trace_table s1 ((trace_table s1)[j := ?y]))
        (set_open k (i # cs_open c k) c1)"
      by (rule put_context_traced [OF traced_append [OF t]])
        (use assms(2,3) line(3) link d in \<open>simp_all add: trace_key_def\<close>)
    with \<open>b\<close> show "outcome nodes (snd s1) (Some (set_open k (i # cs_open c k) c1)) ?r"
      by (simp add: outcome_success)
  next
    fix c1 c2
    assume "Some (set_open k (i # cs_open c k) c1) = Some c2" "within c2"
    then show "within c1" by auto
  qed simp
  moreover have "Option.bind (note_line (trace_line n ?d True) c) (\<lambda>c1. Some (set_open k (i # cs_open c k) c1)) =
      enter_step i n k c"
    by (cases "note_line (trace_line n ?d True) c") (simp_all add: enter_step_def d)
  ultimately show ?thesis using run by auto
qed

lemma set_open_same: "cs_open c k = js \<Longrightarrow> set_open k js c = c"
  by (auto simp: set_open_def)

lemma trace_exit_outcome:
  assumes "traced nodes es s c" and "j < length (trace_table s)" and "trace_key (trace_table s ! j) = k"
  shows "\<exists>b s1. trace_exit es n j s = Some (b, s1) \<and>
    outcome nodes (snd s) (exit_step nodes n k c) (b, es, s1)"
proof -
  let ?d = "tc_depth (trace_table s ! j) - 1" and ?x = "trace_table s ! j"
  have ok: "context_ok es c ?x" using traced_context [OF assms(1,2)] .
  with assms(3) have d: "tc_depth ?x = length (cs_open c k)" and link: "linked es (tc_top ?x) (cs_open c k)"
    and deep: "tc_depth ?x \<le> tc_max_depth ?x" by (simp_all add: context_ok_def)
  from append_trace_line_outcome [OF assms(1), of n ?d False] obtain b s1 where line:
    "append_trace_line s n ?d False = Some (b, s1)"
    "outcome nodes (snd s) (note_line (trace_line n ?d False) c) (b, es, s1)"
    "trace_table s1 = trace_table s" by blast
  define after where "after = (\<lambda>c1. case cs_open c k of
      [] \<Rightarrow> note_report (call_report ''P101-TRACE-001'' ''call exit has no matching active call'' n) c1
    | i # js \<Rightarrow>
        if same_call (nodes ! i) n then Some (set_open k js c1)
        else note_report (call_report ''P101-TRACE-002'' ''call exit does not match the active call'' n) c1)"
  have exit: "exit_step nodes n k c = Option.bind (note_line (trace_line n ?d False) c) after"
    by (simp add: exit_step_def after_def d)
  have "trace_exit es n j s \<noteq> None"
    using line(1) by (cases b; cases "tc_top (trace_table s1 ! j)")
      (simp_all add: trace_exit_def Let_def del: not_None_eq)
  then obtain b1 s2 where run: "trace_exit es n j s = Some (b1, s2)" by auto
  have "outcome nodes (snd s) (Option.bind (note_line (trace_line n ?d False) c) after) (b1, es, s2)"
  proof (rule outcome_bind [OF line(2)])
    assume "\<not> b"
    with line(1) run show "(b1, es, s2) = (False, es, s1)" by (simp add: trace_exit_def)
  next
    fix c1 c2
    assume "after c1 = Some c2" "within c2"
    then show "within c1" unfolding after_def
      by (auto split: list.splits if_splits dest: within_note_report)
  next
    fix c1
    assume c1: "note_line (trace_line n ?d False) c = Some c1" and b and t: "traced nodes es s1 c1"
    have opens: "cs_open c1 k = cs_open c k" using c1 by (auto simp: note_line_def split: if_splits)
    have nodes: "ordered_nodes (fst s1) = nodes" using t by (simp add: traced_def)
    have put: "traced nodes es (put_trace_table s1 ((trace_table s1)[j := y])) (set_open k js c1)"
      if "trace_key y = k" "linked es (tc_top y) js" "tc_depth y = length js" "tc_depth y \<le> tc_max_depth y"
      for y js
      by (rule put_context_traced [OF t]) (use that assms(2,3) line(3) in simp_all)
    have count: "traced nodes es (put_trace_table s1 ((trace_table s1)[j := y])) c1"
      if "y = ?x\<lparr>tc_unmatched := tc_unmatched ?x + 1\<rparr> \<or> y = ?x\<lparr>tc_mismatched := tc_mismatched ?x + 1\<rparr>" for y
      using put [of y "cs_open c k"] that assms(3) d link deep set_open_same [OF opens]
      by (auto simp: trace_key_def)
    show "outcome nodes (snd s1) (after c1) (b1, es, s2)"
    proof (cases "cs_open c k")
      case Nil
      then have top: "tc_top ?x = None" using link by simp
      let ?s = "put_trace_table s1 ((trace_table s1)[j := ?x\<lparr>tc_unmatched := tc_unmatched ?x + 1\<rparr>])"
      have "add_analysis_finding ?s ''P101-TRACE-001'' POLICY_TRACE
          ''call exit has no matching active call'' (Some n) None None (Some (mn_call_name n)) = (b1, s2)"
        using run line(1,3) \<open>b\<close> top by (simp add: trace_exit_def Let_def)
      from add_finding_outcome [OF count this] Nil show ?thesis by (simp add: after_def)
    next
      case (Cons i js)
      with link obtain t where t: "tc_top ?x = Some t" "t < length es" "te_node (es ! t) = i"
        "linked es (te_previous (es ! t)) js" by auto
      show ?thesis
      proof (cases "same_call (nodes ! i) n")
        case True
        then have "b1 = True" "s2 = put_trace_table s1 ((trace_table s1)[j := pop_call es ?x t])"
          using run line(1,3) \<open>b\<close> t nodes by (simp_all add: trace_exit_def Let_def)
        moreover have "traced nodes es (put_trace_table s1 ((trace_table s1)[j := pop_call es ?x t]))
            (set_open k js c1)"
          by (rule put) (use assms(3) d deep t Cons in \<open>auto simp: pop_call_def trace_key_def\<close>)
        ultimately show ?thesis using Cons True by (simp add: after_def outcome_success)
      next
        case False
        let ?s = "put_trace_table s1 ((trace_table s1)[j := ?x\<lparr>tc_mismatched := tc_mismatched ?x + 1\<rparr>])"
        have "add_analysis_finding ?s ''P101-TRACE-002'' POLICY_TRACE
            ''call exit does not match the active call'' (Some n) None None (Some (mn_call_name n)) = (b1, s2)"
          using run line(1,3) \<open>b\<close> t nodes False by (simp add: trace_exit_def Let_def)
        from add_finding_outcome [OF count this] Cons False show ?thesis by (simp add: after_def)
      qed
    qed
  qed
  with run exit show ?thesis by auto
qed

lemma enter_step_within: "enter_step i n k c = Some c1 \<Longrightarrow> within c1 \<Longrightarrow> within c"
  by (auto simp: enter_step_def dest: within_note_line)

lemma exit_step_within:
  assumes "exit_step nodes n k c = Some c1" and "within c1"
  shows "within c"
proof -
  from assms(1) obtain c2 where c2: "note_line (trace_line n (length (cs_open c k) - 1) False) c = Some c2"
    and "(case cs_open c k of
        [] \<Rightarrow> note_report (call_report ''P101-TRACE-001'' ''call exit has no matching active call'' n) c2
      | i # js \<Rightarrow> if same_call (nodes ! i) n then Some (set_open k js c2)
          else note_report (call_report ''P101-TRACE-002'' ''call exit does not match the active call'' n) c2)
      = Some c1" unfolding exit_step_def bind_eq_Some_conv by blast
  with assms(2) have "within c2" by (auto split: list.splits if_splits dest: within_note_report)
  with within_note_line [OF c2] show ?thesis by blast
qed

lemma calls_step_within:
  assumes "calls_step nodes i c = Some c1" and "within c1"
  shows "within c"
proof -
  have same: "within (c\<lparr>cs_calls := m\<rparr>) = within c" for m by (simp add: within_def)
  from assms(1) consider c2 c3 where "note_key (length nodes) (mn_pid (nodes ! i), mn_context_id (nodes ! i)) c = Some c2"
      "note_key (length nodes) (mn_child_pid (nodes ! i), mn_context_id (nodes ! i)) c2 = Some c3" "within c1 = within c3"
    | "c1 = c"
    | c2 where "note_key (length nodes) (mn_pid (nodes ! i), mn_context_id (nodes ! i))
        (c\<lparr>cs_calls := cs_calls c + 1\<rparr>) = Some c2"
      "enter_step i (nodes ! i) (mn_pid (nodes ! i), mn_context_id (nodes ! i)) c2 = Some c1 \<or>
       exit_step nodes (nodes ! i) (mn_pid (nodes ! i), mn_context_id (nodes ! i)) c2 = Some c1"
    by (auto simp: calls_step_def Let_def bind_eq_Some_conv split: if_splits)
  then show ?thesis
  proof cases
    case 1
    with assms(2) show ?thesis by (simp add: within_note_key)
  next
    case 2
    with assms(2) show ?thesis by simp
  next
    case 3
    with assms(2) have "within c2" using enter_step_within exit_step_within by blast
    with within_note_key [OF 3(1)] same show ?thesis by simp
  qed
qed

lemma trace_step_outcome:
  assumes "traced nodes es s c"
  shows "\<exists>r. trace_step i es s = Some r \<and> outcome nodes (snd s) (calls_step nodes i c) r"
proof -
  let ?n = "nodes ! i"
  let ?k = "(mn_pid ?n, mn_context_id ?n)"
  have nodes: "ordered_nodes (fst s) = nodes" using assms by (simp add: traced_def)
  consider (fork) "mn_domain ?n = NODE_RESOURCE \<and> mn_record_kind ?n = RECORD_FORK"
    | (other) "\<not> (mn_domain ?n = NODE_RESOURCE \<and> mn_record_kind ?n = RECORD_FORK)" "mn_domain ?n \<noteq> NODE_CALL"
    | (call) "\<not> (mn_domain ?n = NODE_RESOURCE \<and> mn_record_kind ?n = RECORD_FORK)" "mn_domain ?n = NODE_CALL"
    by blast
  then show ?thesis
  proof cases
    case fork
    obtain b s1 where f: "trace_fork es ?n s = (b, s1)" by (rule prod.exhaust)
    from trace_fork_outcome [OF assms f] fork f nodes show ?thesis
      by (simp add: trace_step_def calls_step_def Let_def)
  next
    case other
    then have "trace_step i es s = Some (True, es, s)" "calls_step nodes i c = Some c"
      using nodes by (auto simp: trace_step_def calls_step_def Let_def)
    then show ?thesis using outcome_success [OF assms] by simp
  next
    case call
    let ?s = "((fst s)\<lparr>an_call_records := an_call_records (fst s) + 1\<rparr>, snd s)"
    let ?c = "c\<lparr>cs_calls := cs_calls c + 1\<rparr>"
    have t: "traced nodes es ?s ?c"
      using assms stored_same [of "fst ?s" "fst s"] tree_ok_same [of "fst ?s" "fst s"]
      by (simp add: traced_def same_findings_def ordered_nodes_def trace_table_def reports_def)
    obtain p s1 where f: "find_trace_context ?s ?k = (p, s1)" by (rule prod.exhaust)
    note fp = find_context_traced [OF t f]
    show ?thesis
    proof (cases p)
      case None
      with fp have "note_key (length nodes) ?k ?c = None" "fst s1 = fst ?s" by simp_all
      then have "calls_step nodes i c = None" "kept (fst s1)"
        using call traced_kept [OF t] by (auto simp: calls_step_def Let_def)
      moreover have "trace_step i es s = Some (False, es, s1)"
        using f None nodes call by (auto simp: trace_step_def Let_def)
      ultimately show ?thesis by (simp add: outcome_failure)
    next
      case (Some j)
      with fp obtain c1 where c1: "snd s1 = snd s" "note_key (length nodes) ?k ?c = Some c1"
        "traced nodes es s1 c1" "j < length (trace_table s1)" "trace_key (trace_table s1 ! j) = ?k" by auto
      have spec: "calls_step nodes i c = (if mn_call_kind ?n = CALL_ENTER then enter_step i ?n ?k c1
          else exit_step nodes ?n ?k c1)"
        using call c1(2) by (auto simp: calls_step_def Let_def)
      have run: "trace_step i es s = (if mn_call_kind ?n = CALL_ENTER then trace_enter es i ?n j s1
          else map_option (\<lambda>(b, s2). (b, es, s2)) (trace_exit es ?n j s1))"
        using f Some nodes call by (auto simp: trace_step_def Let_def)
      show ?thesis
      proof (cases "mn_call_kind ?n = CALL_ENTER")
        case True
        with trace_enter_outcome [OF c1(3-5), of i ?n] c1(1) show ?thesis by (simp add: spec run)
      next
        case False
        from trace_exit_outcome [OF c1(3-5), of ?n] obtain b s2 where
          "trace_exit es ?n j s1 = Some (b, s2)"
          "outcome nodes (snd s1) (exit_step nodes ?n ?k c1) (b, es, s2)" by blast
        with False c1(1) show ?thesis by (simp add: spec run)
      qed
    qed
  qed
qed

subsection \<open>The whole walk\<close>

lemma trace_from_outcome:
  assumes "traced nodes es s c"
  shows "\<exists>r. trace_from k i es s = Some r \<and> outcome nodes (snd s) (calls_run nodes k i c) r"
  using assms
proof (induction k arbitrary: i es s c)
  case 0
  then show ?case by (simp add: outcome_success)
next
  case (Suc k)
  from trace_step_outcome [OF Suc.prems, of i] obtain b es1 s1 where step:
    "trace_step i es s = Some (b, es1, s1)" "outcome nodes (snd s) (calls_step nodes i c) (b, es1, s1)"
    by (metis surj_pair)
  have "\<exists>r. trace_from (Suc k) i es s = Some r"
  proof (cases b)
    case True
    with step(2) obtain c1 where "traced nodes es1 s1 c1" by (auto simp: outcome_def)
    from Suc.IH [OF this, of "Suc i"] step True show ?thesis by auto
  next
    case False
    with step have "trace_from (Suc k) i es s = Some (False, es1, s1)" by simp
    then show ?thesis ..
  qed
  then obtain r where r: "trace_from (Suc k) i es s = Some r" ..
  have "outcome nodes (snd s) (Option.bind (calls_step nodes i c) (calls_run nodes k (Suc i))) r"
  proof (rule outcome_bind [OF step(2)])
    fix c1
    assume b and "traced nodes es1 s1 c1"
    with Suc.IH [of es1 s1 c1 "Suc i"] step(1) r show "outcome nodes (snd s1) (calls_run nodes k (Suc i) c1) r"
      by auto
  next
    assume "\<not> b"
    with step(1) r show "r = (False, es1, s1)" by simp
  next
    fix c1 c2
    have "calls_run nodes k i c1 = Some c2 \<Longrightarrow> within c2 \<Longrightarrow> within c1" for i
      by (induction k arbitrary: i c1) (auto simp: bind_eq_Some_conv dest: calls_step_within)
    then show "calls_run nodes k (Suc i) c1 = Some c2 \<Longrightarrow> within c2 \<Longrightarrow> within c1" .
  qed
  with r show ?case by auto
qed

definition note_reports :: "owned_finding list \<Rightarrow> calls_state \<Rightarrow> calls_state option" where
  "note_reports fs c = (if list_all quotes_fit fs then Some (c\<lparr>cs_reports := cs_reports c @ fs\<rparr>) else None)"

lemma note_reports_Nil [simp]: "note_reports [] c = Some c"
  by (simp add: note_reports_def)

lemma note_reports_Cons: "note_reports (f # fs) c = Option.bind (note_report f c) (note_reports fs)"
  by (simp add: note_reports_def note_report_def)

lemma note_reports_append: "note_reports (fs @ gs) c = Option.bind (note_reports fs c) (note_reports gs)"
  by (simp add: note_reports_def)

lemma within_note_reports: "note_reports fs c = Some c1 \<Longrightarrow> within c1 \<Longrightarrow> within c"
  by (auto simp: note_reports_def within_def split: if_splits)

lemma report_open_outcome:
  assumes "traced nodes es s c" and "linked es t js"
  shows "\<exists>b s1. report_open es t s = Some (b, s1) \<and> trace_table s1 = trace_table s \<and>
    outcome nodes (snd s) (note_reports (map (open_report nodes) js) c) (b, es, s1)"
  using assms
proof (induction js arbitrary: t s c)
  case Nil
  then show ?case
    by (intro exI [of _ True] exI [of _ s]) (simp add: report_open.simps outcome_success)
next
  case (Cons j js)
  then obtain i where t: "t = Some i" "te_node (es ! i) = j" "linked es (te_previous (es ! i)) js" by auto
  have nodes: "ordered_nodes (fst s) = nodes" using Cons.prems(1) by (simp add: traced_def)
  obtain b s1 where add: "add_analysis_finding s ''P101-TRACE-003'' POLICY_TRACE
      ''call remained open at the end of the event stream'' (Some (nodes ! j)) None None
      (Some (mn_call_name (nodes ! j))) = (b, s1)" by (rule prod.exhaust)
  have step: "report_open es t s = (if b then report_open es (te_previous (es ! i)) s1 else Some (False, s1))"
    by (subst report_open.simps) (simp add: t nodes add)
  note o = add_finding_outcome [OF Cons.prems(1) add]
  then have o1: "outcome nodes (snd s) (note_report (open_report nodes j) c) (b, es, s1)"
    and table: "trace_table s1 = trace_table s" by (simp_all add: open_report_def)
  show ?case
  proof (cases b)
    case True
    with o1 obtain c1 where c1: "note_report (open_report nodes j) c = Some c1" "traced nodes es s1 c1"
      by (auto simp: outcome_def)
    from Cons.IH [OF c1(2) t(3)] obtain b2 s2 where r: "report_open es (te_previous (es ! i)) s1 = Some (b2, s2)"
      "trace_table s2 = trace_table s1"
      "outcome nodes (snd s1) (note_reports (map (open_report nodes) js) c1) (b2, es, s2)" by blast
    have "outcome nodes (snd s) (Option.bind (note_report (open_report nodes j) c)
        (note_reports (map (open_report nodes) js))) (b2, es, s2)"
      by (rule outcome_bind [OF o1]) (use True r(3) c1(1) within_note_reports in auto)
    with step True r table show ?thesis by (simp add: note_reports_Cons)
  next
    case False
    have "outcome nodes (snd s) (Option.bind (note_report (open_report nodes j) c)
        (note_reports (map (open_report nodes) js))) (False, es, s1)"
      by (rule outcome_bind [OF o1]) (use False within_note_reports in auto)
    with step False table show ?thesis
      by (intro exI [of _ False] exI [of _ s1]) (simp add: note_reports_Cons)
  qed
qed

definition reports_of_keys :: "model_node list \<Rightarrow> calls_state \<Rightarrow> trace_key list \<Rightarrow> owned_finding list" where
  "reports_of_keys nodes c ks = concat (map (\<lambda>k. map (open_report nodes) (cs_open c k)) ks)"

lemma note_reports_open: "note_reports fs c = Some c1 \<Longrightarrow> reports_of_keys nodes c1 ks = reports_of_keys nodes c ks \<and>
    cs_keys c1 = cs_keys c"
  by (auto simp: note_reports_def reports_of_keys_def split: if_splits)

lemma report_contexts_outcome:
  assumes "traced nodes es s c" and "d + k = length (trace_table s)"
  shows "\<exists>b s1. report_contexts k d es s = Some (b, s1) \<and>
    outcome nodes (snd s) (note_reports (reports_of_keys nodes c (drop d (cs_keys c))) c) (b, es, s1)"
  using assms
proof (induction k arbitrary: d s c)
  case 0
  have "length (cs_keys c) = length (trace_table s)"
    using 0(1) by (metis length_map traced_def)
  with 0 show ?case
    by (intro exI [of _ True] exI [of _ s]) (simp add: outcome_success reports_of_keys_def)
next
  case (Suc k)
  have d: "d < length (trace_table s)" using Suc.prems(2) by simp
  have keys: "map trace_key (trace_table s) = cs_keys c" using Suc.prems(1) by (simp add: traced_def)
  let ?k = "trace_key (trace_table s ! d)"
  have drop: "drop d (cs_keys c) = ?k # drop (Suc d) (cs_keys c)"
    using d unfolding keys [symmetric] by (simp add: Cons_nth_drop_Suc [symmetric] drop_map)
  let ?fs = "map (open_report nodes) (cs_open c ?k)" and ?gs = "reports_of_keys nodes c (drop (Suc d) (cs_keys c))"
  have all: "reports_of_keys nodes c (drop d (cs_keys c)) = ?fs @ ?gs"
    unfolding drop by (simp add: reports_of_keys_def)
  have "linked es (tc_top (trace_table s ! d)) (cs_open c ?k)"
    using traced_context [OF Suc.prems(1) d] by (simp add: context_ok_def)
  from report_open_outcome [OF Suc.prems(1) this] obtain b s1 where o:
    "report_open es (tc_top (trace_table s ! d)) s = Some (b, s1)" "trace_table s1 = trace_table s"
    "outcome nodes (snd s) (note_reports ?fs c) (b, es, s1)" by blast
  show ?case
  proof (cases b)
    case True
    with o(3) obtain c1 where c1: "note_reports ?fs c = Some c1" "traced nodes es s1 c1"
      by (auto simp: outcome_def)
    from Suc.IH [OF c1(2), of "Suc d"] Suc.prems(2) o(2) obtain b2 s2 where r:
      "report_contexts k (Suc d) es s1 = Some (b2, s2)"
      "outcome nodes (snd s1) (note_reports (reports_of_keys nodes c1 (drop (Suc d) (cs_keys c1))) c1) (b2, es, s2)"
      by auto
    have gs: "reports_of_keys nodes c1 (drop (Suc d) (cs_keys c1)) = ?gs"
      using note_reports_open [OF c1(1)] by simp
    have "outcome nodes (snd s) (Option.bind (note_reports ?fs c) (note_reports ?gs)) (b2, es, s2)"
      by (rule outcome_bind [OF o(3)]) (use True r(2) c1(1) gs within_note_reports in auto)
    with o(1) True r(1) show ?thesis
      by (intro exI [of _ b2] exI [of _ s2]) (simp add: all note_reports_append)
  next
    case False
    have "outcome nodes (snd s) (Option.bind (note_reports ?fs c) (note_reports ?gs)) (False, es, s1)"
      by (rule outcome_bind [OF o(3)]) (use False within_note_reports in auto)
    with o(1) False show ?thesis
      by (intro exI [of _ False] exI [of _ s1]) (simp add: all note_reports_append)
  qed
qed

text \<open>The policy as a whole, against the machine.\<close>

definition trace_result :: "tool_analysis \<Rightarrow> calls_state option" where
  "trace_result a = Option.bind (calls_of a) (\<lambda>c. note_reports (open_reports (ordered_nodes a) c) c)"

lemma kept_contexts [simp]: "kept (a\<lparr>an_trace_contexts := x\<rparr>) = kept a"
  using stored_same [of "a\<lparr>an_trace_contexts := x\<rparr>" a] tree_ok_same [of "a\<lparr>an_trace_contexts := x\<rparr>" a]
  by (simp add: kept_def same_findings_def)

lemma analyze_trace_result:
  assumes "kept a"
  shows "\<exists>b a1 w1. analyze_trace (a, w) = Some (b, a1, w1) \<and> kept a1 \<and>
    (b \<longrightarrow> (\<exists>c es. trace_result a = Some c \<and> traced (ordered_nodes a) es (a1, w1) c)) \<and>
    (ample w \<and> (\<exists>c. trace_result a = Some c \<and> within c) \<longrightarrow> b)"
proof -
  let ?nodes = "ordered_nodes a"
  obtain r1 w1 r2 w2 where req: "heap_request w = (r1, w1)" "heap_request w1 = (r2, w2)"
    by (metis surj_pair)
  show ?thesis
  proof (cases "r1 \<and> r2")
    case False
    have "\<not> ample w"
    proof
      assume "ample w"
      from heap_request_ample [OF this] req(1) have "r1" "ample w1" by auto
      from heap_request_ample [OF this(2)] req(2) have "r2" by auto
      with \<open>r1\<close> False show False by simp
    qed
    moreover have "\<exists>x. analyze_trace (a, w) = Some (False, a\<lparr>an_trace_contexts := x\<rparr>, raise_errno ENOMEM w2)"
      using False req by (auto simp: analyze_trace_def)
    ultimately show ?thesis using assms by auto
  next
    case True
    let ?a = "a\<lparr>an_trace_contexts := Some []\<rparr>"
    have amp: "ample w \<longrightarrow> ample w2"
      using heap_request_ample [of w] heap_request_ample [of w1] req by auto
    have start: "traced ?nodes [] (?a, w2) (start_calls a)"
      using assms kept_contexts [of "Some []" a]
      by (simp add: traced_def start_calls_def trace_table_def ordered_nodes_def reports_def kept_def
          del: kept_contexts)
    let ?n = "length ?nodes"
    from trace_from_outcome [OF start, of ?n 0] obtain b es s where walk:
      "trace_from ?n 0 [] (?a, w2) = Some (b, es, s)" "outcome ?nodes w2 (calls_of a) (b, es, s)"
      by (auto simp: calls_of_def)
    have "\<exists>b1 s1. analyze_trace (a, w) = Some (b1, s1) \<and> outcome ?nodes w2 (trace_result a) (b1, es, s1)"
    proof (cases b)
      case b: True
      with walk(2) obtain c where c: "calls_of a = Some c" "traced ?nodes es s c" by (auto simp: outcome_def)
      from report_contexts_outcome [OF c(2), of 0 "length (trace_table s)"] obtain b1 s1 where r:
        "report_contexts (length (trace_table s)) 0 es s = Some (b1, s1)"
        "outcome ?nodes (snd s) (note_reports (open_reports ?nodes c) c) (b1, es, s1)"
        by (auto simp: reports_of_keys_def open_reports_def)
      have "outcome ?nodes w2 (trace_result a) (b1, es, s1)" unfolding trace_result_def
        by (rule outcome_bind [OF walk(2)]) (use b r(2) c(1) within_note_reports in auto)
      moreover have "analyze_trace (a, w) = Some (b1, s1)"
        using walk(1) b r(1) req True by (simp add: analyze_trace_def)
      ultimately show ?thesis by blast
    next
      case b: False
      have "outcome ?nodes w2 (trace_result a) (False, es, s)" unfolding trace_result_def
        by (rule outcome_bind [OF walk(2)]) (use b within_note_reports in auto)
      moreover have "analyze_trace (a, w) = Some (False, s)"
        using walk(1) b req True by (simp add: analyze_trace_def)
      ultimately show ?thesis by blast
    qed
    then obtain b1 a1 v where "analyze_trace (a, w) = Some (b1, a1, v)"
      "outcome ?nodes w2 (trace_result a) (b1, es, (a1, v))" by auto
    with amp show ?thesis unfolding outcome_def by auto
  qed
qed

end
