(* ===== verification/Analysis_Sync.thy ===== *)
theory Analysis_Sync
  imports Analysis_Order
begin

section \<open>The synchronization policy (analyze_synchronization in src/analysis.c)\<close>

text \<open>
  The policy walks over the causal order with the locks held, the waits and the finished threads
  in arrays, and a graph of lock orders that grows as locks are acquired while others are held;
  at the end it looks for cycles among the waits. The arrays have fixed capacities and the code
  does not test all of them, and the search for a finding already made reads the texts of older
  findings. \<open>None\<close> is the undefined behaviour that follows: a write outside an array, or a read
  of a text whose buffer has moved (or a loop that does not end, which is shown not to happen).
  Texts are copied between buffers of one size, which keeps them.
\<close>

record sync_item =
  si_active :: bool
  si_join :: bool
  si_node :: model_node
  si_thread :: string
  si_resource :: string
  si_target :: string

record sync_edge =
  se_from :: string
  se_to :: string

subsection \<open>Classes and names\<close>

definition held_class :: "string \<Rightarrow> bool" where
  "held_class c \<longleftrightarrow> c = ''pthread-mutex-held'' \<or> c = ''pthread-rwlock-held''"

definition synchronization_class :: "string \<Rightarrow> bool" where
  "synchronization_class c \<longleftrightarrow> held_class c \<or> c \<in> {''pthread-mutex-wait'', ''pthread-rwlock-read-wait'',
     ''pthread-rwlock-write-wait'', ''pthread-condition-wait'', ''pthread-join-wait'', ''pthread-mutex'',
     ''pthread-terminal-attempt'', ''pthread-joinable-thread'', ''blocking-operation''}"

definition format_sync_thread :: "model_node \<Rightarrow> string" where
  "format_sync_thread n = snprintf_text EVIDENCE_TEXT_SIZE
     (signed_decimal (mn_pid n) @ '':'' @ decimal (mn_context_id n))"

text \<open>The process and the identity up to its first \<open>@\<close>.\<close>

definition format_sync_resource :: "model_node \<Rightarrow> string \<Rightarrow> string" where
  "format_sync_resource n identity =
     (let prefix = takeWhile (\<lambda>c. c \<noteq> CHR ''@'') identity;
        start = signed_decimal (mn_pid n) @ '':'' in
      if EVIDENCE_TEXT_SIZE \<le> length start then take (EVIDENCE_TEXT_SIZE - 1) start
      else start @ take (EVIDENCE_TEXT_SIZE - length start - 1) prefix)"

subsection \<open>Reachability\<close>

text \<open>The edges of one vertex: found the target, and the stack, whose head is its top.\<close>

fun push_targets ::
  "nat \<Rightarrow> string \<Rightarrow> string \<Rightarrow> sync_edge list \<Rightarrow> string list \<Rightarrow> bool \<times> string list" where
  "push_targets room current dst [] pending = (False, pending)"
| "push_targets room current dst (e # es) pending =
     (if se_from e \<noteq> current then push_targets room current dst es pending
      else if se_to e = dst then (True, pending)
      else push_targets room current dst es
        (if length pending < room then se_to e # pending else pending))"

partial_function (option) reach_loop ::
  "sync_edge list \<Rightarrow> string \<Rightarrow> string list \<Rightarrow> string list \<Rightarrow> bool option" where
  "reach_loop edges dst pending visited =
     (case pending of
        [] \<Rightarrow> Some False
      | current # rest \<Rightarrow>
          if current \<in> set visited then reach_loop edges dst rest visited
          else if length edges + 1 \<le> length visited then None
          else
            (case push_targets (length edges + 1) current dst edges rest of
               (found, pending1) \<Rightarrow>
                 if found then Some True else reach_loop edges dst pending1 (visited @ [current])))"

definition sync_reaches ::
  "sync_edge list \<Rightarrow> string \<Rightarrow> string \<Rightarrow> world \<Rightarrow> (bool \<times> world) option" where
  "sync_reaches edges start dst w =
     (case requests 2 w of
        (granted, w1) \<Rightarrow>
          if start = dst \<or> \<not> list_all (\<lambda>b. b) granted then Some (start = dst, w1)
          else map_option (\<lambda>b. (b, w1)) (reach_loop edges dst [start] []))"

subsection \<open>Findings\<close>

definition sync_messages :: "(string \<times> string) list" where
  "sync_messages = [
     (''P101-SYNC-001'', ''lock-order graph contains a cycle''),
     (''P101-SYNC-002'', ''live wait-for graph contains a deadlock cycle''),
     (''P101-SYNC-003'', ''thread join graph contains a cycle''),
     (''P101-SYNC-004'', ''locks were not released in reverse acquisition order''),
     (''P101-SYNC-005'', ''a thread join began while a lock was held''),
     (''P101-SYNC-007'', ''a mutex was destroyed while locked or while a wait was active''),
     (''P101-SYNC-008'', ''a thread joinable lifetime was consumed more than once''),
     (''P101-SYNC-009'', ''one condition variable has concurrent waits using different mutexes'')]"

definition sync_message :: "string \<Rightarrow> string" where
  "sync_message identifier =
     (case List.find (\<lambda>p. fst p = identifier) sync_messages of
        Some p \<Rightarrow> snd p
      | None \<Rightarrow> ''a potentially blocking operation began while a lock was held'')"

text \<open>Searching the findings reads the texts of those before the one that is found.\<close>

fun sync_duplicate ::
  "tool_analysis \<Rightarrow> string \<Rightarrow> string \<Rightarrow> string \<Rightarrow> owned_finding list \<Rightarrow> bool option" where
  "sync_duplicate a identifier src dst [] = Some False"
| "sync_duplicate a identifier src dst (f # fs) =
     (case (published_text a f of_evidence_from, published_text a f of_evidence_to) of
        (Some x, Some y) \<Rightarrow>
          if of_diagnostic_id f = identifier \<and> x = src \<and> y = dst then Some True
          else sync_duplicate a identifier src dst fs
      | _ \<Rightarrow> None)"

definition add_sync_finding ::
  "analysis_state \<Rightarrow> string \<Rightarrow> model_node \<Rightarrow> string \<Rightarrow> string \<Rightarrow> (bool \<times> analysis_state) option" where
  "add_sync_finding s identifier n src dst =
     (case sync_duplicate (fst s) identifier src dst (an_findings (fst s)) of
        None \<Rightarrow> None
      | Some True \<Rightarrow> Some (True, s)
      | Some False \<Rightarrow> Some (add_analysis_finding s identifier POLICY_SYNCHRONIZATION
          (sync_message identifier) (Some n) (Some src) (Some dst) None))"

fun add_sync_findings ::
  "string \<Rightarrow> model_node \<Rightarrow> (string \<times> string) list \<Rightarrow> analysis_state \<Rightarrow> (bool \<times> analysis_state) option" where
  "add_sync_findings identifier n [] s = Some (True, s)"
| "add_sync_findings identifier n ((src, dst) # ps) s =
     (case add_sync_finding s identifier n src dst of
        None \<Rightarrow> None
      | Some (False, s1) \<Rightarrow> Some (False, s1)
      | Some (True, s1) \<Rightarrow> add_sync_findings identifier n ps s1)"

subsection \<open>One node\<close>

record sync_state =
  ss_held :: "sync_item list"
  ss_waits :: "sync_item list"
  ss_terminated :: "sync_item list"
  ss_lock_edges :: "sync_edge list"

type_synonym sync_result = "(bool \<times> sync_state \<times> analysis_state) option"

text \<open>Writing the next element of an array of a given capacity.\<close>

definition store :: "nat \<Rightarrow> 'a list \<Rightarrow> 'a \<Rightarrow> 'a list option" where
  "store capacity xs x = (if length xs < capacity then Some (xs @ [x]) else None)"

definition sync_item_of :: "bool \<Rightarrow> model_node \<Rightarrow> string \<Rightarrow> string \<Rightarrow> string \<Rightarrow> sync_item" where
  "sync_item_of join n thread resource waited = \<lparr>si_active = True, si_join = join, si_node = n,
     si_thread = thread, si_resource = resource, si_target = waited\<rparr>"

definition last_held :: "sync_item list \<Rightarrow> string \<Rightarrow> nat option" where
  "last_held held thread =
     scan_down (\<lambda>i. si_active (held ! i) \<and> si_thread (held ! i) = thread) (length held)"

definition last_match :: "sync_item list \<Rightarrow> string \<Rightarrow> string \<Rightarrow> nat option" where
  "last_match items thread resource =
     scan_down (\<lambda>i. si_active (items ! i) \<and> si_thread (items ! i) = thread \<and>
       si_resource (items ! i) = resource) (length items)"

definition deactivate :: "sync_item list \<Rightarrow> string \<Rightarrow> string \<Rightarrow> sync_item list" where
  "deactivate items thread resource =
     (case last_match items thread resource of
        None \<Rightarrow> items
      | Some i \<Rightarrow> items[i := (items ! i)\<lparr>si_active := False\<rparr>])"

definition with_findings :: "sync_state \<Rightarrow> (bool \<times> analysis_state) option \<Rightarrow> sync_result" where
  "with_findings d r = map_option (\<lambda>(b, s1). (b, d, s1)) r"

definition mutex_destroyed :: "sync_state \<Rightarrow> model_node \<Rightarrow> string \<Rightarrow> analysis_state \<Rightarrow> sync_result" where
  "mutex_destroyed d n resource s = with_findings d (add_sync_findings ''P101-SYNC-007'' n
     (map (\<lambda>x. (resource, si_thread x))
       (filter (\<lambda>x. si_active x \<and> si_resource x = resource) (ss_held d) @
        filter (\<lambda>x. si_active x \<and> (si_resource x = resource \<or> si_target x = resource)) (ss_waits d))) s)"

definition terminal_attempt :: "sync_state \<Rightarrow> model_node \<Rightarrow> string \<Rightarrow> analysis_state \<Rightarrow> sync_result" where
  "terminal_attempt d n resource s = with_findings d (add_sync_findings ''P101-SYNC-008'' n
     (map (\<lambda>x. (resource, si_thread x))
       (filter (\<lambda>x. si_active x \<and> si_resource x = resource) (ss_terminated d))) s)"

text \<open>A finding about the innermost lock that the thread holds.\<close>

definition while_holding ::
  "string \<Rightarrow> sync_state \<Rightarrow> model_node \<Rightarrow> string \<Rightarrow> string \<Rightarrow> analysis_state \<Rightarrow> (bool \<times> analysis_state) option" where
  "while_holding identifier d n thread resource s =
     (case last_held (ss_held d) thread of
        None \<Rightarrow> Some (True, s)
      | Some i \<Rightarrow> add_sync_finding s identifier n (si_resource (ss_held d ! i)) resource)"

fun order_locks ::
  "nat \<Rightarrow> model_node \<Rightarrow> string \<Rightarrow> string \<Rightarrow> sync_item list \<Rightarrow> sync_edge list \<Rightarrow> analysis_state \<Rightarrow>
   (bool \<times> sync_edge list \<times> analysis_state) option" where
  "order_locks capacity n thread resource [] edges s = Some (True, edges, s)"
| "order_locks capacity n thread resource (h # hs) edges s =
     (if si_active h \<and> si_thread h = thread \<and> si_resource h \<noteq> resource then
        (case sync_reaches edges resource (si_resource h) (snd s) of
           None \<Rightarrow> None
         | Some (cycle, w1) \<Rightarrow>
             (case (if cycle then add_sync_finding (fst s, w1) ''P101-SYNC-001'' n (si_resource h) resource
                    else Some (True, fst s, w1)) of
                None \<Rightarrow> None
              | Some (False, s1) \<Rightarrow> Some (False, edges, s1)
              | Some (True, s1) \<Rightarrow>
                  (case store capacity edges \<lparr>se_from = si_resource h, se_to = resource\<rparr> of
                     None \<Rightarrow> None
                   | Some edges1 \<Rightarrow> order_locks capacity n thread resource hs edges1 s1)))
      else order_locks capacity n thread resource hs edges s)"

definition lock_acquired ::
  "nat \<Rightarrow> sync_state \<Rightarrow> model_node \<Rightarrow> string \<Rightarrow> string \<Rightarrow> analysis_state \<Rightarrow> sync_result" where
  "lock_acquired capacity d n thread resource s =
     (case order_locks capacity n thread resource (ss_held d) (ss_lock_edges d) s of
        None \<Rightarrow> None
      | Some (False, edges, s1) \<Rightarrow> Some (False, d\<lparr>ss_lock_edges := edges\<rparr>, s1)
      | Some (True, edges, s1) \<Rightarrow>
          map_option (\<lambda>held. (True, d\<lparr>ss_lock_edges := edges, ss_held := held\<rparr>, s1))
            (store capacity (ss_held d) (sync_item_of False n thread resource [])))"

definition lock_released ::
  "sync_state \<Rightarrow> model_node \<Rightarrow> string \<Rightarrow> string \<Rightarrow> analysis_state \<Rightarrow> sync_result" where
  "lock_released d n thread resource s =
     (case (case last_held (ss_held d) thread of
              None \<Rightarrow> Some (True, s)
            | Some i \<Rightarrow>
                if si_resource (ss_held d ! i) \<noteq> resource
                then add_sync_finding s ''P101-SYNC-004'' n (si_resource (ss_held d ! i)) resource
                else Some (True, s)) of
        None \<Rightarrow> None
      | Some (False, s1) \<Rightarrow> Some (False, d, s1)
      | Some (True, s1) \<Rightarrow> Some (True, d\<lparr>ss_held := deactivate (ss_held d) thread resource\<rparr>, s1))"

definition wait_begun ::
  "nat \<Rightarrow> sync_state \<Rightarrow> model_node \<Rightarrow> string \<Rightarrow> string \<Rightarrow> analysis_state \<Rightarrow> sync_result" where
  "wait_begun capacity d n thread resource s =
     (let join = mn_resource_class n = ''pthread-join-wait'';
        condition = mn_resource_class n = ''pthread-condition-wait'';
        waited = format_sync_resource n (mn_related_id n);
        item = (if join then sync_item_of True n resource resource waited
                else sync_item_of False n thread resource (if condition then waited else [])) in
      case (if join then while_holding ''P101-SYNC-005'' d n thread resource s else Some (True, s)) of
        None \<Rightarrow> None
      | Some (False, s1) \<Rightarrow> Some (False, d, s1)
      | Some (True, s1) \<Rightarrow>
          (case store capacity (ss_waits d) item of
             None \<Rightarrow> None
           | Some waits \<Rightarrow>
               with_findings (d\<lparr>ss_waits := waits\<rparr>)
                 (if \<not> join \<and> condition
                  then add_sync_findings ''P101-SYNC-009'' n
                    (map (\<lambda>_. (resource, waited))
                      (filter (\<lambda>x. si_active x \<and> si_resource x = resource \<and> si_target x \<noteq> waited)
                        (ss_waits d))) s1
                  else Some (True, s1))))"

definition sync_record :: "nat \<Rightarrow> sync_state \<Rightarrow> model_node \<Rightarrow> analysis_state \<Rightarrow> sync_result" where
  "sync_record capacity d n s =
     (let class = mn_resource_class n; thread = format_sync_thread n;
        resource = format_sync_resource n (mn_resource_id n);
        acquired = mn_resource_kind n = RESOURCE_ACQUIRE; released = mn_resource_kind n = RESOURCE_RELEASE in
      if class = ''pthread-mutex'' then
        (if released then mutex_destroyed d n resource s else Some (True, d, s))
      else if class = ''pthread-terminal-attempt'' then terminal_attempt d n resource s
      else if class = ''pthread-joinable-thread'' then
        (if released
         then map_option (\<lambda>xs. (True, d\<lparr>ss_terminated := xs\<rparr>, s))
           (store capacity (ss_terminated d) (sync_item_of False n thread resource []))
         else Some (True, d, s))
      else if class = ''blocking-operation'' then
        with_findings d (while_holding ''P101-SYNC-010'' d n thread resource s)
      else if held_class class then
        (if acquired then lock_acquired capacity d n thread resource s
         else if released then lock_released d n thread resource s
         else Some (True, d, s))
      else if acquired then wait_begun capacity d n thread resource s
      else if released then
        Some (True, d\<lparr>ss_waits := deactivate (ss_waits d)
          (if class = ''pthread-join-wait'' then resource else thread) resource\<rparr>, s)
      else Some (True, d, s))"

definition is_sync_node :: "model_node \<Rightarrow> bool" where
  "is_sync_node n \<longleftrightarrow> mn_domain n = NODE_RESOURCE \<and> mn_record_kind n = RECORD_RESOURCE \<and>
     synchronization_class (mn_resource_class n)"

fun sync_from :: "nat \<Rightarrow> model_node list \<Rightarrow> sync_state \<Rightarrow> analysis_state \<Rightarrow> sync_result" where
  "sync_from capacity [] d s = Some (True, d, s)"
| "sync_from capacity (n # ns) d s =
     (if \<not> is_sync_node n then sync_from capacity ns d s
      else
        (case sync_record capacity d n ((fst s)\<lparr>an_synchronization_records :=
                 an_synchronization_records (fst s) + 1\<rparr>, snd s) of
           None \<Rightarrow> None
         | Some (False, d1, s1) \<Rightarrow> Some (False, d1, s1)
         | Some (True, d1, s1) \<Rightarrow> sync_from capacity ns d1 s1))"

subsection \<open>The waits that are left\<close>

fun store_all :: "nat \<Rightarrow> 'a list \<Rightarrow> 'a list \<Rightarrow> 'a list option" where
  "store_all capacity xs [] = Some xs"
| "store_all capacity xs (y # ys) =
     (case store capacity xs y of None \<Rightarrow> None | Some xs1 \<Rightarrow> store_all capacity xs1 ys)"

text \<open>A join waits for its target; any other wait for the threads that hold the resource.\<close>

definition join_edge :: "sync_item \<Rightarrow> sync_edge" where
  "join_edge x = \<lparr>se_from = si_thread x, se_to = si_target x\<rparr>"

definition edges_of_wait :: "sync_item list \<Rightarrow> sync_item \<Rightarrow> sync_edge list" where
  "edges_of_wait held x =
     (if si_join x then [join_edge x]
      else map (\<lambda>h. \<lparr>se_from = si_thread x, se_to = si_thread h\<rparr>)
        (filter (\<lambda>h. si_active h \<and> si_resource h = si_resource x) held))"

fun deadlock_of ::
  "sync_edge list \<Rightarrow> sync_item \<Rightarrow> sync_edge list \<Rightarrow> analysis_state \<Rightarrow> (bool \<times> analysis_state) option" where
  "deadlock_of edges x [] s = Some (True, s)"
| "deadlock_of edges x (e # es) s =
     (if se_from e \<noteq> si_thread x then deadlock_of edges x es s
      else
        (case sync_reaches edges (se_to e) (si_thread x) (snd s) of
           None \<Rightarrow> None
         | Some (cycle, w1) \<Rightarrow>
             if cycle then add_sync_finding (fst s, w1) ''P101-SYNC-002'' (si_node x) (si_thread x) (se_to e)
             else deadlock_of edges x es (fst s, w1)))"

definition check_wait ::
  "sync_edge list \<Rightarrow> sync_edge list \<Rightarrow> sync_item \<Rightarrow> analysis_state \<Rightarrow> (bool \<times> analysis_state) option" where
  "check_wait joins waits x s =
     (if si_join x then
        (case sync_reaches joins (si_target x) (si_thread x) (snd s) of
           None \<Rightarrow> None
         | Some (cycle, w1) \<Rightarrow>
             if cycle then add_sync_finding (fst s, w1) ''P101-SYNC-003'' (si_node x) (si_thread x) (si_target x)
             else Some (True, fst s, w1))
      else deadlock_of waits x waits s)"

fun check_waits ::
  "sync_edge list \<Rightarrow> sync_edge list \<Rightarrow> sync_item list \<Rightarrow> analysis_state \<Rightarrow> (bool \<times> analysis_state) option" where
  "check_waits joins waits [] s = Some (True, s)"
| "check_waits joins waits (x # xs) s =
     (case check_wait joins waits x s of
        None \<Rightarrow> None
      | Some (False, s1) \<Rightarrow> Some (False, s1)
      | Some (True, s1) \<Rightarrow> check_waits joins waits xs s1)"

definition analyze_synchronization :: "analysis_state \<Rightarrow> (bool \<times> analysis_state) option" where
  "analyze_synchronization s =
     (case s of (a, w) \<Rightarrow>
        let nodes = ordered_nodes a; capacity = (if nodes = [] then 1 else length nodes) in
        (case requests 6 w of
           (granted, w1) \<Rightarrow>
             if \<not> list_all (\<lambda>b. b) granted then Some (False, a, raise_errno ENOMEM w1)
             else
               (case sync_from capacity nodes
                       \<lparr>ss_held = [], ss_waits = [], ss_terminated = [], ss_lock_edges = []\<rparr> (a, w1) of
                  None \<Rightarrow> None
                | Some (False, d, s1) \<Rightarrow> Some (False, s1)
                | Some (True, d, s1) \<Rightarrow>
                    (let waiting = filter si_active (ss_waits d) in
                     case store_all capacity [] (map join_edge (filter si_join waiting)) of
                       None \<Rightarrow> None
                     | Some joins \<Rightarrow>
                         (case store_all (capacity * 2) []
                                 (concat (map (edges_of_wait (ss_held d)) waiting)) of
                            None \<Rightarrow> None
                          | Some waits \<Rightarrow>
                              (case check_waits joins waits waiting s1 of
                                 None \<Rightarrow> None
                               | Some (False, s2) \<Rightarrow> Some (False, s2)
                               | Some (True, a2, w2) \<Rightarrow>
                                   Some (True, a2\<lparr>an_lock_order_edges := length (ss_lock_edges d)\<rparr>, w2)))))))"

end
