(* ===== verification/Analysis_Sync_Facts.thy ===== *)
theory Analysis_Sync_Facts
  imports Analysis_Sync Analysis_Facts Analysis_Order_Facts
begin

section \<open>Facts about the synchronization policy\<close>

text \<open>
  The depth-first search of \<open>sync_reaches\<close> decides reachability; the search for a finding
  already made is defined exactly while no text has moved.
\<close>

subsection \<open>The search in a graph\<close>

definition edge_set :: "sync_edge list \<Rightarrow> (string \<times> string) set" where
  "edge_set es = {(se_from e, se_to e) | e. e \<in> set es}"

lemma edge_set_simps [simp]:
  "edge_set [] = {}" "edge_set (e # es) = insert (se_from e, se_to e) (edge_set es)"
  "edge_set (es @ fs) = edge_set es \<union> edge_set fs"
  by (auto simp: edge_set_def)

text \<open>The edges that leave the vertices not yet visited.\<close>

definition unseen :: "sync_edge list \<Rightarrow> string list \<Rightarrow> nat" where
  "unseen es visited = length (filter (\<lambda>e. se_from e \<notin> set visited) es)"

definition leaving :: "sync_edge list \<Rightarrow> string \<Rightarrow> nat" where
  "leaving es v = length (filter (\<lambda>e. se_from e = v) es)"

lemma unseen_visit: "v \<notin> set visited \<Longrightarrow> unseen es (visited @ [v]) + leaving es v = unseen es visited"
  unfolding unseen_def leaving_def by (induction es) auto

lemma push_targets_result:
  assumes "length pending + leaving es v \<le> room" and "push_targets room v dst es pending = (found, pending1)"
  shows "(found \<longleftrightarrow> (v, dst) \<in> edge_set es) \<and> (\<not> found \<longrightarrow>
    set pending1 = set pending \<union> {u. (v, u) \<in> edge_set es} \<and>
    length pending1 = length pending + leaving es v)"
  using assms
proof (induction es arbitrary: pending)
  case Nil
  then show ?case by (simp add: leaving_def)
next
  case (Cons e es)
  consider (other) "se_from e \<noteq> v" | (hit) "se_from e = v" "se_to e = dst"
    | (push) "se_from e = v" "se_to e \<noteq> dst" by blast
  then show ?case
  proof cases
    case other
    with Cons.IH [of pending] Cons.prems show ?thesis by (simp add: leaving_def)
  next
    case hit
    with Cons.prems show ?thesis by simp
  next
    case push
    then have l: "leaving (e # es) v = Suc (leaving es v)" by (simp add: leaving_def)
    with Cons.prems(1) have "length pending < room" by simp
    with push Cons.prems have "push_targets room v dst es (se_to e # pending) = (found, pending1)"
      "length (se_to e # pending) + leaving es v \<le> room" using l by simp_all
    from Cons.IH [OF this(2,1)] push l show ?thesis by auto
  qed
qed

definition searching ::
  "sync_edge list \<Rightarrow> string \<Rightarrow> string \<Rightarrow> string list \<Rightarrow> string list \<Rightarrow> bool" where
  "searching es start dst pending visited \<longleftrightarrow>
     start \<in> set pending \<union> set visited \<and>
     (\<forall>v \<in> set pending \<union> set visited. (start, v) \<in> (edge_set es)\<^sup>* \<and> v \<noteq> dst) \<and>
     (\<forall>v \<in> set visited. \<forall>u. (v, u) \<in> edge_set es \<longrightarrow> u \<in> set pending \<union> set visited) \<and>
     length visited + length pending + unseen es visited \<le> length es + 1"

lemma reach_loop_exact:
  assumes "searching es start dst pending visited"
  shows "reach_loop es dst pending visited = Some ((start, dst) \<in> (edge_set es)\<^sup>*)"
  using assms
proof (induction "length pending + unseen es visited" arbitrary: pending visited rule: less_induct)
  case less
  note s = less(2) [unfolded searching_def]
  show ?case
  proof (cases pending)
    case Nil
    have start: "start \<in> set visited" and none: "dst \<notin> set visited"
      and closed: "\<forall>v \<in> set visited. \<forall>u. (v, u) \<in> edge_set es \<longrightarrow> u \<in> set visited"
      using s Nil by auto
    have "(start, v) \<in> (edge_set es)\<^sup>* \<Longrightarrow> v \<in> set visited" for v
      by (induction rule: rtrancl_induct) (use start closed in blast)+
    with none Nil show ?thesis by (auto simp: reach_loop.simps)
  next
    case (Cons v rest)
    show ?thesis
    proof (cases "v \<in> set visited")
      case True
      have sets: "set pending \<union> set visited = set rest \<union> set visited" using Cons True by auto
      have "searching es start dst rest visited"
        using less(2) Cons unfolding searching_def sets by simp
      from less(1) [OF _ this] Cons True show ?thesis by (simp add: reach_loop.simps)
    next
      case False
      obtain found pending1 where push: "push_targets (length es + 1) v dst es rest = (found, pending1)"
        by (rule prod.exhaust)
      note visit = unseen_visit [OF False, of es]
      have room: "length rest + leaving es v \<le> length es + 1" and seen: "\<not> length es + 1 \<le> length visited"
        using s Cons visit by simp_all
      note p = push_targets_result [OF room push]
      have step: "reach_loop es dst pending visited =
          (if found then Some True else reach_loop es dst pending1 (visited @ [v]))"
        using Cons False seen push by (simp add: reach_loop.simps)
      have reach: "(start, v) \<in> (edge_set es)\<^sup>*" using s Cons by simp
      show ?thesis
      proof (cases found)
        case True
        with p reach have "(start, dst) \<in> (edge_set es)\<^sup>*" by (meson rtrancl.rtrancl_into_rtrancl)
        with True step show ?thesis by simp
      next
        case nf: False
        with p have q: "set pending1 = set rest \<union> {u. (v, u) \<in> edge_set es}"
          "length pending1 = length rest + leaving es v" and no: "(v, dst) \<notin> edge_set es" by simp_all
        have sets: "set pending1 \<union> set (visited @ [v]) =
            (set pending \<union> set visited) \<union> {u. (v, u) \<in> edge_set es}" using q(1) Cons by auto
        have new: "(start, u) \<in> (edge_set es)\<^sup>* \<and> u \<noteq> dst" if "(v, u) \<in> edge_set es" for u
          using that reach no by (auto intro: rtrancl_into_rtrancl)
        have "\<forall>x \<in> (set pending \<union> set visited) \<union> {u. (v, u) \<in> edge_set es}.
            (start, x) \<in> (edge_set es)\<^sup>* \<and> x \<noteq> dst" using s new by blast
        moreover have "\<forall>x \<in> set (visited @ [v]). \<forall>u. (x, u) \<in> edge_set es \<longrightarrow>
            u \<in> (set pending \<union> set visited) \<union> {u. (v, u) \<in> edge_set es}" using s by auto
        moreover have "length (visited @ [v]) + length pending1 + unseen es (visited @ [v]) \<le> length es + 1"
          using s Cons q(2) visit by simp
        ultimately have "searching es start dst pending1 (visited @ [v])"
          unfolding searching_def sets using s by blast
        from less(1) [OF _ this] q(2) visit Cons step nf show ?thesis by simp
      qed
    qed
  qed
qed

lemma sync_reaches_result:
  assumes "ample w"
  shows "\<exists>w1. sync_reaches es start dst w = Some ((start, dst) \<in> (edge_set es)\<^sup>*, w1) \<and> ample w1"
proof -
  obtain w1 where req: "requests 2 w = ([True, True], w1)" "ample w1"
    using heap_request_ample [OF assms] heap_request_ample
    by (fastforce simp: numeral_2_eq_2)
  show ?thesis
  proof (cases "start = dst")
    case True
    with req show ?thesis by (simp add: sync_reaches_def)
  next
    case False
    have "searching es start dst [start] []"
      using False by (simp add: searching_def unseen_def)
    from reach_loop_exact [OF this] req False show ?thesis by (simp add: sync_reaches_def)
  qed
qed

lemma sync_reaches_total: "\<exists>b w1. sync_reaches es start dst w = Some (b, w1) \<and>
    (b \<longrightarrow> (start, dst) \<in> (edge_set es)\<^sup>*)"
proof -
  obtain g w1 where req: "requests 2 w = (g, w1)" by (rule prod.exhaust)
  show ?thesis
  proof (cases "start = dst \<or> \<not> list_all (\<lambda>b. b) g")
    case True
    with req show ?thesis by (auto simp: sync_reaches_def)
  next
    case False
    then have "searching es start dst [start] []" by (simp add: searching_def unseen_def)
    from reach_loop_exact [OF this] req False show ?thesis by (auto simp: sync_reaches_def)
  qed
qed

subsection \<open>Findings\<close>

lemma sync_duplicate_defined:
  assumes "stored a" and "an_finding_capacity a \<le> 16"
  shows "sync_duplicate a identifier src dst (an_findings a) =
    Some (\<exists>f \<in> set (an_findings a). of_diagnostic_id f = identifier \<and> of_evidence_from f = src \<and>
      of_evidence_to f = dst)"
proof -
  have "of_block f = an_block a" if f: "f \<in> set (an_findings a)" for f
  proof -
    from f obtain i where i: "i < length (an_findings a)" "f = an_findings a ! i"
      by (auto simp: in_set_conv_nth)
    with stored_blocks(2) [OF assms(1) i(1)] generation_small assms show ?thesis
      by (auto simp: stored_def)
  qed
  then have "published_text a f sel = Some (sel f)" if "f \<in> set (an_findings a)" for f sel
    using that by (simp add: published_text_def)
  then have "sync_duplicate a identifier src dst fs =
      Some (\<exists>f \<in> set fs. of_diagnostic_id f = identifier \<and> of_evidence_from f = src \<and> of_evidence_to f = dst)"
    if "set fs \<subseteq> set (an_findings a)" for fs
    using that by (induction fs) auto
  then show ?thesis by blast
qed

lemma sync_duplicate_undefined:
  assumes "stored a" and "16 < an_finding_capacity a"
  shows "sync_duplicate a identifier src dst (an_findings a) = None"
proof -
  have "\<not> an_block a \<le> 1" using generation_small assms by (auto simp: stored_def)
  with assms have n: "0 < length (an_findings a)" by (auto simp: stored_def)
  with \<open>\<not> an_block a \<le> 1\<close> stored_blocks(2) [OF assms(1) n] assms(2)
  have "of_block (an_findings a ! 0) \<noteq> an_block a" by simp
  with n show ?thesis by (cases "an_findings a") (simp_all add: published_text_def)
qed

lemma add_sync_finding_undefined:
  assumes "stored (fst s)"
  shows "add_sync_finding s identifier n src dst = None \<longleftrightarrow> 16 < an_finding_capacity (fst s)"
proof (cases "16 < an_finding_capacity (fst s)")
  case True
  with sync_duplicate_undefined [OF assms] show ?thesis by (simp add: add_sync_finding_def)
next
  case False
  then have "an_finding_capacity (fst s) \<le> 16" by simp
  from sync_duplicate_defined [OF assms this] have
    "sync_duplicate (fst s) identifier src dst (an_findings (fst s)) \<noteq> None" by simp
  then obtain d where "sync_duplicate (fst s) identifier src dst (an_findings (fst s)) = Some d" by auto
  then have "add_sync_finding s identifier n src dst \<noteq> None"
    by (cases d) (simp_all add: add_sync_finding_def del: not_None_eq)
  with False show ?thesis by simp
qed

definition finding_ids :: "analysis_state \<Rightarrow> string set" where
  "finding_ids s = of_diagnostic_id ` set (an_findings (fst s))"

lemma sync_duplicate_id:
  "sync_duplicate a identifier src dst fs = Some True \<Longrightarrow> identifier \<in> of_diagnostic_id ` set fs"
  by (induction fs) (auto split: option.splits if_splits)

lemma ample_request: "ample w \<Longrightarrow> heap_request w = (b, w1) \<Longrightarrow> ample w1"
  using heap_request_ample by fastforce

lemma add_finding_ids:
  assumes "add_analysis_finding s identifier policy message n src dst detail = (True, s1)"
  shows "finding_ids s1 = insert identifier (finding_ids s) \<and> (ample (snd s) \<longrightarrow> ample (snd s1)) \<and>
    ordered_nodes (fst s1) = ordered_nodes (fst s)"
proof -
  obtain a w where s: "s = (a, w)" by (cases s)
  obtain c w2 where r: "finding_reserve (length (an_findings a)) (an_finding_capacity a) w = (True, c, w2)"
    using assms by (auto simp: s add_analysis_finding_def reserve_findings_def split: prod.splits bool.splits)
  have "ample w2" if "ample w"
    using r ample_request [OF that] that
    by (auto simp: finding_reserve_def Let_def split: if_splits prod.splits bool.splits)
  with assms r show ?thesis
    by (auto simp: s add_analysis_finding_def reserve_findings_def finding_ids_def finding_of_def
        ordered_nodes_def split: if_splits)
qed

lemma add_sync_finding_ids:
  assumes "add_sync_finding s identifier n src dst = Some (True, s1)"
  shows "finding_ids s1 = insert identifier (finding_ids s) \<and> (ample (snd s) \<longrightarrow> ample (snd s1)) \<and>
    ordered_nodes (fst s1) = ordered_nodes (fst s)"
proof -
  consider "sync_duplicate (fst s) identifier src dst (an_findings (fst s)) = Some True" "s1 = s"
    | "add_analysis_finding s identifier POLICY_SYNCHRONIZATION (sync_message identifier) (Some n)
        (Some src) (Some dst) None = (True, s1)"
    using assms by (auto simp: add_sync_finding_def split: option.splits bool.splits)
  then show ?thesis
  proof cases
    case 1
    with sync_duplicate_id [OF 1(1)] show ?thesis by (auto simp: finding_ids_def)
  next
    case 2
    from add_finding_ids [OF 2] show ?thesis .
  qed
qed

subsection \<open>The order of the locks\<close>

text \<open>What the records say of the locks held: pairs of a thread and a resource, oldest first.\<close>

definition acquires_lock :: "model_node \<Rightarrow> bool" where
  "acquires_lock n \<longleftrightarrow> is_sync_node n \<and> held_class (mn_resource_class n) \<and>
     mn_resource_kind n = RESOURCE_ACQUIRE"

definition releases_lock :: "model_node \<Rightarrow> bool" where
  "releases_lock n \<longleftrightarrow> is_sync_node n \<and> held_class (mn_resource_class n) \<and>
     mn_resource_kind n = RESOURCE_RELEASE"

definition lock_of :: "model_node \<Rightarrow> string \<times> string" where
  "lock_of n = (format_sync_thread n, format_sync_resource n (mn_resource_id n))"

definition remove_last :: "'a \<Rightarrow> 'a list \<Rightarrow> 'a list" where
  "remove_last x xs = rev (remove1 x (rev xs))"

fun lock_graph :: "(string \<times> string) list \<Rightarrow> model_node list \<Rightarrow> (string \<times> string) set" where
  "lock_graph hs [] = {}"
| "lock_graph hs (n # ns) =
     (if acquires_lock n
      then {(h, snd (lock_of n)) | h. (fst (lock_of n), h) \<in> set hs \<and> h \<noteq> snd (lock_of n)} \<union>
        lock_graph (hs @ [lock_of n]) ns
      else if releases_lock n then lock_graph (remove_last (lock_of n) hs) ns
      else lock_graph hs ns)"

definition held_locks :: "sync_item list \<Rightarrow> (string \<times> string) list" where
  "held_locks items = map (\<lambda>x. (si_thread x, si_resource x)) (filter si_active items)"

lemma remove_last_append: "remove_last x (xs @ [y]) = (if x = y then xs else remove_last x xs @ [y])"
  by (simp add: remove_last_def)

lemma held_locks_deactivate: "held_locks (deactivate items t r) = remove_last (t, r) (held_locks items)"
proof (induction items rule: rev_induct)
  case Nil
  then show ?case by (simp add: deactivate_def last_match_def held_locks_def remove_last_def)
next
  case (snoc x xs)
  have old: "last_match (xs @ [x]) t r =
      (if si_active x \<and> si_thread x = t \<and> si_resource x = r then Some (length xs) else last_match xs t r)"
  proof -
    have "scan_down (\<lambda>i. si_active ((xs @ [x]) ! i) \<and> si_thread ((xs @ [x]) ! i) = t \<and>
          si_resource ((xs @ [x]) ! i) = r) (length xs) =
        scan_down (\<lambda>i. si_active (xs ! i) \<and> si_thread (xs ! i) = t \<and> si_resource (xs ! i) = r) (length xs)"
      by (rule scan_down_cong) (simp add: nth_append)
    then show ?thesis by (simp add: last_match_def nth_append)
  qed
  show ?case
  proof (cases "si_active x \<and> si_thread x = t \<and> si_resource x = r")
    case True
    then have "deactivate (xs @ [x]) t r = xs @ [x\<lparr>si_active := False\<rparr>]"
      by (simp add: deactivate_def old)
    with True show ?thesis by (simp add: held_locks_def remove_last_append)
  next
    case False
    have "deactivate (xs @ [x]) t r = deactivate xs t r @ [x]"
    proof (cases "last_match xs t r")
      case None
      have "last_match (xs @ [x]) t r = None" using None unfolding old if_not_P [OF False] .
      with None show ?thesis by (simp add: deactivate_def)
    next
      case (Some i)
      then have "i < length xs" by (auto simp: last_match_def dest: scan_down_bound)
      moreover have "last_match (xs @ [x]) t r = Some i" using Some unfolding old if_not_P [OF False] .
      ultimately show ?thesis using Some by (simp add: deactivate_def nth_append list_update_append)
    qed
    with False snoc show ?thesis by (auto simp: held_locks_def remove_last_append)
  qed
qed

subsection \<open>Cycles in the order of the locks\<close>

definition cycle_reported :: "analysis_state \<Rightarrow> bool" where
  "cycle_reported s \<longleftrightarrow> ''P101-SYNC-001'' \<in> finding_ids s"

text \<open>A step that neither reports a cycle of locks nor fails an allocation.\<close>

definition quiet :: "analysis_state \<Rightarrow> analysis_state \<Rightarrow> bool" where
  "quiet s s1 \<longleftrightarrow> cycle_reported s1 = cycle_reported s \<and> (ample (snd s) \<longrightarrow> ample (snd s1)) \<and>
     ordered_nodes (fst s1) = ordered_nodes (fst s)"

lemma quiet_refl [simp]: "quiet s s"
  by (simp add: quiet_def)

lemma quiet_trans: "quiet s s1 \<Longrightarrow> quiet s1 s2 \<Longrightarrow> quiet s s2"
  by (auto simp: quiet_def)

lemma sync_reaches_quiet: "sync_reaches edges start dst (snd s) = Some (b, w1) \<Longrightarrow> quiet s (fst s, w1)"
  using sync_reaches_result [of "snd s" edges start dst]
  by (auto simp: quiet_def cycle_reported_def finding_ids_def)

lemma add_sync_finding_quiet:
  "identifier \<noteq> ''P101-SYNC-001'' \<Longrightarrow> add_sync_finding s identifier n src dst = Some (True, s1) \<Longrightarrow> quiet s s1"
  by (drule add_sync_finding_ids) (auto simp: quiet_def cycle_reported_def)

lemma add_sync_findings_quiet:
  "identifier \<noteq> ''P101-SYNC-001'' \<Longrightarrow> add_sync_findings identifier n ps s = Some (True, s1) \<Longrightarrow> quiet s s1"
proof (induction ps arbitrary: s)
  case (Cons p ps)
  obtain src dst where p: "p = (src, dst)" by (cases p)
  from Cons.prems(2) obtain s2 where "add_sync_finding s identifier n src dst = Some (True, s2)"
    "add_sync_findings identifier n ps s2 = Some (True, s1)"
    by (auto simp: p split: option.splits bool.splits)
  with Cons.IH [of s2] Cons.prems(1) add_sync_finding_quiet show ?case by (blast intro: quiet_trans)
qed simp

lemma while_holding_quiet:
  "identifier \<noteq> ''P101-SYNC-001'' \<Longrightarrow> while_holding identifier d n thread resource s = Some (True, s1) \<Longrightarrow> quiet s s1"
  by (auto simp: while_holding_def dest: add_sync_finding_quiet split: option.splits)

lemma deadlock_of_quiet: "deadlock_of edges x es s = Some (True, s1) \<Longrightarrow> quiet s s1"
proof (induction es arbitrary: s)
  case (Cons e es)
  show ?case
  proof (cases "se_from e = si_thread x")
    case False
    with Cons show ?thesis by simp
  next
    case True
    with Cons.prems obtain cycle w1 where r: "sync_reaches edges (se_to e) (si_thread x) (snd s) = Some (cycle, w1)"
      "(if cycle then add_sync_finding (fst s, w1) ''P101-SYNC-002'' (si_node x) (si_thread x) (se_to e)
        else deadlock_of edges x es (fst s, w1)) = Some (True, s1)"
      by (auto split: option.splits)
    have "quiet (fst s, w1) s1"
      using r(2) Cons.IH [of "(fst s, w1)"] add_sync_finding_quiet [of "''P101-SYNC-002''" "(fst s, w1)"]
      by (auto split: if_splits)
    with sync_reaches_quiet [OF r(1)] show ?thesis by (rule quiet_trans)
  qed
qed simp

lemma check_wait_quiet:
  assumes "check_wait joins waits x s = Some (True, s1)"
  shows "quiet s s1"
proof (cases "si_join x")
  case False
  with assms deadlock_of_quiet show ?thesis by (auto simp: check_wait_def)
next
  case True
  with assms obtain cycle w1 where r: "sync_reaches joins (si_target x) (si_thread x) (snd s) = Some (cycle, w1)"
    "(if cycle then add_sync_finding (fst s, w1) ''P101-SYNC-003'' (si_node x) (si_thread x) (si_target x)
      else Some (True, fst s, w1)) = Some (True, s1)"
    by (auto simp: check_wait_def split: option.splits)
  have "quiet (fst s, w1) s1"
    using r(2) add_sync_finding_quiet [of "''P101-SYNC-003''" "(fst s, w1)"] by (auto split: if_splits)
  with sync_reaches_quiet [OF r(1)] show ?thesis by (rule quiet_trans)
qed

lemma check_waits_quiet: "check_waits joins waits xs s = Some (True, s1) \<Longrightarrow> quiet s s1"
proof (induction xs arbitrary: s)
  case (Cons x xs)
  from Cons.prems obtain s2 where "check_wait joins waits x s = Some (True, s2)"
    "check_waits joins waits xs s2 = Some (True, s1)" by (auto split: option.splits bool.splits)
  with Cons.IH check_wait_quiet show ?case by (blast intro: quiet_trans)
qed simp

text \<open>A cycle of locks has been reported exactly when the graph so far has one.\<close>

definition cycles_known :: "sync_edge list \<Rightarrow> analysis_state \<Rightarrow> bool" where
  "cycles_known edges s \<longleftrightarrow> ample (snd s) \<and> (cycle_reported s \<longleftrightarrow> \<not> acyclic (edge_set edges))"

lemma cycles_known_quiet: "quiet s s1 \<Longrightarrow> cycles_known edges s \<Longrightarrow> cycles_known edges s1"
  by (simp add: quiet_def cycles_known_def)

lemma order_locks_known:
  assumes "order_locks capacity n thread resource hs edges s = Some (True, edges1, s1)"
    and "cycles_known edges s"
  shows "cycles_known edges1 s1 \<and> ordered_nodes (fst s1) = ordered_nodes (fst s) \<and>
    edge_set edges1 = edge_set edges \<union>
    {(h, resource) | h. (thread, h) \<in> set (held_locks hs) \<and> h \<noteq> resource}"
  using assms
proof (induction hs arbitrary: edges s)
  case Nil
  then show ?case by (simp add: held_locks_def)
next
  case (Cons h hs)
  show ?case
  proof (cases "si_active h \<and> si_thread h = thread \<and> si_resource h \<noteq> resource")
    case False
    then have "{(h', resource) | h'. (thread, h') \<in> set (held_locks (h # hs)) \<and> h' \<noteq> resource} =
        {(h', resource) | h'. (thread, h') \<in> set (held_locks hs) \<and> h' \<noteq> resource}"
      by (auto simp: held_locks_def)
    moreover have "order_locks capacity n thread resource hs edges s = Some (True, edges1, s1)"
      using Cons.prems(1) unfolding order_locks.simps if_not_P [OF False] .
    ultimately show ?thesis using Cons.IH Cons.prems(2) by simp
  next
    case True
    let ?e = "\<lparr>se_from = si_resource h, se_to = resource\<rparr>"
    have amp: "ample (snd s)" using Cons.prems(2) by (simp add: cycles_known_def)
    from sync_reaches_result [OF amp] obtain w1 where r:
      "sync_reaches edges resource (si_resource h) (snd s) =
        Some ((resource, si_resource h) \<in> (edge_set edges)\<^sup>*, w1)" by blast
    let ?cycle = "(resource, si_resource h) \<in> (edge_set edges)\<^sup>*"
    from Cons.prems(1) True r obtain s2 where
      s2: "(if ?cycle then add_sync_finding (fst s, w1) ''P101-SYNC-001'' n (si_resource h) resource
          else Some (True, fst s, w1)) = Some (True, s2)"
      and rest: "order_locks capacity n thread resource hs (edges @ [?e]) s2 = Some (True, edges1, s1)"
      by (auto simp: store_def split: option.splits bool.splits if_splits)
    note q = sync_reaches_quiet [OF r]
    have acyclic: "acyclic (edge_set (edges @ [?e])) \<longleftrightarrow> acyclic (edge_set edges) \<and> \<not> ?cycle"
      by (simp add: acyclic_insert)
    have s2_ok: "ample (snd s2) \<and> (cycle_reported s2 \<longleftrightarrow> ?cycle \<or> cycle_reported s) \<and>
        ordered_nodes (fst s2) = ordered_nodes (fst s)"
    proof (cases ?cycle)
      case True
      with s2 add_sync_finding_ids [of "(fst s, w1)" "''P101-SYNC-001''" n "si_resource h" resource s2]
        q amp show ?thesis by (auto simp: cycle_reported_def quiet_def finding_ids_def)
    next
      case False
      with s2 q amp show ?thesis by (auto simp: quiet_def)
    qed
    then have "cycles_known (edges @ [?e]) s2"
      using Cons.prems(2) acyclic by (auto simp: cycles_known_def)
    from Cons.IH [OF rest this] have ih: "cycles_known edges1 s1"
      "ordered_nodes (fst s1) = ordered_nodes (fst s2)"
      "edge_set edges1 = edge_set (edges @ [?e]) \<union>
        {(h, resource) | h. (thread, h) \<in> set (held_locks hs) \<and> h \<noteq> resource}" by blast+
    have "{(h', resource) | h'. (thread, h') \<in> set (held_locks (h # hs)) \<and> h' \<noteq> resource} =
        insert (si_resource h, resource) {(h', resource) | h'. (thread, h') \<in> set (held_locks hs) \<and> h' \<noteq> resource}"
      using True by (auto simp: held_locks_def)
    with ih s2_ok show ?thesis by auto
  qed
qed

lemma with_findings_Some:
  "with_findings d r = Some (b, d1, s1) \<longleftrightarrow> d1 = d \<and> r = Some (b, s1)"
  by (cases r) (auto simp: with_findings_def)

lemma wait_begun_quiet:
  assumes "wait_begun capacity d n thread resource s = Some (True, d1, s1)"
  shows "quiet s s1 \<and> ss_held d1 = ss_held d \<and> ss_lock_edges d1 = ss_lock_edges d"
proof -
  let ?join = "mn_resource_class n = ''pthread-join-wait''"
  let ?waited = "format_sync_resource n (mn_related_id n)"
  let ?c = "\<not> ?join \<and> mn_resource_class n = ''pthread-condition-wait''"
  let ?ps = "map (\<lambda>_. (resource, ?waited))
      (filter (\<lambda>x. si_active x \<and> si_resource x = resource \<and> si_target x \<noteq> ?waited) (ss_waits d))"
  obtain s2 waits where first: "(if ?join then while_holding ''P101-SYNC-005'' d n thread resource s
      else Some (True, s)) = Some (True, s2)"
    and rest: "with_findings (d\<lparr>ss_waits := waits\<rparr>)
      (if ?c then add_sync_findings ''P101-SYNC-009'' n ?ps s2 else Some (True, s2)) = Some (True, d1, s1)"
    using assms unfolding wait_begun_def Let_def by (auto split: option.splits prod.splits bool.splits)
  have "quiet s s2"
  proof (cases ?join)
    case True
    with first have "while_holding ''P101-SYNC-005'' d n thread resource s = Some (True, s2)" by simp
    from while_holding_quiet [OF _ this] show ?thesis by simp
  qed (use first in simp)
  moreover have "quiet s2 s1"
  proof (cases ?c)
    case True
    with rest have "add_sync_findings ''P101-SYNC-009'' n ?ps s2 = Some (True, s1)"
      by (simp add: with_findings_Some)
    from add_sync_findings_quiet [OF _ this] show ?thesis by simp
  next
    case False
    with rest show ?thesis unfolding if_not_P [OF False] with_findings_Some by simp
  qed
  ultimately show ?thesis using rest unfolding with_findings_Some by (auto intro: quiet_trans)
qed

lemma sync_record_other:
  assumes "\<not> held_class (mn_resource_class n)" and "sync_record capacity d n s = Some (True, d1, s1)"
  shows "quiet s s1 \<and> ss_held d1 = ss_held d \<and> ss_lock_edges d1 = ss_lock_edges d"
proof -
  let ?t = "format_sync_thread n" and ?r = "format_sync_resource n (mn_resource_id n)"
  have "mutex_destroyed d n ?r s = Some (True, d1, s1) \<Longrightarrow> quiet s s1 \<and> d1 = d"
    unfolding mutex_destroyed_def with_findings_Some
    by (elim conjE) (drule add_sync_findings_quiet [rotated]; simp)
  moreover have "terminal_attempt d n ?r s = Some (True, d1, s1) \<Longrightarrow> quiet s s1 \<and> d1 = d"
    unfolding terminal_attempt_def with_findings_Some
    by (elim conjE) (drule add_sync_findings_quiet [rotated]; simp)
  moreover have "with_findings d (while_holding ''P101-SYNC-010'' d n ?t ?r s) = Some (True, d1, s1) \<Longrightarrow>
      quiet s s1 \<and> d1 = d"
    unfolding with_findings_Some by (elim conjE) (drule while_holding_quiet [rotated]; simp)
  ultimately show ?thesis
    using assms wait_begun_quiet [of capacity d n ?t ?r s d1 s1]
    unfolding sync_record_def Let_def by (auto split: if_splits)
qed

lemma lock_class:
  "held_class c \<Longrightarrow> c \<notin> {''pthread-mutex'', ''pthread-terminal-attempt'', ''pthread-joinable-thread'',
     ''blocking-operation''}"
  by (auto simp: held_class_def)

definition lock_step :: "model_node \<Rightarrow> (string \<times> string) list \<Rightarrow> (string \<times> string) list" where
  "lock_step n hs = (if acquires_lock n then hs @ [lock_of n]
     else if releases_lock n then remove_last (lock_of n) hs else hs)"

definition new_orders :: "model_node \<Rightarrow> (string \<times> string) list \<Rightarrow> (string \<times> string) set" where
  "new_orders n hs = (if acquires_lock n
     then {(h, snd (lock_of n)) | h. (fst (lock_of n), h) \<in> set hs \<and> h \<noteq> snd (lock_of n)} else {})"

lemma lock_graph_Cons: "lock_graph hs (n # ns) = new_orders n hs \<union> lock_graph (lock_step n hs) ns"
  by (simp add: new_orders_def lock_step_def)

lemma sync_record_known:
  assumes "is_sync_node n" and "sync_record capacity d n s = Some (True, d1, s1)"
    and "cycles_known (ss_lock_edges d) s"
  shows "cycles_known (ss_lock_edges d1) s1 \<and> ordered_nodes (fst s1) = ordered_nodes (fst s) \<and>
    edge_set (ss_lock_edges d1) = edge_set (ss_lock_edges d) \<union> new_orders n (held_locks (ss_held d)) \<and>
    held_locks (ss_held d1) = lock_step n (held_locks (ss_held d))"
proof (cases "held_class (mn_resource_class n)")
  case False
  with sync_record_other [OF False assms(2)] assms(3) cycles_known_quiet show ?thesis
    by (auto simp: lock_step_def new_orders_def acquires_lock_def releases_lock_def quiet_def cycles_known_def)
next
  case True
  let ?t = "format_sync_thread n" and ?r = "format_sync_resource n (mn_resource_id n)"
  have run: "sync_record capacity d n s =
      (if mn_resource_kind n = RESOURCE_ACQUIRE then lock_acquired capacity d n ?t ?r s
       else if mn_resource_kind n = RESOURCE_RELEASE then lock_released d n ?t ?r s
       else Some (True, d, s))"
    using lock_class [OF True] True by (simp add: sync_record_def)
  have locks: "acquires_lock n \<longleftrightarrow> mn_resource_kind n = RESOURCE_ACQUIRE"
    "releases_lock n \<longleftrightarrow> mn_resource_kind n = RESOURCE_RELEASE" "lock_of n = (?t, ?r)"
    using assms(1) True by (simp_all add: acquires_lock_def releases_lock_def lock_of_def)
  consider (acquire) "mn_resource_kind n = RESOURCE_ACQUIRE" | (release) "mn_resource_kind n = RESOURCE_RELEASE"
    | (other) "mn_resource_kind n \<noteq> RESOURCE_ACQUIRE" "mn_resource_kind n \<noteq> RESOURCE_RELEASE" by blast
  then show ?thesis
  proof cases
    case acquire
    with assms(2) run obtain edges where o: "order_locks capacity n ?t ?r (ss_held d) (ss_lock_edges d) s =
        Some (True, edges, s1)"
      and d1: "d1 = d\<lparr>ss_lock_edges := edges, ss_held := ss_held d @ [sync_item_of False n ?t ?r []]\<rparr>"
      by (auto simp: lock_acquired_def store_def split: option.splits bool.splits if_splits)
    from order_locks_known [OF o assms(3)] acquire show ?thesis
      by (simp add: d1 locks new_orders_def lock_step_def held_locks_def sync_item_of_def)
  next
    case release
    with assms(2) run obtain s2 where s2: "s1 = s2"
      "d1 = d\<lparr>ss_held := deactivate (ss_held d) ?t ?r\<rparr>" "quiet s s2"
      using add_sync_finding_quiet [of "''P101-SYNC-004''" s n]
      by (auto simp: lock_released_def split: option.splits bool.splits if_splits)
    with assms(3) cycles_known_quiet release show ?thesis
      by (auto simp: locks new_orders_def lock_step_def held_locks_deactivate quiet_def cycles_known_def)
  next
    case other
    with assms run show ?thesis by (simp add: locks new_orders_def lock_step_def)
  qed
qed

lemma sync_from_known:
  assumes "sync_from capacity ns d s = Some (True, d1, s1)" and "cycles_known (ss_lock_edges d) s"
  shows "cycles_known (ss_lock_edges d1) s1 \<and> ordered_nodes (fst s1) = ordered_nodes (fst s) \<and>
    edge_set (ss_lock_edges d1) = edge_set (ss_lock_edges d) \<union> lock_graph (held_locks (ss_held d)) ns"
  using assms
proof (induction ns arbitrary: d s)
  case (Cons n ns)
  show ?case
  proof (cases "is_sync_node n")
    case False
    then have "lock_step n hs = hs" "new_orders n hs = {}" for hs
      by (simp_all add: lock_step_def new_orders_def acquires_lock_def releases_lock_def)
    with False Cons show ?thesis by (simp add: lock_graph_Cons del: lock_graph.simps)
  next
    case True
    let ?s = "((fst s)\<lparr>an_synchronization_records := an_synchronization_records (fst s) + 1\<rparr>, snd s)"
    have known: "cycles_known (ss_lock_edges d) ?s" and nodes: "ordered_nodes (fst ?s) = ordered_nodes (fst s)"
      using Cons.prems(2) by (simp_all add: cycles_known_def cycle_reported_def finding_ids_def ordered_nodes_def)
    from Cons.prems(1) True obtain d2 s2 where step: "sync_record capacity d n ?s = Some (True, d2, s2)"
      "sync_from capacity ns d2 s2 = Some (True, d1, s1)"
      by (auto split: option.splits bool.splits)
    note r = sync_record_known [OF True step(1) known]
    from Cons.IH [OF step(2)] r nodes show ?thesis
      by (simp add: lock_graph_Cons Un_assoc del: lock_graph.simps)
  qed
qed simp

lemma analyze_synchronization_known:
  assumes "analyze_synchronization (a, w) = Some (True, a1, w1)" and "ample w"
    and "''P101-SYNC-001'' \<notin> of_diagnostic_id ` set (an_findings a)"
  shows "''P101-SYNC-001'' \<in> of_diagnostic_id ` set (an_findings a1) \<longleftrightarrow>
    \<not> acyclic (lock_graph [] (ordered_nodes a))"
proof -
  let ?d = "\<lparr>ss_held = [], ss_waits = [], ss_terminated = [], ss_lock_edges = []\<rparr>"
  let ?cap = "if ordered_nodes a = [] then 1 else length (ordered_nodes a)"
  obtain granted w2 where req: "requests 6 w = (granted, w2)" by (rule prod.exhaust)
  have amp: "ample w2" using requests_ample [OF assms(2), of 6] req by auto
  from assms(1) req obtain d s2 joins waits a2 where run:
    "sync_from ?cap (ordered_nodes a) ?d (a, w2) = Some (True, d, s2)"
    "check_waits joins waits (filter si_active (ss_waits d)) s2 = Some (True, a2, w1)"
    "a1 = a2\<lparr>an_lock_order_edges := length (ss_lock_edges d)\<rparr>"
    unfolding analyze_synchronization_def Let_def
    by (auto split: option.splits prod.splits bool.splits if_splits)
  have "cycles_known (ss_lock_edges ?d) (a, w2)"
    using amp assms(3) by (simp add: cycles_known_def cycle_reported_def finding_ids_def acyclic_def)
  from sync_from_known [OF run(1) this] have r: "cycles_known (ss_lock_edges d) s2"
    "edge_set (ss_lock_edges d) = lock_graph [] (ordered_nodes a)" by (simp_all add: held_locks_def)
  from cycles_known_quiet [OF check_waits_quiet [OF run(2)] r(1)] r(2) show ?thesis
    by (simp add: cycles_known_def cycle_reported_def finding_ids_def run(3))
qed

subsection \<open>Nested locks\<close>

lemma no_way_out: "r \<notin> fst ` E \<Longrightarrow> (r, h) \<in> E\<^sup>* \<longleftrightarrow> r = h"
  by (metis converse_rtranclE fst_conv image_eqI rtrancl.rtrancl_refl)

lemma order_locks_fresh:
  assumes "\<forall>h \<in> set hs. si_active h \<and> si_thread h = t \<and> si_resource h \<noteq> r"
    and "r \<notin> fst ` edge_set edges" and "ample (snd s)"
  shows "if hs = [] \<or> length edges + length hs \<le> capacity
    then \<exists>w1. ample w1 \<and> order_locks capacity n t r hs edges s =
      Some (True, edges @ map (\<lambda>h. \<lparr>se_from = si_resource h, se_to = r\<rparr>) hs, fst s, w1)
    else order_locks capacity n t r hs edges s = None"
  using assms
proof (induction hs arbitrary: edges s)
  case Nil
  then show ?case by (cases s) simp
next
  case (Cons h hs)
  let ?e = "\<lparr>se_from = si_resource h, se_to = r\<rparr>"
  have "(r, si_resource h) \<notin> (edge_set edges)\<^sup>*"
    using Cons.prems(1) no_way_out [OF Cons.prems(2)] by auto
  with sync_reaches_result [OF Cons.prems(3), of edges r "si_resource h"] obtain w1 where r:
    "sync_reaches edges r (si_resource h) (snd s) = Some (False, w1)" "ample w1" by auto
  have step: "order_locks capacity n t r (h # hs) edges s =
      (case store capacity edges ?e of None \<Rightarrow> None
       | Some edges1 \<Rightarrow> order_locks capacity n t r hs edges1 (fst s, w1))"
    using Cons.prems(1) r(1) by simp
  show ?case
  proof (cases "length edges < capacity")
    case False
    then show ?thesis unfolding step by (simp add: store_def)
  next
    case True
    have "r \<notin> fst ` edge_set (edges @ [?e])" using Cons.prems(1,2) by auto
    from Cons.IH [OF _ this, of "(fst s, w1)"] Cons.prems(1) r(2) True show ?thesis
      unfolding step by (cases "hs = []") (auto simp: store_def split: if_splits)
  qed
qed

definition nested :: "string \<Rightarrow> sync_state \<Rightarrow> model_node list \<Rightarrow> bool" where
  "nested t d ns \<longleftrightarrow>
     (\<forall>h \<in> set (ss_held d). si_active h \<and> si_thread h = t) \<and>
     (\<forall>n \<in> set ns. acquires_lock n \<and> fst (lock_of n) = t) \<and>
     distinct (map si_resource (ss_held d) @ map (\<lambda>n. snd (lock_of n)) ns) \<and>
     fst ` edge_set (ss_lock_edges d) \<subseteq> si_resource ` set (ss_held d)"

lemma nested_step:
  assumes "nested t d (n # ns)" and "ample (snd s)" and "length (ss_held d) < capacity"
    and "length (ss_lock_edges d) \<le> capacity"
  shows "if length (ss_lock_edges d) + length (ss_held d) \<le> capacity
    then \<exists>d1 s1. sync_from capacity (n # ns) d s = sync_from capacity ns d1 s1 \<and> nested t d1 ns \<and>
      ample (snd s1) \<and> length (ss_held d1) = Suc (length (ss_held d)) \<and> ss_waits d1 = ss_waits d \<and>
      length (ss_lock_edges d1) = length (ss_lock_edges d) + length (ss_held d)
    else sync_from capacity (n # ns) d s = None"
proof -
  let ?s = "((fst s)\<lparr>an_synchronization_records := an_synchronization_records (fst s) + 1\<rparr>, snd s)"
  let ?r = "format_sync_resource n (mn_resource_id n)"
  have n: "is_sync_node n" "held_class (mn_resource_class n)" "mn_resource_kind n = RESOURCE_ACQUIRE"
    "format_sync_thread n = t" "lock_of n = (t, ?r)"
    using assms(1) by (auto simp: nested_def acquires_lock_def lock_of_def)
  have run: "sync_record capacity d n ?s = lock_acquired capacity d n t ?r ?s"
    using lock_class [OF n(2)] n by (simp add: sync_record_def)
  have fresh: "\<forall>h \<in> set (ss_held d). si_active h \<and> si_thread h = t \<and> si_resource h \<noteq> ?r"
    "?r \<notin> fst ` edge_set (ss_lock_edges d)"
  proof -
    have "?r \<notin> si_resource ` set (ss_held d)" using assms(1) n(5) by (auto simp: nested_def)
    with assms(1) show "\<forall>h \<in> set (ss_held d). si_active h \<and> si_thread h = t \<and> si_resource h \<noteq> ?r"
      "?r \<notin> fst ` edge_set (ss_lock_edges d)"
      unfolding nested_def by (metis image_eqI, blast)
  qed
  have amp: "ample (snd ?s)" using assms(2) by simp
  note o = order_locks_fresh [OF fresh amp, of capacity n]
  show ?thesis
  proof (cases "length (ss_lock_edges d) + length (ss_held d) \<le> capacity")
    case False
    with assms(4) have "ss_held d \<noteq> []" by auto
    with o False have "order_locks capacity n t ?r (ss_held d) (ss_lock_edges d) ?s = None" by simp
    with False n(1) run show ?thesis by (simp add: lock_acquired_def)
  next
    case True
    let ?new = "map (\<lambda>h. \<lparr>se_from = si_resource h, se_to = ?r\<rparr>) (ss_held d)"
    from o True obtain w1 where w1: "ample w1"
      "order_locks capacity n t ?r (ss_held d) (ss_lock_edges d) ?s =
        Some (True, ss_lock_edges d @ ?new, fst ?s, w1)" by auto
    let ?d = "d\<lparr>ss_lock_edges := ss_lock_edges d @ ?new,
        ss_held := ss_held d @ [sync_item_of False n t ?r []]\<rparr>"
    have "sync_from capacity (n # ns) d s = sync_from capacity ns ?d (fst ?s, w1)"
      using n(1) run w1(2) assms(3) by (simp add: lock_acquired_def store_def)
    moreover have "nested t ?d ns"
    proof -
      have "fst ` edge_set ?new \<subseteq> si_resource ` set (ss_held d)" by (auto simp: edge_set_def)
      with assms(1) n(5) show ?thesis by (auto simp: nested_def sync_item_of_def)
    qed
    ultimately show ?thesis using True w1(1)
      by (simp del: sync_from.simps) (intro exI [of _ ?d] exI [of _ "fst ?s"] exI [of _ w1], simp)
  qed
qed

lemma nested_locks:
  assumes "nested t d ns" and "ample (snd s)" and "length (ss_held d) + length ns \<le> capacity"
    and "length (ss_lock_edges d) \<le> capacity"
  defines "edge_total \<equiv> length (ss_lock_edges d) + (\<Sum>i<length ns. length (ss_held d) + i)"
  shows "if edge_total \<le> capacity
    then \<exists>d1 s1. sync_from capacity ns d s = Some (True, d1, s1) \<and> ss_waits d1 = ss_waits d
    else sync_from capacity ns d s = None"
  using assms(1-4) unfolding edge_total_def
proof (induction ns arbitrary: d s)
  case Nil
  then show ?case by (cases s) simp
next
  case (Cons n ns)
  let ?k = "length (ss_held d)" and ?m = "length (ss_lock_edges d)"
  have sum: "(\<Sum>i<length (n # ns). ?k + i) = ?k + (\<Sum>i<length ns. Suc ?k + i)"
    by (simp add: sum.lessThan_Suc_shift del: sum.lessThan_Suc)
  have "?k < capacity" using Cons.prems(3) by simp
  note step = nested_step [OF Cons.prems(1,2) this Cons.prems(4)]
  show ?case
  proof (cases "?m + ?k \<le> capacity")
    case False
    with step sum show ?thesis by simp
  next
    case True
    with step obtain d1 s1 where d1: "sync_from capacity (n # ns) d s = sync_from capacity ns d1 s1"
      "nested t d1 ns" "ample (snd s1)" "length (ss_held d1) = Suc ?k" "ss_waits d1 = ss_waits d"
      "length (ss_lock_edges d1) = ?m + ?k" by (auto simp del: sync_from.simps)
    have "if length (ss_lock_edges d1) + (\<Sum>i<length ns. length (ss_held d1) + i) \<le> capacity
        then \<exists>d2 s2. sync_from capacity ns d1 s1 = Some (True, d2, s2) \<and> ss_waits d2 = ss_waits d1
        else sync_from capacity ns d1 s1 = None"
      by (rule Cons.IH [OF d1(2,3)]) (use Cons.prems(3) True d1(4,6) in simp_all)
    then show ?thesis unfolding sum d1(1) d1(4-6) add.assoc .
  qed
qed

text \<open>The policy passes over every node that is no synchronization node; they only make its arrays
  longer.\<close>

lemma sync_from_filter: "sync_from capacity ns d s = sync_from capacity (filter is_sync_node ns) d s"
  by (induction ns arbitrary: d s) (auto split: option.split prod.split bool.split)

lemma nested_locks_run:
  assumes "\<forall>n \<in> set (filter is_sync_node (ordered_nodes a)). acquires_lock n \<and> fst (lock_of n) = t"
    and "distinct (map (\<lambda>n. snd (lock_of n)) (filter is_sync_node (ordered_nodes a)))" and "ample w"
  shows "analyze_synchronization (a, w) = None \<longleftrightarrow>
    length (ordered_nodes a) < (\<Sum>i<length (filter is_sync_node (ordered_nodes a)). i)"
proof -
  let ?ns = "ordered_nodes a"
  let ?ls = "filter is_sync_node ?ns"
  let ?cap = "if ?ns = [] then 1 else length ?ns"
  let ?d = "\<lparr>ss_held = [], ss_waits = [], ss_terminated = [], ss_lock_edges = []\<rparr>"
  let ?fits = "(\<Sum>i<length ?ls. i) \<le> length ?ns"
  from requests_ample [OF assms(3), of 6] obtain w1 where req:
    "requests 6 w = (replicate 6 True, w1)" "ample w1" by blast
  have granted: "list_all (\<lambda>b. b) (replicate 6 True)" by (simp add: list_all_iff)
  have nest: "nested t ?d ?ls" using assms(1,2) by (simp add: nested_def)
  have small: "0 + (\<Sum>i<length ?ls. 0 + i) \<le> ?cap \<longleftrightarrow> ?fits" by simp
  have run: "if ?fits
      then \<exists>d1 s1. sync_from ?cap ?ns ?d (a, w1) = Some (True, d1, s1) \<and> ss_waits d1 = []
      else sync_from ?cap ?ns ?d (a, w1) = None"
  proof -
    have amp: "ample (snd (a, w1))" and cap: "length (ss_held ?d) + length ?ls \<le> ?cap"
      "length (ss_lock_edges ?d) \<le> ?cap" using req(2) by (simp_all add: le_SucI)
    have lens: "length (ss_held ?d) = 0" "length (ss_lock_edges ?d) = 0" "ss_waits ?d = []" by simp_all
    show ?thesis
      using nested_locks [OF nest amp cap]
      unfolding lens small sync_from_filter [of ?cap ?ns, symmetric] .
  qed
  show ?thesis
  proof (cases ?fits)
    case False
    with run have "sync_from ?cap ?ns ?d (a, w1) = None" by simp
    with req(1) granted False show ?thesis by (simp add: analyze_synchronization_def Let_def)
  next
    case True
    with run obtain d1 a1 w2 where "sync_from ?cap ?ns ?d (a, w1) = Some (True, d1, a1, w2)"
      "ss_waits d1 = []" by auto
    then have "analyze_synchronization (a, w) =
        Some (True, a1\<lparr>an_lock_order_edges := length (ss_lock_edges d1)\<rparr>, w2)"
      using req(1) granted by (simp add: analyze_synchronization_def Let_def)
    with True show ?thesis by simp
  qed
qed

end
