(* ===== verification/Analysis_Run.thy ===== *)
theory Analysis_Run
  imports Analysis_Sync Analysis_Trace Model_Input
begin

section \<open>The sanitizer policy and the whole analysis (src/analysis.c)\<close>

text \<open>
  The report of the sanitizers is a file, modelled as in Model\_Input by what \<open>fopen\<close> gives.
  \<open>getline\<close> delivers the lines with their newlines; a line that a read error cuts off is not
  delivered, and its own memory is taken to be available. \<open>strstr\<close> sees a line up to its first
  NUL. \<open>analysis_run\<close> composes the policies; \<open>None\<close> is the undefined behaviour of
  Analysis\_Sync.
\<close>

subsection \<open>Lines and texts\<close>

text \<open>The first line with its newline, and the rest.\<close>

fun next_line :: "string \<Rightarrow> string \<times> string" where
  "next_line [] = ([], [])"
| "next_line (c # cs) = (if c = NL then ([c], cs) else (case next_line cs of (l, rest) \<Rightarrow> (c # l, rest)))"

lemma next_line_shorter: "next_line (c # cs) = (l, rest) \<Longrightarrow> length rest < length (c # cs)"
proof -
  have "length (snd (next_line xs)) \<le> length xs - (if xs = [] then 0 else 1)" for xs
    by (induction xs) (auto split: prod.splits)
  from this [of "c # cs"] show "next_line (c # cs) = (l, rest) \<Longrightarrow> length rest < length (c # cs)" by simp
qed

fun strstr :: "string \<Rightarrow> string \<Rightarrow> string option" where
  "strstr [] p = (if p = [] then Some [] else None)"
| "strstr (c # cs) p = (if take (length p) (c # cs) = p then Some (c # cs) else strstr cs p)"

definition sanitizer_marks :: "(string \<times> string \<times> string) list" where
  "sanitizer_marks = [
     (''AddressSanitizer:'', ''P101-SAN-001'', ''AddressSanitizer reported an invalid memory access''),
     (''LeakSanitizer:'', ''P101-SAN-002'', ''LeakSanitizer reported leaked memory''),
     (''runtime error:'', ''P101-SAN-003'', ''UndefinedBehaviorSanitizer reported undefined behavior''),
     (''ThreadSanitizer:'', ''P101-SAN-004'', ''ThreadSanitizer reported a data race or synchronization defect'')]"

text \<open>The first mark that the line holds: its index, identifier and message, and the line from there.\<close>

fun find_mark ::
  "nat \<Rightarrow> (string \<times> string \<times> string) list \<Rightarrow> string \<Rightarrow> (nat \<times> string \<times> string \<times> string) option" where
  "find_mark i [] line = None"
| "find_mark i ((p, identifier, message) # ms) line =
     (case strstr line p of
        Some detail \<Rightarrow> Some (i, identifier, message, detail)
      | None \<Rightarrow> find_mark (Suc i) ms line)"

definition c_string :: "string \<Rightarrow> string" where
  "c_string t = takeWhile (\<lambda>c. c \<noteq> CHR 0x00) t"

text \<open>\<open>(int)\<close> of a line number.\<close>

definition int_of_size :: "nat \<Rightarrow> int" where
  "int_of_size n = (int n + 2 ^ 31) mod 2 ^ 32 - 2 ^ 31"

definition synthetic_node :: "nat \<Rightarrow> model_node" where
  "synthetic_node line_number = \<lparr>mn_domain = NODE_RESOURCE, mn_record_kind = RECORD_FD,
     mn_call_kind = CALL_ENTER, mn_fd_kind = FD_OPEN, mn_alloc_kind = ALLOC_ALLOC,
     mn_resource_kind = RESOURCE_ACQUIRE, mn_pid = 0, mn_child_pid = 0, mn_context_id = 0,
     mn_sequence = line_number, mn_monotonic_ns = 0, mn_wall_unix_ns = 0,
     mn_monotonic_ns_available = False, mn_wall_unix_ns_available = False, mn_fd = 0,
     mn_cloexec = False, mn_size = 0, mn_line_number = int_of_size line_number,
     mn_run_id = ''stderr'', mn_function_name = ''?'', mn_file_name = ''stderr.txt'',
     mn_call_name = [], mn_arguments = [], mn_result = [], mn_ptr = [], mn_new_ptr = [],
     mn_target = [], mn_resource_class = [], mn_resource_id = [], mn_related_id = [],
     mn_metadata = []\<rparr>"

subsection \<open>The sanitizer policy\<close>

definition sanitizer_line :: "nat \<Rightarrow> string \<Rightarrow> analysis_state \<Rightarrow> bool \<times> analysis_state" where
  "sanitizer_line line_number line s =
     (let s1 = ((fst s)\<lparr>an_sanitizer_records := an_sanitizer_records (fst s) + 1\<rparr>, snd s) in
      case find_mark 0 sanitizer_marks (c_string line) of
        None \<Rightarrow> (True, s1)
      | Some (i, identifier, message, detail) \<Rightarrow>
          (case add_analysis_finding s1 identifier POLICY_SANITIZER message
                  (Some (synthetic_node line_number)) None None (Some detail) of
             (False, s2) \<Rightarrow> (False, s2)
           | (True, a, w) \<Rightarrow>
               (True, a\<lparr>an_sanitizer_counts := (an_sanitizer_counts a)[i := an_sanitizer_counts a ! i + 1]\<rparr>, w)))"

function sanitizer_lines ::
  "stream_end \<Rightarrow> nat \<Rightarrow> string \<Rightarrow> analysis_state \<Rightarrow> bool \<times> analysis_state" where
  "sanitizer_lines e line_number [] s = (True, s)"
| "sanitizer_lines e line_number (c # cs) s =
     (case next_line (c # cs) of
        (line, rest) \<Rightarrow>
          if last line \<noteq> NL \<and> e \<noteq> At_EOF then (True, s)
          else
            (case sanitizer_line (Suc line_number) line s of
               (False, s1) \<Rightarrow> (False, s1)
             | (True, s1) \<Rightarrow> sanitizer_lines e (Suc line_number) rest s1))"
  by pat_completeness auto
termination
  by (relation "measure (\<lambda>(e, n, bytes, s). length bytes)")
    (auto dest: next_line_shorter [OF sym] simp del: next_line.simps)

definition analyze_sanitizer ::
  "analysis_state \<Rightarrow> (errno + opened_file) option \<Rightarrow> bool \<times> analysis_state" where
  "analyze_sanitizer s path =
     (case path of
        None \<Rightarrow> (True, s)
      | Some (Inl e) \<Rightarrow> (False, (fst s)\<lparr>an_trouble := True\<rparr>, raise_errno e (snd s))
      | Some (Inr f) \<Rightarrow>
          (case sanitizer_lines (st_end (of_stream f)) 0 (st_bytes (of_stream f)) s of
             (b, a, w) \<Rightarrow>
               let failed = (b \<and> st_end (of_stream f) \<noteq> At_EOF);
                  w1 = (if failed then raise_errno
                     (case st_end (of_stream f) of Read_Error (Some e) \<Rightarrow> e | _ \<Rightarrow> EIO) w else w);
                  b1 = (b \<and> \<not> failed) in
               (case of_close f of
                  Some e \<Rightarrow> if b1 then (False, a, raise_errno e w1) else (b1, a, w1)
                | None \<Rightarrow> (b1, a, w1))))"

subsection \<open>The run\<close>

definition and_then ::
  "(bool \<times> analysis_state) option \<Rightarrow> (analysis_state \<Rightarrow> (bool \<times> analysis_state) option) \<Rightarrow>
   (bool \<times> analysis_state) option" where
  "and_then r f = (case r of None \<Rightarrow> None | Some (b, s) \<Rightarrow> if b then f s else Some (False, s))"

definition analysis_run ::
  "tool_analysis option \<times> world \<Rightarrow> (errno + opened_file) option \<Rightarrow>
   (bool \<times> tool_analysis option \<times> world) option" where
  "analysis_run s path =
     (case s of
        (None, w) \<Rightarrow> Some (False, None, raise_errno EINVAL w)
      | (Some a, w) \<Rightarrow>
          if an_ordered a \<noteq> None then Some (False, Some a, raise_errno EINVAL w)
          else
            map_option (\<lambda>(b, a1, w1). (b, Some a1, w1))
              (and_then (and_then (and_then (and_then (build_causal_order (a, w))
                 (\<lambda>s. Some (analyze_resources s))) analyze_synchronization) analyze_trace)
                 (\<lambda>s. Some (analyze_sanitizer s path))))"

end
