(* ===== verification/Analysis_Run_Facts.thy ===== *)
theory Analysis_Run_Facts
  imports Analysis_Run Analysis_Sync_Facts Analysis_Trace_Facts
begin

section \<open>Facts about the run of an analysis\<close>

text \<open>
  Every policy keeps the invariant \<open>kept\<close> of the findings and of the call tree, whatever it
  returns; the sanitizer policy against the list of the marked lines.
\<close>

subsection \<open>The invariant\<close>

lemma kept_same:
  assumes "kept a" and "same_findings b a" and "an_trace_tree b = an_trace_tree a"
    and "an_trace_tree_capacity b = an_trace_tree_capacity a"
  shows "kept b"
  using assms stored_same [OF assms(2)] tree_ok_same [OF assms(3,4)] by (simp add: kept_def)

lemma add_finding_kept:
  assumes "kept (fst s)" and "add_analysis_finding s identifier policy message n src dst detail = (b, s1)"
  shows "kept (fst s1)"
proof -
  obtain a w a1 w1 where s: "s = (a, w)" "s1 = (a1, w1)" by (metis surj_pair)
  have st: "stored a" using assms(1) by (simp add: kept_def s)
  have add: "add_analysis_finding (a, w) identifier policy message n src dst detail = (b, a1, w1)"
    using assms(2) s by simp
  note r = add_finding_step [OF st add]
  show ?thesis using assms(1) r(1) rest_same_trace [OF r(2)] tree_ok_same [of a1 a] by (simp add: kept_def s)
qed

lemma add_sync_finding_kept:
  "kept (fst s) \<Longrightarrow> add_sync_finding s identifier n src dst = Some (b, s1) \<Longrightarrow> kept (fst s1)"
  by (auto simp: add_sync_finding_def split: option.splits bool.splits dest: add_finding_kept)

lemma add_sync_findings_kept:
  "kept (fst s) \<Longrightarrow> add_sync_findings identifier n ps s = Some (b, s1) \<Longrightarrow> kept (fst s1)"
proof (induction ps arbitrary: s)
  case (Cons p ps)
  obtain src dst where p: "p = (src, dst)" by (cases p)
  from Cons.prems(2) obtain c s2 where c: "add_sync_finding s identifier n src dst = Some (c, s2)"
    "if c then add_sync_findings identifier n ps s2 = Some (b, s1) else s1 = s2"
    by (auto simp: p split: option.splits bool.splits)
  from Cons.IH add_sync_finding_kept [OF Cons.prems(1) c(1)] c(2) show ?case by (auto split: if_splits)
qed simp

lemma while_holding_kept:
  "kept (fst s) \<Longrightarrow> while_holding identifier d n thread resource s = Some (b, s1) \<Longrightarrow> kept (fst s1)"
  by (auto simp: while_holding_def dest: add_sync_finding_kept split: option.splits)

lemma order_locks_kept:
  "kept (fst s) \<Longrightarrow> order_locks capacity n thread resource hs edges s = Some (b, edges1, s1) \<Longrightarrow> kept (fst s1)"
proof (induction hs arbitrary: edges s)
  case (Cons h hs)
  show ?case
  proof (cases "si_active h \<and> si_thread h = thread \<and> si_resource h \<noteq> resource")
    case False
    have "order_locks capacity n thread resource hs edges s = Some (b, edges1, s1)"
      using Cons.prems(2) unfolding order_locks.simps if_not_P [OF False] .
    with Cons.IH Cons.prems(1) show ?thesis by blast
  next
    case True
    obtain cycle w1 where r: "sync_reaches edges resource (si_resource h) (snd s) = Some (cycle, w1)"
      using sync_reaches_total by blast
    let ?f = "if cycle then add_sync_finding (fst s, w1) ''P101-SYNC-001'' n (si_resource h) resource
      else Some (True, fst s, w1)"
    have "?f \<noteq> None"
    proof
      assume "?f = None"
      with Cons.prems(2) True r show False by simp
    qed
    then obtain c s2 where f: "?f = Some (c, s2)" by auto
    have k: "kept (fst s2)"
      using f Cons.prems(1) add_sync_finding_kept [of "(fst s, w1)"] by (auto split: if_splits)
    show ?thesis
    proof (cases c)
      case False
      with Cons.prems(2) True r f k show ?thesis by simp
    next
      case c: True
      with Cons.prems(2) True r f obtain edges2 where
        "order_locks capacity n thread resource hs edges2 s2 = Some (b, edges1, s1)"
        by (auto split: option.splits)
      with Cons.IH k show ?thesis by blast
    qed
  qed
qed simp

lemma lock_acquired_kept:
  "kept (fst s) \<Longrightarrow> lock_acquired capacity d n thread resource s = Some (b, d1, s1) \<Longrightarrow> kept (fst s1)"
  by (auto simp: lock_acquired_def dest: order_locks_kept split: option.splits bool.splits)

lemma lock_released_kept:
  "kept (fst s) \<Longrightarrow> lock_released d n thread resource s = Some (b, d1, s1) \<Longrightarrow> kept (fst s1)"
  by (auto simp: lock_released_def dest: add_sync_finding_kept split: option.splits bool.splits if_splits)

lemma wait_begun_kept:
  assumes "kept (fst s)" and "wait_begun capacity d n thread resource s = Some (b, d1, s1)"
  shows "kept (fst s1)"
proof -
  let ?join = "mn_resource_class n = ''pthread-join-wait''"
  let ?c = "\<not> ?join \<and> mn_resource_class n = ''pthread-condition-wait''"
  obtain c s2 where first: "(if ?join then while_holding ''P101-SYNC-005'' d n thread resource s
      else Some (True, s)) = Some (c, s2)"
    and rest: "s1 = s2 \<or> (\<exists>d2 ps. with_findings d2
      (if ?c then add_sync_findings ''P101-SYNC-009'' n ps s2 else Some (True, s2)) = Some (b, d1, s1))"
    using assms(2) unfolding wait_begun_def Let_def
    by (auto split: option.splits prod.splits bool.splits)
  have k2: "kept (fst s2)"
  proof (cases ?join)
    case True
    with first have "while_holding ''P101-SYNC-005'' d n thread resource s = Some (c, s2)" by simp
    from while_holding_kept [OF assms(1) this] show ?thesis .
  qed (use first assms(1) in simp)
  from rest show ?thesis
  proof
    assume "\<exists>d2 ps. with_findings d2
      (if ?c then add_sync_findings ''P101-SYNC-009'' n ps s2 else Some (True, s2)) = Some (b, d1, s1)"
    then obtain ps where "(if ?c then add_sync_findings ''P101-SYNC-009'' n ps s2 else Some (True, s2)) =
        Some (b, s1)" unfolding with_findings_Some by blast
    with k2 add_sync_findings_kept [OF k2] show ?thesis by (cases ?c) (simp_all only: if_True if_False, auto)
  qed (use k2 in simp)
qed

lemma sync_record_kept:
  assumes "kept (fst s)" and "sync_record capacity d n s = Some (b, d1, s1)"
  shows "kept (fst s1)"
proof -
  let ?t = "format_sync_thread n" and ?r = "format_sync_resource n (mn_resource_id n)"
  have "mutex_destroyed d n ?r s = Some (b, d1, s1) \<Longrightarrow> kept (fst s1)"
    unfolding mutex_destroyed_def with_findings_Some using add_sync_findings_kept [OF assms(1)] by blast
  moreover have "terminal_attempt d n ?r s = Some (b, d1, s1) \<Longrightarrow> kept (fst s1)"
    unfolding terminal_attempt_def with_findings_Some using add_sync_findings_kept [OF assms(1)] by blast
  moreover have "with_findings d (while_holding ''P101-SYNC-010'' d n ?t ?r s) = Some (b, d1, s1) \<Longrightarrow> kept (fst s1)"
    unfolding with_findings_Some using while_holding_kept [OF assms(1)] by blast
  ultimately show ?thesis
    using assms wait_begun_kept [OF assms(1), of capacity d n ?t ?r]
      lock_acquired_kept [OF assms(1), of capacity d n ?t ?r] lock_released_kept [OF assms(1), of d n ?t ?r]
    unfolding sync_record_def Let_def by (auto split: if_splits)
qed

lemma sync_from_kept:
  "kept (fst s) \<Longrightarrow> sync_from capacity ns d s = Some (b, d1, s1) \<Longrightarrow> kept (fst s1)"
proof (induction ns arbitrary: d s)
  case (Cons n ns)
  show ?case
  proof (cases "is_sync_node n")
    case False
    with Cons show ?thesis by simp
  next
    case True
    let ?s = "((fst s)\<lparr>an_synchronization_records := an_synchronization_records (fst s) + 1\<rparr>, snd s)"
    have "kept (fst ?s)" using Cons.prems(1) by (rule kept_same) (simp_all add: same_findings_def)
    moreover obtain c d2 s2 where r: "sync_record capacity d n ?s = Some (c, d2, s2)"
      "if c then sync_from capacity ns d2 s2 = Some (b, d1, s1) else s1 = s2"
      using Cons.prems(2) True by (auto split: option.splits bool.splits)
    ultimately have "kept (fst s2)" using sync_record_kept by blast
    with r(2) Cons.IH show ?thesis by (auto split: if_splits)
  qed
qed simp

lemma deadlock_of_kept: "kept (fst s) \<Longrightarrow> deadlock_of edges x es s = Some (b, s1) \<Longrightarrow> kept (fst s1)"
proof (induction es arbitrary: s)
  case (Cons e es)
  show ?case
  proof (cases "se_from e = si_thread x")
    case False
    with Cons show ?thesis by simp
  next
    case True
    with Cons.prems(2) obtain cycle w1 where
      "(if cycle then add_sync_finding (fst s, w1) ''P101-SYNC-002'' (si_node x) (si_thread x) (se_to e)
        else deadlock_of edges x es (fst s, w1)) = Some (b, s1)"
      by (auto split: option.splits)
    with Cons.IH [of "(fst s, w1)"] Cons.prems(1) add_sync_finding_kept [of "(fst s, w1)"] show ?thesis
      by (auto split: if_splits)
  qed
qed simp

lemma check_waits_kept: "kept (fst s) \<Longrightarrow> check_waits joins waits xs s = Some (b, s1) \<Longrightarrow> kept (fst s1)"
proof (induction xs arbitrary: s)
  case (Cons x xs)
  from Cons.prems(2) obtain c s2 where c: "check_wait joins waits x s = Some (c, s2)"
    "if c then check_waits joins waits xs s2 = Some (b, s1) else s1 = s2"
    by (auto split: option.splits bool.splits)
  have "kept (fst s2)"
  proof (cases "si_join x")
    case False
    with c(1) deadlock_of_kept [OF Cons.prems(1)] show ?thesis by (auto simp: check_wait_def)
  next
    case True
    with c(1) obtain cycle w1 where "(if cycle then add_sync_finding (fst s, w1) ''P101-SYNC-003''
        (si_node x) (si_thread x) (si_target x) else Some (True, fst s, w1)) = Some (c, s2)"
      by (auto simp: check_wait_def split: option.splits)
    with Cons.prems(1) add_sync_finding_kept [of "(fst s, w1)"] show ?thesis by (auto split: if_splits)
  qed
  with c(2) Cons.IH show ?case by (auto split: if_splits)
qed simp

lemma analyze_synchronization_kept:
  assumes "kept a" and "analyze_synchronization (a, w) = Some (b, a1, w1)"
  shows "kept a1"
proof -
  let ?d = "\<lparr>ss_held = [], ss_waits = [], ss_terminated = [], ss_lock_edges = []\<rparr>"
  let ?cap = "if ordered_nodes a = [] then 1 else length (ordered_nodes a)"
  obtain granted w2 where req: "requests 6 w = (granted, w2)" by (rule prod.exhaust)
  show ?thesis
  proof (cases "list_all (\<lambda>b. b) granted")
    case False
    with assms req show ?thesis by (simp add: analyze_synchronization_def Let_def)
  next
    case True
    have "sync_from ?cap (ordered_nodes a) ?d (a, w2) \<noteq> None"
    proof
      assume "sync_from ?cap (ordered_nodes a) ?d (a, w2) = None"
      with assms(2) req True show False by (simp add: analyze_synchronization_def Let_def)
    qed
    then obtain c d s2 where walk: "sync_from ?cap (ordered_nodes a) ?d (a, w2) = Some (c, d, s2)" by auto
    have k2: "kept (fst s2)" using sync_from_kept [OF _ walk] assms(1) by simp
    show ?thesis
    proof (cases c)
      case False
      with assms(2) req True walk k2 show ?thesis by (simp add: analyze_synchronization_def Let_def)
    next
      case c: True
      with assms(2) req True walk obtain joins waits c3 s3 where
        c3: "check_waits joins waits (filter si_active (ss_waits d)) s2 = Some (c3, s3)"
        and a1: "a1 = (if c3 then (fst s3)\<lparr>an_lock_order_edges := length (ss_lock_edges d)\<rparr> else fst s3)"
        unfolding analyze_synchronization_def Let_def
        by (auto split: option.splits bool.splits)
      from check_waits_kept [OF k2 c3] a1 show ?thesis
        by (auto intro: kept_same simp: same_findings_def)
    qed
  qed
qed

subsection \<open>The sanitizer policy\<close>

text \<open>The lines that are delivered, and what is reported of them from a line number on.\<close>

function delivered :: "stream_end \<Rightarrow> string \<Rightarrow> string list" where
  "delivered e [] = []"
| "delivered e (c # cs) =
     (case next_line (c # cs) of
        (line, rest) \<Rightarrow> if last line \<noteq> NL \<and> e \<noteq> At_EOF then [] else line # delivered e rest)"
  by pat_completeness auto
termination
  by (relation "measure (\<lambda>(e, bytes). length bytes)")
    (auto dest: next_line_shorter [OF sym] simp del: next_line.simps)

definition mark_report :: "nat \<Rightarrow> nat \<times> string \<times> string \<times> string \<Rightarrow> owned_finding" where
  "mark_report line_number m = (case m of (i, ident, message, detail) \<Rightarrow>
     finding_of ident POLICY_SANITIZER message (Some (synthetic_node line_number)) None None (Some detail) 0)"

fun marked :: "nat \<Rightarrow> string list \<Rightarrow> owned_finding list" where
  "marked n [] = []"
| "marked n (line # ls) =
     (case find_mark 0 sanitizer_marks (c_string line) of
        None \<Rightarrow> []
      | Some m \<Rightarrow> [mark_report (Suc n) m]) @ marked (Suc n) ls"

fun sanitizer_all :: "nat \<Rightarrow> string list \<Rightarrow> analysis_state \<Rightarrow> bool \<times> analysis_state" where
  "sanitizer_all n [] s = (True, s)"
| "sanitizer_all n (line # ls) s =
     (case sanitizer_line (Suc n) line s of
        (False, s1) \<Rightarrow> (False, s1)
      | (True, s1) \<Rightarrow> sanitizer_all (Suc n) ls s1)"

lemma sanitizer_lines_all: "sanitizer_lines e n bytes s = sanitizer_all n (delivered e bytes) s"
proof (induction "length bytes" arbitrary: n bytes s rule: less_induct)
  case less
  show ?case
  proof (cases bytes)
    case Nil
    then show ?thesis by simp
  next
    case (Cons c cs)
    obtain line rest where l: "next_line (c # cs) = (line, rest)" by (rule prod.exhaust)
    from less(1) [of rest] next_line_shorter [OF l] Cons have
      "sanitizer_lines e (Suc n) rest t = sanitizer_all (Suc n) (delivered e rest) t" for t by simp
    then show ?thesis using l by (auto simp: Cons simp del: next_line.simps split: prod.splits bool.splits)
  qed
qed

text \<open>Everything but the findings and the counters of the sanitizer policy.\<close>

lemma sanitizer_line_result:
  assumes "kept (fst s)" and "ample (snd s)"
    and "length (an_findings (fst s)) + length (marked n [line]) \<le> FINDING_LIMIT"
  shows "\<exists>s1. sanitizer_line (Suc n) line s = (list_all quotes_fit (marked n [line]), s1) \<and>
    kept (fst s1) \<and> ample (snd s1) \<and>
    (list_all quotes_fit (marked n [line]) \<longrightarrow> reports (fst s1) = reports (fst s) @ marked n [line] \<and>
      an_sanitizer_records (fst s1) = an_sanitizer_records (fst s) + 1)"
proof -
  let ?a = "(fst s)\<lparr>an_sanitizer_records := an_sanitizer_records (fst s) + 1\<rparr>"
  have k: "kept ?a" by (rule kept_same [OF assms(1)]) (simp_all add: same_findings_def)
  have rep: "reports ?a = reports (fst s)" by (simp add: reports_def)
  show ?thesis
  proof (cases "find_mark 0 sanitizer_marks (c_string line)")
    case None
    with k rep assms(2) show ?thesis by (simp add: sanitizer_line_def)
  next
    case (Some m)
    obtain i ident message detail where m: "m = (i, ident, message, detail)" by (rule prod_cases4)
    let ?f = "mark_report (Suc n) m"
    have st: "stored ?a" using k by (simp add: kept_def)
    have room: "length (an_findings ?a) < FINDING_LIMIT" using assms(3) Some by simp
    have "\<exists>a1 w1. add_analysis_finding (?a, snd s) ident POLICY_SANITIZER message
        (Some (synthetic_node (Suc n))) None None (Some detail) =
        (evidence_fits None \<and> evidence_fits None \<and> evidence_fits (Some detail), a1, w1) \<and> ample w1"
      by (rule add_finding_ample [OF st assms(2) room])
    then obtain a1 w1 where add: "add_analysis_finding (?a, snd s) ident POLICY_SANITIZER message
        (Some (synthetic_node (Suc n))) None None (Some detail) = (quotes_fit ?f, a1, w1)" "ample w1"
      by (auto simp: m mark_report_def quotes_fit_finding_of evidence_fits_def)
    note r = add_finding_step [OF st add(1)]
    have k1: "kept a1" using add_finding_kept [OF _ add(1)] k by simp
    have rec: "an_sanitizer_records a1 = an_sanitizer_records (fst s) + 1"
      using r(2) by (auto simp: rest_same_def)
    show ?thesis
    proof (cases "quotes_fit ?f")
      case False
      with Some m add k1 show ?thesis by (simp add: sanitizer_line_def)
    next
      case True
      let ?b = "a1\<lparr>an_sanitizer_counts := (an_sanitizer_counts a1)[i := an_sanitizer_counts a1 ! i + 1]\<rparr>"
      have "kept ?b" by (rule kept_same [OF k1]) (simp_all add: same_findings_def)
      moreover have "reports ?b = reports (fst s) @ [?f]"
        using r(3) True rep by (simp add: reports_def m mark_report_def)
      moreover have "sanitizer_line (Suc n) line s = (True, ?b, w1)"
        using Some m add(1) True by (simp add: sanitizer_line_def)
      ultimately show ?thesis using Some True add(2) rec by simp
    qed
  qed
qed

lemma sanitizer_all_result:
  assumes "kept (fst s)" and "ample (snd s)"
    and "length (an_findings (fst s)) + length (marked n ls) \<le> FINDING_LIMIT"
  shows "\<exists>s1. sanitizer_all n ls s = (list_all quotes_fit (marked n ls), s1) \<and>
    (list_all quotes_fit (marked n ls) \<longrightarrow> reports (fst s1) = reports (fst s) @ marked n ls \<and>
      an_sanitizer_records (fst s1) = an_sanitizer_records (fst s) + length ls)"
  using assms
proof (induction ls arbitrary: n s)
  case (Cons line ls)
  have split: "marked n (line # ls) = marked n [line] @ marked (Suc n) ls" by (simp split: option.split)
  have room: "length (an_findings (fst s)) + length (marked n [line]) \<le> FINDING_LIMIT"
    using Cons.prems(3) unfolding split by simp
  from sanitizer_line_result [OF Cons.prems(1,2) room] obtain s1 where s1:
    "sanitizer_line (Suc n) line s = (list_all quotes_fit (marked n [line]), s1)" "kept (fst s1)" "ample (snd s1)"
    "list_all quotes_fit (marked n [line]) \<longrightarrow> reports (fst s1) = reports (fst s) @ marked n [line] \<and>
      an_sanitizer_records (fst s1) = an_sanitizer_records (fst s) + 1" by blast
  show ?case
  proof (cases "list_all quotes_fit (marked n [line])")
    case False
    have "sanitizer_all n (line # ls) s = (False, s1)" using s1(1) False by simp
    moreover have "\<not> list_all quotes_fit (marked n (line # ls))" using False unfolding split by simp
    ultimately show ?thesis by (simp del: marked.simps sanitizer_all.simps)
  next
    case True
    with s1(4) have rep: "reports (fst s1) = reports (fst s) @ marked n [line]"
      "an_sanitizer_records (fst s1) = an_sanitizer_records (fst s) + 1" by simp_all
    have "length (an_findings (fst s1)) = length (an_findings (fst s)) + length (marked n [line])"
      using arg_cong [OF rep(1), of length] by (simp add: reports_def)
    with Cons.prems(3) have "length (an_findings (fst s1)) + length (marked (Suc n) ls) \<le> FINDING_LIMIT"
      unfolding split by simp
    from Cons.IH [OF s1(2,3) this] obtain s2 where
      "sanitizer_all (Suc n) ls s1 = (list_all quotes_fit (marked (Suc n) ls), s2)"
      "list_all quotes_fit (marked (Suc n) ls) \<longrightarrow> reports (fst s2) = reports (fst s1) @ marked (Suc n) ls \<and>
        an_sanitizer_records (fst s2) = an_sanitizer_records (fst s1) + length ls" by blast
    moreover have "sanitizer_all n (line # ls) s = sanitizer_all (Suc n) ls s1" using s1(1) True by simp
    ultimately show ?thesis using True rep unfolding split by auto
  qed
qed simp

lemma sanitizer_line_kept: "kept (fst s) \<Longrightarrow> sanitizer_line n line s = (b, s1) \<Longrightarrow> kept (fst s1)"
proof -
  assume k: "kept (fst s)" and run: "sanitizer_line n line s = (b, s1)"
  let ?a = "(fst s)\<lparr>an_sanitizer_records := an_sanitizer_records (fst s) + 1\<rparr>"
  have k1: "kept ?a" by (rule kept_same [OF k]) (simp_all add: same_findings_def)
  show "kept (fst s1)"
  proof (cases "find_mark 0 sanitizer_marks (c_string line)")
    case None
    with run k1 show ?thesis by (auto simp: sanitizer_line_def)
  next
    case (Some m)
    obtain i ident message detail where m: "m = (i, ident, message, detail)" by (rule prod_cases4)
    obtain c a2 w2 where add: "add_analysis_finding (?a, snd s) ident POLICY_SANITIZER message
        (Some (synthetic_node n)) None None (Some detail) = (c, a2, w2)" by (rule prod_cases3)
    have "kept a2" using add_finding_kept [OF _ add] k1 by simp
    then have "kept (a2\<lparr>an_sanitizer_counts := x\<rparr>)" for x
      by (rule kept_same) (simp_all add: same_findings_def)
    with \<open>kept a2\<close> run Some m add show ?thesis by (cases c) (auto simp: sanitizer_line_def)
  qed
qed

lemma analyze_sanitizer_kept:
  assumes "kept a" and "analyze_sanitizer (a, w) path = (b, a1, w1)"
  shows "kept a1"
proof -
  have all: "kept (fst s) \<Longrightarrow> sanitizer_all n ls s = (c, s1) \<Longrightarrow> kept (fst s1)" for n ls s c s1
  proof (induction ls arbitrary: n s)
    case (Cons line ls)
    obtain d s2 where d: "sanitizer_line (Suc n) line s = (d, s2)" by (rule prod.exhaust)
    have "kept (fst s2)" by (rule sanitizer_line_kept [OF Cons.prems(1) d])
    with Cons.prems(2) d Cons.IH [of s2 "Suc n"] show ?case by (cases d) auto
  qed simp
  have all': "kept a2" if "sanitizer_all n ls (a, w) = (c, a2, w2)" for n ls c a2 w2
    using all [of "(a, w)", OF _ that] assms(1) by simp
  have "kept (a\<lparr>an_trouble := True\<rparr>)" by (rule kept_same [OF assms(1)]) (simp_all add: same_findings_def)
  with assms show ?thesis
    by (auto simp: analyze_sanitizer_def Let_def sanitizer_lines_all dest: all'
        split: option.splits sum.splits prod.splits if_splits)
qed

end
