(* ===== verification/Analysis_Properties.thy ===== *)
theory Analysis_Properties
  imports Analysis_Run_Facts
begin

section \<open>Properties of the analysis\<close>

text \<open>
  The causal order of a finished model, the findings of the resource policy, the counters, and
  which published texts can still be read. \<open>analysis_reachable\<close> are the states of an analysis.
\<close>

subsection \<open>The models that are analysed\<close>

lemma built_in_range:
  assumes "built L nodes es" and "e \<in> set es"
  shows "me_from e < length nodes \<and> me_to e < length nodes"
proof -
  obtain k u v where e: "e = edge k u v" by (cases e) (simp add: edge_def)
  from assms(1) obtain matched calls where inv: "call_inv nodes (length nodes) matched calls"
    and es: "es = calls @ concat (map (node_edges L nodes matched) [0..<length nodes])"
    by (auto simp: built_def)
  note specs = built_specs [OF assms(1)]
  have mem: "edge k u v \<in> set es" using assms(2) e by simp
  have "u < length nodes \<and> v < length nodes"
  proof (cases k)
    case EDGE_CALL_RETURN
    with mem have "ret es u v" by (simp add: ret_def)
    with specs(1) have "u < v" "v < length nodes" unfolding returns_spec_def by blast+
    then show ?thesis by linarith
  next
    case EDGE_CALL_PARENT
    with mem have "par es u v" by (simp add: par_def)
    with specs(2) have "u < v" "v < length nodes" unfolding parents_spec_def by blast+
    then show ?thesis by linarith
  next
    case EDGE_CALL_CAUSED_EVENT
    with mem built_caused [OF assms(1)] show ?thesis by blast
  next
    case EDGE_RESOURCE_LIFETIME
    with mem built_lifetime [OF assms(1)] show ?thesis
      by (auto simp: find_lifetime_end_def pick_min(1) split: if_splits)
  next
    case EDGE_PROCESS_CHILD_EVENT
    with mem built_children [OF assms(1)] show ?thesis by blast
  qed
  with e show ?thesis by (simp add: edge_def)
qed

lemma finished_in_range:
  assumes "model_finish L (Some m, w) = Some (True, Some m', w')" and "\<not> tm_finished m"
  shows "edges_in_range m'"
  using built_in_range [OF model_finish_built(1) [OF assms]] model_finish_built(2) [OF assms]
  by (simp add: edges_in_range_def)

subsection \<open>Reachable states\<close>

inductive analysis_reachable :: "analysis_state \<Rightarrow> bool" where
  created: "analysis_create (Some m) w = (Some a, w') \<Longrightarrow> analysis_reachable (a, w')"
| ordered: "analysis_reachable s \<Longrightarrow> build_causal_order s = Some (b, s') \<Longrightarrow> analysis_reachable s'"
| resources: "analysis_reachable s \<Longrightarrow> analyze_resources s = (b, s') \<Longrightarrow> analysis_reachable s'"
| synchronized: "analysis_reachable s \<Longrightarrow> analyze_synchronization s = Some (b, s') \<Longrightarrow> analysis_reachable s'"
| traced: "analysis_reachable s \<Longrightarrow> analyze_trace s = Some (b, s') \<Longrightarrow> analysis_reachable s'"
| sanitized: "analysis_reachable s \<Longrightarrow> analyze_sanitizer s path = (b, s') \<Longrightarrow> analysis_reachable s'"

definition order_frame :: "tool_analysis \<Rightarrow> tool_analysis \<Rightarrow> bool" where
  "order_frame a a' \<longleftrightarrow> (\<exists>xs t. a' = a\<lparr>an_ordered := xs, an_trouble := t\<rparr>)"

lemma order_frame_intros [simp]:
  "order_frame a a" "order_frame a (a\<lparr>an_ordered := xs\<rparr>)" "order_frame a (a\<lparr>an_trouble := t\<rparr>)"
  "order_frame a (a\<lparr>an_ordered := xs, an_trouble := t\<rparr>)"
proof -
  have "a = a\<lparr>an_ordered := an_ordered a, an_trouble := an_trouble a\<rparr>"
    "a\<lparr>an_ordered := xs\<rparr> = a\<lparr>an_ordered := xs, an_trouble := an_trouble a\<rparr>"
    "a\<lparr>an_trouble := t\<rparr> = a\<lparr>an_ordered := an_ordered a, an_trouble := t\<rparr>" by simp_all
  then show "order_frame a a" "order_frame a (a\<lparr>an_ordered := xs\<rparr>)"
    "order_frame a (a\<lparr>an_trouble := t\<rparr>)" "order_frame a (a\<lparr>an_ordered := xs, an_trouble := t\<rparr>)"
    unfolding order_frame_def by blast+
qed

lemma build_causal_order_frame:
  assumes "build_causal_order (a, w) = Some (b, a', w')"
  shows "order_frame a a'"
  using assms unfolding build_causal_order_def Let_def prod.case
  by (auto split: prod.splits option.splits sum.splits if_splits)

lemma resource_nodes_from_kept:
  "kept a \<Longrightarrow> resource_nodes_from ns (a, w) = (b, a1, w1) \<Longrightarrow> kept a1"
proof (induction ns arbitrary: a w)
  case (Cons n ns)
  let ?a = "a\<lparr>an_resource_records := an_resource_records a +
      (if mn_domain n = NODE_RESOURCE then 1 else 0)\<rparr>"
  have a: "(if mn_domain n = NODE_RESOURCE
      then a\<lparr>an_resource_records := an_resource_records a + 1\<rparr> else a) = ?a" by simp
  have k: "kept ?a" by (rule kept_same [OF Cons.prems(1)]) (simp_all add: same_findings_def)
  obtain d a2 w2 where add: "add_analysis_finding (?a, w) ''P101-MEM-001'' POLICY_RESOURCE
      ''allocation size was zero at runtime'' (Some n) (Some (mn_ptr n)) (Some (mn_new_ptr n)) None
      = (d, a2, w2)" by (rule prod_cases3)
  have "kept a2" using add_finding_kept [OF _ add] k by simp
  with Cons.prems(2) Cons.IH [OF k] Cons.IH [of a2] add show ?case
    unfolding resource_nodes_from.simps Let_def a by (auto split: if_splits bool.splits)
qed simp

lemma lifecycle_findings_from_kept:
  "kept a \<Longrightarrow> lifecycle_findings_from k i (a, w) = (b, a1, w1) \<Longrightarrow> kept a1"
proof (induction k arbitrary: i a w)
  case (Suc k)
  show ?case
  proof (cases "model_lifecycle_finding_at (Some (an_model a)) i")
    case None
    with Suc.prems show ?thesis by simp
  next
    case (Some f)
    obtain d a2 w2 where add: "add_analysis_finding (a, w) (lifecycle_identifier f) POLICY_RESOURCE
        (lifecycle_message (lifecycle_identifier f)) (find_node a (lf_pid f) (lf_context_id f) (lf_sequence f))
        (Some (lf_resource_class f)) (Some (lf_resource_id f)) None = (d, a2, w2)" by (rule prod_cases3)
    have k: "kept a2" using add_finding_kept [OF _ add] Suc.prems(1) by simp
    from Suc.prems(2) Suc.IH [OF k] k Some add show ?thesis by (auto simp: Let_def split: bool.splits)
  qed
qed simp

lemma analyze_resources_kept:
  assumes "kept a" and "analyze_resources (a, w) = (b, a1, w1)"
  shows "kept a1"
proof -
  let ?a = "a\<lparr>an_resource_records := 0\<rparr>"
  have k: "kept ?a" by (rule kept_same [OF assms(1)]) (simp_all add: same_findings_def)
  obtain d a2 w2 where n: "resource_nodes_from (ordered_nodes a) (?a, w) = (d, a2, w2)"
    by (rule prod_cases3)
  note r = resource_nodes_from_kept [OF k n]
  from assms(2) n lifecycle_findings_from_kept [OF r] r show ?thesis
    by (auto simp: analyze_resources_def split: bool.splits)
qed

lemma build_causal_order_kept:
  assumes "kept a" and "build_causal_order (a, w) = Some (b, a1, w1)"
  shows "kept a1"
  using build_causal_order_frame [OF assms(2)] kept_same [OF assms(1)]
  by (auto simp: order_frame_def same_findings_def)

lemma analysis_reachable_kept: "analysis_reachable s \<Longrightarrow> kept (fst s)"
proof (induction rule: analysis_reachable.induct)
  case (created m w a w')
  then have "a = new_analysis m" by (auto simp: analysis_create_def split: prod.splits bool.splits)
  then show ?case by (simp add: kept_def stored_new tree_ok_def) (simp add: new_analysis_def)
next
  case (ordered s b s')
  obtain a w a' w' where "s = (a, w)" "s' = (a', w')" by (metis surj_pair)
  with ordered build_causal_order_kept show ?case by simp
next
  case (resources s b s')
  obtain a w a' w' where "s = (a, w)" "s' = (a', w')" by (metis surj_pair)
  with resources analyze_resources_kept show ?case by simp
next
  case (synchronized s b s')
  obtain a w a' w' where "s = (a, w)" "s' = (a', w')" by (metis surj_pair)
  with synchronized analyze_synchronization_kept show ?case by simp
next
  case (traced s b s')
  obtain a w a' w' where p: "s = (a, w)" "s' = (a', w')" by (metis surj_pair)
  have "kept a" using traced(3) p by simp
  from analyze_trace_result [OF this, of w] traced(2) p show ?case by auto
next
  case (sanitized s path b s')
  obtain a w a' w' where "s = (a, w)" "s' = (a', w')" by (metis surj_pair)
  with sanitized analyze_sanitizer_kept show ?case by simp
qed

lemma analysis_reachable_stored: "analysis_reachable s \<Longrightarrow> stored (fst s)"
  using analysis_reachable_kept by (simp add: kept_def)

lemma sample_finish_nodes:
  assumes "model_finish doc_lib (Some sample_tool, calm_world) = Some (True, Some m', calm_world)"
    and "tm_edges m' = sample_edges" and "\<not> tm_finished sample_tool"
  shows "causes m' \<subseteq> {(u, v). u < v}" "length (tm_nodes m') = 4"
proof -
  have n: "tm_nodes m' = tm_nodes sample_tool" by (rule model_finish_built(2) [OF assms(1,3)])
  have seq: "mn_sequence (tm_nodes sample_tool ! i) = Suc i" if "i < 4" for i
    using that by (auto simp: sample_tool_defs numeral_eq_Suc less_Suc_eq)
  have "length (tm_nodes sample_tool) = 4" by (simp add: sample_tool_def)
  with n seq assms(2) show "causes m' \<subseteq> {(u, v). u < v}" "length (tm_nodes m') = 4"
    by (auto simp: causes_def edge_pairs_def context_order_def sample_edges_def edge_def
        node_key_def same_context_def)
qed

lemma forward_acyclic_less: "R \<subseteq> {(u, v). u < (v :: nat)} \<Longrightarrow> acyclic R"
  using wf_acyclic [OF wf_less] acyclic_subset by blast

subsection \<open>The causal order\<close>

text \<open>Claim C32. The causal order of a finished model is exact. When the edges of the model and the
  sequences of its contexts have no cycle, the construction succeeds and every node stands in
  the order once, after everything that must come before it, and at every place the node with
  the least index among those whose predecessors have all been placed. When there is a cycle,
  the order stays empty, the analysis is marked as failed and EINVAL is raised, but the
  function returns success.\<close>

theorem causal_order_exact:
  assumes "model_finish L (Some m, w0) = Some (True, Some m', w1)" and "\<not> tm_finished m"
    and "length (tm_edges m') + length (tm_nodes m') \<le> SIZE_MAX" and "ample w"
  shows "if acyclic (causes m')
    then \<exists>xs w'. build_causal_order (new_analysis m', w) =
        Some (True, (new_analysis m')\<lparr>an_ordered := Some xs\<rparr>, w') \<and> w_raised w' = w_raised w \<and>
      distinct xs \<and> set xs = {..<length (tm_nodes m')} \<and>
      (\<forall>(u, v) \<in> causes m'. precedes xs u v) \<and> greedy (length (tm_nodes m')) (causes m') xs
    else \<exists>w'. build_causal_order (new_analysis m', w) =
      Some (True, (new_analysis m')\<lparr>an_ordered := Some [], an_trouble := True\<rparr>, raise_errno EINVAL w')"
proof -
  have range: "edges_in_range m'" by (rule finished_in_range [OF assms(1,2)])
  have model: "an_model (new_analysis m') = m'" by (simp add: new_analysis_def)
  from build_exact [of "new_analysis m'" w] range assms(3,4) obtain w' xs where r:
    "w_raised w' = w_raised w" "greedy (length (tm_nodes m')) (causes m') xs" "distinct xs"
    "set xs \<subseteq> {..<length (tm_nodes m')}"
    "length xs = length (tm_nodes m') \<longleftrightarrow> acyclic (causes m')"
    "build_causal_order (new_analysis m', w) =
      (if acyclic (causes m') then Some (True, (new_analysis m')\<lparr>an_ordered := Some xs\<rparr>, w')
       else Some (True, (new_analysis m')\<lparr>an_ordered := Some [], an_trouble := True\<rparr>, raise_errno EINVAL w'))"
    unfolding model by blast
  show ?thesis
  proof (cases "acyclic (causes m')")
    case True
    with r(3-5) have all: "set xs = {..<length (tm_nodes m')}"
      by (intro card_subset_eq) (simp_all add: distinct_card)
    have "v < length (tm_nodes m')" if "(u, v) \<in> causes m'" for u v
      using that range by (auto simp: causes_def edge_pairs_def context_order_def edges_in_range_def)
    with greedy_forward [OF r(2)] all have "\<forall>(u, v) \<in> causes m'. precedes xs u v" by blast
    with True r all show ?thesis by auto
  next
    case False
    with r(6) show ?thesis by auto
  qed
qed

theorem causal_order_exact_witness:
  "\<exists>m' xs w'. model_finish doc_lib (Some sample_tool, calm_world) = Some (True, Some m', calm_world) \<and>
     build_causal_order (new_analysis m', calm_world) =
       Some (True, (new_analysis m')\<lparr>an_ordered := Some xs\<rparr>, w') \<and> precedes xs 0 3"
proof -
  obtain m' where m': "model_finish doc_lib (Some sample_tool, calm_world) = Some (True, Some m', calm_world)"
    "tm_edges m' = sample_edges" "\<not> tm_finished sample_tool" by (rule sample_finish)
  note s = sample_finish_nodes [OF m']
  have "ample calm_world" by (simp add: ample_def calm_world_def)
  moreover have "length (tm_edges m') + length (tm_nodes m') \<le> SIZE_MAX"
    by (simp add: m'(2) s(2) sample_edges_def SIZE_MAX_def)
  moreover have "(0, 3) \<in> causes m'"
    unfolding causes_def edge_pairs_def m'(2)
    by (intro UnI1 CollectI exI [of _ "edge EDGE_CALL_RETURN 0 3"]) (simp add: sample_edges_def edge_def)
  ultimately show ?thesis
    using causal_order_exact [OF m'(1,3), of calm_world] forward_acyclic_less [OF s(1)] m'(1) by auto
qed

subsection \<open>A run of empty allocations\<close>

definition empty_node :: model_node where
  "empty_node = copy_record (zero_record\<lparr>ev_version := 5, ev_run_id := Some ''r'', ev_pid := 7,
     ev_record_kind := RECORD_ALLOC, ev_alloc_kind := ALLOC_ALLOC, ev_ptr := Some ''p''\<rparr>)"

definition empty_run :: "nat \<Rightarrow> tool_model" where
  "empty_run n = empty_model\<lparr>tm_nodes := replicate n empty_node\<rparr>"

lemma empty_run_order:
  assumes "n \<le> SIZE_MAX"
  obtains xs w' where "build_causal_order (new_analysis (empty_run n), calm_world) =
      Some (True, (new_analysis (empty_run n))\<lparr>an_ordered := Some xs\<rparr>, w')" "ample w'"
    "length xs = n" "set xs \<subseteq> {..<n}"
proof -
  have "causes (empty_run n) \<subseteq> {(u, v). u < v}"
    by (auto simp: causes_def edge_pairs_def context_order_def empty_run_def empty_model_def node_key_def)
  then have ac: "acyclic (causes (empty_run n))" by (rule forward_acyclic_less)
  have model: "an_model (new_analysis (empty_run n)) = empty_run n" by (simp add: new_analysis_def)
  have "edges_in_range (empty_run n)" "length (tm_edges (empty_run n)) + length (tm_nodes (empty_run n)) \<le> SIZE_MAX"
    "ample calm_world" "length (tm_nodes (empty_run n)) = n"
    using assms by (simp_all add: edges_in_range_def empty_run_def empty_model_def ample_def calm_world_def)
  with build_exact [of "new_analysis (empty_run n)" calm_world] ac obtain w' xs where
    "build_causal_order (new_analysis (empty_run n), calm_world) =
      Some (True, (new_analysis (empty_run n))\<lparr>an_ordered := Some xs\<rparr>, w')" "ample w'"
    "length xs = n" "set xs \<subseteq> {..<n}"
    unfolding model by auto
  then show thesis by (rule that)
qed

lemma empty_run_nodes:
  assumes "length xs = n" and "set xs \<subseteq> {..<n}"
  shows "ordered_nodes ((new_analysis (empty_run n))\<lparr>an_ordered := Some xs\<rparr>) = replicate n empty_node"
proof -
  have "map (\<lambda>i. replicate n empty_node ! i) xs = map (\<lambda>_. empty_node) xs"
    using assms(2) by (intro map_cong) auto
  with assms(1) show ?thesis
    by (simp add: ordered_nodes_def new_analysis_def empty_run_def map_replicate_const)
qed

lemma empty_run_reports:
  assumes "length xs = n" and "set xs \<subseteq> {..<n}"
  shows "resource_reports ((new_analysis (empty_run n))\<lparr>an_ordered := Some xs\<rparr>) =
      replicate n (empty_allocation_report empty_node)"
    "list_all quotes_fit (replicate n (empty_allocation_report empty_node))"
proof -
  have "empty_allocation empty_node" "lifecycle_findings (empty_run n) = []"
    by (simp_all add: empty_allocation_def empty_node_def copy_record_def zero_record_def
        lifecycle_findings_def empty_run_def empty_model_def)
  with empty_run_nodes [OF assms] show "resource_reports ((new_analysis (empty_run n))\<lparr>an_ordered := Some xs\<rparr>) =
      replicate n (empty_allocation_report empty_node)"
    by (simp add: resource_reports_def new_analysis_def)
  show "list_all quotes_fit (replicate n (empty_allocation_report empty_node))"
    by (simp add: list_all_iff empty_allocation_report_def quotes_fit_finding_of evidence_fits_def
        EVIDENCE_TEXT_SIZE_def empty_node_def copy_record_def zero_record_def)
qed

lemma empty_run_analyzed:
  assumes "n \<le> FINDING_LIMIT"
  obtains a w a1 w1 where "analysis_reachable (a, w)" "ample w"
    "length (resource_reports a) = n" "list_all quotes_fit (resource_reports a)"
    "an_findings a = []" "analyze_resources (a, w) = (True, a1, w1)"
    "reports a1 = replicate n (empty_allocation_report empty_node)" "\<not> an_trouble a1"
proof -
  have "n \<le> SIZE_MAX" using assms by (simp add: FINDING_LIMIT_def SIZE_MAX_def)
  from empty_run_order [OF this] obtain xs w' where o:
    "build_causal_order (new_analysis (empty_run n), calm_world) =
      Some (True, (new_analysis (empty_run n))\<lparr>an_ordered := Some xs\<rparr>, w')" "ample w'"
    "length xs = n" "set xs \<subseteq> {..<n}" .
  let ?a = "(new_analysis (empty_run n))\<lparr>an_ordered := Some xs\<rparr>"
  have "analysis_reachable (new_analysis (empty_run n), calm_world)"
    by (rule analysis_reachable.created [of "empty_run n" calm_world])
      (simp add: analysis_create_def heap_request_def calm_world_def)
  from analysis_reachable.ordered [OF this o(1)] have reach: "analysis_reachable (?a, w')" .
  then have st: "stored ?a" using analysis_reachable_stored by fastforce
  note rep = empty_run_reports [OF o(3,4)]
  have none: "an_findings ?a = []" by (simp add: new_analysis_def)
  have "length (an_findings ?a) + length (resource_reports ?a) \<le> FINDING_LIMIT"
    using assms none rep(1) by simp
  from analyze_resources_result [OF st o(2) this] rep none obtain a1 w1 k where
    r: "analyze_resources (?a, w') = (True, a1, w1)"
    "reports a1 = replicate n (empty_allocation_report empty_node)"
    "rest_same (?a\<lparr>an_resource_records := k\<rparr>) a1"
    by (auto simp: reports_def)
  have "\<not> an_trouble a1" using rest_same_fields(6) [OF r(3)] by (simp add: new_analysis_def)
  with r(1,2) reach o(2) rep none show thesis by (intro that [of ?a w' a1 w1]) simp_all
qed

subsection \<open>The findings of the resource policy\<close>

text \<open>Claim C40. The resource policy reports exactly what it should: with memory available, and when
  every quoted text fits its buffer, it adds one P101-MEM-001 finding for every allocation
  record of size zero, in the causal order, and then one finding for every lifecycle finding of
  the model, in its order, with the identifier and message of its kind and class and the first
  node of the order at the place it names; it counts the resource records. It succeeds exactly
  when all the quoted texts fit.\<close>

theorem resource_findings_exact:
  assumes "analysis_reachable (a, w)" and "ample w"
    and "length (an_findings a) + length (resource_reports a) \<le> FINDING_LIMIT"
  shows "\<exists>a1 w1. analyze_resources (a, w) = (list_all quotes_fit (resource_reports a), a1, w1) \<and>
    (list_all quotes_fit (resource_reports a) \<longrightarrow> reports a1 = reports a @ resource_reports a \<and>
      an_resource_records a1 = length (filter (\<lambda>n. mn_domain n = NODE_RESOURCE) (ordered_nodes a)))"
proof -
  have "stored a" using analysis_reachable_stored [OF assms(1)] by simp
  from analyze_resources_result [OF this assms(2,3)] obtain a1 w1 k where r:
    "analyze_resources (a, w) = (list_all quotes_fit (resource_reports a), a1, w1)"
    "rest_same (a\<lparr>an_resource_records := k\<rparr>) a1"
    "list_all quotes_fit (resource_reports a) \<longrightarrow> reports a1 = reports a @ resource_reports a \<and>
      k = length (filter (\<lambda>n. mn_domain n = NODE_RESOURCE) (ordered_nodes a))" by blast
  have "an_resource_records a1 = k" using rest_same_fields(3) [OF r(2)] by simp
  with r(1,3) show ?thesis by blast
qed

theorem resource_findings_exact_witness:
  "\<exists>a w a1 w1. analyze_resources (a, w) = (True, a1, w1) \<and> reports a = [] \<and>
     reports a1 = resource_reports a \<and> length (resource_reports a) = 3"
proof -
  have "(3 :: nat) \<le> FINDING_LIMIT" by (simp add: FINDING_LIMIT_def)
  then obtain a w a1 w1 where e: "analysis_reachable (a, w)" "ample w"
    "length (resource_reports a) = 3" "list_all quotes_fit (resource_reports a)"
    "an_findings a = []" by (rule empty_run_analyzed)
  have "length (an_findings a) + length (resource_reports a) \<le> FINDING_LIMIT"
    by (simp add: e(3,5) FINDING_LIMIT_def)
  from resource_findings_exact [OF e(1,2) this] e(3-5) show ?thesis
    by (fastforce simp: reports_def)
qed

subsection \<open>The counters\<close>

text \<open>The counters and statuses agree with the findings in every reachable state: the count
  of a policy is the number of findings of that policy, the findings are divided among the four
  policies, an analysis that failed has status 2 throughout, and otherwise the status is 1
  exactly when some policy has status 1.\<close>

theorem policy_counts_exact:
  assumes "analysis_reachable (a, w)"
  shows "analysis_policy_finding_count (Some a) p =
      length (filter (\<lambda>f. of_policy f = p) (an_findings a)) \<and>
    analysis_finding_count (Some a) = (\<Sum>q \<leftarrow> [POLICY_RESOURCE, POLICY_SYNCHRONIZATION, POLICY_TRACE,
      POLICY_SANITIZER]. analysis_policy_finding_count (Some a) q) \<and>
    (analysis_status (Some a) = 2 \<longleftrightarrow> analysis_policy_status (Some a) p = 2) \<and>
    (analysis_status (Some a) = 1 \<longleftrightarrow> (\<exists>q. analysis_policy_status (Some a) q = 1))"
proof -
  have counts: "an_policy_counts a q = length (filter (\<lambda>f. of_policy f = q) (an_findings a))" for q
    using analysis_reachable_stored [OF assms] by (simp add: stored_def)
  have parts: "length fs = length (filter (\<lambda>f. of_policy f = POLICY_RESOURCE) fs) +
      length (filter (\<lambda>f. of_policy f = POLICY_SYNCHRONIZATION) fs) +
      length (filter (\<lambda>f. of_policy f = POLICY_TRACE) fs) +
      length (filter (\<lambda>f. of_policy f = POLICY_SANITIZER) fs)" for fs :: "owned_finding list"
  proof (induction fs)
    case (Cons f fs)
    then show ?case by (cases "of_policy f") simp_all
  qed simp
  have sum: "analysis_finding_count (Some a) = (\<Sum>q \<leftarrow> [POLICY_RESOURCE, POLICY_SYNCHRONIZATION,
      POLICY_TRACE, POLICY_SANITIZER]. analysis_policy_finding_count (Some a) q)"
    using parts [of "an_findings a"]
    by (simp add: analysis_finding_count_def analysis_policy_finding_count_def counts)
  have some: "an_findings a \<noteq> [] \<longleftrightarrow> (\<exists>q. an_policy_counts a q \<noteq> 0)"
    unfolding counts length_0_conv filter_empty_conv by (cases "an_findings a") auto
  have "analysis_status (Some a) = 2 \<longleftrightarrow> analysis_policy_status (Some a) p = 2"
    by (simp add: analysis_status_def analysis_policy_status_def)
  moreover have "analysis_status (Some a) = 1 \<longleftrightarrow> (\<exists>q. analysis_policy_status (Some a) q = 1)"
    using some by (auto simp: analysis_status_def analysis_policy_status_def)
  moreover have "analysis_policy_finding_count (Some a) p =
      length (filter (\<lambda>f. of_policy f = p) (an_findings a))"
    by (simp add: analysis_policy_finding_count_def counts)
  ultimately show ?thesis using sum by blast
qed

theorem policy_counts_exact_witness:
  "\<exists>a w. analysis_reachable (a, w) \<and> analysis_status (Some a) = 1 \<and>
     analysis_policy_finding_count (Some a) POLICY_RESOURCE = 3"
proof -
  have "(3 :: nat) \<le> FINDING_LIMIT" by (simp add: FINDING_LIMIT_def)
  then obtain a w a1 w1 where e: "analysis_reachable (a, w)" "analyze_resources (a, w) = (True, a1, w1)"
    "reports a1 = replicate 3 (empty_allocation_report empty_node)" "\<not> an_trouble a1"
    by (rule empty_run_analyzed)
  from analysis_reachable.resources [OF e(1,2)] have reach: "analysis_reachable (a1, w1)" .
  have "of_policy f = POLICY_RESOURCE" if "f \<in> set (an_findings a1)" for f
  proof -
    from that have "report f \<in> set (reports a1)" by (simp add: reports_def)
    then have "report f = empty_allocation_report empty_node" unfolding e(3) by simp
    from arg_cong [OF this, of of_policy] show ?thesis
      by (simp add: report_def empty_allocation_report_def finding_of_def)
  qed
  then have "filter (\<lambda>f. of_policy f = POLICY_RESOURCE) (an_findings a1) = an_findings a1" by simp
  moreover have n: "length (an_findings a1) = 3" using arg_cong [OF e(3), of length] by (simp add: reports_def)
  moreover have "analysis_status (Some a1) = 1" using e(4) n by (auto simp: analysis_status_def)
  ultimately show ?thesis using policy_counts_exact [OF reach, of POLICY_RESOURCE] reach by auto
qed

subsection \<open>Which texts can be read\<close>

text \<open>Claim C33. A published finding holds pointers into the array of findings: the node identity and
  the three texts of evidence of the finding at place \<open>i\<close> can be read exactly as long as the
  array has not been moved since it was added, that is, while the capacity is at most 16, or at
  most \<open>2 * i\<close>. The seventeenth finding therefore makes the texts of the first sixteen
  unreadable.\<close>

theorem finding_texts_readable:
  assumes "analysis_reachable (a, w)" and "analysis_finding_at (Some a) i = Some f"
  shows "published_text a f sel = Some (sel f) \<longleftrightarrow>
    an_finding_capacity a \<le> 16 \<or> an_finding_capacity a \<le> 2 * i"
proof -
  have st: "stored a" using analysis_reachable_stored [OF assms(1)] by simp
  from assms(2) have f: "i < length (an_findings a)" "f = an_findings a ! i"
    by (simp_all add: analysis_finding_at_def split: if_splits)
  have "an_block a \<le> 1 \<longleftrightarrow> an_finding_capacity a \<le> 16"
    using generation_small st by (simp add: stored_def)
  with stored_blocks(2) [OF st f(1)] show ?thesis by (simp add: published_text_def f(2))
qed

theorem finding_texts_readable_witness:
  "\<exists>a w f. analysis_reachable (a, w) \<and> analysis_finding_count (Some a) = 17 \<and>
     analysis_finding_at (Some a) 0 = Some f \<and> published_text a f of_node_id \<noteq> Some (of_node_id f)"
proof -
  have "(17 :: nat) \<le> FINDING_LIMIT" by (simp add: FINDING_LIMIT_def)
  then obtain a w a1 w1 where e: "analysis_reachable (a, w)" "analyze_resources (a, w) = (True, a1, w1)"
    "reports a1 = replicate 17 (empty_allocation_report empty_node)" by (rule empty_run_analyzed)
  from analysis_reachable.resources [OF e(1,2)] have reach: "analysis_reachable (a1, w1)" .
  then have st: "stored a1" using analysis_reachable_stored by fastforce
  have n: "length (an_findings a1) = 17" using arg_cong [OF e(3), of length] by (simp add: reports_def)
  then have f: "analysis_finding_at (Some a1) 0 = Some (an_findings a1 ! 0)"
    by (simp add: analysis_finding_at_def)
  have "17 \<le> an_finding_capacity a1" using st n by (simp add: stored_def)
  with finding_texts_readable [OF reach f, of of_node_id] reach f n show ?thesis
    by (auto simp: analysis_finding_count_def)
qed

end
