(* ===== verification/Analysis_Policies.thy ===== *)
theory Analysis_Policies
  imports Analysis_Properties
begin

section \<open>Properties of the policies\<close>

text \<open>
  The call tree and its findings, the searches and the arrays of the synchronization policy, and
  the run that puts the policies together.
\<close>

subsection \<open>Runs of plain nodes\<close>

text \<open>A model without edges whose contexts are recorded in sequence keeps the order of its nodes.\<close>

definition plain_model :: "model_node list \<Rightarrow> tool_model" where
  "plain_model ns = empty_model\<lparr>tm_nodes := ns\<rparr>"

definition in_sequence :: "model_node list \<Rightarrow> bool" where
  "in_sequence ns \<longleftrightarrow> (\<forall>i < length ns. \<forall>j < length ns. same_context (ns ! i) (ns ! j) \<longrightarrow> i < j \<longrightarrow>
     mn_sequence (ns ! i) \<le> mn_sequence (ns ! j))"

lemma plain_order:
  assumes "in_sequence ns" and "length ns \<le> SIZE_MAX"
  obtains xs w where "analysis_reachable ((new_analysis (plain_model ns))\<lparr>an_ordered := Some xs\<rparr>, w)"
    "ample w" "distinct xs" "set xs = {..<length ns}"
proof -
  let ?m = "plain_model ns" and ?n = "length ns"
  have sub: "causes ?m \<subseteq> {(u, v). u < v}"
  proof
    fix p assume "p \<in> causes ?m"
    then obtain u v where p: "p = (u, v)" "u < ?n" "v < ?n" "same_context (ns ! u) (ns ! v)"
      "node_key ns u < node_key ns v"
      by (auto simp: causes_def edge_pairs_def context_order_def plain_model_def empty_model_def)
    have "\<not> v < u"
    proof
      assume "v < u"
      with assms(1) p have "mn_sequence (ns ! v) \<le> mn_sequence (ns ! u)"
        by (auto simp: in_sequence_def same_context_def)
      with p \<open>v < u\<close> show False by (auto simp: node_key_def same_context_def less_prod_def)
    qed
    moreover have "u \<noteq> v" using p(5) by auto
    ultimately show "p \<in> {(u, v). u < v}" using p(1) by simp
  qed
  have ac: "acyclic (causes ?m)" by (rule forward_acyclic_less [OF sub])
  have model: "an_model (new_analysis ?m) = ?m" by (simp add: new_analysis_def)
  have nodes: "tm_nodes ?m = ns" by (simp add: plain_model_def)
  have "edges_in_range ?m" "length (tm_edges ?m) + length (tm_nodes ?m) \<le> SIZE_MAX"
    using assms(2) by (simp_all add: edges_in_range_def plain_model_def empty_model_def)
  with build_exact [of "new_analysis ?m" calm_world] ac obtain w' xs where b:
    "build_causal_order (new_analysis ?m, calm_world) =
      Some (True, (new_analysis ?m)\<lparr>an_ordered := Some xs\<rparr>, w')" "ample w'"
    "distinct xs" "length xs = ?n" "set xs \<subseteq> {..<?n}"
    unfolding model nodes by auto
  have "set xs = {..<?n}" using b(3-5) by (intro card_subset_eq) (simp_all add: distinct_card)
  moreover have "analysis_reachable (new_analysis ?m, calm_world)"
    by (rule analysis_reachable.created [of ?m calm_world])
      (simp add: analysis_create_def heap_request_def calm_world_def)
  from analysis_reachable.ordered [OF this b(1)] b(2,3) calculation show thesis by (intro that)
qed

text \<open>An analysis of these nodes that has made nothing but the order.\<close>

definition fresh :: "tool_analysis \<Rightarrow> bool" where
  "fresh a \<longleftrightarrow> an_findings a = [] \<and> an_trace_tree a = [] \<and> an_call_records a = 0 \<and>
     an_sanitizer_records a = 0"

lemma plain_start:
  assumes "in_sequence ns" and "length ns \<le> SIZE_MAX"
  obtains a w where "analysis_reachable (a, w)" "ample w" "fresh a" "mset (ordered_nodes a) = mset ns"
proof -
  obtain xs w where o: "analysis_reachable ((new_analysis (plain_model ns))\<lparr>an_ordered := Some xs\<rparr>, w)"
    "ample w" "distinct xs" "set xs = {..<length ns}" by (rule plain_order [OF assms])
  let ?a = "(new_analysis (plain_model ns))\<lparr>an_ordered := Some xs\<rparr>"
  have n: "ordered_nodes ?a = map ((!) ns) xs"
    by (simp add: ordered_nodes_def new_analysis_def plain_model_def)
  have "mset xs = mset [0..<length ns]"
    using o(3,4) set_eq_iff_mset_eq_distinct [of xs "[0..<length ns]"] by (simp add: atLeast0LessThan)
  then have "mset (map ((!) ns) xs) = mset (map ((!) ns) [0..<length ns])" by simp
  then have "mset (ordered_nodes ?a) = mset ns" unfolding n map_nth .
  moreover have "fresh ?a" by (simp add: fresh_def new_analysis_def)
  ultimately show thesis using o(1,2) that by blast
qed

lemma single_start:
  obtains a w where "analysis_reachable (a, w)" "ample w" "fresh a" "ordered_nodes a = [n]"
proof -
  have "in_sequence [n]" "length [n] \<le> SIZE_MAX" by (simp_all add: in_sequence_def SIZE_MAX_def)
  from plain_start [OF this] obtain a w where o: "analysis_reachable (a, w)" "ample w" "fresh a"
    "mset (ordered_nodes a) = mset [n]" by blast
  from o(4) have "ordered_nodes a = [n]" by simp
  with o that show thesis by blast
qed

subsection \<open>The trace policy\<close>

text \<open>Claim C34. The trace policy refines a machine that keeps, for every process and context, the list
  of its open calls (entering pushes a call, an exit that matches the innermost call pops it, a
  fork starts the child with the calls of its parent): it always returns; when it succeeds, the
  call tree, the findings, the call records, the contexts in the order of their first event and
  the depth of each are those of the machine; and with memory available it succeeds whenever the
  machine does and the tree and the findings stay within their limits.\<close>

theorem trace_refines_calls:
  assumes "analysis_reachable (a, w)"
  shows "\<exists>b a1 w1. analyze_trace (a, w) = Some (b, a1, w1) \<and>
    (b \<longrightarrow> (\<exists>c. trace_result a = Some c \<and> an_trace_tree a1 = cs_lines c \<and> reports a1 = cs_reports c \<and>
      an_call_records a1 = cs_calls c \<and> map trace_key (trace_table (a1, w1)) = cs_keys c \<and>
      (\<forall>x \<in> set (trace_table (a1, w1)). tc_depth x = length (cs_open c (trace_key x)) \<and>
        tc_depth x \<le> tc_max_depth x))) \<and>
    (ample w \<and> (\<exists>c. trace_result a = Some c \<and> within c) \<longrightarrow> b)"
proof -
  have "kept a" using analysis_reachable_kept [OF assms] by simp
  from analyze_trace_result [OF this, of w] obtain b a1 w1 where r:
    "analyze_trace (a, w) = Some (b, a1, w1)"
    "b \<longrightarrow> (\<exists>c es. trace_result a = Some c \<and> traced (ordered_nodes a) es (a1, w1) c)"
    "ample w \<and> (\<exists>c. trace_result a = Some c \<and> within c) \<longrightarrow> b" by blast
  then show ?thesis by (fastforce simp: traced_def context_ok_def)
qed

definition lone_exit :: model_node where
  "lone_exit = copy_record (zero_record\<lparr>ev_version := 5, ev_run_id := Some ''r'', ev_pid := 7,
     ev_record_kind := RECORD_CALL, ev_call_kind := CALL_EXIT\<rparr>)"

theorem trace_refines_calls_witness:
  "\<exists>a w a1 w1. analysis_reachable (a, w) \<and> analyze_trace (a, w) = Some (True, a1, w1) \<and>
     map of_diagnostic_id (reports a1) = [''P101-TRACE-001'']"
proof -
  obtain a w where o: "analysis_reachable (a, w)" "ample w" "fresh a" "ordered_nodes a = [lone_exit]"
    by (rule single_start)
  have start: "start_calls a = \<lparr>cs_keys = [], cs_open = (\<lambda>_. []), cs_calls = 0, cs_lines = [], cs_reports = []\<rparr>"
    using o(3) by (simp add: start_calls_def fresh_def reports_def)
  have digits: "length (decimal 0) = 1" "length (signed_decimal 0) = 1" "length (signed_decimal 7) = 1"
    by (simp_all add: signed_decimal_def decimal.simps [of 0] decimal.simps [of 7])
  have line: "length (trace_line lone_exit 0 False) < TRACE_LINE_SIZE"
    by (simp add: trace_line_def lone_exit_def copy_record_def zero_record_def TRACE_LINE_SIZE_def digits)
  let ?f = "call_report ''P101-TRACE-001'' ''call exit has no matching active call'' lone_exit"
  have fits: "quotes_fit ?f" "of_diagnostic_id ?f = ''P101-TRACE-001''"
    by (simp_all add: call_report_def finding_of_def quotes_fit_def EVIDENCE_TEXT_SIZE_def
        lone_exit_def copy_record_def zero_record_def)
  have lone: "mn_domain lone_exit = NODE_CALL" "mn_call_kind lone_exit = CALL_EXIT"
    by (simp_all add: lone_exit_def copy_record_def zero_record_def)
  have "calls_of a = Some \<lparr>cs_keys = [(mn_pid lone_exit, mn_context_id lone_exit)], cs_open = (\<lambda>_. []),
      cs_calls = 1, cs_lines = trace_line lone_exit 0 False, cs_reports = [?f]\<rparr>"
    unfolding calls_of_def o(4) start using line fits lone
    by (simp add: calls_step_def note_key_def exit_step_def note_line_def note_report_def Let_def)
  then have "\<exists>c. trace_result a = Some c \<and> within c \<and> map of_diagnostic_id (cs_reports c) = [''P101-TRACE-001'']"
    using line fits(2) by (simp add: trace_result_def open_reports_def within_def TRACE_TREE_LIMIT_def
        TRACE_LINE_SIZE_def FINDING_LIMIT_def)
  then obtain c where c: "trace_result a = Some c" "within c"
    "map of_diagnostic_id (cs_reports c) = [''P101-TRACE-001'']" by (elim exE conjE) (rule that)
  obtain b a1 w1 where r: "analyze_trace (a, w) = Some (b, a1, w1)"
    "b \<longrightarrow> (\<exists>c. trace_result a = Some c \<and> reports a1 = cs_reports c)"
    "ample w \<and> (\<exists>c. trace_result a = Some c \<and> within c) \<longrightarrow> b"
    using trace_refines_calls [OF o(1)] by (elim exE conjE) (rule that, assumption, metis, assumption)
  from r(3) c(1,2) o(2) have b: "b" by blast
  with r(2) c(1) have "reports a1 = cs_reports c" by simp
  with c(3) have "map of_diagnostic_id (reports a1) = [''P101-TRACE-001'']" by simp
  with o(1) r(1) b show ?thesis
    by (intro exI [of _ a] exI [of _ w] exI [of _ a1] exI [of _ w1]) simp
qed

text \<open>Claim C39. The table of contexts has as many places as the order has nodes, but a fork needs two. A
  run whose only event is the fork of another process is therefore refused: the trace policy
  fails with EOVERFLOW, although memory is available.\<close>

theorem lone_fork_refused:
  assumes "ordered_nodes a = [n]" and "mn_domain n = NODE_RESOURCE" and "mn_record_kind n = RECORD_FORK"
    and "mn_child_pid n \<noteq> mn_pid n" and "ample w"
  shows "\<exists>a1 w1. analyze_trace (a, w) = Some (False, a1, w1) \<and>
    w_raised w1 = w_raised w @ [Errno_Error EOVERFLOW]"
proof -
  from heap_request_ample [OF assms(5)] obtain w1 where w1: "heap_request w = (True, w1)" "ample w1"
    "w_raised w1 = w_raised w" by blast
  from heap_request_ample [OF w1(2)] obtain w2 where w2: "heap_request w1 = (True, w2)"
    "w_raised w2 = w_raised w1" by blast
  have nodes: "ordered_nodes (a\<lparr>an_trace_contexts := x\<rparr>) = [n]" for x
    using assms(1) by (simp add: ordered_nodes_def)
  let ?k = "(mn_pid n, mn_context_id n)" and ?child = "(mn_child_pid n, mn_context_id n)"
  let ?s = "(a\<lparr>an_trace_contexts := Some []\<rparr>, w2)"
  let ?s1 = "(a\<lparr>an_trace_contexts := Some [new_trace_context ?k]\<rparr>, w2)"
  have parent: "find_trace_context ?s ?k = (Some 0, ?s1)"
    by (simp add: find_trace_context_def trace_table_def put_trace_table_def nodes key_index_def)
  have key: "trace_key (new_trace_context ?k) = ?k" by (simp add: trace_key_def new_trace_context_def)
  have "key_index trace_key [new_trace_context ?k] ?child = None"
    using assms(4) key by (simp add: key_index_def)
  then have child: "find_trace_context ?s1 ?child = (None, fst ?s1, raise_errno EOVERFLOW w2)"
    by (simp add: find_trace_context_def trace_table_def nodes)
  have "trace_step 0 [] ?s = Some (False, [], fst ?s1, raise_errno EOVERFLOW w2)"
    using assms(2,3) parent child by (simp add: trace_step_def trace_fork_def nodes)
  then have "analyze_trace (a, w) = Some (False, fst ?s1, raise_errno EOVERFLOW w2)"
    using w1(1) w2(1) assms(1) by (simp add: analyze_trace_def Let_def)
  with w1(3) w2(2) show ?thesis by (simp add: world_simps)
qed

definition lone_fork :: model_node where
  "lone_fork = copy_record (zero_record\<lparr>ev_version := 5, ev_run_id := Some ''r'', ev_pid := 7,
     ev_record_kind := RECORD_FORK, ev_child_pid := 8\<rparr>)"

theorem lone_fork_refused_witness:
  "\<exists>a w a1 w1. analysis_reachable (a, w) \<and> ordered_nodes a = [lone_fork] \<and>
     analyze_trace (a, w) = Some (False, a1, w1)"
proof -
  obtain a w where o: "analysis_reachable (a, w)" "ample w" "fresh a" "ordered_nodes a = [lone_fork]"
    by (rule single_start)
  have "mn_domain lone_fork = NODE_RESOURCE" "mn_record_kind lone_fork = RECORD_FORK"
    "mn_child_pid lone_fork \<noteq> mn_pid lone_fork"
    by (simp_all add: lone_fork_def copy_record_def zero_record_def)
  from lone_fork_refused [OF o(4) this o(2)] o(1,4) show ?thesis by blast
qed

subsection \<open>The synchronization policy\<close>

text \<open>The search of the lock and wait graphs decides reachability: with memory available it
  answers whether the target is reachable from the source over the edges (it is from itself),
  and it never writes outside its two arrays, although these have only one place more than the
  edges and vertices may be pushed more than once.\<close>

theorem sync_reaches_exact:
  assumes "ample w"
  shows "\<exists>w1. sync_reaches es src dst w =
    Some ((src, dst) \<in> {(se_from e, se_to e) | e. e \<in> set es}\<^sup>*, w1)"
proof -
  have "{(se_from e, se_to e) | e. e \<in> set es} = edge_set es" by (auto simp: edge_set_def)
  with sync_reaches_result [OF assms, of es src dst] show ?thesis by (simp only:) blast
qed

theorem sync_reaches_exact_witness:
  "\<exists>w1. sync_reaches [\<lparr>se_from = ''a'', se_to = ''b''\<rparr>, \<lparr>se_from = ''b'', se_to = ''c''\<rparr>] ''a'' ''c''
     calm_world = Some (True, w1)"
proof -
  let ?es = "[\<lparr>se_from = ''a'', se_to = ''b''\<rparr>, \<lparr>se_from = ''b'', se_to = ''c''\<rparr>]"
  let ?R = "{(se_from e, se_to e) | e. e \<in> set ?es}"
  have e: "(''a'', ''b'') \<in> ?R" "(''b'', ''c'') \<in> ?R" by force+
  have "(''a'', ''c'') \<in> ?R\<^sup>*" by (rule rtrancl_trans [OF r_into_rtrancl [OF e(1)] r_into_rtrancl [OF e(2)]])
  with sync_reaches_exact [OF ample_calm, of ?es "''a''" "''c''"] show ?thesis by simp
qed

text \<open>Claim C37. The search for a finding that has been made already reads the texts of the findings
  before it. It is defined exactly as long as the array of findings has never been moved: from
  the seventeenth finding on, the first further synchronization finding reads freed memory.\<close>

theorem sync_finding_defined_iff:
  assumes "analysis_reachable (a, w)"
  shows "add_sync_finding (a, w) identifier n src dst = None \<longleftrightarrow> 16 < an_finding_capacity a"
  using add_sync_finding_undefined [of "(a, w)"] analysis_reachable_stored [OF assms] by simp

theorem sync_finding_defined_iff_witness:
  "\<exists>a w. analysis_reachable (a, w) \<and> length (an_findings a) = 17 \<and>
     add_sync_finding (a, w) ''P101-SYNC-004'' empty_node ''x'' ''y'' = None"
proof -
  have "(17 :: nat) \<le> FINDING_LIMIT" by (simp add: FINDING_LIMIT_def)
  then obtain a w a1 w1 where e: "analysis_reachable (a, w)" "analyze_resources (a, w) = (True, a1, w1)"
    "reports a1 = replicate 17 (empty_allocation_report empty_node)" by (rule empty_run_analyzed)
  from analysis_reachable.resources [OF e(1,2)] have reach: "analysis_reachable (a1, w1)" .
  have n: "length (an_findings a1) = 17" using arg_cong [OF e(3), of length] by (simp add: reports_def)
  have "stored a1" using analysis_reachable_stored [OF reach] by simp
  with n have "16 < an_finding_capacity a1" by (simp add: stored_def)
  with sync_finding_defined_iff [OF reach, of "''P101-SYNC-004''" empty_node "''x''" "''y''"] reach n
  show ?thesis by blast
qed

definition lock_event :: "resource_kind \<Rightarrow> nat \<Rightarrow> string \<Rightarrow> model_node" where
  "lock_event kind i name = copy_record (zero_record\<lparr>ev_version := 5, ev_run_id := Some ''r'', ev_pid := 7,
     ev_context_id := 1, ev_sequence := i, ev_record_kind := RECORD_RESOURCE, ev_resource_kind := kind,
     ev_resource_class := Some ''pthread-mutex-held'', ev_resource_id := Some name\<rparr>)"

lemma lock_event_texts:
  "is_sync_node (lock_event kind i name)" "held_class (mn_resource_class (lock_event kind i name))"
  "mn_resource_kind (lock_event kind i name) = kind" "mn_pid (lock_event kind i name) = 7"
  "mn_context_id (lock_event kind i name) = 1" "mn_sequence (lock_event kind i name) = i"
  "mn_resource_id (lock_event kind i name) = name"
  by (simp_all add: lock_event_def copy_record_def zero_record_def is_sync_node_def
      synchronization_class_def held_class_def node_resource_class_def)

lemma lock_event_lock:
  assumes "c \<noteq> CHR ''@''"
  shows "lock_of (lock_event kind i [c]) = (''7:1'', [CHR ''7'', CHR '':'', c])"
proof -
  have d: "decimal 1 = ''1''" "signed_decimal 7 = ''7''"
    by (simp_all add: signed_decimal_def decimal.simps [of "Suc 0"] decimal.simps [of 7] digit_char_def)
  have "format_sync_thread (lock_event kind i [c]) = ''7:1''"
    using d by (simp add: format_sync_thread_def lock_event_texts snprintf_text_def EVIDENCE_TEXT_SIZE_def)
  moreover have "format_sync_resource (lock_event kind i [c]) [c] = [CHR ''7'', CHR '':'', c]"
    using assms by (simp add: format_sync_resource_def lock_event_texts d(2) EVIDENCE_TEXT_SIZE_def)
  ultimately show ?thesis by (simp add: lock_of_def lock_event_texts)
qed

text \<open>Claim C36. The graph of lock orders is allocated for as many edges as the order has nodes, but a
  lock that is acquired adds one edge for every lock held. When the only synchronization events
  of the order are acquisitions of pairwise distinct locks by one thread, \<open>m\<close> of them, and any
  other events stand among them, the policy writes outside that array exactly when
  \<open>m * (m - 1) / 2\<close> exceeds the number of all nodes of the order; so when the order consists of
  these acquisitions alone, exactly from four locks on.\<close>

theorem nested_locks_defined_iff:
  assumes "\<forall>n \<in> set (ordered_nodes a). is_sync_node n \<longrightarrow> acquires_lock n \<and> fst (lock_of n) = t"
    and "distinct (map (\<lambda>n. snd (lock_of n)) (filter is_sync_node (ordered_nodes a)))" and "ample w"
    and "m = length (filter is_sync_node (ordered_nodes a))"
  shows "(analyze_synchronization (a, w) = None \<longleftrightarrow> 2 * length (ordered_nodes a) < m * (m - 1)) \<and>
    (m = length (ordered_nodes a) \<longrightarrow> (analyze_synchronization (a, w) = None \<longleftrightarrow> 4 \<le> m))"
proof -
  have gauss: "2 * (\<Sum>i<k. i) = k * (k - 1)" for k :: nat
  proof (induction k)
    case (Suc k)
    then show ?case by (cases k) (simp_all add: algebra_simps)
  qed simp
  have "analyze_synchronization (a, w) = None \<longleftrightarrow> length (ordered_nodes a) < (\<Sum>i<m. i)"
    unfolding assms(4) by (rule nested_locks_run [OF _ assms(2,3)]) (use assms(1) in auto)
  then have bound: "analyze_synchronization (a, w) = None \<longleftrightarrow> 2 * length (ordered_nodes a) < m * (m - 1)"
    using gauss [of m] by linarith
  have "2 * m < m * (m - 1) \<longleftrightarrow> 0 < m \<and> 2 < m - 1"
    by (simp only: mult.commute [of 2] mult_less_cancel1)
  then have "2 * m < m * (m - 1) \<longleftrightarrow> 4 \<le> m" by auto
  with bound show ?thesis by metis
qed

theorem nested_locks_defined_iff_witness:
  "\<exists>a w. analysis_reachable (a, w) \<and> analyze_synchronization (a, w) = None \<and>
     mset (ordered_nodes a) = mset (map (\<lambda>(i, name). lock_event RESOURCE_ACQUIRE i name)
       [(1, ''a''), (2, ''b''), (3, ''c''), (4, ''d'')])"
proof -
  let ?ns = "map (\<lambda>(i, name). lock_event RESOURCE_ACQUIRE i name) [(1, ''a''), (2, ''b''), (3, ''c''), (4, ''d'')]"
  have "in_sequence ?ns"
    by (auto simp: in_sequence_def lock_event_texts less_Suc_eq nth_Cons')
  moreover have "length ?ns \<le> SIZE_MAX" by (simp add: SIZE_MAX_def)
  ultimately obtain a w where o: "analysis_reachable (a, w)" "ample w" "fresh a"
    "mset (ordered_nodes a) = mset ?ns" by (rule plain_start)
  have set: "set (ordered_nodes a) = set ?ns" using arg_cong [OF o(4), of set_mset] by simp
  have len: "length (ordered_nodes a) = 4" using arg_cong [OF o(4), of size] by simp
  have all: "\<forall>n \<in> set (ordered_nodes a). is_sync_node n \<longrightarrow> acquires_lock n \<and> fst (lock_of n) = ''7:1''"
    unfolding set by (simp add: acquires_lock_def lock_event_texts lock_event_lock)
  have whole: "filter is_sync_node (ordered_nodes a) = ordered_nodes a"
    by (rule filter_True) (simp add: set lock_event_texts)
  have "mset (map (\<lambda>n. snd (lock_of n)) (ordered_nodes a)) = mset (map (\<lambda>n. snd (lock_of n)) ?ns)"
    unfolding mset_map o(4) ..
  then have "distinct (map (\<lambda>n. snd (lock_of n)) (ordered_nodes a)) =
      distinct (map (\<lambda>n. snd (lock_of n)) ?ns)" by (rule mset_eq_imp_distinct_iff)
  then have "distinct (map (\<lambda>n. snd (lock_of n)) (filter is_sync_node (ordered_nodes a)))"
    by (simp add: lock_event_lock whole)
  from nested_locks_defined_iff [OF all this o(2) refl] have "analyze_synchronization (a, w) = None"
    by (simp add: whole len)
  with o(1,4) show ?thesis by (intro exI [of _ a] exI [of _ w]) simp
qed










subsection \<open>The run\<close>

text \<open>A run goes through reachable states only, whatever it returns, so that the invariants
  of the findings hold after it; and an analysis that has an order cannot be run again: the
  second run is refused with EINVAL and changes nothing.\<close>

theorem analysis_run_reachable:
  assumes "analysis_reachable (a, w)" and "analysis_run (Some a, w) path = Some (b, Some a1, w1)"
  shows "(\<exists>w2. analysis_reachable (a1, w2)) \<and>
    (an_ordered a \<noteq> None \<longrightarrow> \<not> b \<and> a1 = a \<and> w1 = raise_errno EINVAL w)"
proof (cases "an_ordered a")
  case (Some xs)
  with assms show ?thesis by (auto simp: analysis_run_def)
next
  case None
  have chain: "analysis_reachable s2" if "and_then r f = Some (b2, s2)"
    "\<And>b1 s1. r = Some (b1, s1) \<Longrightarrow> analysis_reachable s1"
    "\<And>s b1 s1. analysis_reachable s \<Longrightarrow> f s = Some (b1, s1) \<Longrightarrow> analysis_reachable s1"
    for r f b2 s2
  proof (cases r)
    case (Some x)
    obtain c s where "x = (c, s)" by (cases x)
    with Some have r: "r = Some (c, s)" by simp
    note s = that(2) [OF r]
    from that(1) have "if c then f s = Some (b2, s2) else s2 = s" by (auto simp: r and_then_def split: if_splits)
    with s that(3) [OF s] show ?thesis by (cases c) simp_all
  qed (use that in \<open>simp add: and_then_def\<close>)
  from assms(2) None obtain s2 where run: "and_then (and_then (and_then (and_then (build_causal_order (a, w))
      (\<lambda>s. Some (analyze_resources s))) analyze_synchronization) analyze_trace)
      (\<lambda>s. Some (analyze_sanitizer s path)) = Some (b, s2)" "s2 = (a1, w1)"
    by (auto simp: analysis_run_def)
  have "analysis_reachable s2"
    by (rule chain [OF run(1)], rule chain, assumption, rule chain, assumption, rule chain, assumption)
      (auto intro: analysis_reachable.intros assms(1))
  with run(2) None show ?thesis by auto
qed

theorem analysis_run_reachable_witness:
  "\<exists>a w. analysis_reachable (a, w) \<and> ordered_nodes a = [lone_exit] \<and>
     analysis_run (Some a, w) None = Some (False, Some a, raise_errno EINVAL w)"
proof -
  obtain a w where o: "analysis_reachable (a, w)" "ample w" "fresh a" "ordered_nodes a = [lone_exit]"
    by (rule single_start)
  then have "an_ordered a \<noteq> None" by (auto simp: ordered_nodes_def split: option.splits)
  then obtain b a1 w1 where run: "analysis_run (Some a, w) None = Some (b, Some a1, w1)"
    by (auto simp: analysis_run_def)
  from analysis_run_reachable [OF o(1) run] \<open>an_ordered a \<noteq> None\<close> run o(1,4) show ?thesis by auto
qed

end
