(* ===== verification/Sanitizer_Lines.thy ===== *)
theory Sanitizer_Lines
  imports Analysis_Policies
begin

section \<open>The findings of a sanitizer report\<close>

text \<open>
  What the sanitizer policy should make of a report, said without the functions that do it: the
  lines of the file, where a phrase stands first in a line, and the finding of a line.
\<close>

subsection \<open>Lines and phrases\<close>

text \<open>The lines of a text: every line but the last one ends with its only newline, the last one may
  have none.\<close>

definition lines_of :: "string \<Rightarrow> string list \<Rightarrow> bool" where
  "lines_of text ls \<longleftrightarrow> concat ls = text \<and>
     (\<forall>l\<in>set ls. l \<noteq> [] \<and> NL \<notin> set (butlast l)) \<and> (\<forall>l\<in>set (butlast ls). last l = NL)"

text \<open>\<open>d\<close> is the part of the text from the first place on at which the phrase stands.\<close>

definition first_at :: "string \<Rightarrow> string \<Rightarrow> string \<Rightarrow> bool" where
  "first_at phrase text d \<longleftrightarrow>
     (\<exists>u v. text = u @ d \<and> d = phrase @ v \<and>
        (\<forall>u' v'. text = u' @ phrase @ v' \<longrightarrow> length u \<le> length u'))"

definition holds :: "string \<Rightarrow> string \<Rightarrow> bool" where
  "holds phrase text \<longleftrightarrow> (\<exists>u v. text = u @ phrase @ v)"

text \<open>The four phrases, in the order in which they are looked for.\<close>

definition says :: "string \<Rightarrow> string \<Rightarrow> string \<Rightarrow> string \<Rightarrow> bool" where
  "says t identifier message d \<longleftrightarrow>
     first_at ''AddressSanitizer:'' t d \<and> identifier = ''P101-SAN-001'' \<and>
       message = ''AddressSanitizer reported an invalid memory access'' \<or>
     \<not> holds ''AddressSanitizer:'' t \<and> first_at ''LeakSanitizer:'' t d \<and>
       identifier = ''P101-SAN-002'' \<and> message = ''LeakSanitizer reported leaked memory'' \<or>
     \<not> holds ''AddressSanitizer:'' t \<and> \<not> holds ''LeakSanitizer:'' t \<and>
       first_at ''runtime error:'' t d \<and> identifier = ''P101-SAN-003'' \<and>
       message = ''UndefinedBehaviorSanitizer reported undefined behavior'' \<or>
     \<not> holds ''AddressSanitizer:'' t \<and> \<not> holds ''LeakSanitizer:'' t \<and> \<not> holds ''runtime error:'' t \<and>
       first_at ''ThreadSanitizer:'' t d \<and> identifier = ''P101-SAN-004'' \<and>
       message = ''ThreadSanitizer reported a data race or synchronization defect''"

definition says_something :: "string \<Rightarrow> bool" where
  "says_something t \<longleftrightarrow> (\<exists>phrase\<in>{''AddressSanitizer:'', ''LeakSanitizer:'', ''runtime error:'',
     ''ThreadSanitizer:''}. holds phrase t)"

text \<open>A line as a C string, and the finding of the line with a number.\<close>

definition before_nul :: "string \<Rightarrow> string" where
  "before_nul line = takeWhile (\<lambda>c. c \<noteq> CHR 0x00) line"

definition finding_for :: "nat \<times> string \<Rightarrow> owned_finding \<Rightarrow> bool" where
  "finding_for nl f \<longleftrightarrow>
     says (before_nul (snd nl)) (of_diagnostic_id f) (of_message f) (of_evidence_detail f) \<and>
     of_policy f = POLICY_SANITIZER \<and> of_file_name f = ''stderr.txt'' \<and> of_function_name f = ''?'' \<and>
     of_node_id f = take 383 (''resource:stderr:0:0:'' @ decimal (fst nl) @ '':fd'') \<and>
     of_line_number f = (int (fst nl) + 2 ^ 31) mod 2 ^ 32 - 2 ^ 31 \<and>
     of_evidence_from f = [] \<and> of_evidence_to f = [] \<and> of_block f = 0"

definition speaking :: "string list \<Rightarrow> (nat \<times> string) list" where
  "speaking ls = filter (\<lambda>(n, line). says_something (before_nul line)) (enumerate 1 ls)"

subsection \<open>The functions of the policy\<close>

lemma next_line_split:
  assumes "next_line (c # cs) = (l, rest)"
  shows "l @ rest = c # cs \<and> l \<noteq> [] \<and> NL \<notin> set (butlast l) \<and> (rest \<noteq> [] \<longrightarrow> last l = NL)"
  using assms
proof (induction cs arbitrary: c l)
  case Nil
  then show ?case by (auto split: if_splits)
next
  case (Cons d cs)
  show ?case
  proof (cases "c = NL")
    case True
    with Cons.prems show ?thesis by auto
  next
    case False
    obtain l1 r1 where l1: "next_line (d # cs) = (l1, r1)" by (rule prod.exhaust)
    with False Cons.prems have "l = c # l1" "rest = r1" by (simp_all del: next_line.simps add: next_line.simps(2) [of c])
    with Cons.IH [of d l1] l1 False show ?thesis by auto
  qed
qed

lemma lines_of_Cons:
  "lines_of text (l # ls) \<longleftrightarrow> (\<exists>rest. text = l @ rest \<and> lines_of rest ls \<and> l \<noteq> [] \<and>
     NL \<notin> set (butlast l) \<and> (ls \<noteq> [] \<longrightarrow> last l = NL))"
  by (auto simp: lines_of_def)

lemma lines_of_empty [simp]: "lines_of [] ls \<longleftrightarrow> ls = []"
  by (cases ls) (auto simp: lines_of_def)

lemma line_unique:
  assumes "l @ r = l' @ r'" and "l \<noteq> []" and "NL \<notin> set (butlast l)" and "r \<noteq> [] \<longrightarrow> last l = NL"
    and "l' \<noteq> []" and "NL \<notin> set (butlast l')" and "r' \<noteq> [] \<longrightarrow> last l' = NL"
  shows "l = l' \<and> r = r'"
proof -
  have no: "False" if "l1 @ r1 = l2 @ r2" "length l1 < length l2" "l1 \<noteq> []" "last l1 = NL \<or> r1 = []"
    "NL \<notin> set (butlast l2)" for l1 l2 r1 r2 :: string
  proof -
    from that(1,2) obtain z where z: "l2 = l1 @ z" "z \<noteq> []"
      by (metis append_eq_append_conv_if append_take_drop_id drop_eq_Nil le_less_linear less_imp_le_nat linorder_not_less)
    with that(1) have "r1 \<noteq> []" by auto
    with that(3,4) z that(5) show False
      by (metis append_butlast_last_id butlast_append in_set_conv_decomp append.assoc append_Cons)
  qed
  from no [of l r l' r'] no [of l' r' l r] assms have "length l = length l'"
    by (metis linorder_neqE_nat)
  with assms(1) show ?thesis by simp
qed

lemma delivered_lines: "lines_of bytes ls \<longleftrightarrow> ls = delivered At_EOF bytes"
proof (induction "length bytes" arbitrary: bytes ls rule: less_induct)
  case less
  show ?case
  proof (cases bytes)
    case (Cons c cs)
    obtain l rest where l: "next_line (c # cs) = (l, rest)" by (rule prod.exhaust)
    note sp = next_line_split [OF l]
    have step: "delivered At_EOF bytes = l # delivered At_EOF rest"
      using l Cons by (simp del: next_line.simps)
    have tail: "lines_of rest ls' \<longleftrightarrow> ls' = delivered At_EOF rest" for ls'
      using less [of rest] next_line_shorter [OF l] Cons by simp
    show ?thesis
    proof (cases ls)
      case Nil
      then show ?thesis using step Cons by (simp add: lines_of_def)
    next
      case (Cons l' ls')
      have "lines_of bytes (l' # ls') \<longleftrightarrow> l' = l \<and> lines_of rest ls'"
      proof
        assume "lines_of bytes (l' # ls')"
        then obtain rest' where r: "bytes = l' @ rest'" "lines_of rest' ls'" "l' \<noteq> []"
          "NL \<notin> set (butlast l')" "ls' \<noteq> [] \<longrightarrow> last l' = NL" by (auto simp: lines_of_Cons)
        have "rest' \<noteq> [] \<longrightarrow> last l' = NL" using r(2,5) by (auto simp: lines_of_def)
        with line_unique [of l rest l' rest'] sp r \<open>bytes = c # cs\<close> have "l = l' \<and> rest = rest'" by simp
        with r(2) show "l' = l \<and> lines_of rest ls'" by simp
      next
        assume h: "l' = l \<and> lines_of rest ls'"
        then have "ls' \<noteq> [] \<longrightarrow> rest \<noteq> []" by auto
        with h sp \<open>bytes = c # cs\<close> show "lines_of bytes (l' # ls')"
          by (auto simp: lines_of_Cons intro!: exI [of _ rest])
      qed
      with Cons step tail show ?thesis by simp
    qed
  qed simp
qed

lemma strstr_None: "strstr t p = None \<longleftrightarrow> \<not> holds p t"
proof (induction t)
  case Nil
  then show ?case by (auto simp: holds_def)
next
  case (Cons c t)
  have "holds p (c # t) \<longleftrightarrow> take (length p) (c # t) = p \<or> holds p t"
  proof
    assume "holds p (c # t)"
    then obtain u v where uv: "c # t = u @ p @ v" by (auto simp: holds_def)
    show "take (length p) (c # t) = p \<or> holds p t"
    proof (cases u)
      case Nil
      with uv have "take (length p) (c # t) = take (length p) (p @ v)" by simp
      then show ?thesis by simp
    next
      case (Cons d u')
      with uv have "t = u' @ p @ v" by simp
      then show ?thesis unfolding holds_def by blast
    qed
  next
    assume "take (length p) (c # t) = p \<or> holds p t"
    then show "holds p (c # t)"
    proof
      assume "take (length p) (c # t) = p"
      then have "c # t = [] @ p @ drop (length p) (c # t)" by (metis append_Nil append_take_drop_id)
      then show ?thesis unfolding holds_def by blast
    next
      assume "holds p t"
      then obtain u v where "t = u @ p @ v" by (auto simp: holds_def)
      then have "c # t = (c # u) @ p @ v" by simp
      then show ?thesis unfolding holds_def by blast
    qed
  qed
  with Cons.IH show ?case by (auto split: if_splits)
qed

lemma first_at_unique: "first_at p t d \<Longrightarrow> first_at p t d' \<Longrightarrow> d = d'"
proof -
  assume "first_at p t d" "first_at p t d'"
  then obtain u v u' v' where h: "t = u @ d" "d = p @ v" "t = u' @ d'" "d' = p @ v'"
    "\<And>x y. t = x @ p @ y \<Longrightarrow> length u \<le> length x" "\<And>x y. t = x @ p @ y \<Longrightarrow> length u' \<le> length x"
    unfolding first_at_def by blast
  have "length u \<le> length u'" "length u' \<le> length u" using h(5) [of u' v'] h(6) [of u v] h(1-4) by simp_all
  with h(1,3) show "d = d'" by simp
qed

lemma strstr_first: "strstr t p = Some d \<Longrightarrow> first_at p t d"
proof (induction t)
  case Nil
  then show ?case by (auto simp: first_at_def split: if_splits)
next
  case (Cons c t)
  show ?case
  proof (cases "take (length p) (c # t) = p")
    case True
    with Cons.prems have d: "d = c # t" by simp
    obtain v where "c # t = p @ v" using append_take_drop_id [of "length p" "c # t"] True by metis
    with d show ?thesis unfolding first_at_def by (intro exI [of _ "[]"] exI [of _ v]) simp
  next
    case False
    with Cons.prems have "strstr t p = Some d" by simp
    from Cons.IH [OF this] obtain u v where uv: "t = u @ d" "d = p @ v"
      "\<And>x y. t = x @ p @ y \<Longrightarrow> length u \<le> length x" unfolding first_at_def by blast
    have "length (c # u) \<le> length x" if x: "c # t = x @ p @ y" for x y
    proof (cases x)
      case Nil
      with x have "take (length p) (c # t) = take (length p) (p @ y)" by simp
      with False show ?thesis by simp
    next
      case (Cons e x')
      with x uv(3) [of x' y] show ?thesis by simp
    qed
    with uv(1,2) show ?thesis unfolding first_at_def by (intro exI [of _ "c # u"] exI [of _ v]) auto
  qed
qed

lemma strstr_Some: "strstr t p = Some d \<longleftrightarrow> first_at p t d"
proof
  assume f: "first_at p t d"
  then have "holds p t" unfolding first_at_def holds_def by blast
  then obtain d' where "strstr t p = Some d'" using strstr_None [of t p] by (cases "strstr t p") auto
  with first_at_unique [OF f strstr_first [OF this]] show "strstr t p = Some d" by simp
qed (rule strstr_first)

lemma find_mark_says:
  "(\<exists>i. find_mark 0 sanitizer_marks t = Some (i, identifier, message, d)) \<longleftrightarrow> says t identifier message d"
  by (simp add: sanitizer_marks_def says_def strstr_Some [symmetric] strstr_None [symmetric] split: option.split)
    (auto split: option.splits)

lemma find_mark_None: "find_mark 0 sanitizer_marks t = None \<longleftrightarrow> \<not> says_something t"
  by (auto simp: sanitizer_marks_def says_something_def strstr_None [symmetric] split: option.splits)

lemma mark_report_finding:
  assumes "find_mark 0 sanitizer_marks (c_string line) = Some m"
  shows "finding_for (n, line) (mark_report n m)"
proof -
  obtain i ident message d where m: "m = (i, ident, message, d)" by (rule prod_cases4)
  have "says (before_nul line) ident message d"
    using assms unfolding m c_string_def before_nul_def by (rule find_mark_says [THEN iffD1, OF exI])
  moreover have "format_node_id (Some (synthetic_node n)) =
      take 383 (''resource:stderr:0:0:'' @ decimal n @ '':fd'')"
    by (simp add: format_node_id_def synthetic_node_def snprintf_text_def NODE_ID_SIZE_def node_kind_def
        signed_decimal_def decimal.simps [of 0] digit_char_def)
  ultimately show ?thesis
    by (simp add: m finding_for_def mark_report_def finding_of_def synthetic_node_def int_of_size_def)
qed

lemma marked_findings: "list_all2 finding_for (filter (\<lambda>(n, line). says_something (before_nul line))
    (enumerate (Suc n) ls)) (marked n ls)"
proof (induction ls arbitrary: n)
  case (Cons line ls)
  have "find_mark 0 sanitizer_marks (c_string line) = None \<longleftrightarrow> \<not> says_something (before_nul line)"
    by (simp add: find_mark_None c_string_def before_nul_def)
  with Cons.IH [of "Suc n"] mark_report_finding [of line _ "Suc n"] show ?case
    by (auto split: option.split)
qed simp

lemma fitting_details:
  assumes "list_all2 finding_for nls fs"
  shows "list_all quotes_fit fs \<longleftrightarrow> (\<forall>f\<in>set fs. length (of_evidence_detail f) < 192)"
proof -
  have "of_evidence_from f = [] \<and> of_evidence_to f = []" if "f \<in> set fs" for f
  proof -
    from that obtain i where "i < length fs" "f = fs ! i" by (auto simp: in_set_conv_nth)
    with list_all2_nthD2 [OF assms] obtain nl where "finding_for nl f" by blast
    then show ?thesis by (simp add: finding_for_def)
  qed
  then show ?thesis by (simp add: list_all_iff quotes_fit_def EVIDENCE_TEXT_SIZE_def)
qed

text \<open>Claim C38. The sanitizer policy is run from a reachable state, with memory available and room
  below the limit of findings for every line that speaks, on a report file that is read to its
  end and closed without an error. The report is split into its lines, and every line in which,
  up to its first NUL, one of the phrases AddressSanitizer:, LeakSanitizer:, runtime error: or
  ThreadSanitizer: stands becomes one finding, in the order of the lines. Its identifier and
  message are those of the first of the four phrases, in that order, that the line holds; its
  detail is the line from the first place of that phrase on, up to its first NUL; its line
  number is that of the line, counted from one. The policy succeeds exactly when each of these
  details is shorter than 192 bytes; then the findings are appended to those that were there,
  and every line is counted.\<close>

theorem sanitizer_findings_exact:
  assumes "analysis_reachable (a, w)" and "ample w"
    and "st_end (of_stream f) = At_EOF" and "of_close f = None"
    and "lines_of (st_bytes (of_stream f)) ls"
    and "length (an_findings a) + length (speaking ls) \<le> FINDING_LIMIT"
  shows "\<exists>fs a1 w1. list_all2 finding_for (speaking ls) fs \<and>
    analyze_sanitizer (a, w) (Some (Inr f)) = ((\<forall>f\<in>set fs. length (of_evidence_detail f) < 192), a1, w1) \<and>
    ((\<forall>f\<in>set fs. length (of_evidence_detail f) < 192) \<longrightarrow> reports a1 = reports a @ fs \<and>
      an_sanitizer_records a1 = an_sanitizer_records a + length ls)"
proof -
  let ?fs = "marked 0 ls"
  have all: "list_all2 finding_for (speaking ls) ?fs"
    using marked_findings [of 0 ls] by (simp add: speaking_def)
  have ls: "ls = delivered At_EOF (st_bytes (of_stream f))" using assms(5) by (simp add: delivered_lines)
  have "kept a" using analysis_reachable_kept [OF assms(1)] by simp
  with sanitizer_all_result [of "(a, w)" 0 ls] assms(2,6) list_all2_lengthD [OF all] obtain a1 w1 where
    "sanitizer_all 0 ls (a, w) = (list_all quotes_fit ?fs, a1, w1)"
    "list_all quotes_fit ?fs \<longrightarrow> reports a1 = reports a @ ?fs \<and>
      an_sanitizer_records a1 = an_sanitizer_records a + length ls" by auto
  then have "analyze_sanitizer (a, w) (Some (Inr f)) = (list_all quotes_fit ?fs, a1, w1)"
    "list_all quotes_fit ?fs \<longrightarrow> reports a1 = reports a @ ?fs \<and>
      an_sanitizer_records a1 = an_sanitizer_records a + length ls"
    using assms(3,4) ls by (simp_all add: analyze_sanitizer_def sanitizer_lines_all Let_def)
  with all show ?thesis unfolding fitting_details [OF all] by blast
qed

text \<open>A report of three lines, two of which speak.\<close>

definition sanitizer_report :: opened_file where
  "sanitizer_report = \<lparr>of_stream = \<lparr>st_bytes = ''==9==ERROR: AddressSanitizer: heap'' @ [NL] @ ''done'' @ [NL] @
     ''ThreadSanitizer: data race'', st_end = At_EOF\<rparr>, of_close = None\<rparr>"

lemma sanitizer_report_marks:
  "delivered At_EOF (st_bytes (of_stream sanitizer_report)) =
     [''==9==ERROR: AddressSanitizer: heap'' @ [NL], ''done'' @ [NL], ''ThreadSanitizer: data race'']"
  "map (\<lambda>f. (of_diagnostic_id f, of_evidence_detail f))
     (marked 0 (delivered At_EOF (st_bytes (of_stream sanitizer_report)))) =
     [(''P101-SAN-001'', ''AddressSanitizer: heap'' @ [NL]), (''P101-SAN-004'', ''ThreadSanitizer: data race'')]"
  by (simp_all add: sanitizer_report_def sanitizer_marks_def c_string_def mark_report_def finding_of_def)

lemma findings_unique: "list_all2 finding_for nls fs \<Longrightarrow> list_all2 finding_for nls fs' \<Longrightarrow> fs = fs'"
proof (induction nls arbitrary: fs fs')
  case (Cons nl nls)
  have said: "\<exists>i. find_mark 0 sanitizer_marks (before_nul (snd nl)) =
      Some (i, of_diagnostic_id f, of_message f, of_evidence_detail f)" if "finding_for nl f" for f
    by (rule find_mark_says [THEN iffD2]) (use that in \<open>simp only: finding_for_def\<close>)
  have "f = f'" if "finding_for nl f" "finding_for nl f'" for f f'
  proof -
    have "of_diagnostic_id f = of_diagnostic_id f' \<and> of_message f = of_message f' \<and>
        of_evidence_detail f = of_evidence_detail f'"
      using said [OF that(1)] said [OF that(2)] by (elim exE) simp
    with that show ?thesis by (simp add: finding_for_def owned_finding.equality)
  qed
  with Cons show ?case by (fastforce simp: list_all2_Cons1)
qed simp

theorem sanitizer_findings_exact_witness:
  "\<exists>a w a1 w1. analysis_reachable (a, w) \<and> analyze_sanitizer (a, w) (Some (Inr sanitizer_report)) = (True, a1, w1) \<and>
     map of_diagnostic_id (reports a1) = [''P101-SAN-001'', ''P101-SAN-004''] \<and> an_sanitizer_records a1 = 3"
proof -
  obtain a w where o: "analysis_reachable (a, w)" "ample w" "fresh a" "ordered_nodes a = [lone_exit]"
    by (rule single_start)
  let ?ls = "delivered At_EOF (st_bytes (of_stream sanitizer_report))"
  have lines: "lines_of (st_bytes (of_stream sanitizer_report)) ?ls" by (simp add: delivered_lines)
  have closed: "st_end (of_stream sanitizer_report) = At_EOF" "of_close sanitizer_report = None"
    by (simp_all add: sanitizer_report_def)
  have all: "list_all2 finding_for (speaking ?ls) (marked 0 ?ls)"
    using marked_findings [of 0 ?ls] by (simp add: speaking_def)
  have keys: "map of_diagnostic_id (marked 0 ?ls) = [''P101-SAN-001'', ''P101-SAN-004'']"
    "map of_evidence_detail (marked 0 ?ls) = [''AddressSanitizer: heap'' @ [NL], ''ThreadSanitizer: data race'']"
    using arg_cong [OF sanitizer_report_marks(2), of "map fst"] arg_cong [OF sanitizer_report_marks(2), of "map snd"]
    by (simp_all add: o_def)
  have "length (speaking ?ls) = 2"
    using list_all2_lengthD [OF all] arg_cong [OF keys(1), of length] by simp
  then have room: "length (an_findings a) + length (speaking ?ls) \<le> FINDING_LIMIT"
    using o(3) by (simp add: fresh_def FINDING_LIMIT_def)
  have short: "\<forall>f\<in>set (marked 0 ?ls). length (of_evidence_detail f) < 192"
  proof -
    have "\<forall>d\<in>set (map of_evidence_detail (marked 0 ?ls)). length d < 192" unfolding keys(2) by simp
    then show ?thesis by simp
  qed
  from sanitizer_findings_exact [OF o(1,2) closed lines room] obtain fs a1 w1 where
    fs: "list_all2 finding_for (speaking ?ls) fs"
    and run: "analyze_sanitizer (a, w) (Some (Inr sanitizer_report)) =
      ((\<forall>f\<in>set fs. length (of_evidence_detail f) < 192), a1, w1)"
    "(\<forall>f\<in>set fs. length (of_evidence_detail f) < 192) \<longrightarrow> reports a1 = reports a @ fs \<and>
      an_sanitizer_records a1 = an_sanitizer_records a + length ?ls" by blast
  have "fs = marked 0 ?ls" by (rule findings_unique [OF fs all])
  moreover have "reports a = []" "an_sanitizer_records a = 0" using o(3) by (simp_all add: fresh_def reports_def)
  moreover have "length ?ls = 3" by (simp add: sanitizer_report_marks(1))
  ultimately have "analyze_sanitizer (a, w) (Some (Inr sanitizer_report)) = (True, a1, w1)"
    "reports a1 = marked 0 ?ls" "an_sanitizer_records a1 = 3" using run short by simp_all
  with o(1) keys(1) show ?thesis
    by (intro exI [of _ a] exI [of _ w] exI [of _ a1] exI [of _ w1]) (simp del: marked.simps)
qed

end
