(* ===== verification/Output.thy ===== *)
theory Output
  imports Record_Lib
begin

section \<open>Writing to streams and files\<close>

text \<open>
  One output stream is open at a time. \<open>fputs\<close>, \<open>fputc\<close> and \<open>fprintf\<close> of one text are one call:
  the call takes the next answer of the stream, and appends its text when it succeeds; what a
  failing call leaves behind is not modelled. The writers of the code call one function after
  the other and stop at the first that fails, so that a writer is the list of its calls.
  In \<open>write_texts\<close> a text that cannot be read any more, because its buffer has moved, is \<open>None\<close>,
  and so is the result when the writer reaches it.
\<close>

record out_state =
  out_path :: "string option"
  out_text :: string
  out_answers :: "bool list"
  out_opens :: "errno option list"
  out_flushes :: "errno option option list"
  out_closes :: "errno option option list"
  out_files :: "(string \<times> string) list"

text \<open>
  Answers of the calls still to come (none left: all succeed): whether a write succeeds, the
  error of \<open>fopen\<close>, and for \<open>fflush\<close> and \<open>fclose\<close> the error with its \<open>errno\<close>, if that was set.
  \<open>out_path\<close> is the path of the open file and \<open>out_text\<close> what has been written to it;
  \<open>out_files\<close> are the files closed so far, by path.
\<close>

text \<open>A state with nothing written in which every call succeeds.\<close>

definition quiet_out :: out_state where
  "quiet_out = \<lparr>out_path = None, out_text = [], out_answers = [], out_opens = [], out_flushes = [],
     out_closes = [], out_files = []\<rparr>"

definition write_call :: "string \<Rightarrow> out_state \<Rightarrow> bool \<times> out_state" where
  "write_call t out =
     (case out_answers out of
        [] \<Rightarrow> (True, out\<lparr>out_text := out_text out @ t\<rparr>)
      | b # bs \<Rightarrow> (b, out\<lparr>out_text := out_text out @ (if b then t else []), out_answers := bs\<rparr>))"

fun write_calls :: "string list \<Rightarrow> out_state \<Rightarrow> bool \<times> out_state" where
  "write_calls [] out = (True, out)"
| "write_calls (t # ts) out =
     (case write_call t out of (True, out1) \<Rightarrow> write_calls ts out1 | (False, out1) \<Rightarrow> (False, out1))"

fun write_texts :: "string option list \<Rightarrow> out_state \<Rightarrow> (bool \<times> out_state) option" where
  "write_texts [] out = Some (True, out)"
| "write_texts (None # ts) out = None"
| "write_texts (Some t # ts) out =
     (case write_call t out of (True, out1) \<Rightarrow> write_texts ts out1 | (False, out1) \<Rightarrow> Some (False, out1))"

subsection \<open>Facts\<close>

definition writable :: "out_state \<Rightarrow> bool" where
  "writable out \<longleftrightarrow> list_all (\<lambda>b. b) (out_answers out)"

lemma write_calls_append:
  "write_calls (ts @ us) out = (case write_calls ts out of
     (True, out1) \<Rightarrow> write_calls us out1 | (False, out1) \<Rightarrow> (False, out1))"
  by (induction ts arbitrary: out) (auto split: prod.splits bool.splits)

lemma write_texts_Some: "write_texts (map Some ts) out = Some (write_calls ts out)"
  by (induction ts arbitrary: out) (auto split: prod.splits bool.splits)

lemma write_texts_append:
  "write_texts (ts @ us) out = (case write_texts ts out of
     None \<Rightarrow> None | Some (True, out1) \<Rightarrow> write_texts us out1 | Some (False, out1) \<Rightarrow> Some (False, out1))"
proof (induction ts arbitrary: out)
  case (Cons t ts)
  then show ?case by (cases t) (auto split: prod.splits bool.splits)
qed simp

text \<open>Only the text has grown, by \<open>t\<close>, and answers have been used.\<close>

definition written :: "out_state \<Rightarrow> string \<Rightarrow> out_state \<Rightarrow> bool" where
  "written out t out1 \<longleftrightarrow> (\<exists>bs. out1 = out\<lparr>out_text := out_text out @ t, out_answers := bs\<rparr>)"

lemma written_Nil: "written out [] out"
  unfolding written_def by (rule exI [of _ "out_answers out"]) simp

lemma written_trans: "written out t out1 \<Longrightarrow> written out1 u out2 \<Longrightarrow> written out (t @ u) out2"
  by (auto simp: written_def)

lemma written_fields:
  "written out t out1 \<Longrightarrow> out_text out1 = out_text out @ t \<and> out_files out1 = out_files out \<and>
     out_opens out1 = out_opens out \<and> out_flushes out1 = out_flushes out \<and> out_closes out1 = out_closes out \<and> out_path out1 = out_path out"
  by (auto simp: written_def)

lemma write_call_result:
  "write_call t out = (b, out1) \<Longrightarrow>
     written out (if b then t else []) out1 \<and> (writable out \<longrightarrow> b \<and> writable out1)"
proof (cases "out_answers out")
  case Nil
  then show "write_call t out = (b, out1) \<Longrightarrow>
     written out (if b then t else []) out1 \<and> (writable out \<longrightarrow> b \<and> writable out1)"
    by (auto simp: write_call_def written_def writable_def intro: exI [of _ "[]"])
qed (auto simp: write_call_def written_def writable_def)

text \<open>A writer that succeeds has appended its calls, and one that fails the first part of them.\<close>

lemma write_calls_result:
  "write_calls ts out = (b, out1) \<Longrightarrow>
     (\<exists>k \<le> length ts. (b \<longrightarrow> k = length ts) \<and> written out (concat (take k ts)) out1) \<and>
     (writable out \<longrightarrow> b \<and> writable out1)"
proof (induction ts arbitrary: out)
  case Nil
  then show ?case by (simp add: written_Nil)
next
  case (Cons t ts)
  obtain c out2 where c: "write_call t out = (c, out2)" by (rule prod.exhaust)
  note r = write_call_result [OF c]
  show ?case
  proof (cases c)
    case False
    with Cons.prems c have "b = False" "out1 = out2" by auto
    with r False show ?thesis by (intro conjI exI [of _ 0]) auto
  next
    case True
    with Cons.prems c have "write_calls ts out2 = (b, out1)" by simp
    from Cons.IH [OF this] obtain k where k: "k \<le> length ts" "b \<longrightarrow> k = length ts"
      "written out2 (concat (take k ts)) out1" "writable out2 \<longrightarrow> b \<and> writable out1" by blast
    from r True have "written out t out2" by simp
    from written_trans [OF this k(3)] k(1,2,4) r True show ?thesis
      by (intro conjI exI [of _ "Suc k"]) auto
  qed
qed

lemma write_calls_ample:
  assumes "writable out"
  shows "\<exists>out1. write_calls ts out = (True, out1) \<and> writable out1 \<and> written out (concat ts) out1"
proof -
  obtain b out1 where r: "write_calls ts out = (b, out1)" by (rule prod.exhaust)
  from write_calls_result [OF r] assms obtain k where "k \<le> length ts" "b \<longrightarrow> k = length ts"
    "written out (concat (take k ts)) out1" b "writable out1" by blast
  with r show ?thesis by auto
qed

subsection \<open>JSON strings (write\_json\_string in src/analysis.c)\<close>

definition hex_digit :: "nat \<Rightarrow> char" where
  "hex_digit n = (if n < 10 then char_of (48 + n) else char_of (87 + n))"

text \<open>A quoted word and a member key of an object, as the literals of the code spell them.\<close>

definition json_word :: "string \<Rightarrow> string" where
  "json_word w = CHR 0x22 # w @ [CHR 0x22]"

definition json_key :: "string \<Rightarrow> string" where
  "json_key k = json_word k @ '':''"

text \<open>The calls for one character: a mark before a quote or a backslash, then the character.\<close>

definition json_char_calls :: "char \<Rightarrow> string list" where
  "json_char_calls c =
     (if c = CHR 0x22 \<or> c = BACKSLASH then [[BACKSLASH]] else []) @
     [if c = NL then [BACKSLASH, CHR ''n''] else if c = CR then [BACKSLASH, CHR ''r'']
      else if c = TAB then [BACKSLASH, CHR ''t'']
      else if of_char c < (32 :: nat)
      then [BACKSLASH, CHR ''u'', CHR ''0'', CHR ''0'', hex_digit (of_char c div 16), hex_digit (of_char c mod 16)]
      else [c]]"

definition json_string_calls :: "string \<Rightarrow> string list" where
  "json_string_calls t = [CHR 0x22] # concat (map json_char_calls t) @ [[CHR 0x22]]"

end
