(* ===== verification/Json_Text.thy ===== *)
theory Json_Text
  imports Output Summary_Members
begin

section \<open>Written JSON\<close>

text \<open>
  What the string reader and the grammar of the summary reader see in a text, with what must hold
  of the text behind it as a continuation \<open>K\<close>: \<open>value_at\<close> a value, \<open>members_left\<close> and
  \<open>elements_left\<close> the rest of a container, \<open>member_here\<close> a member, each with a bound on the
  height. There is one rule for every way a text goes on, so that a document is recognised by
  applying \<open>json_intros\<close> to it from left to right.
\<close>

text \<open>
  The texts that a JSON document may quote: well-formed UTF-8 (RFC 3629) without NUL. A sequence
  has one to four bytes; the first one tells how many, and with the second one it excludes
  overlong forms, surrogates and what lies above U+10FFFF. \<open>json_string_calls\<close> writes a byte
  above 127 as it is, and what it writes for such a text is read as the text.
\<close>

definition continues :: "nat \<Rightarrow> bool" where
  "continues b \<longleftrightarrow> 128 \<le> b \<and> b < 192"

definition utf8_bytes :: "nat list \<Rightarrow> bool" where
  "utf8_bytes bs \<longleftrightarrow>
     (case bs of
        [a] \<Rightarrow> 0 < a \<and> a < 128
      | [a, b] \<Rightarrow> 194 \<le> a \<and> a < 224 \<and> continues b
      | [a, b, c] \<Rightarrow> 224 \<le> a \<and> a < 240 \<and> continues b \<and> continues c \<and> (a = 224 \<longrightarrow> 160 \<le> b) \<and>
          (a = 237 \<longrightarrow> b < 160)
      | [a, b, c, d] \<Rightarrow> 240 \<le> a \<and> a < 245 \<and> continues b \<and> continues c \<and> continues d \<and>
          (a = 240 \<longrightarrow> 144 \<le> b) \<and> (a = 244 \<longrightarrow> b < 144)
      | _ \<Rightarrow> False)"

inductive utf8_text :: "string \<Rightarrow> bool" where
  utf8_end [simp]: "utf8_text []"
| utf8_char: "utf8_bytes (map of_char u) \<Longrightarrow> utf8_text t \<Longrightarrow> utf8_text (u @ t)"

lemma utf8_ascii [simp]:
  "0 < (of_char a :: nat) \<Longrightarrow> (of_char a :: nat) < 128 \<Longrightarrow> utf8_text t \<Longrightarrow> utf8_text (a # t)"
  using utf8_char [of "[a]" t] by (simp add: utf8_bytes_def)

lemma utf8_bytes_positive: "utf8_bytes bs \<Longrightarrow> b \<in> set bs \<Longrightarrow> 0 < b"
  by (auto simp: utf8_bytes_def continues_def split: list.splits)

lemma utf8_no_NUL: "utf8_text t \<Longrightarrow> c \<in> set t \<Longrightarrow> 0 < (of_char c :: nat)"
proof (induction rule: utf8_text.induct)
  case (utf8_char u t)
  with utf8_bytes_positive [of "map of_char u" "of_char c"] show ?case by auto
qed simp

locale escape_reader = json_reader +
  assumes read_escaped: "utf8_text t \<Longrightarrow> read_string J None (concat (json_string_calls t) @ r) = Some (t, r)"

subsection \<open>An instance that reads all escapes of ASCII characters\<close>

definition hex_value :: "char \<Rightarrow> nat option" where
  "hex_value c = (let n = of_char c in
     if is_digit c then Some (n - 48) else if 97 \<le> n \<and> n \<le> 102 then Some (n - 87)
     else if 65 \<le> n \<and> n \<le> (70 :: nat) then Some (n - 55) else None)"

definition hex_escape :: "string \<Rightarrow> (char \<times> string) option" where
  "hex_escape s = (case s of
     a # b # c # d # r \<Rightarrow>
       if a = CHR ''0'' \<and> b = CHR ''0'' then
         (case (hex_value c, hex_value d) of
            (Some m, Some n) \<Rightarrow> if 0 < m * 16 + n \<and> m < 8 then Some (char_of (m * 16 + n), r) else None
          | _ \<Rightarrow> None)
       else None
   | _ \<Rightarrow> None)"

definition escaped_char :: "string \<Rightarrow> (char \<times> string) option" where
  "escaped_char s = (case s of
     [] \<Rightarrow> None
   | d # r \<Rightarrow>
       if d \<in> {QUOTE, BACKSLASH, CHR ''/''} then Some (d, r)
       else if d = CHR ''n'' then Some (NL, r) else if d = CHR ''t'' then Some (TAB, r)
       else if d = CHR ''r'' then Some (CR, r) else if d = CHR ''b'' then Some (CHR 0x08, r)
       else if d = CHR ''f'' then Some (CHR 0x0C, r) else if d = CHR ''u'' then hex_escape r else None)"

lemma escaped_char_length: "escaped_char s = Some (c, r) \<Longrightarrow> length r < length s"
  by (auto simp: escaped_char_def hex_escape_def split: list.splits if_splits option.splits)

function full_string :: "string \<Rightarrow> (string \<times> string) option" where
  "full_string s =
     (case s of
        [] \<Rightarrow> None
      | c # s1 \<Rightarrow>
          if c = QUOTE then Some ([], s1)
          else if c = BACKSLASH then
            (case escaped_char s1 of
               None \<Rightarrow> None
             | Some (e, s2) \<Rightarrow> map_option (\<lambda>(t, r). (e # t, r)) (full_string s2))
          else if of_char c < (32 :: nat) then None
          else map_option (\<lambda>(t, r). (c # t, r)) (full_string s1))"
  by pat_completeness auto
termination
  by (relation "measure length") (auto dest: escaped_char_length)

declare full_string.simps [simp del]

definition full_json :: json_lib where
  "full_json = \<lparr>read_string = (\<lambda>cap s.
     case Option.bind (expect QUOTE s) full_string of
       None \<Rightarrow> None
     | Some (t, r) \<Rightarrow> if (case cap of None \<Rightarrow> True | Some n \<Rightarrow> length t < n) then Some (t, r) else None)\<rparr>"

lemma full_string_Nil: "full_string [] = None"
  by (subst full_string.simps) simp

lemma full_string_quote: "full_string (QUOTE # r) = Some ([], r)"
  by (subst full_string.simps) simp

lemma full_string_plain:
  "c \<noteq> QUOTE \<Longrightarrow> c \<noteq> BACKSLASH \<Longrightarrow> full_string (c # r) =
     (if of_char c < (32 :: nat) then None else map_option (\<lambda>(t, r). (c # t, r)) (full_string r))"
  by (subst full_string.simps) simp

lemma full_string_escape:
  "full_string (BACKSLASH # r) = (case escaped_char r of
     None \<Rightarrow> None
   | Some (e, s2) \<Rightarrow> map_option (\<lambda>(t, r). (e # t, r)) (full_string s2))"
  by (subst full_string.simps) simp

lemma full_string_length: "full_string s = Some (t, r) \<Longrightarrow> length r < length s"
proof (induction s arbitrary: t rule: full_string.induct)
  case (1 s)
  obtain c s1 where s: "s = c # s1" using 1(3) by (cases s) (auto simp: full_string_Nil)
  consider (quote) "c = QUOTE" | (escape) "c = BACKSLASH" | (other) "c \<noteq> QUOTE" "c \<noteq> BACKSLASH" by blast
  then show ?case
  proof cases
    case quote
    with 1(3) s show ?thesis by (simp add: full_string_quote)
  next
    case escape
    with 1(3) s obtain e s2 t2 where e: "escaped_char s1 = Some (e, s2)" "full_string s2 = Some (t2, r)"
      by (auto simp: full_string_escape split: option.splits)
    have "c \<noteq> QUOTE" using escape by simp
    from 1(1) [OF s this escape e(1) refl e(2)] escaped_char_length [OF e(1)] s show ?thesis by simp
  next
    case other
    with 1(3) s obtain t2 where "\<not> of_char c < (32 :: nat)" "full_string s1 = Some (t2, r)"
      by (auto simp: full_string_plain split: if_splits)
    from 1(2) [OF s other this] s show ?thesis by simp
  qed
qed

lemma hex_value_digit:
  assumes "n < 16"
  shows "hex_value (hex_digit n) = Some n"
proof -
  have "n \<in> {0, 1, 2, 3, 4, 5, 6, 7, 8, 9, 10, 11, 12, 13, 14, 15}"
    using assms unfolding insert_iff empty_iff by arith
  then show ?thesis by (auto simp: hex_value_def hex_digit_def is_digit_def Let_def)
qed

lemma full_string_char:
  assumes "0 < (of_char c :: nat)"
  shows "full_string (concat (json_char_calls c) @ r) = map_option (\<lambda>(t, r). (c # t, r)) (full_string r)"
proof -
  let ?n = "of_char c :: nat"
  consider (mark) "c = QUOTE \<or> c = BACKSLASH" | (named) "c = NL \<or> c = CR \<or> c = TAB"
    | (hex) "c \<noteq> QUOTE" "c \<noteq> BACKSLASH" "c \<noteq> NL" "c \<noteq> CR" "c \<noteq> TAB" "?n < 32"
    | (plain) "c \<noteq> QUOTE" "c \<noteq> BACKSLASH" "c \<noteq> NL" "c \<noteq> CR" "c \<noteq> TAB" "\<not> ?n < 32" by blast
  then show ?thesis
  proof cases
    case mark
    then show ?thesis
      by (auto simp: json_char_calls_def full_string_escape escaped_char_def)
  next
    case named
    then show ?thesis by (auto simp: json_char_calls_def full_string_escape escaped_char_def)
  next
    case hex
    have h: "hex_value (hex_digit (?n div 16)) = Some (?n div 16)"
      "hex_value (hex_digit (?n mod 16)) = Some (?n mod 16)"
      using hex(6) by (simp_all add: hex_value_digit)
    have "?n div 16 < 8" using hex(6) by simp
    moreover have "?n div 16 * 16 + ?n mod 16 = ?n" by simp
    ultimately have "hex_escape (CHR ''0'' # CHR ''0'' # hex_digit (?n div 16) # hex_digit (?n mod 16) # r) =
        Some (c, r)" using assms by (simp add: hex_escape_def h)
    with hex show ?thesis by (simp add: json_char_calls_def full_string_escape escaped_char_def)
  next
    case plain
    then show ?thesis by (simp add: json_char_calls_def full_string_plain)
  qed
qed

lemma full_string_chars:
  "\<forall>c \<in> set t. 0 < (of_char c :: nat) \<Longrightarrow>
     full_string (concat (concat (map json_char_calls t)) @ s) = map_option (\<lambda>(u, r). (t @ u, r)) (full_string s)"
proof (induction t)
  case Nil
  then show ?case by (cases "full_string s") auto
next
  case (Cons c t)
  have "full_string (concat (concat (map json_char_calls (c # t))) @ s) =
      full_string (concat (json_char_calls c) @ concat (concat (map json_char_calls t)) @ s)" by simp
  also have "\<dots> = map_option (\<lambda>(u, r). ((c # t) @ u, r)) (full_string s)"
    using Cons by (cases "full_string s") (auto simp: full_string_char)
  finally show ?case .
qed

lemma full_string_escaped:
  "utf8_text t \<Longrightarrow> full_string (concat (concat (map json_char_calls t)) @ QUOTE # r) = Some (t, r)"
  using full_string_chars [of t "QUOTE # r"] utf8_no_NUL [of t] by (simp add: full_string_quote)

lemma json_string_text: "concat (json_string_calls t) = QUOTE # concat (concat (map json_char_calls t)) @ [QUOTE]"
  by (simp add: json_string_calls_def)

lemma plain_escapes: "plain_text t \<Longrightarrow> concat (json_string_calls t) = quoted t"
proof -
  have char: "concat (json_char_calls c) = [c]" if "c \<noteq> QUOTE" "c \<noteq> BACKSLASH" "(32 :: nat) \<le> of_char c" for c
  proof -
    have "c \<noteq> NL" "c \<noteq> CR" "c \<noteq> TAB" using that(3) by auto
    with that show ?thesis by (simp add: json_char_calls_def)
  qed
  have "plain_text t \<Longrightarrow> concat (concat (map json_char_calls t)) = t"
  proof (induction t)
    case (Cons c t)
    then show ?case using char [of c] by (simp add: plain_text_def)
  qed simp
  then show "plain_text t \<Longrightarrow> concat (json_string_calls t) = quoted t"
    by (simp add: json_string_text quoted_def)
qed

lemma full_string_plain_text: "plain_text t \<Longrightarrow> full_string (t @ QUOTE # r) = Some (t, r)"
proof (induction t)
  case Nil
  then show ?case by (simp add: full_string_quote)
next
  case (Cons c t)
  then show ?case by (simp add: plain_text_def full_string_plain)
qed

interpretation fullj: escape_reader full_json
proof
  fix cap s t r
  assume h: "read_string full_json cap s = Some (t, r)"
  then show "length r < length s"
    by (auto simp: full_json_def bind_eq_Some_conv expect_Some split: option.splits if_splits
        dest!: full_string_length)
  from h show "at_char (\<lambda>c. c = QUOTE) s"
    by (auto simp: full_json_def bind_eq_Some_conv expect_Some split: option.splits)
qed (auto simp: full_json_def quoted_def full_string_plain_text json_string_text full_string_escaped)


subsection \<open>Numbers\<close>

lemma decimal_head: "n \<noteq> 0 \<Longrightarrow> hd (decimal n) \<noteq> CHR ''0''"
proof (induction n rule: decimal.induct)
  case (1 n)
  show ?case
  proof (cases "n < 10")
    case True
    have "digit_char n \<noteq> CHR ''0''"
      using less_10_cases [OF True] 1(2) by (auto simp: digit_char_def)
    with True show ?thesis by (simp add: decimal.simps [of n])
  next
    case False
    then have "n div 10 \<noteq> 0" by simp
    with 1(1) False show ?thesis by (simp add: decimal.simps [of n])
  qed
qed

lemma decimal_zero: "decimal 0 = ''0''"
  by (simp add: decimal.simps [of 0] digit_char_def)

lemma decimal_text: "digits_text (decimal n) \<and> (hd (decimal n) = CHR ''0'' \<longrightarrow> decimal n = ''0'')"
  using decimal_digits [of n] decimal_head [of n] decimal_zero by (cases "n = 0") (simp_all add: digits_text_def)

lemma signed_decimal_text: "integer_text (signed_decimal i)"
proof (cases "i < 0")
  case True
  then show ?thesis unfolding integer_text_def signed_decimal_def
    using decimal_text [of "nat (- i)"] by (intro exI [of _ "''-''"] exI [of _ "decimal (nat (- i))"]) simp
next
  case False
  then show ?thesis unfolding integer_text_def signed_decimal_def
    using decimal_text [of "nat i"] by (intro exI [of _ "[]"] exI [of _ "decimal (nat i)"]) simp
qed

lemma decimal_signed: "decimal n = signed_decimal (int n)"
  by (simp add: signed_decimal_def)

definition ends_number :: "string \<Rightarrow> bool" where
  "ends_number r \<longleftrightarrow> \<not> at_char (\<lambda>c. is_digit c \<or> c = CHR ''.'' \<or> c = CHR ''e'' \<or> c = CHR ''E'') r"

lemma ends_number_simps [simp]:
  "ends_number []" "ends_number (c # r) \<longleftrightarrow> \<not> is_digit c \<and> c \<noteq> CHR ''.'' \<and> c \<noteq> CHR ''e'' \<and> c \<noteq> CHR ''E''"
  by (simp_all add: ends_number_def)

lemma number_read:
  assumes "ends_number r"
  shows "json_at J (JNumber (signed_decimal i)) (signed_decimal i @ r) r"
proof (rule number_value, unfold number_at_def, intro exI conjI)
  show "signed_decimal i = signed_decimal i @ [] @ []" by simp
  show "integer_text (signed_decimal i)" by (rule signed_decimal_text)
qed (use assms in \<open>cases r; simp add: fraction_text_def exponent_text_def ends_number_def\<close>)+

subsection \<open>The parts of a text\<close>

definition value_at :: "json_lib \<Rightarrow> nat \<Rightarrow> (string \<Rightarrow> bool) \<Rightarrow> string \<Rightarrow> bool" where
  "value_at J h K s \<longleftrightarrow> (\<exists>j e. json_at J j (skip_space s) e \<and> height j \<le> h \<and> K e)"

definition elements_left :: "json_lib \<Rightarrow> nat \<Rightarrow> bool \<Rightarrow> (string \<Rightarrow> bool) \<Rightarrow> string \<Rightarrow> bool" where
  "elements_left J h first K s \<longleftrightarrow> (\<exists>js e. elements_at J first js (skip_space s) e \<and>
     height (JArray js) \<le> Suc h \<and> K e)"

definition members_left :: "json_lib \<Rightarrow> nat \<Rightarrow> bool \<Rightarrow> (string \<Rightarrow> bool) \<Rightarrow> string \<Rightarrow> bool" where
  "members_left J h first K s \<longleftrightarrow> (\<exists>ms e. members_at J first ms (skip_space s) e \<and>
     height (JObject ms) \<le> Suc h \<and> K e)"

definition member_here :: "json_lib \<Rightarrow> nat \<Rightarrow> (string \<Rightarrow> bool) \<Rightarrow> string \<Rightarrow> bool" where
  "member_here J h K s \<longleftrightarrow> (\<exists>k s2 s3. at_char (\<lambda>c. c = QUOTE) (skip_space s) \<and>
     read_string J (Some JSON_KEY_CAPACITY) (skip_space s) = Some (k, s2) \<and> skip_space s2 = CHR '':'' # s3 \<and>
     value_at J h (members_left J h False K) s3)"

definition key_text_ok :: "string \<Rightarrow> bool" where
  "key_text_ok k \<longleftrightarrow> plain_text k \<and> length k < JSON_KEY_CAPACITY"

named_theorems json_intros \<open>the ways a JSON text goes on\<close>

lemma skip_space_next: "is_json_space c \<Longrightarrow> skip_space (c # s) = skip_space s"
  by (simp add: skip_space_def)

lemma spaces [json_intros]:
  "value_at J h K s \<Longrightarrow> value_at J h K (CHR '' '' # s)"
  "elements_left J h first K s \<Longrightarrow> elements_left J h first K (CHR '' '' # s)"
  "members_left J h first K s \<Longrightarrow> members_left J h first K (CHR '' '' # s)"
  "member_here J h K s \<Longrightarrow> member_here J h K (CHR '' '' # s)"
  by (simp_all add: value_at_def elements_left_def members_left_def member_here_def skip_space_next
      is_json_space_def)

lemma newlines [json_intros]:
  "value_at J h K s \<Longrightarrow> value_at J h K (NL # s)"
  "elements_left J h first K s \<Longrightarrow> elements_left J h first K (NL # s)"
  "members_left J h first K s \<Longrightarrow> members_left J h first K (NL # s)"
  "member_here J h K s \<Longrightarrow> member_here J h K (NL # s)"
  by (simp_all add: value_at_def elements_left_def members_left_def member_here_def skip_space_next
      is_json_space_def)

lemma height_Nil [simp]: "height (JArray []) = 0" "height (JObject []) = 0"
  by (simp_all add: height.simps)

lemma height_Cons:
  "height (JArray (j # js)) \<le> n \<longleftrightarrow> Suc (height j) \<le> n \<and> height (JArray js) \<le> n"
  "height (JObject ((k, j) # ms)) \<le> n \<longleftrightarrow> Suc (height j) \<le> n \<and> height (JObject ms) \<le> n"
  by (simp_all add: height.simps)

lemma containers [json_intros]:
  "elements_left J h True K s \<Longrightarrow> value_at J (Suc h) K (CHR ''['' # s)"
  "members_left J h True K s \<Longrightarrow> value_at J (Suc h) K (CHR ''{'' # s)"
  by (auto simp: value_at_def elements_left_def members_left_def is_json_space_def
      intro: array_at object_at)

lemma closings [json_intros]:
  "K s \<Longrightarrow> elements_left J h first K (CHR '']'' # s)"
  "K s \<Longrightarrow> members_left J h first K (CHR ''}'' # s)"
proof -
  show "K s \<Longrightarrow> elements_left J h first K (CHR '']'' # s)"
    unfolding elements_left_def
    by (rule exI [of _ "[]"], rule exI [of _ s]) (simp add: is_json_space_def no_element)
  show "K s \<Longrightarrow> members_left J h first K (CHR ''}'' # s)"
    unfolding members_left_def
    by (rule exI [of _ "[]"], rule exI [of _ s]) (simp add: is_json_space_def no_member)
qed

lemma element_here: "value_at J h (elements_left J h False K) s \<Longrightarrow> elements_left J h True K s"
proof -
  assume "value_at J h (elements_left J h False K) s"
  then obtain j e js r where "json_at J j (skip_space s) e" "height j \<le> h"
    "elements_at J False js (skip_space e) r" "height (JArray js) \<le> Suc h" "K r"
    by (auto simp: value_at_def elements_left_def)
  then show ?thesis
    unfolding elements_left_def
    by (intro exI [of _ "j # js"] exI [of _ r]) (simp add: height_Cons element [of "skip_space s" True "skip_space s"])
qed

lemma element_next [json_intros]:
  "value_at J h (elements_left J h False K) s \<Longrightarrow> elements_left J h False K (CHR '','' # s)"
proof -
  assume "value_at J h (elements_left J h False K) s"
  then obtain j e js r where "json_at J j (skip_space s) e" "height j \<le> h"
    "elements_at J False js (skip_space e) r" "height (JArray js) \<le> Suc h" "K r"
    by (auto simp: value_at_def elements_left_def)
  then show ?thesis
    unfolding elements_left_def
    by (intro exI [of _ "j # js"] exI [of _ r])
      (simp add: height_Cons is_json_space_def element [of _ False s])
qed

lemma member_text:
  assumes "member_here J h K s"
  shows "members_left J h True K s" and "members_left J h False K (CHR '','' # s)"
proof -
  from assms obtain k s2 s3 j e ms r where m: "at_char (\<lambda>c. c = QUOTE) (skip_space s)"
    "read_string J (Some JSON_KEY_CAPACITY) (skip_space s) = Some (k, s2)" "skip_space s2 = CHR '':'' # s3"
    "json_at J j (skip_space s3) e" "height j \<le> h" "members_at J False ms (skip_space e) r"
    "height (JObject ms) \<le> Suc h" "K r"
    by (auto simp: member_here_def value_at_def members_left_def)
  have h: "height (JObject ((k, j) # ms)) \<le> Suc h" using m(5,7) by (simp add: height_Cons)
  have "members_at J True ((k, j) # ms) (skip_space s) r"
    by (rule member [of _ True "skip_space s", OF _ _ _ m(3,4,6)]) (simp_all add: m(1,2))
  with h m(8) show "members_left J h True K s" unfolding members_left_def by blast
  have "members_at J False ((k, j) # ms) (skip_space (CHR '','' # s)) r"
    by (rule member [of _ False s, OF _ _ _ m(3,4,6)]) (simp_all add: m(1,2) is_json_space_def)
  with h m(8) show "members_left J h False K (CHR '','' # s)" unfolding members_left_def by blast
qed

lemma numbers [json_intros]:
  "ends_number s \<Longrightarrow> K s \<Longrightarrow> value_at J h K (signed_decimal i @ s)"
  "ends_number s \<Longrightarrow> K s \<Longrightarrow> value_at J h K (decimal n @ s)"
proof -
  show "value_at J h K (signed_decimal i @ s)" if "ends_number s" "K s" for i
  proof -
    from json_at_no_space [OF number_read [OF that(1), of _ i]]
    have "skip_space (signed_decimal i @ s) = signed_decimal i @ s" by auto
    with number_read [OF that(1), of J i] that(2) show ?thesis
      unfolding value_at_def by (intro exI [of _ "JNumber (signed_decimal i)"] exI [of _ s]) simp
  qed
  then show "ends_number s \<Longrightarrow> K s \<Longrightarrow> value_at J h K (decimal n @ s)" by (simp only: decimal_signed)
qed

lemma words [json_intros]:
  "K s \<Longrightarrow> value_at J h K (CHR ''t'' # CHR ''r'' # CHR ''u'' # CHR ''e'' # s)"
  "K s \<Longrightarrow> value_at J h K (CHR ''f'' # CHR ''a'' # CHR ''l'' # CHR ''s'' # CHR ''e'' # s)"
  "K s \<Longrightarrow> value_at J h K (CHR ''n'' # CHR ''u'' # CHR ''l'' # CHR ''l'' # s)"
  using word_at [of "''true''" J s] word_at [of "''false''" J s] word_at [of "''null''" J s]
  by (auto simp: value_at_def is_json_space_def intro!: exI)

lemma json_word_quoted: "json_word t = quoted t"
  by (simp add: json_word_def quoted_def)

subsection \<open>The members of a written object\<close>

lemma members_in_space:
  assumes "skip_space s = skip_space t"
  shows "members_in J first s ms r \<longleftrightarrow> members_in J first t ms r"
proof -
  have "members_in J first t ms r" if "members_in J first s ms r" "skip_space s = skip_space t" for s t
    using that(1)
  proof cases
    case last_member
    with that(2) show ?thesis by (simp add: members_in.last_member)
  next
    case (next_member s2 k s3 s4 e ms')
    show ?thesis
      unfolding next_member(1)
      by (rule members_in.next_member [of _ _ s2]) (use next_member in \<open>cases first; simp flip: that(2)\<close>)+
  qed
  with assms show ?thesis by metis
qed

lemma layout_spaces:
  "members_in J first s ms r \<Longrightarrow> members_in J first (CHR '' '' # s) ms r"
  "members_in J first s ms r \<Longrightarrow> members_in J first (NL # s) ms r"
  using members_in_space [of s "CHR '' '' # s"] members_in_space [of s "NL # s"]
  by (simp_all add: skip_space_next is_json_space_def)

lemma layout_end: "members_in J first (CHR ''}'' # r) [] r"
  by (rule last_member) (simp add: is_json_space_def)

lemma layout_next:
  assumes "members_in J True s ms r" and "ms \<noteq> []"
  shows "members_in J False (CHR '','' # s) ms r"
  using assms
proof cases
  case (next_member s2 k s3 s4 e ms')
  have "(if False then Some (skip_space (CHR '','' # s)) else expect (CHR '','') (skip_space (CHR '','' # s))) = Some s"
    by (simp add: is_json_space_def)
  moreover have "\<not> at_char (\<lambda>c. c = CHR ''}'') (skip_space (CHR '','' # s))" by (simp add: is_json_space_def)
  moreover have "read_string J (Some JSON_KEY_CAPACITY) (skip_space s) = Some (k, s3)"
    using next_member(3,4) skip_space_idem [of s] by force
  ultimately show ?thesis
    unfolding next_member(1) using next_member(5,6) by (intro members_in.next_member)
qed simp

context json_reader
begin

lemma quoted_value: "plain_text t \<Longrightarrow> K s \<Longrightarrow> value_at J h K (json_word t @ s)"
proof -
  assume t: "plain_text t" "K s"
  from skip_plain [OF t(1)] obtain u where u: "read_string J None (quoted t @ s) = Some (u, s)" by blast
  have "json_at J (JString u) (quoted t @ s) s" by (rule string_at [OF _ u]) (simp add: quoted_def)
  with t(2) show ?thesis
    unfolding value_at_def json_word_quoted by (intro exI [of _ "JString u"] exI [of _ s]) (simp add: quoted_def is_json_space_def)
qed

lemma key_member: "key_text_ok k \<Longrightarrow> value_at J h (members_left J h False K) s \<Longrightarrow> member_here J h K (json_key k @ s)"
proof -
  assume k: "key_text_ok k" and v: "value_at J h (members_left J h False K) s"
  have "read_string J (Some JSON_KEY_CAPACITY) (quoted k @ CHR '':'' # s) = Some (k, CHR '':'' # s)"
    using k by (intro read_plain) (simp_all add: key_text_ok_def)
  with v show ?thesis
    unfolding member_here_def
    by (intro exI [of _ k] exI [of _ "CHR '':'' # s"] exI [of _ s])
      (simp add: json_key_def json_word_quoted, simp add: quoted_def is_json_space_def)
qed

lemma keys:
  "key_text_ok k \<Longrightarrow> value_at J h (members_left J h False K) s \<Longrightarrow> members_left J h True K (json_key k @ s)"
  "member_here J h K s \<Longrightarrow> members_left J h False K (CHR '','' # s)"
  using member_text(1) [OF key_member] member_text(2) by blast+

lemma layout_key:
  assumes "key_text_ok k" and "members_in J False e ms r"
  shows "members_in J True (json_key k @ v) ((k, skip_space v, e) # ms) r"
proof (rule next_member)
  have s: "skip_space (json_key k @ v) = quoted k @ CHR '':'' # v"
    by (simp add: json_key_def json_word_quoted) (simp add: quoted_def is_json_space_def)
  show "\<not> at_char (\<lambda>c. c = CHR ''}'') (skip_space (json_key k @ v))" unfolding s by (simp add: quoted_def)
  show "(if True then Some (skip_space (json_key k @ v)) else expect (CHR '','') (skip_space (json_key k @ v))) =
      Some (quoted k @ CHR '':'' # v)" by (simp add: s)
  show "read_string J (Some JSON_KEY_CAPACITY) (skip_space (quoted k @ CHR '':'' # v)) = Some (k, CHR '':'' # v)"
    using assms(1) read_plain [of k JSON_KEY_CAPACITY "CHR '':'' # v"]
    by (simp add: key_text_ok_def) (simp add: quoted_def is_json_space_def)
qed (use assms in \<open>simp_all add: is_json_space_def\<close>)

lemma value_skipped:
  assumes "value_at J h (\<lambda>e. e = r) s" and "h < JSON_MAX_DEPTH"
  shows "skip_value J 0 s = Some (Some r)"
  using assms unfolding skip_value_accepts value_at_def by auto

lemma counts_written:
  assumes "n \<le> SIZE_MAX"
  shows "counts_at J (CHR ''{'' # json_key ''findings'' @ CHR '' '' # decimal n @ CHR ''}'' # r) [COUNT_FINDINGS \<mapsto> n] r"
proof -
  have no_space: "skip_space (CHR '' '' # decimal n @ CHR ''}'' # r) = decimal n @ CHR ''}'' # r"
  proof -
    have "ends_number (CHR ''}'' # r)" by (simp add: is_digit_def)
    from json_at_no_space [OF number_read [OF this, of J "int n"]] show ?thesis
      by (auto simp: skip_space_next is_json_space_def decimal_signed)
  qed
  have "key_text_ok ''findings''" by (simp add: key_text_ok_def plain_text_def JSON_KEY_CAPACITY_def)
  from layout_key [OF this layout_end, of "CHR '' '' # decimal n @ CHR ''}'' # r"]
  have layout: "members_in J True (json_key ''findings'' @ CHR '' '' # decimal n @ CHR ''}'' # r)
      [(''findings'', decimal n @ CHR ''}'' # r, CHR ''}'' # r)] r"
    unfolding no_space .
  have "parse_size (decimal n @ CHR ''}'' # r) = Some (n, CHR ''}'' # r)"
    unfolding parse_size_exact
    using assms by (intro exI [of _ "decimal n"]) (simp add: decimal_text digits_value_decimal is_digit_def)
  have "counts_read J [COUNT_FINDINGS \<mapsto> n] [(''findings'', decimal n @ CHR ''}'' # r, CHR ''}'' # r)]"
  proof -
    have "''findings'' = count_name f \<longleftrightarrow> f = COUNT_FINDINGS" for f by (cases f) simp_all
    moreover have "f \<noteq> COUNT_FINDINGS \<longleftrightarrow> f = COUNT_RECORDS" for f by (cases f) simp_all
    ultimately show ?thesis
      using \<open>parse_size (decimal n @ CHR ''}'' # r) = Some (n, CHR ''}'' # r)\<close>
      by (auto simp: counts_read_def)
  qed
  with layout show ?thesis unfolding counts_at_def by auto
qed

lemmas json_rules = json_intros quoted_value keys key_member

end

context escape_reader
begin

lemma string_value: "utf8_text t \<Longrightarrow> K s \<Longrightarrow> value_at J h K (concat (json_string_calls t) @ s)"
proof -
  assume t: "utf8_text t" "K s"
  have "json_at J (JString t) (concat (json_string_calls t) @ s) s"
    by (rule string_at [OF _ read_escaped [OF t(1)]]) (simp add: json_string_text)
  with t(2) show ?thesis
    unfolding value_at_def
    by (intro exI [of _ "JString t"] exI [of _ s]) (simp add: json_string_text is_json_space_def)
qed

lemmas text_rules = json_rules string_value

end

end
