(* ===== verification/Summary_Keys.thy ===== *)
theory Summary_Keys
  imports Summary_Properties Json_Text
begin

section \<open>The buffer for member names\<close>

text \<open>
  The reader keeps the name of a member in a buffer of 96 bytes, also of a member that it skips.
  Here the grammar of \<open>Summary_Grammar\<close>, whose member rule reads names into that buffer, is
  split into the JSON grammar, which knows no such limit, and the lengths of the names.
\<close>

text \<open>The law of a string reader about its buffer: the text and its NUL have to fit.\<close>

locale sized_reader = json_reader +
  assumes read_sized: "read_string J (Some n) s = Some (t, r) \<longleftrightarrow>
    read_string J None s = Some (t, r) \<and> length t < n"

interpretation docs: sized_reader doc_json
  by unfold_locales (auto simp: doc_json_def doc_read_string_def split: option.splits if_splits)

interpretation fulls: sized_reader full_json
  by unfold_locales (auto simp: full_json_def split: option.splits if_splits)

definition unbounded :: "json_lib \<Rightarrow> json_lib" where
  "unbounded J = J\<lparr>read_string := (\<lambda>cap. read_string J None)\<rparr>"

lemma read_unbounded [simp]: "read_string (unbounded J) cap = read_string J None"
  by (simp add: unbounded_def)

primrec names_below :: "nat \<Rightarrow> json \<Rightarrow> bool" where
  "names_below n (JArray js) \<longleftrightarrow> list_all id (map (names_below n) js)"
| "names_below n (JObject ms) \<longleftrightarrow>
     list_all (\<lambda>(k, b). length k < n \<and> b) (map (map_prod id (names_below n)) ms)"
| "names_below n (JString t) \<longleftrightarrow> True"
| "names_below n (JNumber t) \<longleftrightarrow> True"
| "names_below n (JWord t) \<longleftrightarrow> True"

context sized_reader
begin

lemma bounded_grammar:
  "json_at J j s r \<Longrightarrow> json_at (unbounded J) j s r \<and> names_below JSON_KEY_CAPACITY j"
  "elements_at J first js s r \<Longrightarrow>
     elements_at (unbounded J) first js s r \<and> names_below JSON_KEY_CAPACITY (JArray js)"
  "members_at J first ms s r \<Longrightarrow>
     members_at (unbounded J) first ms s r \<and> names_below JSON_KEY_CAPACITY (JObject ms)"
proof (induction rule: json_at_elements_at_members_at.inducts)
  case (member s first s1 k s2 s3 j r1 ms r)
  then show ?case
    by (auto simp: read_sized intro!: json_at_elements_at_members_at.member)
qed (auto intro: json_at_elements_at_members_at.intros)

lemma names_fit_grammar:
  "json_at (unbounded J) j s r \<Longrightarrow> names_below JSON_KEY_CAPACITY j \<longrightarrow> json_at J j s r"
  "elements_at (unbounded J) first js s r \<Longrightarrow>
     names_below JSON_KEY_CAPACITY (JArray js) \<longrightarrow> elements_at J first js s r"
  "members_at (unbounded J) first ms s r \<Longrightarrow>
     names_below JSON_KEY_CAPACITY (JObject ms) \<longrightarrow> members_at J first ms s r"
proof (induction rule: json_at_elements_at_members_at.inducts)
  case (member s first s1 k s2 s3 j r1 ms r)
  then show ?case
    by (auto simp: read_sized intro!: json_at_elements_at_members_at.member)
qed (auto intro: json_at_elements_at_members_at.intros)

lemma skip_value_json:
  "skip_value J d s = Some (Some r) \<longleftrightarrow> (\<exists>j. json_at (unbounded J) j (skip_space s) r \<and>
     d + height j < JSON_MAX_DEPTH \<and> names_below JSON_KEY_CAPACITY j)"
  unfolding skip_value_accepts using bounded_grammar(1) names_fit_grammar(1) by blast

end

text \<open>Claim C28. A value that is not asked for is skipped exactly when the text starts with a
  JSON value that keeps two limits of the code: its deepest member has less than 64 containers
  around it, those around the value included, and the name of every member of its objects,
  the value's own and the nested ones, is shorter than 96 bytes; the cursor is then behind that
  value. Every other document is refused, also one that is JSON and has a longer name.\<close>

theorem skip_value_exact:
  assumes "sized_reader J"
  shows "(\<forall>r. skip_value J depth s = Some (Some r) \<longleftrightarrow>
      (\<exists>j. json_at (unbounded J) j (skip_space s) r \<and> depth + height j < 64 \<and> names_below 96 j)) \<and>
    ((\<nexists>j r. json_at (unbounded J) j (skip_space s) r \<and> depth + height j < 64 \<and> names_below 96 j) \<longrightarrow>
      skip_value J depth s = Some None)"
proof -
  have accepts: "skip_value J depth s = Some (Some r) \<longleftrightarrow> (\<exists>j. json_at (unbounded J) j (skip_space s) r \<and>
      depth + height j < 64 \<and> names_below 96 j)" for r
    using sized_reader.skip_value_json [OF assms, of depth s r]
    by (simp add: JSON_MAX_DEPTH_def JSON_KEY_CAPACITY_def)
  obtain out where "skip_value J depth s = Some out"
    using json_reader.skip_value_returns [of J depth s] assms by (auto simp: sized_reader_def)
  with accepts show ?thesis by (cases out) blast+
qed

lemma json_one: "json_at J (JNumber ''1'') (CHR ''1'' # c # r) (c # r)" if "c \<in> {CHR '']'', CHR ''}''}"
proof -
  have "integer_text ''1''"
    unfolding integer_text_def
    by (rule exI [of _ "''''"], rule exI [of _ "''1''"]) (simp add: digits_text_def is_digit_def)
  with that show ?thesis
    by (intro number_value, unfold number_at_def, intro exI [of _ "''1''"] exI [of _ "''''"])
      (auto simp: fraction_text_def exponent_text_def is_digit_def)
qed

abbreviation long_name :: string where "long_name \<equiv> replicate 96 (CHR ''k'')"

definition long_name_object :: string where
  "long_name_object = CHR ''{'' # quoted long_name @ '':1}''"

lemma read_long_name:
  "read_string doc_json None (quoted long_name @ r) = Some (long_name, r)"
  "read_string doc_json (Some 96) (quoted long_name @ r) = None"
proof -
  have "plain_text long_name" by (simp add: plain_text_def)
  then show all: "read_string doc_json None (quoted long_name @ r) = Some (long_name, r)"
    using docj.read_plain [of long_name 97 r] docs.read_sized by simp
  show "read_string doc_json (Some 96) (quoted long_name @ r) = None"
  proof (cases "read_string doc_json (Some 96) (quoted long_name @ r)")
    case (Some tr)
    then obtain t r' where "read_string doc_json (Some 96) (quoted long_name @ r) = Some (t, r')"
      by (cases tr) simp
    then have "length t < 96" "t = long_name" using all by (simp_all add: docs.read_sized)
    then show ?thesis by simp
  qed
qed

lemma long_name_value:
  "json_at (unbounded doc_json) (JObject [(long_name, JNumber ''1'')]) long_name_object ''''"
proof -
  have "members_at (unbounded doc_json) True [(long_name, JNumber ''1'')]
      (quoted long_name @ '':1}'') ''''"
  proof (rule member)
    show "read_string (unbounded doc_json) (Some JSON_KEY_CAPACITY)
        (skip_space (quoted long_name @ '':1}'')) = Some (long_name, '':1}'')"
      using read_long_name(1) by (simp add: quoted_def is_json_space_def)
    show "json_at (unbounded doc_json) (JNumber ''1'') (skip_space ''1}'') ''}''"
      using json_one [of "CHR ''}''" "unbounded doc_json" "''''"] by (simp add: is_json_space_def)
    show "members_at (unbounded doc_json) False [] (skip_space ''}'') ''''"
      using no_member [of "unbounded doc_json" False "''''"] by (simp add: is_json_space_def)
  qed (simp_all add: quoted_def is_json_space_def)
  then show ?thesis
    using object_at [of "unbounded doc_json" _ "quoted long_name @ '':1}''" "''''"]
    by (simp add: long_name_object_def quoted_def is_json_space_def)
qed

lemma long_name_refused: "skip_value doc_json 0 long_name_object = Some None"
  unfolding skip_value_def long_name_object_def
  by (subst skip.simps, subst skip.simps)
    (use read_long_name(2) in \<open>simp add: quoted_def is_json_space_def JSON_MAX_DEPTH_def
       JSON_KEY_CAPACITY_def\<close>)

theorem skip_value_exact_witness:
  "skip_value doc_json 62 ''[1]'' = Some (Some '''') \<and>
   skip_value doc_json 0 long_name_object = Some None \<and>
   json_at (unbounded doc_json) (JObject [(long_name, JNumber ''1'')]) long_name_object ''''"
proof -
  have "elements_at (unbounded doc_json) True [JNumber ''1''] ''1]'' ''''"
    using element [of "''1]''" True "''1]''" "unbounded doc_json" "JNumber ''1''" "'']''" "[]" "''''"]
      no_element [of "unbounded doc_json" False "''''"]
      json_one [of "CHR '']''" "unbounded doc_json" "''''"] by (simp add: is_json_space_def)
  then have "json_at (unbounded doc_json) (JArray [JNumber ''1'']) ''[1]'' ''''"
    using array_at [of "unbounded doc_json" "[JNumber ''1'']" "''1]''" "''''"]
    by (simp add: is_json_space_def)
  moreover have "62 + height (JArray [JNumber ''1'']) < 64" by (simp add: height.simps)
  moreover have "names_below 96 (JArray [JNumber ''1''])" by simp
  ultimately have "skip_value doc_json 62 ''[1]'' = Some (Some '''')"
    using skip_value_exact [OF docs.sized_reader_axioms, of 62 "''[1]''"]
    by (auto simp: is_json_space_def)
  then show ?thesis using long_name_refused long_name_value by blast
qed

end
