(* ===== verification/Analysis_Report.thy ===== *)
theory Analysis_Report
  imports Output Analysis
begin

section \<open>The reports of an analysis (src/analysis.c)\<close>

text \<open>
  The texts of the reports as lists of calls, and the files they go to. A finding is written
  with texts that live in its array element: they are read when they are written, and the
  result is \<open>None\<close> when their buffer has moved. The catalogue of lessons belongs to another
  package and is the parameter \<open>rules\<close>.
\<close>

record rule_definition =
  rd_lesson_id :: string
  rd_lesson_path :: string
  rd_lesson_url :: string

definition PATH_SIZE :: nat where "PATH_SIZE = 4096"

definition policy_word :: "analysis_policy \<Rightarrow> string" where
  "policy_word p = (case p of POLICY_RESOURCE \<Rightarrow> ''resource'' | POLICY_SYNCHRONIZATION \<Rightarrow> ''synchronization''
     | POLICY_TRACE \<Rightarrow> ''trace'' | POLICY_SANITIZER \<Rightarrow> ''sanitizer'')"

subsection \<open>Findings as JSON\<close>

definition finding_text :: "tool_analysis \<Rightarrow> owned_finding \<Rightarrow> (owned_finding \<Rightarrow> string) \<Rightarrow> string option list" where
  "finding_text a f sel =
     (case published_text a f sel of
        None \<Rightarrow> [Some [CHR 0x22], None]
      | Some t \<Rightarrow> map Some (json_string_calls t))"

text \<open>A text of evidence is left out when it is empty.\<close>

definition evidence_text ::
  "tool_analysis \<Rightarrow> owned_finding \<Rightarrow> string \<Rightarrow> (owned_finding \<Rightarrow> string) \<Rightarrow> string option list" where
  "evidence_text a f key sel =
     (case published_text a f sel of
        None \<Rightarrow> [None]
      | Some t \<Rightarrow> if t = [] then [] else map Some (('','' @ json_key key) # json_string_calls t))"

definition lesson_calls :: "rule_definition option \<Rightarrow> string list" where
  "lesson_calls rule =
     (case rule of
        None \<Rightarrow> []
      | Some r \<Rightarrow>
          ['','' @ json_key ''lesson'' @ ''{'' @ json_key ''primary'' @ ''{'' @ json_key ''lesson_id''] @
          json_string_calls (rd_lesson_id r) @ ['','' @ json_key ''path''] @
          json_string_calls (rd_lesson_path r) @ ['','' @ json_key ''url''] @
          json_string_calls (rd_lesson_url r) @ [''},'' @ json_key ''related'' @ ''[]}''])"

definition write_finding_json ::
  "(string \<Rightarrow> rule_definition option) \<Rightarrow> tool_analysis \<Rightarrow> owned_finding \<Rightarrow> string option list" where
  "write_finding_json rules a f =
     map Some
      ([''{'' @ json_key ''id''] @ json_string_calls (of_diagnostic_id f) @
       ['','' @ json_key ''severity'' @ json_word ''error'' @ '','' @ json_key ''policy''] @
       json_string_calls (policy_word (of_policy f)) @
       ['','' @ json_key ''location'' @ ''{'' @ json_key ''file''] @ json_string_calls (of_file_name f) @
       ['','' @ json_key ''line'' @ signed_decimal (of_line_number f) @ '','' @ json_key ''function''] @
       json_string_calls (of_function_name f) @
       [''},'' @ json_key ''message''] @ json_string_calls (of_message f) @
       lesson_calls (rules (of_diagnostic_id f)) @
       ['','' @ json_key ''evidence'' @ ''{'' @ json_key ''node'']) @
     finding_text a f of_node_id @ evidence_text a f ''from'' of_evidence_from @
     evidence_text a f ''to'' of_evidence_to @ evidence_text a f ''detail'' of_evidence_detail @
     [Some ''}}'']"

fun document_findings ::
  "(string \<Rightarrow> rule_definition option) \<Rightarrow> tool_analysis \<Rightarrow> bool \<Rightarrow> owned_finding list \<Rightarrow> string option list" where
  "document_findings rules a first [] = []"
| "document_findings rules a first (f # fs) =
     Some ((if first then [] else '','') @ NL # ''    '') # write_finding_json rules a f @
     document_findings rules a False fs"

text \<open>\<open>None\<close> is the policy \<open>-1\<close>, every finding.\<close>

definition selected :: "analysis_policy option \<Rightarrow> owned_finding \<Rightarrow> bool" where
  "selected p f \<longleftrightarrow> p = None \<or> p = Some (of_policy f)"

definition document_count :: "tool_analysis \<Rightarrow> analysis_policy option \<Rightarrow> nat" where
  "document_count a p = (case p of None \<Rightarrow> length (an_findings a) | Some q \<Rightarrow> an_policy_counts a q)"

definition json_document ::
  "(string \<Rightarrow> rule_definition option) \<Rightarrow> tool_analysis \<Rightarrow> string \<Rightarrow> analysis_policy option \<Rightarrow> string option list" where
  "json_document rules a schema p =
     map Some ([''{'' @ NL # ''  '' @ json_key ''schema'' @ '' ''] @ json_string_calls schema @
       ['','' @ NL # ''  '' @ json_key ''findings'' @ '' ['']) @
     document_findings rules a True (filter (selected p) (an_findings a)) @
     [Some (NL # ''  ],'' @ NL # ''  '' @ json_key ''summary'' @ '' {'' @ json_key ''findings'' @ '' '' @
        decimal (document_count a p) @ ''}'' @ NL # ''}'' @ [NL])]"

definition write_json_document ::
  "(string \<Rightarrow> rule_definition option) \<Rightarrow> tool_analysis \<Rightarrow> string \<Rightarrow> analysis_policy option \<Rightarrow> out_state \<Rightarrow>
   (bool \<times> out_state) option" where
  "write_json_document rules a schema p out = write_texts (json_document rules a schema p) out"

subsection \<open>Files\<close>

type_synonym files = "world \<times> out_state"

definition open_output :: "string \<Rightarrow> string \<Rightarrow> files \<Rightarrow> bool \<times> files" where
  "open_output directory name s =
     (case s of (w, out) \<Rightarrow>
        let path = directory @ ''/'' @ name in
        if PATH_SIZE \<le> length path then (False, raise_errno EOVERFLOW w, out)
        else
          (case out_opens out of
             Some e # es \<Rightarrow> (False, raise_errno e w, out\<lparr>out_opens := es\<rparr>)
           | answers \<Rightarrow> (True, w, out\<lparr>out_path := Some path, out_text := [], out_opens := drop 1 answers\<rparr>)))"

text \<open>\<open>reporting\<close> is false for \<open>P101_ERROR_OPTIONAL\<close>. Both calls are made whatever the first gives.\<close>

definition close_output :: "bool \<Rightarrow> files \<Rightarrow> bool \<times> files" where
  "close_output reporting s =
     (case s of (w, out) \<Rightarrow>
        let flush = (case out_flushes out of [] \<Rightarrow> None | x # _ \<Rightarrow> x);
          close = (case out_closes out of [] \<Rightarrow> None | x # _ \<Rightarrow> x);
          failed = (flush \<noteq> None \<or> close \<noteq> None);
          number = (case flush of Some (Some e) \<Rightarrow> e
            | _ \<Rightarrow> (case close of Some (Some e) \<Rightarrow> e | _ \<Rightarrow> EIO))
        in (\<not> failed, if failed \<and> reporting then raise_errno number w else w,
            out\<lparr>out_flushes := drop 1 (out_flushes out), out_closes := drop 1 (out_closes out),
              out_files := out_files out @ [(text_or [] (out_path out), out_text out)], out_path := None\<rparr>))"

subsection \<open>Reports as text\<close>

definition policy_lines :: "tool_analysis \<Rightarrow> analysis_policy \<Rightarrow> string \<Rightarrow> string list" where
  "policy_lines a p heading =
     (heading @ NL # ''findings='' @ decimal (an_policy_counts a p) @ [NL]) #
     map (\<lambda>f. of_diagnostic_id f @ '': '' @ of_message f @ '' ['' @ of_file_name f @ '':'' @
         signed_decimal (of_line_number f) @ '' in '' @ of_function_name f @ ''()]'' @ [NL])
       (filter (\<lambda>f. of_policy f = p) (an_findings a))"

definition write_policy_text ::
  "tool_analysis \<Rightarrow> string \<Rightarrow> string \<Rightarrow> analysis_policy \<Rightarrow> string \<Rightarrow> files \<Rightarrow> bool \<times> files" where
  "write_policy_text a directory name p heading s =
     (case open_output directory name s of
        (False, s1) \<Rightarrow> (False, s1)
      | (True, w, out) \<Rightarrow>
          (case write_calls (policy_lines a p heading) out of
             (b, out1) \<Rightarrow>
               let w1 = (if b then w else raise_errno EIO w) in
               (case close_output (w_raised w1 = []) (w1, out1) of (c, s2) \<Rightarrow> (b \<and> c, s2))))"

text \<open>A file whose writer raises EIO when it fails and that is closed in any case.\<close>

definition write_text_file :: "string \<Rightarrow> string \<Rightarrow> string list \<Rightarrow> files \<Rightarrow> bool \<times> files" where
  "write_text_file directory name calls s =
     (case open_output directory name s of
        (False, s1) \<Rightarrow> (False, s1)
      | (True, w, out) \<Rightarrow>
          (case write_calls calls out of
             (b, out1) \<Rightarrow>
               (case close_output True (if b then w else raise_errno EIO w, out1) of
                  (c, s2) \<Rightarrow> (b \<and> c, s2))))"

definition trace_summary_lines :: "tool_analysis \<Rightarrow> string list" where
  "trace_summary_lines a =
     [''event_schema=p101-tool-event-format-v5 event_id_policy=wire-sequence-with-derived-input-order'' @ NL #
      ''records='' @ decimal (an_call_records a) @ '' execution_contexts='' @
      decimal (length (case an_trace_contexts a of None \<Rightarrow> [] | Some cs \<Rightarrow> cs)) @ '' findings='' @
      decimal (an_policy_counts a POLICY_TRACE) @ [NL]]"

definition correlated_lines :: "tool_analysis \<Rightarrow> string list" where
  "correlated_lines a =
     (''# p101 correlated runtime report'' @ NL # NL # ''Findings: '' @ decimal (length (an_findings a)) @ [NL, NL]) #
     map (\<lambda>f. ''- '' @ of_diagnostic_id f @ '': '' @ of_message f @ '' ('' @ [CHR 0x60] @ of_file_name f @ '':'' @
         signed_decimal (of_line_number f) @ [CHR 0x60] @ '')'' @ [NL]) (an_findings a) @
     [NL # ''This report is bounded by emitted p101 wrapper events.'' @ [NL]]"

definition then_do :: "bool \<times> files \<Rightarrow> (files \<Rightarrow> bool \<times> files) \<Rightarrow> bool \<times> files" where
  "then_do r f = (case r of (True, s) \<Rightarrow> f s | (False, s) \<Rightarrow> (False, s))"

definition write_text_reports :: "tool_analysis \<Rightarrow> string \<Rightarrow> files \<Rightarrow> bool \<times> files" where
  "write_text_reports a directory s =
     then_do (then_do (then_do (then_do (then_do
       (write_policy_text a directory ''resource-report.txt'' POLICY_RESOURCE ''p101 resource policy'' s)
       (write_policy_text a directory ''concurrency-report.txt'' POLICY_SYNCHRONIZATION
         ''p101 synchronization policy''))
       (write_policy_text a directory ''sanitizer-report.txt'' POLICY_SANITIZER ''p101 sanitizer policy''))
       (write_text_file directory ''trace-tree.txt'' [an_trace_tree a]))
       (write_text_file directory ''trace-summary.txt'' (trace_summary_lines a)))
       (write_text_file directory ''correlated-report.txt'' (correlated_lines a))"

subsection \<open>Reports as JSON, the graph, and the bundle\<close>

definition json_reports :: "(string \<times> string \<times> analysis_policy option) list" where
  "json_reports = [
     (''resource-report.json'', ''p101-resource-policy-findings-v1'', Some POLICY_RESOURCE),
     (''concurrency-report.json'', ''p101-synchronization-policy-findings-v1'', Some POLICY_SYNCHRONIZATION),
     (''sanitizer-report.json'', ''p101-sanitizer-findings-v1'', Some POLICY_SANITIZER),
     (''correlated-report.json'', ''p101-analysis-findings-v1'', None)]"

text \<open>A document that cannot be written is closed, and no error is raised for it.\<close>

fun write_json_reports ::
  "(string \<Rightarrow> rule_definition option) \<Rightarrow> tool_analysis \<Rightarrow> string \<Rightarrow>
   (string \<times> string \<times> analysis_policy option) list \<Rightarrow> files \<Rightarrow> (bool \<times> files) option" where
  "write_json_reports rules a directory [] s = Some (True, s)"
| "write_json_reports rules a directory ((name, schema, p) # rs) s =
     (case open_output directory name s of
        (False, s1) \<Rightarrow> Some (False, s1)
      | (True, w, out) \<Rightarrow>
          (case write_json_document rules a schema p out of
             None \<Rightarrow> None
           | Some (b, out1) \<Rightarrow>
               (case close_output True (w, out1) of
                  (c, s2) \<Rightarrow> if b \<and> c then write_json_reports rules a directory rs s2 else Some (False, s2))))"

definition graph_lines :: "tool_model \<Rightarrow> string list" where
  "graph_lines m =
     (let lifetimes = filter (\<lambda>e. me_kind e = EDGE_RESOURCE_LIFETIME) (tm_edges m);
        fence = replicate 3 (CHR 0x60) in
      (''# Resource lifetime graph'' @ NL # NL # fence @ ''mermaid'' @ NL # ''flowchart LR'' @ [NL]) #
      map (\<lambda>k. ''  n'' @ decimal k @ ''a['' @ json_word ''resource acquired'' @ ''] --> n'' @ decimal k @ ''b['' @
          json_word ''resource released'' @ '']'' @ [NL]) [0..<length lifetimes] @
      (if lifetimes = [] then [''  empty['' @ json_word ''No completed resource lifetimes observed'' @ '']'' @ [NL]]
       else []) @ [fence @ [NL]])"

definition write_graph :: "tool_analysis \<Rightarrow> string \<Rightarrow> files \<Rightarrow> bool \<times> files" where
  "write_graph a directory s =
     (case open_output directory ''resource-lifetimes.md'' s of
        (False, s1) \<Rightarrow> (False, s1)
      | (True, w, out) \<Rightarrow>
          (case write_calls (graph_lines (an_model a)) out of
             (b, out1) \<Rightarrow>
               let w1 = (if b then w else raise_errno EIO w) in
               (case close_output (w_raised w1 = []) (w1, out1) of (c, s2) \<Rightarrow> (b \<and> c, s2))))"

datatype mkdir_answer = Made | Already_There | Not_Made errno

definition write_bundle ::
  "(string \<Rightarrow> rule_definition option) \<Rightarrow> tool_analysis option \<Rightarrow> string option \<Rightarrow> mkdir_answer \<Rightarrow> files \<Rightarrow>
   (bool \<times> files) option" where
  "write_bundle rules a directory made s =
     (case (a, directory) of
        (Some a, Some d) \<Rightarrow>
          if an_ordered a = None then Some (False, raise_errno EINVAL (fst s), snd s)
          else
            (case made of
               Not_Made e \<Rightarrow> Some (False, raise_errno e (fst s), snd s)
             | _ \<Rightarrow>
                 (case write_text_reports a d s of
                    (False, s1) \<Rightarrow> Some (False, s1)
                  | (True, s1) \<Rightarrow>
                      (case write_json_reports rules a d json_reports s1 of
                         None \<Rightarrow> None
                       | Some (False, s2) \<Rightarrow> Some (False, s2)
                       | Some (True, s2) \<Rightarrow> Some (write_graph a d s2))))
      | _ \<Rightarrow> Some (False, raise_errno EINVAL (fst s), snd s))"

end
