(* ===== verification/Interleaving.thy ===== *)
theory Interleaving
  imports Analysis_Report Analysis_Sync
begin

section \<open>The walk over interleavings (p101\_tool\_analysis\_write\_interleaving in src/analysis.c)\<close>

text \<open>
  A breadth-first walk over the orders that arise from the causal order by exchanging neighbours
  that are synchronization events of different threads. An order is a list of places in the
  causal order. For each new order the synchronization policy is run on all its prefixes; a
  finding that the causal order itself does not have is a counterexample, and ends the walk.
  The keys of findings are copied out of the prefix analyses, whose texts may have moved by
  then: \<open>None\<close>, as in Analysis\_Sync.
\<close>

record sync_key =
  sk_id :: string
  sk_from :: string
  sk_to :: string
  sk_message :: string
  sk_file :: string
  sk_function :: string
  sk_line :: int

definition SYNC_KEY_ID_SIZE :: nat where "SYNC_KEY_ID_SIZE = 32"

text \<open>\<open>sizeof(struct sync_key)\<close>: six buffers and an \<open>int\<close>.\<close>

definition SYNC_KEY_BYTES :: nat where "SYNC_KEY_BYTES = 996"

subsection \<open>Keys of findings\<close>

definition sync_key_present :: "sync_key list \<Rightarrow> string \<Rightarrow> string \<Rightarrow> string \<Rightarrow> bool" where
  "sync_key_present keys identifier src dst \<longleftrightarrow>
     list_ex (\<lambda>k. sk_id k = identifier \<and> sk_from k = src \<and> sk_to k = dst) keys"

definition sync_key_fits :: "sync_key \<Rightarrow> bool" where
  "sync_key_fits k \<longleftrightarrow> length (sk_id k) < SYNC_KEY_ID_SIZE \<and> length (sk_from k) < EVIDENCE_TEXT_SIZE \<and>
     length (sk_to k) < EVIDENCE_TEXT_SIZE \<and> length (sk_message k) < EVIDENCE_TEXT_SIZE \<and>
     length (sk_file k) < EVIDENCE_TEXT_SIZE \<and> length (sk_function k) < EVIDENCE_TEXT_SIZE"

definition sync_key_of :: "owned_finding \<Rightarrow> string \<Rightarrow> string \<Rightarrow> sync_key" where
  "sync_key_of f src dst = \<lparr>sk_id = of_diagnostic_id f, sk_from = src, sk_to = dst,
     sk_message = of_message f, sk_file = of_file_name f, sk_function = of_function_name f,
     sk_line = of_line_number f\<rparr>"

type_synonym keys_result = "(bool \<times> sync_key list \<times> world) option"

text \<open>The texts of the finding are read when the storage is there.\<close>

definition append_sync_key :: "sync_key list \<Rightarrow> tool_analysis \<Rightarrow> owned_finding \<Rightarrow> world \<Rightarrow> keys_result" where
  "append_sync_key keys a f w =
     (if length keys = SIZE_MAX div SYNC_KEY_BYTES then Some (False, keys, raise_errno EOVERFLOW w)
      else
        (case heap_request w of
           (False, w1) \<Rightarrow> Some (False, keys, raise_errno ENOMEM w1)
         | (True, w1) \<Rightarrow>
             (case (published_text a f of_evidence_from, published_text a f of_evidence_to) of
                (Some src, Some dst) \<Rightarrow>
                  if sync_key_fits (sync_key_of f src dst) then Some (True, keys @ [sync_key_of f src dst], w1)
                  else Some (False, keys, raise_errno EOVERFLOW w1)
              | _ \<Rightarrow> None)))"

fun collect_findings :: "tool_analysis \<Rightarrow> owned_finding list \<Rightarrow> sync_key list \<Rightarrow> world \<Rightarrow> keys_result" where
  "collect_findings a [] keys w = Some (True, keys, w)"
| "collect_findings a (f # fs) keys w =
     (case (published_text a f of_evidence_from, published_text a f of_evidence_to) of
        (Some src, Some dst) \<Rightarrow>
          if sync_key_present keys (of_diagnostic_id f) src dst then collect_findings a fs keys w
          else
            (case append_sync_key keys a f w of
               None \<Rightarrow> None
             | Some (False, keys1, w1) \<Rightarrow> Some (False, keys1, w1)
             | Some (True, keys1, w1) \<Rightarrow> collect_findings a fs keys1 w1)
      | _ \<Rightarrow> if keys \<noteq> [] then None
          else
            (case append_sync_key keys a f w of
               Some (False, keys1, w1) \<Rightarrow> Some (False, keys1, w1)
             | _ \<Rightarrow> None))"

text \<open>An analysis that has nothing but an order.\<close>

definition prefix_analysis :: "tool_model \<Rightarrow> nat list \<Rightarrow> tool_analysis" where
  "prefix_analysis m order = (new_analysis m)\<lparr>an_ordered := Some order\<rparr>"

fun collect_prefixes ::
  "tool_model \<Rightarrow> nat list \<Rightarrow> nat list \<Rightarrow> sync_key list \<Rightarrow> world \<Rightarrow> keys_result" where
  "collect_prefixes m order [] keys w = Some (True, keys, w)"
| "collect_prefixes m order (k # ks) keys w =
     (case analyze_synchronization (prefix_analysis m (take k order), w) of
        None \<Rightarrow> None
      | Some (False, a, w1) \<Rightarrow> Some (False, keys, w1)
      | Some (True, a, w1) \<Rightarrow>
          (case collect_findings a (an_findings a) keys w1 of
             None \<Rightarrow> None
           | Some (False, keys1, w2) \<Rightarrow> Some (False, keys1, w2)
           | Some (True, keys1, w2) \<Rightarrow> collect_prefixes m order ks keys1 w2))"

definition collect_prefix_sync_keys :: "tool_model \<Rightarrow> nat list \<Rightarrow> world \<Rightarrow> keys_result" where
  "collect_prefix_sync_keys m order w = collect_prefixes m order [1..<Suc (length order)] [] w"

subsection \<open>Which neighbours may be exchanged\<close>

definition interleaving_node :: "model_node \<Rightarrow> bool" where
  "interleaving_node n \<longleftrightarrow> mn_domain n = NODE_RESOURCE \<and> mn_record_kind n = RECORD_RESOURCE \<and>
     synchronization_class (mn_resource_class n)"

definition same_sync_thread :: "model_node \<Rightarrow> model_node \<Rightarrow> bool" where
  "same_sync_thread l r \<longleftrightarrow>
     (if mn_metadata l \<noteq> [] \<and> mn_metadata r \<noteq> [] then mn_pid l = mn_pid r \<and> mn_metadata l = mn_metadata r
      else mn_pid l = mn_pid r \<and> mn_context_id l = mn_context_id r)"

definition directly_ordered :: "tool_model \<Rightarrow> nat \<Rightarrow> nat \<Rightarrow> bool" where
  "directly_ordered m l r \<longleftrightarrow> list_ex (\<lambda>e. me_from e = l \<and> me_to e = r) (tm_edges m)"

text \<open>For two places of the causal order \<open>xs\<close>, in their present order.\<close>

definition exchangeable :: "tool_model \<Rightarrow> nat list \<Rightarrow> nat \<Rightarrow> nat \<Rightarrow> bool" where
  "exchangeable m xs l r \<longleftrightarrow>
     (let left = tm_nodes m ! (xs ! l); right = tm_nodes m ! (xs ! r) in
      interleaving_node left \<and> interleaving_node right \<and> \<not> same_sync_thread left right \<and>
      \<not> directly_ordered m (xs ! l) (xs ! r))"

definition schedule_seen :: "nat list list \<Rightarrow> nat list \<Rightarrow> bool" where
  "schedule_seen orders candidate \<longleftrightarrow> candidate \<in> set orders"

definition exchange :: "nat \<Rightarrow> nat list \<Rightarrow> nat list" where
  "exchange i order = order[i := order ! Suc i, Suc i := order ! i]"

subsection \<open>What is written for a counterexample\<close>

definition write_sync_key_json :: "sync_key \<Rightarrow> string list" where
  "write_sync_key_json k =
     [''{'' @ json_key ''id''] @ json_string_calls (sk_id k) @ ['','' @ json_key ''message''] @
     json_string_calls (sk_message k) @ ['','' @ json_key ''location'' @ ''{'' @ json_key ''file''] @
     json_string_calls (sk_file k) @
     ['','' @ json_key ''line'' @ signed_decimal (sk_line k) @ '','' @ json_key ''function''] @
     json_string_calls (sk_function k) @ [''},'' @ json_key ''evidence'' @ ''{'' @ json_key ''from''] @
     json_string_calls (sk_from k) @ ['','' @ json_key ''to''] @ json_string_calls (sk_to k) @ [''}}'']"

text \<open>From an order to the first one, along the parents; each has a smaller number than its child.\<close>

fun parent_chain :: "nat \<Rightarrow> nat option list \<Rightarrow> nat option \<Rightarrow> nat list" where
  "parent_chain 0 parents cursor = []"
| "parent_chain (Suc k) parents cursor =
     (case cursor of None \<Rightarrow> [] | Some c \<Rightarrow> c # parent_chain k parents (parents ! c))"

definition swap_calls :: "tool_model \<Rightarrow> nat list \<Rightarrow> bool \<Rightarrow> nat \<times> nat \<Rightarrow> string list" where
  "swap_calls m xs first swap =
     [(if first then [] else '','') @ ''{'' @ json_key ''before''] @
     json_string_calls (format_node_id (Some (tm_nodes m ! (xs ! fst swap)))) @ ['','' @ json_key ''after''] @
     json_string_calls (format_node_id (Some (tm_nodes m ! (xs ! snd swap)))) @ [''}'']"

fun all_swap_calls :: "tool_model \<Rightarrow> nat list \<Rightarrow> bool \<Rightarrow> (nat \<times> nat) list \<Rightarrow> string list" where
  "all_swap_calls m xs first [] = []"
| "all_swap_calls m xs first (s # ss) = swap_calls m xs first s @ all_swap_calls m xs False ss"

fun all_key_calls :: "bool \<Rightarrow> sync_key list \<Rightarrow> string list" where
  "all_key_calls first [] = []"
| "all_key_calls first (k # ks) = (if first then [] else '','') # write_sync_key_json k @ all_key_calls False ks"

definition counterexample_calls ::
  "tool_model \<Rightarrow> nat list \<Rightarrow> bool \<Rightarrow> (nat \<times> nat) list \<Rightarrow> sync_key list \<Rightarrow> string list" where
  "counterexample_calls m xs first swaps news =
     [(if first then [] else '','') @ NL # ''    {'' @ json_key ''swaps'' @ ''[''] @ all_swap_calls m xs True swaps @
     [''],'' @ json_key ''findings'' @ ''[''] @ all_key_calls True news @ ['']}'']"

subsection \<open>The walk\<close>

record walk =
  wk_orders :: "nat list list"
  wk_parents :: "nat option list"
  wk_swaps :: "(nat \<times> nat) list"
  wk_found :: nat
  wk_status :: bool
  wk_out :: out_state
  wk_world :: world

record walk_setting =
  ws_model :: tool_model
  ws_order :: "nat list"
  ws_baseline :: "sync_key list"
  ws_limit :: nat

definition new_keys :: "sync_key list \<Rightarrow> sync_key list \<Rightarrow> sync_key list" where
  "new_keys baseline keys = filter (\<lambda>k. \<not> sync_key_present baseline (sk_id k) (sk_from k) (sk_to k)) keys"

text \<open>The order with number \<open>length (wk_orders s)\<close>, reached from the order \<open>q\<close> by one exchange.\<close>

definition try_schedule :: "walk_setting \<Rightarrow> nat \<Rightarrow> nat \<times> nat \<Rightarrow> nat list \<Rightarrow> walk \<Rightarrow> walk option" where
  "try_schedule p q swap candidate s =
     (case heap_request (wk_world s) of
        (False, w1) \<Rightarrow> Some (s\<lparr>wk_status := False, wk_world := raise_errno ENOMEM w1\<rparr>)
      | (True, w1) \<Rightarrow>
          (let s1 = s\<lparr>wk_orders := wk_orders s @ [candidate], wk_parents := wk_parents s @ [Some q],
               wk_swaps := wk_swaps s @ [swap]\<rparr> in
           case collect_prefix_sync_keys (ws_model p) (map (\<lambda>i. ws_order p ! i) candidate) w1 of
             None \<Rightarrow> None
           | Some (False, keys, w2) \<Rightarrow> Some (s1\<lparr>wk_status := False, wk_world := w2\<rparr>)
           | Some (True, keys, w2) \<Rightarrow>
               (let news = new_keys (ws_baseline p) keys in
                if news = [] then Some (s1\<lparr>wk_world := w2\<rparr>)
                else
                  (let number = length (wk_orders s);
                     chain = parent_chain (Suc number) (wk_parents s1) (Some number);
                     swaps = map (\<lambda>c. wk_swaps s1 ! c) (tl (rev chain)) in
                   case write_calls (counterexample_calls (ws_model p) (ws_order p) (wk_found s = 0) swaps news)
                          (wk_out s) of
                     (b, out1) \<Rightarrow> Some (s1\<lparr>wk_found := wk_found s + 1, wk_status := b, wk_out := out1,
                       wk_world := w2\<rparr>)))))"

definition walking :: "walk_setting \<Rightarrow> walk \<Rightarrow> bool" where
  "walking p s \<longleftrightarrow> length (wk_orders s) < ws_limit p \<and> wk_found s = 0 \<and> wk_status s"

fun exchanges_from :: "walk_setting \<Rightarrow> nat \<Rightarrow> nat list \<Rightarrow> nat \<Rightarrow> nat \<Rightarrow> walk \<Rightarrow> walk option" where
  "exchanges_from p q current 0 i s = Some s"
| "exchanges_from p q current (Suc k) i s =
     (if \<not> walking p s then Some s
      else if \<not> exchangeable (ws_model p) (ws_order p) (current ! i) (current ! Suc i) \<or>
        schedule_seen (wk_orders s) (exchange i current)
      then exchanges_from p q current k (Suc i) s
      else
        (case try_schedule p q (current ! i, current ! Suc i) (exchange i current) s of
           None \<Rightarrow> None
         | Some s1 \<Rightarrow> exchanges_from p q current k (Suc i) s1))"

function walk_queue :: "walk_setting \<Rightarrow> nat \<Rightarrow> walk \<Rightarrow> walk option" where
  "walk_queue p q s =
     (if q < length (wk_orders s) \<and> walking p s
      then
        (case exchanges_from p q (wk_orders s ! q) (length (ws_order p) - 1) 0 s of
           None \<Rightarrow> None
         | Some s1 \<Rightarrow> walk_queue p (Suc q) s1)
      else Some s)"
  by pat_completeness auto
termination
  by (relation "measure (\<lambda>(p, q, s). ws_limit p - q)") (auto simp: walking_def)

declare walk_queue.simps [simp del]

definition start_walk :: "walk_setting \<Rightarrow> bool \<Rightarrow> out_state \<Rightarrow> world \<Rightarrow> walk" where
  "start_walk p b out w = \<lparr>wk_orders = [[0..<length (ws_order p)]], wk_parents = [None], wk_swaps = [(0, 0)],
     wk_found = 0, wk_status = b, wk_out = out, wk_world = w\<rparr>"

subsection \<open>The whole function\<close>

definition interleaving_head :: string where
  "interleaving_head = ''{'' @ NL # ''  '' @ json_key ''schema'' @ '' '' @ json_word ''p101-interleaving-walk-v1'' @
     '','' @ NL # ''  '' @ json_key ''counterexamples'' @ '' [''"

definition interleaving_tail :: "nat \<Rightarrow> nat \<Rightarrow> nat \<Rightarrow> nat \<Rightarrow> string" where
  "interleaving_tail explored found baseline bound =
     NL # ''  ],'' @ NL # ''  '' @ json_key ''summary'' @ '' {'' @ json_key ''schedules_explored'' @ '' '' @
     decimal explored @ '', '' @ json_key ''counterexample_schedules'' @ '' '' @ decimal found @ '', '' @
     json_key ''baseline_findings'' @ '' '' @ decimal baseline @ '', '' @ json_key ''bound'' @ '' '' @
     decimal bound @ ''},'' @ NL # ''  '' @ json_key ''blind_spots'' @ '' ['' @
     json_word ''explores reorderings of observed synchronization events only'' @ '', '' @
     json_word ''does not execute the program or invent unobserved branches'' @ '', '' @
     json_word ''preserves recorded causal edges and each thread's local order'' @ '']'' @ NL # ''}'' @ [NL]"

text \<open>
  The status, what is stored in \<open>*counterexample_count\<close> (if anything), and the effects. When one
  of the six arrays cannot be allocated the error is raised, but the status is still the
  success of the collection before.
\<close>

definition write_interleaving ::
  "tool_analysis option \<Rightarrow> out_state option \<Rightarrow> nat \<Rightarrow> world \<Rightarrow>
   (bool \<times> nat option \<times> world \<times> out_state option) option" where
  "write_interleaving analysis stream limit w =
     (case (analysis, stream, Option.bind analysis an_ordered) of
        (Some a, Some out, Some xs) \<Rightarrow>
          (let n = length xs in
           if limit = 0 then Some (False, None, raise_errno EINVAL w, stream)
           else if SIZE_MAX div 8 < limit \<or> (n \<noteq> 0 \<and> SIZE_MAX div n < limit) \<or>
             SIZE_MAX div 8 < limit * (if n = 0 then 1 else n) \<or> SIZE_MAX div 16 < n
           then Some (False, None, raise_errno EOVERFLOW w, stream)
           else
             (case collect_prefix_sync_keys (an_model a) xs w of
                None \<Rightarrow> None
              | Some (False, keys, w1) \<Rightarrow> Some (False, None, w1, stream)
              | Some (True, baseline, w1) \<Rightarrow>
                  (case requests 6 w1 of
                     (granted, w2) \<Rightarrow>
                       if \<not> list_all (\<lambda>b. b) granted then Some (True, Some 0, raise_errno ENOMEM w2, stream)
                       else
                         (let p = \<lparr>ws_model = an_model a, ws_order = xs, ws_baseline = baseline, ws_limit = limit\<rparr> in
                          case write_calls [interleaving_head] out of
                            (b, out1) \<Rightarrow>
                              (case walk_queue p 0 (start_walk p b out1 w2) of
                                 None \<Rightarrow> None
                               | Some s \<Rightarrow>
                                   if \<not> wk_status s
                                   then Some (False, Some (wk_found s), wk_world s, Some (wk_out s))
                                   else
                                     (case write_calls [interleaving_tail (length (wk_orders s)) (wk_found s)
                                              (an_policy_counts a POLICY_SYNCHRONIZATION) limit] (wk_out s) of
                                        (c, out2) \<Rightarrow> Some (c, Some (wk_found s), wk_world s, Some out2)))))))
      | _ \<Rightarrow> Some (False, None, raise_errno EINVAL w, stream))"

end
