(* ===== verification/Interleaving_Facts.thy ===== *)
theory Interleaving_Facts
  imports Interleaving Analysis_Order_Facts
begin

section \<open>Facts about the walk over interleavings\<close>

text \<open>
  The orders that single exchanges can reach, what all of them have in common, and the
  invariant of the walk: what it has visited is reachable, and the orders it has left behind
  have all their neighbours visited.
\<close>

subsection \<open>Exchanges\<close>

lemma exchange_length [simp]: "length (exchange i xs) = length xs"
  by (simp add: exchange_def)

lemma exchange_mset: "Suc i < length xs \<Longrightarrow> mset (exchange i xs) = mset xs"
  unfolding exchange_def by (rule mset_swap) simp_all

lemma exchange_nth:
  assumes "Suc i < length xs" and "a < length xs"
  shows "exchange i xs ! (if a = i then Suc i else if a = Suc i then i else a) = xs ! a"
  using assms by (auto simp: exchange_def nth_list_update)

lemma exchange_precedes:
  assumes "Suc i < length xs" and "precedes xs u v" and "\<not> (u = xs ! i \<and> v = xs ! Suc i)"
  shows "precedes (exchange i xs) u v"
proof -
  from assms(2) obtain a b where ab: "a < b" "b < length xs" "xs ! a = u" "xs ! b = v"
    by (auto simp: precedes_def)
  let ?p = "\<lambda>a. if a = i then Suc i else if a = Suc i then i else a"
  have "\<not> (a = i \<and> b = Suc i)" using ab assms(3) by auto
  with ab(1) have "?p a < ?p b" by (auto split: if_splits)
  moreover have "?p b < length xs" using ab(2) assms(1) by simp
  moreover have "exchange i xs ! ?p a = u" "exchange i xs ! ?p b = v"
    using exchange_nth [OF assms(1), of a] exchange_nth [OF assms(1), of b] ab by simp_all
  ultimately show ?thesis unfolding precedes_def exchange_length by blast
qed

subsection \<open>The orders that can be reached\<close>

definition swap_step :: "walk_setting \<Rightarrow> nat list \<Rightarrow> nat list \<Rightarrow> bool" where
  "swap_step p current candidate \<longleftrightarrow> (\<exists>i. Suc i < length (ws_order p) \<and>
     exchangeable (ws_model p) (ws_order p) (current ! i) (current ! Suc i) \<and> candidate = exchange i current)"

inductive schedule :: "walk_setting \<Rightarrow> nat list \<Rightarrow> bool" for p where
  recorded: "schedule p [0..<length (ws_order p)]"
| exchanged: "schedule p current \<Longrightarrow> swap_step p current candidate \<Longrightarrow> schedule p candidate"

text \<open>A schedule is a permutation, and two events that may not be exchanged keep their order.\<close>

lemma schedule_permutes: "schedule p order \<Longrightarrow> mset order = mset [0..<length (ws_order p)]"
proof (induction rule: schedule.induct)
  case (exchanged current candidate)
  have "length current = length (ws_order p)" using arg_cong [OF exchanged(3), of size] by simp
  with exchanged(2,3) exchange_mset show ?case by (auto simp: swap_step_def)
qed simp

lemma schedule_length: "schedule p order \<Longrightarrow> length order = length (ws_order p)"
  using arg_cong [OF schedule_permutes, of p order size] by simp

lemma schedule_keeps:
  "schedule p order \<Longrightarrow> u < v \<Longrightarrow> v < length (ws_order p) \<Longrightarrow>
     \<not> exchangeable (ws_model p) (ws_order p) u v \<Longrightarrow> precedes order u v"
proof (induction rule: schedule.induct)
  case recorded
  then show ?case unfolding precedes_def by (intro exI [of _ u] exI [of _ v]) simp
next
  case (exchanged current candidate)
  from exchanged(2) obtain i where i: "Suc i < length (ws_order p)" "candidate = exchange i current"
    "exchangeable (ws_model p) (ws_order p) (current ! i) (current ! Suc i)" by (auto simp: swap_step_def)
  with exchanged(3-6) schedule_length [OF exchanged(1)] show ?case
    by (auto intro: exchange_precedes)
qed

subsection \<open>The invariant of the walk\<close>

text \<open>A schedule that the policy judges, and the findings it has beyond the baseline.\<close>

definition judged :: "walk_setting \<Rightarrow> nat list \<Rightarrow> sync_key list \<Rightarrow> bool" where
  "judged p order news \<longleftrightarrow> (\<exists>w keys w1.
     collect_prefix_sync_keys (ws_model p) (map (\<lambda>i. ws_order p ! i) order) w = Some (True, keys, w1) \<and>
     news = new_keys (ws_baseline p) keys)"

lemma judged_intro:
  "collect_prefix_sync_keys (ws_model p) (map (\<lambda>i. ws_order p ! i) order) w = Some (True, keys, w1) \<Longrightarrow>
     judged p order (new_keys (ws_baseline p) keys)"
  unfolding judged_def by blast

definition walk_ok :: "walk_setting \<Rightarrow> walk \<Rightarrow> bool" where
  "walk_ok p s \<longleftrightarrow> wk_orders s \<noteq> [] \<and> hd (wk_orders s) = [0..<length (ws_order p)] \<and>
     distinct (wk_orders s) \<and> (\<forall>order \<in> set (wk_orders s). schedule p order) \<and>
     (wk_found s = 0 \<longrightarrow> wk_status s \<longrightarrow> (\<forall>order \<in> set (tl (wk_orders s)). judged p order [])) \<and>
     (wk_found s \<noteq> 0 \<longrightarrow> (\<exists>news. news \<noteq> [] \<and> judged p (last (wk_orders s)) news)) \<and>
     length (wk_orders s) \<le> ws_limit p"

lemma walk_ok_start: "1 \<le> ws_limit p \<Longrightarrow> walk_ok p (start_walk p b out w)"
  by (simp add: walk_ok_def start_walk_def recorded)

lemma try_schedule_ok:
  assumes "walk_ok p s" and "walking p s" and "schedule p candidate" and "candidate \<notin> set (wk_orders s)"
    and "try_schedule p q swap candidate s = Some s1"
  shows "walk_ok p s1 \<and> (\<exists>more. wk_orders s1 = wk_orders s @ more) \<and>
    (walking p s1 \<longrightarrow> candidate \<in> set (wk_orders s1))"
proof -
  obtain b w1 where req: "heap_request (wk_world s) = (b, w1)" by (rule prod.exhaust)
  have ok: "wk_orders s \<noteq> []" "hd (wk_orders s) = [0..<length (ws_order p)]" "distinct (wk_orders s)"
    "\<forall>order \<in> set (wk_orders s). schedule p order" "\<forall>order \<in> set (tl (wk_orders s)). judged p order []"
    "length (wk_orders s) < ws_limit p" "wk_found s = 0"
    using assms(1,2) by (auto simp: walk_ok_def walking_def)
  show ?thesis
  proof (cases b)
    case False
    with assms(5) req have "s1 = s\<lparr>wk_status := False, wk_world := raise_errno ENOMEM w1\<rparr>"
      by (simp add: try_schedule_def)
    with ok show ?thesis by (simp add: walk_ok_def walking_def)
  next
    case True
    let ?collect = "collect_prefix_sync_keys (ws_model p) (map (\<lambda>i. ws_order p ! i) candidate) w1"
    from assms(5) req True obtain c keys w2 where c: "?collect = Some (c, keys, w2)"
      by (cases ?collect) (auto simp: try_schedule_def Let_def)
    have tl: "tl (wk_orders s @ [candidate]) = tl (wk_orders s) @ [candidate]" using ok(1) by simp
    consider (stopped) "\<not> c" "wk_orders s1 = wk_orders s @ [candidate]" "\<not> wk_status s1" "wk_found s1 = 0"
      | (clean) "c" "wk_orders s1 = wk_orders s @ [candidate]" "wk_found s1 = 0" "wk_status s1 = wk_status s"
          "new_keys (ws_baseline p) keys = []"
      | (found) "c" "wk_orders s1 = wk_orders s @ [candidate]" "wk_found s1 \<noteq> 0"
          "new_keys (ws_baseline p) keys \<noteq> []"
      using assms(5) req True c ok(7)
      by (cases c; cases "new_keys (ws_baseline p) keys = []")
        (auto simp: try_schedule_def Let_def split: prod.splits)
    then show ?thesis
    proof cases
      case stopped
      with ok assms(3,4) show ?thesis by (auto simp: walk_ok_def walking_def)
    next
      case clean
      with judged_intro [of p candidate w1 keys w2] c have "judged p candidate []" by simp
      with clean ok assms(3,4) show ?thesis by (auto simp: walk_ok_def walking_def tl)
    next
      case found
      with judged_intro [of p candidate w1 keys w2] c
      have "judged p candidate (new_keys (ws_baseline p) keys)" by simp
      with found ok assms(3,4) show ?thesis by (auto simp: walk_ok_def walking_def)
    qed
  qed
qed

lemma exchanges_from_ok:
  assumes "walk_ok p s" and "schedule p current" and "i + k = length (ws_order p) - 1"
    and "exchanges_from p q current k i s = Some s1"
  shows "walk_ok p s1 \<and> (\<exists>more. wk_orders s1 = wk_orders s @ more) \<and>
    (walking p s1 \<longrightarrow> (\<forall>j. i \<le> j \<longrightarrow> Suc j < length (ws_order p) \<longrightarrow>
       exchangeable (ws_model p) (ws_order p) (current ! j) (current ! Suc j) \<longrightarrow>
       exchange j current \<in> set (wk_orders s1)))"
  using assms(1,3,4)
proof (induction k arbitrary: i s)
  case 0
  have "s1 = s" using 0(3) by simp
  moreover have "\<not> (i \<le> j \<and> Suc j < length (ws_order p))" for j using 0(2) by linarith
  ultimately show ?case using 0(1) by (intro conjI exI [of _ "[]"]) auto
next
  case (Suc k)
  let ?skip = "\<not> exchangeable (ws_model p) (ws_order p) (current ! i) (current ! Suc i) \<or>
      schedule_seen (wk_orders s) (exchange i current)"
  have i: "Suc i + k = length (ws_order p) - 1" "Suc i < length (ws_order p)" using Suc.prems(2) by linarith+
  show ?case
  proof (cases "walking p s")
    case False
    then have "s1 = s" using Suc.prems(3) by simp
    with False Suc.prems(1) show ?thesis by simp
  next
    case walk: True
    show ?thesis
    proof (cases ?skip)
      case True
      have "exchanges_from p q current k (Suc i) s = Some s1"
        using Suc.prems(3) walk True by (simp only: exchanges_from.simps if_True not_True_eq_False if_False)
      from Suc.IH [OF Suc.prems(1) i(1) this] obtain more where r: "walk_ok p s1"
        "wk_orders s1 = wk_orders s @ more"
        "walking p s1 \<longrightarrow> (\<forall>j. Suc i \<le> j \<longrightarrow> Suc j < length (ws_order p) \<longrightarrow>
           exchangeable (ws_model p) (ws_order p) (current ! j) (current ! Suc j) \<longrightarrow>
           exchange j current \<in> set (wk_orders s1))" by blast
      have "exchange j current \<in> set (wk_orders s1)" if "walking p s1" "i \<le> j" "Suc j < length (ws_order p)"
        "exchangeable (ws_model p) (ws_order p) (current ! j) (current ! Suc j)" for j
      proof (cases "j = i")
        case True
        with \<open>?skip\<close> that(4) r(2) show ?thesis by (simp add: schedule_seen_def)
      qed (use r(3) that in auto)
      with r(1,2) show ?thesis by blast
    next
      case False
      let ?cand = "exchange i current"
      have new: "?cand \<notin> set (wk_orders s)" using False by (simp add: schedule_seen_def)
      have sched: "schedule p ?cand"
        using exchanged [OF assms(2), of ?cand] i(2) False by (auto simp: swap_step_def)
      from Suc.prems(3) walk False obtain s2 where s2:
        "try_schedule p q (current ! i, current ! Suc i) ?cand s = Some s2"
        "exchanges_from p q current k (Suc i) s2 = Some s1"
        by (auto split: option.splits)
      from try_schedule_ok [OF Suc.prems(1) walk sched new s2(1)] obtain more1 where t: "walk_ok p s2"
        "wk_orders s2 = wk_orders s @ more1" "walking p s2 \<longrightarrow> ?cand \<in> set (wk_orders s2)" by blast
      from Suc.IH [OF t(1) i(1) s2(2)] obtain more2 where r: "walk_ok p s1" "wk_orders s1 = wk_orders s2 @ more2"
        "walking p s1 \<longrightarrow> (\<forall>j. Suc i \<le> j \<longrightarrow> Suc j < length (ws_order p) \<longrightarrow>
           exchangeable (ws_model p) (ws_order p) (current ! j) (current ! Suc j) \<longrightarrow>
           exchange j current \<in> set (wk_orders s1))" by blast
      have still: "walking p s2" if "walking p s1"
      proof (rule ccontr)
        assume n: "\<not> walking p s2"
        then have "s1 = s2" using s2(2) by (cases k) simp_all
        with n that show False by simp
      qed
      have "exchange j current \<in> set (wk_orders s1)" if "walking p s1" "i \<le> j" "Suc j < length (ws_order p)"
        "exchangeable (ws_model p) (ws_order p) (current ! j) (current ! Suc j)" for j
      proof (cases "j = i")
        case True
        with still [OF that(1)] t(3) r(2) show ?thesis by simp
      qed (use r(3) that in auto)
      with r(1,2) t(2) show ?thesis by auto
    qed
  qed
qed

definition expanded :: "walk_setting \<Rightarrow> walk \<Rightarrow> nat \<Rightarrow> bool" where
  "expanded p s q \<longleftrightarrow> (\<forall>j < q. \<forall>candidate. swap_step p (wk_orders s ! j) candidate \<longrightarrow>
     candidate \<in> set (wk_orders s))"

lemma walk_queue_ok:
  assumes "walk_ok p s" and "walking p s \<longrightarrow> expanded p s q" and "q \<le> length (wk_orders s)"
    and "walk_queue p q s = Some s1"
  shows "walk_ok p s1 \<and> (walking p s1 \<longrightarrow> expanded p s1 (length (wk_orders s1)))"
  using assms
proof (induction p q s rule: walk_queue.induct)
  case (1 p q s)
  show ?case
  proof (cases "q < length (wk_orders s) \<and> walking p s")
    case False
    have "walk_queue p q s = Some s" unfolding walk_queue.simps [of p q s] if_not_P [OF False] ..
    with 1(2-) False show ?thesis by auto
  next
    case True
    let ?current = "wk_orders s ! q"
    from 1(5) True obtain s2 where s2: "exchanges_from p q ?current (length (ws_order p) - 1) 0 s = Some s2"
      "walk_queue p (Suc q) s2 = Some s1"
      unfolding walk_queue.simps [of p q s] by (auto split: option.splits)
    have sched: "schedule p ?current" using 1(2) True by (simp add: walk_ok_def)
    have "0 + (length (ws_order p) - 1) = length (ws_order p) - 1" by simp
    from exchanges_from_ok [OF 1(2) sched this s2(1)] obtain more where r: "walk_ok p s2"
      "wk_orders s2 = wk_orders s @ more"
      "walking p s2 \<longrightarrow> (\<forall>j. Suc j < length (ws_order p) \<longrightarrow>
         exchangeable (ws_model p) (ws_order p) (?current ! j) (?current ! Suc j) \<longrightarrow>
         exchange j ?current \<in> set (wk_orders s2))" by auto
    have "candidate \<in> set (wk_orders s2)" if "walking p s2" "j < Suc q"
      "swap_step p (wk_orders s2 ! j) candidate" for j candidate
    proof (cases "j = q")
      case True
      with that r(2,3) \<open>q < length (wk_orders s) \<and> walking p s\<close> show ?thesis
        by (auto simp: swap_step_def nth_append)
    next
      case False
      with that(2) have "j < q" by simp
      with that(3) r(2) True have "swap_step p (wk_orders s ! j) candidate" by (simp add: nth_append)
      with 1(3) True \<open>j < q\<close> r(2) show ?thesis by (auto simp: expanded_def)
    qed
    then have "walking p s2 \<longrightarrow> expanded p s2 (Suc q)" by (simp add: expanded_def)
    moreover have "Suc q \<le> length (wk_orders s2)" using True r(2) by simp
    ultimately show ?thesis using 1(1) [OF True s2(1) r(1)] s2(2) by blast
  qed
qed

text \<open>A walk that ends below its bound and without a counterexample has seen every schedule.\<close>

lemma walk_exhaustive:
  assumes "walk_queue p 0 (start_walk p b out w) = Some s" and "1 \<le> ws_limit p" and "walking p s"
  shows "set (wk_orders s) = {order. schedule p order}"
proof -
  have "0 \<le> length (wk_orders (start_walk p b out w))" by simp
  from walk_queue_ok [OF walk_ok_start [OF assms(2)] _ this assms(1)] have r: "walk_ok p s"
    "expanded p s (length (wk_orders s))" using assms(3) by (simp_all add: expanded_def)
  have "order \<in> set (wk_orders s)" if "schedule p order" for order
    using that
  proof induction
    case recorded
    with r(1) show ?case by (metis hd_in_set walk_ok_def)
  next
    case (exchanged current candidate)
    then obtain j where "j < length (wk_orders s)" "wk_orders s ! j = current" by (auto simp: in_set_conv_nth)
    with r(2) exchanged(2) show ?case by (auto simp: expanded_def)
  qed
  with r(1) show ?thesis by (auto simp: walk_ok_def)
qed

end
