(* ===== verification/Interleaving_Properties.thy ===== *)
theory Interleaving_Properties
  imports Interleaving_Facts Analysis_Policies
begin

section \<open>What the walk over interleavings reports\<close>







subsection \<open>The text\<close>










subsection \<open>Short memory\<close>

lemma requests_raised: "requests k w = (bs, w1) \<Longrightarrow> w_raised w1 = w_raised w"
  by (induction k arbitrary: w bs) (auto split: prod.splits dest: heap_request_raised)

text \<open>When memory is short for the arrays of the walk, the error is raised but the status is success.\<close>

lemma interleaving_shortage:
  assumes "an_ordered a = Some xs" and "0 < limit" and "limit * Suc (length xs) \<le> SIZE_MAX div 16"
    and "collect_prefix_sync_keys (an_model a) xs w = Some (True, keys, w1)" and "w_alloc w1 = False # answers"
  shows "\<exists>w2. write_interleaving (Some a) (Some out) limit w = Some (True, Some 0, w2, Some out) \<and>
    w_raised w2 = w_raised w1 @ [Errno_Error ENOMEM]"
proof -
  let ?n = "length xs"
  have "limit * ?n + limit \<le> SIZE_MAX div 16" using assms(3) by (simp add: add.commute)
  then have b: "limit \<le> SIZE_MAX div 16" "limit * ?n \<le> SIZE_MAX div 16" by linarith+
  have "?n \<le> limit * ?n" using assms(2) by (cases limit) simp_all
  from le_trans [OF this b(2)] have n: "?n \<le> SIZE_MAX div 16" .
  have "limit \<le> SIZE_MAX div ?n" if "?n \<noteq> 0"
    using that b(2) by (simp add: less_eq_div_iff_mult_less_eq SIZE_MAX_def)
  with b n have guard: "\<not> (SIZE_MAX div 8 < limit \<or> (?n \<noteq> 0 \<and> SIZE_MAX div ?n < limit) \<or>
      SIZE_MAX div 8 < limit * (if ?n = 0 then 1 else ?n) \<or> SIZE_MAX div 16 < ?n)"
    by (auto simp: SIZE_MAX_def)
  obtain granted w2 where g: "requests 6 w1 = (granted, w2)" by (rule prod.exhaust)
  have "\<not> list_all (\<lambda>b. b) granted \<and> w_raised w2 = w_raised w1"
  proof
    obtain w3 where "heap_request w1 = (False, w3)" using assms(5) by (simp add: heap_request_def)
    moreover obtain bs w4 where "requests 5 w3 = (bs, w4)" by (rule prod.exhaust)
    moreover have "requests (Suc 5) w1 = (granted, w2)" using g by simp
    ultimately have "granted = False # bs" unfolding requests.simps by simp
    then show "\<not> list_all (\<lambda>b. b) granted" by simp
    show "w_raised w2 = w_raised w1" by (rule requests_raised [OF g])
  qed
  with g guard assms(1,2,4) show ?thesis
    unfolding write_interleaving_def by (simp add: Let_def raise_errno_def)
qed

subsection \<open>Two threads\<close>

text \<open>Two threads that initialise a mutex each: two schedules, and no finding in either.\<close>

definition mutex_created :: "nat \<Rightarrow> string \<Rightarrow> model_node" where
  "mutex_created context name = copy_record (zero_record\<lparr>ev_version := 5, ev_run_id := Some ''r'', ev_pid := 7,
     ev_context_id := context, ev_sequence := 1, ev_record_kind := RECORD_RESOURCE, ev_resource_kind := RESOURCE_ACQUIRE,
     ev_resource_class := Some ''pthread-mutex'', ev_resource_id := Some name\<rparr>)"


lemma mutex_created_simps:
  "is_sync_node (mutex_created c t)" "mn_resource_class (mutex_created c t) = ''pthread-mutex''"
  "mn_resource_kind (mutex_created c t) = RESOURCE_ACQUIRE" "interleaving_node (mutex_created c t)"
  "mn_pid (mutex_created c t) = 7" "mn_context_id (mutex_created c t) = c" "mn_metadata (mutex_created c t) = []"
  by (simp_all add: mutex_created_def copy_record_def zero_record_def is_sync_node_def interleaving_node_def
      synchronization_class_def held_class_def node_resource_class_def)





subsection \<open>Properties\<close>

text \<open>Claim C23. Every schedule of the walk is a permutation of the recorded events in which two events
  keep their recorded order unless both are synchronization events, of different threads, with
  no causal edge from the first to the second.\<close>

theorem schedules_keep_order:
  assumes "schedule p order" and "u < v" and "v < length (ws_order p)"
    and "left = tm_nodes (ws_model p) ! (ws_order p ! u)" and "right = tm_nodes (ws_model p) ! (ws_order p ! v)"
    and "\<not> interleaving_node left \<or> \<not> interleaving_node right \<or> same_sync_thread left right \<or>
      (\<exists>e \<in> set (tm_edges (ws_model p)). me_from e = ws_order p ! u \<and> me_to e = ws_order p ! v)"
  shows "mset order = mset [0..<length (ws_order p)] \<and> precedes order u v"
proof -
  have "\<not> exchangeable (ws_model p) (ws_order p) u v"
    using assms(4-6) by (auto simp: exchangeable_def Let_def directly_ordered_def list_ex_iff)
  with schedule_permutes [OF assms(1)] schedule_keeps [OF assms(1-3)] show ?thesis by simp
qed

theorem schedules_keep_order_witness:
  "\<exists>p. ws_order p = [0, 1, 2] \<and> schedule p [1, 0, 2] \<and> precedes [1, 0, 2] 0 2"
proof -
  let ?ns = "[mutex_created 1 ''a'', mutex_created 2 ''b'', mutex_created 1 ''c'']"
  let ?p = "\<lparr>ws_model = plain_model ?ns, ws_order = [0, 1, 2], ws_baseline = [], ws_limit = 9\<rparr>"
  have upt: "[0..<length (ws_order ?p)] = [0, 1, 2]" by (simp add: upt_rec)
  have "exchangeable (plain_model ?ns) [0, 1, 2] 0 1"
    by (simp add: exchangeable_def Let_def plain_model_def empty_model_def mutex_created_simps same_sync_thread_def directly_ordered_def)
  then have "swap_step ?p [0, 1, 2] [1, 0, 2]"
    unfolding swap_step_def by (intro exI [of _ 0]) (simp add: exchange_def)
  then have s: "schedule ?p [1, 0, 2]" using exchanged [OF recorded [of ?p]] unfolding upt by blast
  have "same_sync_thread (tm_nodes (ws_model ?p) ! (ws_order ?p ! 0)) (tm_nodes (ws_model ?p) ! (ws_order ?p ! 2))"
    by (simp add: plain_model_def empty_model_def same_sync_thread_def mutex_created_simps)
  with schedules_keep_order [OF s _ _ refl refl, of 0 2] have "precedes [1, 0, 2] 0 2" by simp
  with s show ?thesis by (intro exI [of _ ?p]) simp
qed



text \<open>Claim C0. When memory is short for the arrays of the walk, the error is raised but the status is
  success: nothing has been written, and the number of counterexamples is stored as 0.\<close>

end
