(* ===== verification/Report_Properties.thy ===== *)
theory Report_Properties
  imports Json_Text Analysis_Report Analysis_Policies Interleaving_Properties
begin

section \<open>What the reports of an analysis say\<close>

text \<open>
  The JSON report is one JSON document that the summary reader of the same library reads back,
  as long as the texts of its findings can be read at all; and what the writers do when a
  stream fails.
\<close>

subsection \<open>The calls of a finding whose texts can be read\<close>

definition evidence_calls :: "string \<Rightarrow> string \<Rightarrow> string list" where
  "evidence_calls key t = (if t = [] then [] else ('','' @ json_key key) # json_string_calls t)"

definition finding_head :: "(string \<Rightarrow> rule_definition option) \<Rightarrow> owned_finding \<Rightarrow> string list" where
  "finding_head rules f =
     [''{'' @ json_key ''id''] @ json_string_calls (of_diagnostic_id f) @
       ['','' @ json_key ''severity'' @ json_word ''error'' @ '','' @ json_key ''policy''] @
       json_string_calls (policy_word (of_policy f)) @
       ['','' @ json_key ''location'' @ ''{'' @ json_key ''file''] @ json_string_calls (of_file_name f) @
       ['','' @ json_key ''line'' @ signed_decimal (of_line_number f) @ '','' @ json_key ''function''] @
       json_string_calls (of_function_name f) @
       [''},'' @ json_key ''message''] @ json_string_calls (of_message f) @
       lesson_calls (rules (of_diagnostic_id f)) @
       ['','' @ json_key ''evidence'' @ ''{'' @ json_key ''node'']"

definition finding_calls :: "(string \<Rightarrow> rule_definition option) \<Rightarrow> owned_finding \<Rightarrow> string list" where
  "finding_calls rules f = finding_head rules f @ json_string_calls (of_node_id f) @
     evidence_calls ''from'' (of_evidence_from f) @ evidence_calls ''to'' (of_evidence_to f) @
     evidence_calls ''detail'' (of_evidence_detail f) @ [''}}'']"

lemma finding_calls_read:
  assumes "of_block f = an_block a"
  shows "write_finding_json rules a f = map Some (finding_calls rules f)"
  using assms
  by (simp add: write_finding_json_def finding_calls_def finding_head_def finding_text_def evidence_text_def
      evidence_calls_def published_text_def)

lemma finding_calls_moved:
  assumes "of_block f \<noteq> an_block a"
  shows "None \<in> set (write_finding_json rules a f)"
  using assms by (simp add: write_finding_json_def finding_text_def published_text_def)

fun findings_calls :: "(string \<Rightarrow> rule_definition option) \<Rightarrow> bool \<Rightarrow> owned_finding list \<Rightarrow> string list" where
  "findings_calls rules first [] = []"
| "findings_calls rules first (f # fs) =
     ((if first then [] else '','') @ NL # ''    '') # finding_calls rules f @ findings_calls rules False fs"

lemma document_findings_read:
  "\<forall>f \<in> set fs. of_block f = an_block a \<Longrightarrow>
     document_findings rules a first fs = map Some (findings_calls rules first fs)"
  by (induction fs arbitrary: first) (simp_all add: finding_calls_read)

lemma document_findings_moved:
  "None \<in> set (document_findings rules a first fs) \<longleftrightarrow> (\<exists>f \<in> set fs. of_block f \<noteq> an_block a)"
proof (induction fs arbitrary: first)
  case (Cons f fs)
  have "None \<in> set (write_finding_json rules a f) \<longleftrightarrow> of_block f \<noteq> an_block a"
    using finding_calls_moved [of f a rules] finding_calls_read [of f a rules] by auto
  with Cons show ?case by simp
qed simp

lemma write_texts_defined:
  assumes "writable out"
  shows "write_texts ts out = None \<longleftrightarrow> None \<in> set ts"
  using assms
proof (induction ts arbitrary: out)
  case (Cons t ts)
  show ?case
  proof (cases t)
    case (Some u)
    obtain b out1 where w: "write_call u out = (b, out1)" by (rule prod.exhaust)
    with write_call_result [OF w] Cons Some show ?thesis by simp
  qed simp
qed simp

lemma json_document_moved:
  "None \<in> set (json_document rules a schema p) \<longleftrightarrow>
     (\<exists>f \<in> set (an_findings a). selected p f \<and> of_block f \<noteq> an_block a)"
  by (auto simp: json_document_def document_findings_moved)

subsection \<open>The texts of a report\<close>

definition finding_utf8 :: "(string \<Rightarrow> rule_definition option) \<Rightarrow> owned_finding \<Rightarrow> bool" where
  "finding_utf8 rules f \<longleftrightarrow> (\<forall>sel \<in> {of_diagnostic_id, of_file_name, of_function_name, of_message,
       of_node_id, of_evidence_from, of_evidence_to, of_evidence_detail}. utf8_text (sel f)) \<and>
     (\<forall>r. rules (of_diagnostic_id f) = Some r \<longrightarrow> utf8_text (rd_lesson_id r) \<and>
        utf8_text (rd_lesson_path r) \<and> utf8_text (rd_lesson_url r))"

lemma utf8_policy: "utf8_text (policy_word p)"
  by (cases p) (simp_all add: policy_word_def)

lemma key_texts:
  "key_text_ok ''schema''" "key_text_ok ''findings''" "key_text_ok ''summary''" "key_text_ok ''id''"
  "key_text_ok ''severity''" "key_text_ok ''policy''" "key_text_ok ''location''" "key_text_ok ''file''"
  "key_text_ok ''line''" "key_text_ok ''function''" "key_text_ok ''message''" "key_text_ok ''lesson''"
  "key_text_ok ''primary''" "key_text_ok ''lesson_id''" "key_text_ok ''path''" "key_text_ok ''url''"
  "key_text_ok ''related''" "key_text_ok ''evidence''" "key_text_ok ''node''" "key_text_ok ''from''"
  "key_text_ok ''to''" "key_text_ok ''detail''" "plain_text ''error''"
  by (simp_all add: key_text_ok_def plain_text_def JSON_KEY_CAPACITY_def)

context escape_reader
begin

lemma lesson_member:
  assumes "\<forall>r. d = Some r \<longrightarrow> utf8_text (rd_lesson_id r) \<and> utf8_text (rd_lesson_path r) \<and> utf8_text (rd_lesson_url r)"
    and "members_left J (Suc (Suc h)) False K s"
  shows "members_left J (Suc (Suc h)) False K (concat (lesson_calls d) @ s)"
proof (cases d)
  case (Some r)
  with assms(1) have r: "utf8_text (rd_lesson_id r)" "utf8_text (rd_lesson_path r)" "utf8_text (rd_lesson_url r)"
    by simp_all
  show ?thesis
    unfolding Some lesson_calls_def option.case
    by (simp, intro text_rules key_texts r assms(2))
qed (simp add: lesson_calls_def assms(2))

lemma evidence_member:
  assumes "key_text_ok key" and "utf8_text t" and "members_left J h False K s"
  shows "members_left J h False K (concat (evidence_calls key t) @ s)"
proof (cases "t = []")
  case False
  then show ?thesis
    by (simp add: evidence_calls_def, intro text_rules assms)
qed (simp add: evidence_calls_def assms)

lemma finding_value:
  assumes "finding_utf8 rules f" and "K s"
  shows "value_at J (Suc (Suc (Suc h))) K (concat (finding_calls rules f) @ s)"
proof -
  from assms(1) have t: "utf8_text (of_diagnostic_id f)" "utf8_text (of_file_name f)"
    "utf8_text (of_function_name f)" "utf8_text (of_message f)" "utf8_text (of_node_id f)"
    "utf8_text (of_evidence_from f)" "utf8_text (of_evidence_to f)" "utf8_text (of_evidence_detail f)"
    and lesson: "\<forall>r. rules (of_diagnostic_id f) = Some r \<longrightarrow> utf8_text (rd_lesson_id r) \<and>
      utf8_text (rd_lesson_path r) \<and> utf8_text (rd_lesson_url r)"
    by (simp_all add: finding_utf8_def)
  show ?thesis
    unfolding finding_calls_def finding_head_def
    by (simp, intro text_rules key_texts t utf8_policy lesson_member lesson evidence_member assms(2))
      (simp_all add: is_digit_def)
qed

lemma findings_value:
  "\<forall>f \<in> set fs. finding_utf8 rules f \<Longrightarrow> elements_left J (Suc (Suc (Suc h))) (first \<and> fs = []) K s \<Longrightarrow>
     elements_left J (Suc (Suc (Suc h))) first K (concat (findings_calls rules first fs) @ s)"
proof (induction fs arbitrary: first)
  case (Cons f fs)
  then have rest: "elements_left J (Suc (Suc (Suc h))) False K (concat (findings_calls rules False fs) @ s)"
    by simp
  have "value_at J (Suc (Suc (Suc h))) (elements_left J (Suc (Suc (Suc h))) False K)
      (concat (finding_calls rules f) @ concat (findings_calls rules False fs) @ s)"
    by (rule finding_value) (use Cons.prems rest in simp_all)
  then show ?case
    by (cases first) (simp_all add: element_here element_next spaces newlines)
qed simp

end

subsection \<open>The report read back\<close>

definition document_calls ::
  "(string \<Rightarrow> rule_definition option) \<Rightarrow> tool_analysis \<Rightarrow> string \<Rightarrow> analysis_policy option \<Rightarrow> string list" where
  "document_calls rules a schema p =
     ([''{'' @ NL # ''  '' @ json_key ''schema'' @ '' ''] @ json_string_calls schema @
       ['','' @ NL # ''  '' @ json_key ''findings'' @ '' ['']) @
     findings_calls rules True (filter (selected p) (an_findings a)) @
     [NL # ''  ],'' @ NL # ''  '' @ json_key ''summary'' @ '' {'' @ json_key ''findings'' @ '' '' @
        decimal (document_count a p) @ ''}'' @ NL # ''}'' @ [NL]]"

lemma document_read:
  "\<forall>f \<in> set (filter (selected p) (an_findings a)). of_block f = an_block a \<Longrightarrow>
     json_document rules a schema p = map Some (document_calls rules a schema p)"
  by (simp add: json_document_def document_calls_def document_findings_read)

context escape_reader
begin

lemma report_read:
  assumes "plain_text schema" and "length schema < JSON_KEY_CAPACITY" and "schema \<noteq> []"
    and "\<forall>f \<in> set (filter (selected p) (an_findings a)). finding_utf8 rules f"
    and "document_count a p \<le> SIZE_MAX"
  shows "parse_policy_summary_json J (Some (concat (document_calls rules a schema p))) (Some schema) (Some s0) =
    Some (True, Some \<lparr>ps_records = 0, ps_findings = document_count a p, ps_has_records = False, ps_parsed = True\<rparr>)"
proof -
  let ?fs = "filter (selected p) (an_findings a)" and ?n = "document_count a p"
  let ?tail = "CHR '' '' # CHR ''{'' # json_key ''findings'' @ CHR '' '' # decimal ?n @ CHR ''}'' # NL # CHR ''}'' # [NL]"
  let ?r2 = "CHR '','' # NL # CHR '' '' # CHR '' '' # json_key ''summary'' @ ?tail"
  let ?array = "concat (findings_calls rules True ?fs) @ NL # CHR '' '' # CHR '' '' # CHR '']'' # ?r2"
  let ?r1 = "CHR '','' # NL # CHR '' '' # CHR '' '' # json_key ''findings'' @ CHR '' '' # CHR ''['' # ?array"
  let ?rest = "CHR '' '' # concat (json_string_calls schema) @ ?r1"
  have t: "concat (document_calls rules a schema p) = CHR ''{'' # NL # CHR '' '' # CHR '' '' # json_key ''schema'' @ ?rest"
    by (simp add: document_calls_def)
  have q: "concat (json_string_calls schema) = quoted schema" by (rule plain_escapes [OF assms(1)])
  have spaces: "skip_space ?rest = quoted schema @ ?r1"
    "skip_space (CHR '' '' # CHR ''['' # ?array) = CHR ''['' # ?array" "skip_space ?tail = tl ?tail"
    unfolding q by (simp_all add: skip_space_next is_json_space_def quoted_def)
  let ?ms = "[(''schema'', skip_space ?rest, ?r1), (''findings'', skip_space (CHR '' '' # CHR ''['' # ?array), ?r2),
    (''summary'', skip_space ?tail, NL # CHR ''}'' # [NL])]"
  have "members_in J True (NL # CHR '' '' # CHR '' '' # json_key ''schema'' @ ?rest) ?ms [NL]"
    by (intro layout_spaces layout_key layout_next layout_end key_texts list.distinct(2))
  moreover have "skip_space (CHR ''{'' # s) = CHR ''{'' # s" "skip_space [NL] = []" for s
    by (simp_all add: skip_space_next is_json_space_def)
  ultimately have doc: "document J (concat (document_calls rules a schema p)) ?ms"
    unfolding document_def t by blast
  have "value_at J (Suc (Suc (Suc (Suc 0)))) (\<lambda>e. e = ?r2) (CHR ''['' # ?array)"
    by (intro text_rules findings_value) (use assms(4) in \<open>simp_all add: text_rules\<close>)
  then have "skip_value J 0 (CHR ''['' # ?array) = Some (Some ?r2)"
    by (rule value_skipped) (simp add: JSON_MAX_DEPTH_def)
  moreover have "read_string J (Some JSON_KEY_CAPACITY) (quoted schema @ ?r1) = Some (schema, ?r1)"
    by (rule read_plain [OF assms(1,2)])
  moreover have "counts_at J (tl ?tail) [COUNT_FINDINGS \<mapsto> ?n] (NL # CHR ''}'' # [NL])"
    using counts_written [OF assms(5), of "NL # CHR ''}'' # [NL]"] by simp
  moreover have "length (filter (\<lambda>m. fst m = policy_name f) ?ms) = 1" for f by (cases f) simp_all
  ultimately have "policy_values J schema [COUNT_FINDINGS \<mapsto> ?n] ?ms"
    unfolding policy_values_def spaces by simp
  with doc show ?thesis
    unfolding parse_policy_exact [OF assms(3)]
    by (intro exI [of _ ?ms] exI [of _ "[COUNT_FINDINGS \<mapsto> ?n]"]) (simp add: policy_of_def)
qed

end

subsection \<open>Failing streams\<close>

text \<open>A JSON report whose stream fails makes the reports fail, but no error is raised.\<close>

lemma json_reports_silent:
  assumes "length (directory @ ''/'' @ name) < PATH_SIZE" and "out_opens out = []" and "out_flushes out = []"
    and "out_closes out = []" and "out_answers out = [False]"
  shows "\<exists>out1. write_json_reports rules a directory ((name, schema, p) # rs) (w, out) = Some (False, w, out1)"
  using assms
  by (simp add: open_output_def close_output_def write_json_document_def json_document_def write_call_def Let_def)

subsection \<open>Properties\<close>

text \<open>Claim C11. A JSON report of an analysis, written to a stream that takes all that is written, is
  defined exactly when the texts of the findings it lists can be read, that is, when none of
  them was made before the array of findings was last moved; it is then written whole. If the
  texts of these findings and of the lessons that the rules give for them are well-formed UTF-8
  without NUL, and the name of the schema is not empty, shorter than 96 bytes and free of
  quotes, backslashes and control characters, then the policy summary reader of this library
  accepts the report under that schema and reads the number of findings that it lists, for
  every string reader that reads back the escapes written here.\<close>

theorem json_report_read_back:
  assumes "escape_reader J" and "analysis_reachable (a, w)" and "writable out"
  shows "if \<exists>f \<in> set (an_findings a). selected p f \<and> of_block f \<noteq> an_block a
    then write_json_document rules a schema p out = None
    else \<exists>document out1. write_json_document rules a schema p out = Some (True, out1) \<and>
      written out document out1 \<and>
      ((\<forall>f \<in> set (filter (selected p) (an_findings a)). finding_utf8 rules f) \<and>
        plain_text schema \<and> length schema < 96 \<and> schema \<noteq> [] \<longrightarrow>
       parse_policy_summary_json J (Some document) (Some schema) (Some s0) =
        Some (True, Some \<lparr>ps_records = 0, ps_findings = length (filter (selected p) (an_findings a)),
          ps_has_records = False, ps_parsed = True\<rparr>))"
proof (cases "\<exists>f \<in> set (an_findings a). selected p f \<and> of_block f \<noteq> an_block a")
  case True
  then show ?thesis
    using write_texts_defined [OF assms(3)] json_document_moved [of rules a schema p]
    by (simp add: write_json_document_def)
next
  case False
  then have doc: "json_document rules a schema p = map Some (document_calls rules a schema p)"
    by (intro document_read) auto
  from write_calls_ample [OF assms(3), of "document_calls rules a schema p"] obtain out1 where out1:
    "write_calls (document_calls rules a schema p) out = (True, out1)"
    "written out (concat (document_calls rules a schema p)) out1" by blast
  have st: "stored a" using analysis_reachable_stored [OF assms(2)] by simp
  then have counts: "\<forall>q. an_policy_counts a q = length (filter (\<lambda>f. of_policy f = q) (an_findings a))"
    and few: "length (an_findings a) \<le> FINDING_LIMIT" by (simp_all add: stored_def)
  have n: "document_count a p = length (filter (selected p) (an_findings a))"
  proof -
    have "selected None = (\<lambda>f. True)" "selected (Some q) = (\<lambda>f. of_policy f = q)" for q
      by (auto simp: selected_def fun_eq_iff)
    with counts show ?thesis by (cases p) (simp_all add: document_count_def)
  qed
  have "length (filter (selected p) (an_findings a)) \<le> FINDING_LIMIT"
    by (rule order_trans [OF length_filter_le few])
  then have bound: "document_count a p \<le> SIZE_MAX" unfolding n by (simp add: FINDING_LIMIT_def SIZE_MAX_def)
  have "parse_policy_summary_json J (Some (concat (document_calls rules a schema p))) (Some schema) (Some s0) =
      Some (True, Some \<lparr>ps_records = 0, ps_findings = length (filter (selected p) (an_findings a)),
        ps_has_records = False, ps_parsed = True\<rparr>)"
    if "\<forall>f \<in> set (filter (selected p) (an_findings a)). finding_utf8 rules f" "plain_text schema"
      "length schema < 96" "schema \<noteq> []"
    using escape_reader.report_read [OF assms(1) that(2) _ that(4,1) bound] that(3)
    unfolding n by (simp add: JSON_KEY_CAPACITY_def)
  with False out1 show ?thesis
    unfolding write_json_document_def doc write_texts_Some by auto
qed

lemma empty_report_utf8: "finding_utf8 (\<lambda>_. None) (empty_allocation_report empty_node)"
proof -
  have "decimal 0 = ''0''" "signed_decimal 7 = ''7''"
    by (simp_all add: signed_decimal_def decimal.simps [of 0] decimal.simps [of 7] digit_char_def)
  then have "format_node_id (Some empty_node) = ''resource:r:7:0:0:allocation''"
    by (simp add: format_node_id_def empty_node_def copy_record_def zero_record_def snprintf_text_def
        NODE_ID_SIZE_def node_kind_def)
  then show ?thesis
    by (simp add: finding_utf8_def empty_allocation_report_def finding_of_def empty_node_def
        copy_record_def zero_record_def)
qed

theorem json_report_read_back_witness:
  "\<exists>a w out1 document. analysis_reachable (a, w) \<and>
     write_json_document (\<lambda>_. None) a ''p101-analysis-findings-v1'' None quiet_out = Some (True, out1) \<and>
     out_text out1 = document \<and>
     parse_policy_summary_json full_json (Some document) (Some ''p101-analysis-findings-v1'')
       (Some empty_policy_summary) = Some (True, Some \<lparr>ps_records = 0, ps_findings = 1,
         ps_has_records = False, ps_parsed = True\<rparr>)"
proof -
  have "(1 :: nat) \<le> FINDING_LIMIT" by (simp add: FINDING_LIMIT_def)
  then obtain a0 w0 a w where e: "analysis_reachable (a0, w0)" "analyze_resources (a0, w0) = (True, a, w)"
    "reports a = replicate 1 (empty_allocation_report empty_node)" by (rule empty_run_analyzed)
  from analysis_reachable.resources [OF e(1,2)] have reach: "analysis_reachable (a, w)" .
  then have st: "stored a" using analysis_reachable_stored by fastforce
  from e(3) obtain f where f: "an_findings a = [f]" "report f = empty_allocation_report empty_node"
    by (auto simp: reports_def)
  have "an_block a \<le> 1"
  proof (rule ccontr)
    assume n: "\<not> an_block a \<le> 1"
    moreover have "an_finding_capacity a \<le> 2" using st n f(1) by (auto simp: stored_def)
    ultimately show False using generation_small st by (auto simp: stored_def)
  qed
  with st f(1) have block: "of_block f = an_block a" by (simp add: stored_def)
  have "finding_utf8 (\<lambda>_. None) f = finding_utf8 (\<lambda>_. None) (report f)"
    by (simp add: finding_utf8_def report_def)
  with f(2) empty_report_utf8 have utf8: "\<forall>f \<in> set (an_findings a). finding_utf8 (\<lambda>_. None) f"
    using f(1) by simp
  have schema: "plain_text ''p101-analysis-findings-v1''" "length ''p101-analysis-findings-v1'' < 96"
    "''p101-analysis-findings-v1'' \<noteq> []" and quiet: "writable quiet_out"
    by (simp_all add: plain_text_def writable_def quiet_out_def)
  have "\<not> (\<exists>f \<in> set (an_findings a). selected None f \<and> of_block f \<noteq> an_block a)" using f(1) block by simp
  let ?ok = "(\<forall>f \<in> set (filter (selected None) (an_findings a)). finding_utf8 (\<lambda>_. None) f) \<and>
    plain_text ''p101-analysis-findings-v1'' \<and> length ''p101-analysis-findings-v1'' < 96 \<and>
    ''p101-analysis-findings-v1'' \<noteq> []"
  have ok: ?ok using utf8 schema by (intro conjI) simp_all
  from \<open>\<not> (\<exists>f \<in> set (an_findings a). selected None f \<and> of_block f \<noteq> an_block a)\<close>
    json_report_read_back [OF fullj.escape_reader_axioms reach quiet, of None "\<lambda>_. None"
      "''p101-analysis-findings-v1''" empty_policy_summary]
  obtain document out1 where
    r: "write_json_document (\<lambda>_. None) a ''p101-analysis-findings-v1'' None quiet_out = Some (True, out1)"
    "written quiet_out document out1"
    and read: "?ok \<longrightarrow> parse_policy_summary_json full_json (Some document) (Some ''p101-analysis-findings-v1'')
      (Some empty_policy_summary) = Some (True, Some \<lparr>ps_records = 0,
        ps_findings = length (filter (selected None) (an_findings a)), ps_has_records = False, ps_parsed = True\<rparr>)"
    by (simp only: if_False) (elim exE conjE, rule that)
  have "out_text out1 = document" using written_fields [OF r(2)] by (simp add: quiet_out_def)
  moreover have "length (filter (selected None) (an_findings a)) = 1" using f(1) by (simp add: selected_def)
  ultimately show ?thesis using reach r(1) mp [OF read ok]
    by (intro exI [of _ a] exI [of _ w] exI [of _ out1] exI [of _ document]) simp
qed

end
