(* ===== verification/Model_Json.thy ===== *)
theory Model_Json
  imports Output Model
begin

section \<open>The JSON document of a model (src/model\_json.c)\<close>

text \<open>
  Every function of the file as the list of its calls. JSON strings are written by another
  package, \<open>p101_json_write_string\<close> and \<open>p101_json_write_string_contents\<close>: the parameter
  \<open>json_texts\<close> gives the texts they write, each as one call, and the name of the event schema.
  \<open>None\<close> in a list is a NULL handed to them.
\<close>

record json_texts =
  jt_string :: "string \<Rightarrow> string"
  jt_contents :: "string \<Rightarrow> string"
  jt_event_schema :: string

subsection \<open>Names\<close>

definition fd_kind_name :: "fd_kind \<Rightarrow> string" where
  "fd_kind_name k = (if k = FD_OPEN then ''fd-open'' else ''fd-close'')"

definition alloc_kind_name :: "alloc_kind \<Rightarrow> string" where
  "alloc_kind_name k = (case k of ALLOC_ALLOC \<Rightarrow> ''alloc'' | ALLOC_FREE \<Rightarrow> ''free'' | ALLOC_REALLOC \<Rightarrow> ''realloc'')"

definition resource_operation_name :: "resource_kind \<Rightarrow> string" where
  "resource_operation_name k = (case k of RESOURCE_ACQUIRE \<Rightarrow> ''acquire'' | RESOURCE_RELEASE \<Rightarrow> ''release''
     | RESOURCE_REPLACE \<Rightarrow> ''replace'' | RESOURCE_TRANSFER \<Rightarrow> ''transfer'' | RESOURCE_USE \<Rightarrow> ''use'')"

definition lifecycle_finding_kind_name :: "finding_kind \<Rightarrow> string" where
  "lifecycle_finding_kind_name k = (case k of FINDING_LEAK \<Rightarrow> ''leak'' | FINDING_DOUBLE_RELEASE \<Rightarrow> ''double-release''
     | FINDING_STRAY_RELEASE \<Rightarrow> ''stray-release'' | FINDING_BAD_REPLACE \<Rightarrow> ''bad-replace''
     | FINDING_DUPLICATE_ACQUIRE \<Rightarrow> ''duplicate-acquire'' | FINDING_EXEC_INHERIT \<Rightarrow> ''exec-inherit''
     | FINDING_INVALID_USE \<Rightarrow> ''invalid-use'')"

definition node_kind_name :: "model_node \<Rightarrow> string" where
  "node_kind_name n = (case mn_record_kind n of
       RECORD_FD \<Rightarrow> fd_kind_name (mn_fd_kind n)
     | RECORD_ALLOC \<Rightarrow> alloc_kind_name (mn_alloc_kind n)
     | RECORD_FORK \<Rightarrow> ''fork'' | RECORD_SPAWN \<Rightarrow> ''spawn'' | RECORD_EXEC \<Rightarrow> ''exec''
     | RECORD_EXEC_FAIL \<Rightarrow> ''exec-fail''
     | RECORD_CALL \<Rightarrow> if mn_call_kind n = CALL_ENTER then ''call-enter'' else ''call-exit''
     | RECORD_RESOURCE \<Rightarrow> ''resource'' | RECORD_COMPLETE \<Rightarrow> ''complete'')"

definition edge_kind_name :: "edge_kind \<Rightarrow> string" where
  "edge_kind_name k = (case k of EDGE_CALL_PARENT \<Rightarrow> ''call-parent'' | EDGE_CALL_RETURN \<Rightarrow> ''call-return''
     | EDGE_CALL_CAUSED_EVENT \<Rightarrow> ''call-caused-event'' | EDGE_RESOURCE_LIFETIME \<Rightarrow> ''resource-lifetime''
     | EDGE_PROCESS_CHILD_EVENT \<Rightarrow> ''process-child-event'')"

definition domain_name :: "model_node \<Rightarrow> string" where
  "domain_name n = (if mn_domain n = NODE_CALL then ''call'' else ''resource'')"

subsection \<open>Nodes\<close>

definition write_node_id :: "json_texts \<Rightarrow> model_node \<Rightarrow> string list" where
  "write_node_id T n = [[CHR 0x22], domain_name n @ '':'', jt_contents T (mn_run_id n),
     '':'' @ signed_decimal (mn_pid n) @ '':'' @ decimal (mn_context_id n) @ '':'' @
     decimal (mn_sequence n) @ '':'' @ node_kind_name n @ [CHR 0x22]]"

definition number_or_null :: "bool \<Rightarrow> nat \<Rightarrow> string" where
  "number_or_null available n = (if available then decimal n else ''null'')"

definition write_time :: "model_node \<Rightarrow> string list" where
  "write_time n = [json_key ''monotonic_ns'', number_or_null (mn_monotonic_ns_available n) (mn_monotonic_ns n),
     '','' @ json_key ''wall_unix_ns'', number_or_null (mn_wall_unix_ns_available n) (mn_wall_unix_ns n)]"

definition write_source :: "json_texts \<Rightarrow> model_node \<Rightarrow> string list" where
  "write_source T n = [json_key ''source'' @ ''{'' @ json_key ''file'', jt_string T (mn_file_name n),
     '','' @ json_key ''line'' @ signed_decimal (mn_line_number n) @ '','' @ json_key ''function'',
     jt_string T (mn_function_name n), ''}'']"

definition fd_fields :: "model_node \<Rightarrow> string" where
  "fd_fields n = '','' @ json_key ''resource_class'' @ json_word ''fd'' @ '','' @ json_key ''resource_identity'' @
     json_word (signed_decimal (mn_fd n))"

definition write_resource_fields :: "json_texts \<Rightarrow> model_node \<Rightarrow> string list" where
  "write_resource_fields T n =
     (if mn_record_kind n = RECORD_FD then [fd_fields n]
      else if mn_record_kind n = RECORD_ALLOC then
        ['','' @ json_key ''resource_class'' @ json_word ''allocation'' @ '','' @ json_key ''resource_identity'',
         jt_string T (mn_ptr n)] @
        (if mn_alloc_kind n = ALLOC_REALLOC
         then ['','' @ json_key ''related_identity'', jt_string T (mn_new_ptr n)] else []) @
        ['','' @ json_key ''size'' @ decimal (mn_size n)]
      else if mn_record_kind n = RECORD_FORK \<or> mn_record_kind n = RECORD_SPAWN then
        ('','' @ json_key ''child_pid'' @ signed_decimal (mn_child_pid n)) #
        (if mn_record_kind n = RECORD_SPAWN then ['','' @ json_key ''target'', jt_string T (mn_target n)] else [])
      else if mn_record_kind n = RECORD_EXEC \<or> mn_record_kind n = RECORD_EXEC_FAIL then
        (if mn_record_kind n = RECORD_EXEC then [fd_fields n] else []) @
        ['','' @ json_key ''target'', jt_string T (mn_target n)] @
        (if mn_record_kind n = RECORD_EXEC
         then ['','' @ json_key ''cloexec'' @ (if mn_cloexec n then ''true'' else ''false'')] else [])
      else
        ['','' @ json_key ''operation'', jt_string T (resource_operation_name (mn_resource_kind n)),
         '','' @ json_key ''resource_class'', jt_string T (mn_resource_class n),
         '','' @ json_key ''resource_identity'', jt_string T (mn_resource_id n),
         '','' @ json_key ''related_identity'', jt_string T (mn_related_id n),
         '','' @ json_key ''metadata'', jt_string T (mn_metadata n),
         '','' @ json_key ''size'' @ decimal (mn_size n)])"

definition write_node :: "json_texts \<Rightarrow> model_node \<Rightarrow> string list" where
  "write_node T n =
     [''    {'' @ json_key ''id''] @ write_node_id T n @
     ['','' @ json_key ''domain'' @ json_word (domain_name n) @ '','' @ json_key ''kind'',
      jt_string T (node_kind_name n), '','' @ json_key ''run_id'', jt_string T (mn_run_id n),
      '','' @ json_key ''pid'' @ signed_decimal (mn_pid n) @ '','' @ json_key ''context'' @ decimal (mn_context_id n) @
      '','' @ json_key ''sequence'' @ decimal (mn_sequence n)] @
     (if mn_domain n = NODE_CALL
      then ['','' @ json_key ''name'', jt_string T (mn_call_name n), '','' @ json_key ''arguments'',
            jt_string T (mn_arguments n), '','' @ json_key ''result'', jt_string T (mn_result n)]
      else write_resource_fields T n) @
     ['',''] @ write_time n @ ['',''] @ write_source T n @ [''}'']"

text \<open>The items of an array, with a comma and a newline between them.\<close>

fun listed :: "('a \<Rightarrow> 'b list) \<Rightarrow> 'b \<Rightarrow> 'a list \<Rightarrow> 'b list" where
  "listed f sep [] = []"
| "listed f sep [x] = f x"
| "listed f sep (x # y # xs) = f x @ sep # listed f sep (y # xs)"

definition write_nodes :: "json_texts \<Rightarrow> tool_model \<Rightarrow> string list" where
  "write_nodes T m = [''  '' @ json_key ''nodes'' @ '' ['' @ [NL]] @ listed (write_node T) ('','' @ [NL]) (tm_nodes m) @
     [NL # ''  ]'']"

subsection \<open>Edges\<close>

definition write_edge :: "json_texts \<Rightarrow> tool_model \<Rightarrow> model_edge \<Rightarrow> string list" where
  "write_edge T m e =
     [''    {'' @ json_key ''kind'', jt_string T (edge_kind_name (me_kind e)), '','' @ json_key ''from''] @
     write_node_id T (tm_nodes m ! me_from e) @ ['','' @ json_key ''to''] @
     write_node_id T (tm_nodes m ! me_to e) @ [''}'']"

definition write_edges :: "json_texts \<Rightarrow> tool_model \<Rightarrow> string list" where
  "write_edges T m = [''  '' @ json_key ''edges'' @ '' ['' @ [NL]] @ listed (write_edge T m) ('','' @ [NL]) (tm_edges m) @
     [NL # ''  ]'']"

subsection \<open>The lifecycle\<close>

definition text_given :: "json_texts \<Rightarrow> string option \<Rightarrow> string option" where
  "text_given T t = map_option (jt_string T) t"

definition write_lifecycle_location ::
  "json_texts \<Rightarrow> nat \<Rightarrow> nat \<Rightarrow> nat \<Rightarrow> bool \<Rightarrow> string option \<Rightarrow> int \<Rightarrow> string option \<Rightarrow> string option list" where
  "write_lifecycle_location T context sequence monotonic_ns monotonic_available file_name line_number function_name =
     [Some (''{'' @ json_key ''context'' @ decimal context @ '','' @ json_key ''sequence'' @ decimal sequence @ '','' @
        json_key ''monotonic_ns''),
      Some (number_or_null monotonic_available monotonic_ns),
      Some ('','' @ json_key ''source'' @ ''{'' @ json_key ''file''), text_given T file_name,
      Some ('','' @ json_key ''line'' @ signed_decimal line_number @ '','' @ json_key ''function''),
      text_given T function_name, Some ''}}'']"

definition write_lifecycle_entry :: "json_texts \<Rightarrow> lifecycle_entry \<Rightarrow> string option list" where
  "write_lifecycle_entry T e =
     [Some (''      {'' @ json_key ''pid''), Some (signed_decimal (le_pid e) @ '','' @ json_key ''resource_class''),
      Some (jt_string T (le_resource_class e)), Some ('','' @ json_key ''identity''),
      Some (jt_string T (le_resource_id e)),
      Some ('','' @ json_key ''size'' @ decimal (le_size e) @ '','' @ json_key ''live'' @
        (if le_live e then ''true'' else ''false'') @ '','' @ json_key ''acquired'')] @
     write_lifecycle_location T (le_acquired_context_id e) (le_acquired_sequence e) (le_acquired_monotonic_ns e)
       (le_acquired_monotonic_ns_available e) (Some (le_acquired_file_name e)) (le_acquired_line_number e)
       (Some (le_acquired_function_name e)) @
     [Some ('','' @ json_key ''released'')] @
     (if le_live e then [Some ''null'']
      else write_lifecycle_location T (le_released_context_id e) (le_released_sequence e)
        (le_released_monotonic_ns e) (le_released_monotonic_ns_available e) (le_released_file_name e)
        (le_released_line_number e) (le_released_function_name e)) @
     [Some ''}'']"

definition write_lifecycle_finding :: "json_texts \<Rightarrow> lifecycle_finding \<Rightarrow> string option list" where
  "write_lifecycle_finding T f =
     [Some (''      {'' @ json_key ''kind''), Some (jt_string T (lifecycle_finding_kind_name (lf_kind f))),
      Some ('','' @ json_key ''pid'' @ signed_decimal (lf_pid f) @ '','' @ json_key ''resource_class''),
      Some (jt_string T (lf_resource_class f)), Some ('','' @ json_key ''identity''),
      Some (jt_string T (lf_resource_id f)), Some ('','' @ json_key ''at'')] @
     write_lifecycle_location T (lf_context_id f) (lf_sequence f) (lf_monotonic_ns f)
       (lf_monotonic_ns_available f) (Some (lf_file_name f)) (lf_line_number f) (Some (lf_function_name f)) @
     [Some ('','' @ json_key ''previous'')] @
     (if lf_previous_sequence f = 0 then [Some ''null'']
      else write_lifecycle_location T (lf_previous_context_id f) (lf_previous_sequence f) 0 False
        (lf_previous_file_name f) (lf_previous_line_number f) (lf_previous_function_name f)) @
     [Some ''}'']"

definition write_lifecycle :: "json_texts \<Rightarrow> tool_model \<Rightarrow> string option list" where
  "write_lifecycle T m =
     (let entries = (case tm_lifecycle m of None \<Rightarrow> [] | Some l \<Rightarrow> lm_entries l);
        findings = (case tm_lifecycle m of None \<Rightarrow> [] | Some l \<Rightarrow> lm_findings l) in
      [Some (''  '' @ json_key ''lifecycle'' @ '' {'' @ NL # ''    '' @ json_key ''entries'' @ '' ['' @ [NL])] @
      listed (write_lifecycle_entry T) (Some ('','' @ [NL])) entries @
      [Some (NL # ''    ],'' @ NL # ''    '' @ json_key ''findings'' @ '' ['' @ [NL])] @
      listed (write_lifecycle_finding T) (Some ('','' @ [NL])) findings @
      [Some (NL # ''    ]'' @ NL # ''  }'')])"

subsection \<open>The document\<close>

definition model_head :: "json_texts \<Rightarrow> tool_model \<Rightarrow> string" where
  "model_head T m =
     (let calls = length (filter (\<lambda>n. mn_domain n = NODE_CALL) (tm_nodes m)) in
      ''{'' @ NL # ''  '' @ json_key ''schema'' @ '' '' @ json_word ''p101-run-model-v1'' @ '','' @ NL #
      ''  '' @ json_key ''event_schema'' @ '' '' @ json_word (jt_event_schema T) @ '','' @ NL #
      ''  '' @ json_key ''identity_policy'' @ '' '' @ json_word ''run-pid-context-event-sequence-kind'' @ '','' @ NL #
      ''  '' @ json_key ''ordering'' @ '' '' @
        json_word ''causal-edges-with-per-context-sequence-and-observed-timestamps'' @ '','' @ NL #
      ''  '' @ json_key ''summary'' @ '' {'' @ json_key ''call_nodes'' @ '' '' @ decimal calls @ '', '' @
        json_key ''resource_nodes'' @ '' '' @ decimal (length (tm_nodes m) - calls) @ ''},'' @ [NL])"

definition model_document :: "json_texts \<Rightarrow> tool_model \<Rightarrow> string option list" where
  "model_document T m =
     map Some ([model_head T m] @ write_nodes T m @ ['','' @ [NL]] @ write_edges T m @ ['','' @ [NL]]) @
     write_lifecycle T m @ [Some (NL # ''}'' @ [NL])]"

definition model_write_json ::
  "json_texts \<Rightarrow> out_state option \<Rightarrow> tool_model option \<Rightarrow> world \<Rightarrow> (bool \<times> world \<times> out_state option) option" where
  "model_write_json T stream model w =
     (case (stream, model) of
        (Some out, Some m) \<Rightarrow>
          if \<not> tm_finished m then Some (False, raise_errno EINVAL w, stream)
          else
            (case write_texts (model_document T m) out of
               None \<Rightarrow> None
             | Some (False, out1) \<Rightarrow> Some (False, raise_errno EIO w, Some out1)
             | Some (True, out1) \<Rightarrow>
                 (let out2 = out1\<lparr>out_flushes := drop 1 (out_flushes out1)\<rparr> in
                  case out_flushes out1 of
                    Some e # _ \<Rightarrow> Some (False, raise_errno EIO w, Some out2)
                  | _ \<Rightarrow> Some (True, w, Some out2)))
      | _ \<Rightarrow> Some (False, raise_errno EINVAL w, stream))"

end
