(* ===== verification/Model_Json_Properties.thy ===== *)
theory Model_Json_Properties
  imports Model_Json Json_Text Model_Input_Properties Analysis_Properties
begin

section \<open>The document of a model is JSON\<close>

text \<open>
  On a finished model no NULL is handed to the string writers, and the text is one JSON object
  nested at most six deep, whatever the texts of the events are.
\<close>

subsection \<open>No text is missing\<close>

definition location_calls ::
  "json_texts \<Rightarrow> nat \<Rightarrow> nat \<Rightarrow> nat \<Rightarrow> bool \<Rightarrow> string \<Rightarrow> int \<Rightarrow> string \<Rightarrow> string list" where
  "location_calls T context sequence monotonic_ns monotonic_available file_name line_number function_name =
     [''{'' @ json_key ''context'' @ decimal context @ '','' @ json_key ''sequence'' @ decimal sequence @ '','' @
        json_key ''monotonic_ns'',
      number_or_null monotonic_available monotonic_ns,
      '','' @ json_key ''source'' @ ''{'' @ json_key ''file'', jt_string T file_name,
      '','' @ json_key ''line'' @ signed_decimal line_number @ '','' @ json_key ''function'',
      jt_string T function_name, ''}}'']"

lemma location_given:
  "write_lifecycle_location T c s n av (Some file_name) l (Some function_name) =
     map Some (location_calls T c s n av file_name l function_name)"
  by (simp add: write_lifecycle_location_def location_calls_def text_given_def)

definition entry_calls :: "json_texts \<Rightarrow> lifecycle_entry \<Rightarrow> string list" where
  "entry_calls T e =
     [''      {'' @ json_key ''pid'', signed_decimal (le_pid e) @ '','' @ json_key ''resource_class'',
      jt_string T (le_resource_class e), '','' @ json_key ''identity'', jt_string T (le_resource_id e),
      '','' @ json_key ''size'' @ decimal (le_size e) @ '','' @ json_key ''live'' @
        (if le_live e then ''true'' else ''false'') @ '','' @ json_key ''acquired''] @
     location_calls T (le_acquired_context_id e) (le_acquired_sequence e) (le_acquired_monotonic_ns e)
       (le_acquired_monotonic_ns_available e) (le_acquired_file_name e) (le_acquired_line_number e)
       (le_acquired_function_name e) @
     ['','' @ json_key ''released''] @
     (if le_live e then [''null'']
      else location_calls T (le_released_context_id e) (le_released_sequence e)
        (le_released_monotonic_ns e) (le_released_monotonic_ns_available e) (the (le_released_file_name e))
        (le_released_line_number e) (the (le_released_function_name e))) @
     [''}'']"

lemma entry_given: "entry_ok e \<Longrightarrow> write_lifecycle_entry T e = map Some (entry_calls T e)"
  by (auto simp: write_lifecycle_entry_def entry_calls_def entry_ok_def location_given)

definition lifecycle_finding_calls :: "json_texts \<Rightarrow> lifecycle_finding \<Rightarrow> string list" where
  "lifecycle_finding_calls T f =
     [''      {'' @ json_key ''kind'', jt_string T (lifecycle_finding_kind_name (lf_kind f)),
      '','' @ json_key ''pid'' @ signed_decimal (lf_pid f) @ '','' @ json_key ''resource_class'',
      jt_string T (lf_resource_class f), '','' @ json_key ''identity'',
      jt_string T (lf_resource_id f), '','' @ json_key ''at''] @
     location_calls T (lf_context_id f) (lf_sequence f) (lf_monotonic_ns f)
       (lf_monotonic_ns_available f) (lf_file_name f) (lf_line_number f) (lf_function_name f) @
     ['','' @ json_key ''previous''] @
     (if lf_previous_sequence f = 0 then [''null'']
      else location_calls T (lf_previous_context_id f) (lf_previous_sequence f) 0 False
        (the (lf_previous_file_name f)) (lf_previous_line_number f) (the (lf_previous_function_name f))) @
     [''}'']"

lemma finding_given: "finding_ok f \<Longrightarrow> write_lifecycle_finding T f = map Some (lifecycle_finding_calls T f)"
  by (auto simp: write_lifecycle_finding_def lifecycle_finding_calls_def finding_ok_def location_given)

lemma listed_map:
  "\<forall>x \<in> set xs. f x = map Some (g x) \<Longrightarrow> listed f (Some sep) xs = map Some (listed g sep xs)"
proof (induction xs)
  case (Cons x xs)
  then show ?case by (cases xs) simp_all
qed simp

definition lifecycle_calls :: "json_texts \<Rightarrow> lifecycle_model \<Rightarrow> string list" where
  "lifecycle_calls T l =
     [''  '' @ json_key ''lifecycle'' @ '' {'' @ NL # ''    '' @ json_key ''entries'' @ '' ['' @ [NL]] @
     listed (entry_calls T) ('','' @ [NL]) (lm_entries l) @
     [NL # ''    ],'' @ NL # ''    '' @ json_key ''findings'' @ '' ['' @ [NL]] @
     listed (lifecycle_finding_calls T) ('','' @ [NL]) (lm_findings l) @
     [NL # ''    ]'' @ NL # ''  }'']"

definition model_calls :: "json_texts \<Rightarrow> tool_model \<Rightarrow> lifecycle_model \<Rightarrow> string list" where
  "model_calls T m l = [model_head T m] @ write_nodes T m @ ['','' @ [NL]] @ write_edges T m @ ['','' @ [NL]] @
     lifecycle_calls T l @ [NL # ''}'' @ [NL]]"

lemma document_given:
  assumes "tm_lifecycle m = Some l" and "store_ok l"
  shows "model_document T m = map Some (model_calls T m l)"
proof -
  have "listed (write_lifecycle_entry T) (Some ('','' @ [NL])) (lm_entries l) =
      map Some (listed (entry_calls T) ('','' @ [NL]) (lm_entries l))"
    by (rule listed_map) (use assms(2) in \<open>simp add: store_ok_def entry_given\<close>)
  moreover have "listed (write_lifecycle_finding T) (Some ('','' @ [NL])) (lm_findings l) =
      map Some (listed (lifecycle_finding_calls T) ('','' @ [NL]) (lm_findings l))"
    by (rule listed_map) (use assms(2) in \<open>simp add: store_ok_def finding_given\<close>)
  ultimately show ?thesis
    by (simp add: model_document_def model_calls_def write_lifecycle_def lifecycle_calls_def assms(1))
qed

subsection \<open>The texts of the other package\<close>

text \<open>What the string writer of the other package promises: its texts are read back as JSON strings.\<close>

locale text_writer = json_reader +
  fixes T :: json_texts
  assumes string_read: "utf8_text t \<Longrightarrow> read_string J None (jt_string T t @ r) = Some (t, r)"
    and contents_read: "plain_text a \<Longrightarrow> plain_text b \<Longrightarrow> utf8_text t \<Longrightarrow>
      read_string J None (QUOTE # a @ jt_contents T t @ b @ QUOTE # r) = Some (a @ t @ b, r)"
    and schema_plain: "plain_text (jt_event_schema T)"

text \<open>An instance: the escapes that src/analysis.c writes.\<close>

definition escaping_texts :: json_texts where
  "escaping_texts = \<lparr>jt_string = (\<lambda>t. concat (json_string_calls t)),
     jt_contents = (\<lambda>t. concat (concat (map json_char_calls t))), jt_event_schema = ''p101-tool-event-format-v5''\<rparr>"

lemma full_string_after_plain:
  "plain_text a \<Longrightarrow> full_string (a @ s) = map_option (\<lambda>(t, r). (a @ t, r)) (full_string s)"
proof (induction a)
  case Nil
  then show ?case by (simp add: option.map_ident case_prod_beta)
next
  case (Cons c a)
  then have c: "c \<noteq> QUOTE" "c \<noteq> BACKSLASH" "\<not> of_char c < (32 :: nat)" "plain_text a"
    by (simp_all add: plain_text_def)
  with Cons.IH show ?case by (simp add: full_string_plain option.map_comp o_def case_prod_beta)
qed

interpretation escaping: text_writer full_json escaping_texts
proof
  show "read_string full_json None (jt_string escaping_texts t @ r) = Some (t, r)" if "utf8_text t" for t r
    using fullj.read_escaped [OF that] by (simp add: escaping_texts_def)
  show "read_string full_json None (QUOTE # a @ jt_contents escaping_texts t @ b @ QUOTE # r) = Some (a @ t @ b, r)"
    if "plain_text a" "plain_text b" "utf8_text t" for a b t r
  proof -
    have no_NUL: "\<forall>c \<in> set t. 0 < (of_char c :: nat)" using utf8_no_NUL [OF that(3)] by blast
    show ?thesis
      by (simp add: full_json_def escaping_texts_def full_string_after_plain [OF that(1)]
          full_string_chars [OF no_NUL] full_string_after_plain [OF that(2)] full_string_quote)
  qed
  show "plain_text (jt_event_schema escaping_texts)" by (simp add: escaping_texts_def plain_text_def)
qed

subsection \<open>The parts of the document\<close>

definition texts_utf8 :: "string list \<Rightarrow> bool" where
  "texts_utf8 ts \<longleftrightarrow> list_all utf8_text ts"

definition node_texts :: "model_node \<Rightarrow> string list" where
  "node_texts n = [mn_run_id n, mn_call_name n, mn_arguments n, mn_result n, mn_file_name n, mn_function_name n,
     mn_ptr n, mn_new_ptr n, mn_target n, mn_resource_class n, mn_resource_id n, mn_related_id n, mn_metadata n]"

definition entry_texts :: "lifecycle_entry \<Rightarrow> string list" where
  "entry_texts e = [le_resource_class e, le_resource_id e, le_acquired_file_name e, le_acquired_function_name e,
     text_or [] (le_released_file_name e), text_or [] (le_released_function_name e)]"

definition lifecycle_finding_texts :: "lifecycle_finding \<Rightarrow> string list" where
  "lifecycle_finding_texts f = [lf_resource_class f, lf_resource_id f, lf_file_name f, lf_function_name f,
     text_or [] (lf_previous_file_name f), text_or [] (lf_previous_function_name f)]"

definition model_utf8 :: "tool_model \<Rightarrow> lifecycle_model \<Rightarrow> bool" where
  "model_utf8 m l \<longleftrightarrow> (\<forall>n \<in> set (tm_nodes m). texts_utf8 (node_texts n)) \<and>
     (\<forall>e \<in> set (lm_entries l). texts_utf8 (entry_texts e)) \<and>
     (\<forall>f \<in> set (lm_findings l). texts_utf8 (lifecycle_finding_texts f))"

lemma decimal_plain: "plain_text (decimal n)" "plain_text (signed_decimal i)"
proof -
  have d: "plain_text (decimal n)" for n
    using decimal_digits [of n] by (auto simp: plain_text_def is_digit_def)
  then show "plain_text (decimal n)" .
  show "plain_text (signed_decimal i)" using d by (auto simp: signed_decimal_def plain_text_def)
qed

lemma plain_append: "plain_text (a @ b) \<longleftrightarrow> plain_text a \<and> plain_text b"
  by (auto simp: plain_text_def)

lemma plain_lists [simp]:
  "plain_text []" "plain_text (c # t) \<longleftrightarrow> c \<noteq> QUOTE \<and> c \<noteq> BACKSLASH \<and> (32 :: nat) \<le> of_char c \<and> plain_text t"
  by (auto simp: plain_text_def)

lemma names_plain: "plain_text (node_kind_name n)" "plain_text (domain_name n)"
  by (simp_all add: node_kind_name_def domain_name_def fd_kind_name_def alloc_kind_name_def
      split: record_kind.split alloc_kind.split)

lemma names_utf8: "utf8_text (node_kind_name n)" "utf8_text (edge_kind_name k)"
  "utf8_text (resource_operation_name r)" "utf8_text (lifecycle_finding_kind_name f)"
  by (simp_all add: node_kind_name_def edge_kind_name_def resource_operation_name_def
      lifecycle_finding_kind_name_def fd_kind_name_def alloc_kind_name_def
      split: record_kind.split alloc_kind.split edge_kind.split resource_kind.split finding_kind.split)

lemma model_keys:
  "key_text_ok ''schema''" "key_text_ok ''event_schema''" "key_text_ok ''identity_policy''" "key_text_ok ''ordering''"
  "key_text_ok ''summary''" "key_text_ok ''call_nodes''" "key_text_ok ''resource_nodes''" "key_text_ok ''nodes''"
  "key_text_ok ''edges''" "key_text_ok ''lifecycle''" "key_text_ok ''entries''" "key_text_ok ''findings''"
  "key_text_ok ''id''" "key_text_ok ''domain''" "key_text_ok ''kind''" "key_text_ok ''run_id''"
  "key_text_ok ''pid''" "key_text_ok ''context''" "key_text_ok ''sequence''" "key_text_ok ''name''"
  "key_text_ok ''arguments''" "key_text_ok ''result''" "key_text_ok ''monotonic_ns''" "key_text_ok ''wall_unix_ns''"
  "key_text_ok ''source''" "key_text_ok ''file''" "key_text_ok ''line''" "key_text_ok ''function''"
  "key_text_ok ''resource_class''" "key_text_ok ''resource_identity''" "key_text_ok ''related_identity''"
  "key_text_ok ''size''" "key_text_ok ''child_pid''" "key_text_ok ''target''" "key_text_ok ''cloexec''"
  "key_text_ok ''operation''" "key_text_ok ''metadata''" "key_text_ok ''from''" "key_text_ok ''to''"
  "key_text_ok ''identity''" "key_text_ok ''live''" "key_text_ok ''acquired''" "key_text_ok ''released''"
  "key_text_ok ''at''" "key_text_ok ''previous''"
  by (simp_all add: key_text_ok_def JSON_KEY_CAPACITY_def)

lemma choices:
  "K s \<Longrightarrow> value_at J h K ((if b then ''true'' else ''false'') @ s)"
  "ends_number s \<Longrightarrow> K s \<Longrightarrow> value_at J h K (number_or_null b n @ s)"
  using words(1,2) [of K s J h] words(3) [of K s J h] numbers(2) [of s K J h n]
  by (simp_all add: number_or_null_def)

lemma ends_marks: "ends_number (CHR '','' # s)" "ends_number (CHR ''}'' # s)"
  by (simp_all add: is_digit_def)

context text_writer
begin

lemma given_value: "utf8_text t \<Longrightarrow> K s \<Longrightarrow> value_at J h K (jt_string T t @ s)"
proof -
  assume t: "utf8_text t" "K s"
  note r = string_read [OF t(1), of s]
  from read_starts [OF r] have q: "at_char (\<lambda>c. c = QUOTE) (jt_string T t @ s)" .
  then have "skip_space (jt_string T t @ s) = jt_string T t @ s"
    by (elim at_char_cases) (simp add: is_json_space_def)
  with string_at [OF q r] t(2) show ?thesis
    unfolding value_at_def by (intro exI [of _ "JString t"] exI [of _ s]) simp
qed

lemma node_id_value:
  assumes "utf8_text (mn_run_id n)" and "K s"
  shows "value_at J h K (concat (write_node_id T n) @ s)"
proof -
  let ?a = "domain_name n @ '':''" and ?b = "'':'' @ signed_decimal (mn_pid n) @ '':'' @ decimal (mn_context_id n) @ '':'' @
     decimal (mn_sequence n) @ '':'' @ node_kind_name n"
  have t: "concat (write_node_id T n) @ s = QUOTE # ?a @ jt_contents T (mn_run_id n) @ ?b @ QUOTE # s"
    by (simp add: write_node_id_def)
  have "plain_text ?a" "plain_text ?b" by (simp_all add: plain_append names_plain decimal_plain)
  from contents_read [OF this assms(1), of s]
  have r: "read_string J None (concat (write_node_id T n) @ s) = Some (?a @ mn_run_id n @ ?b, s)" unfolding t .
  have "json_at J (JString (?a @ mn_run_id n @ ?b)) (concat (write_node_id T n) @ s) s"
    by (rule string_at [OF _ r]) (simp add: t)
  moreover have "skip_space (concat (write_node_id T n) @ s) = concat (write_node_id T n) @ s"
    unfolding t by (simp add: is_json_space_def)
  ultimately show ?thesis
    unfolding value_at_def using assms(2)
    by (intro exI [of _ "JString (?a @ mn_run_id n @ ?b)"] exI [of _ s]) simp
qed

lemma schema_value: "K s \<Longrightarrow> value_at J h K (json_word (jt_event_schema T) @ s)"
  by (rule quoted_value [OF schema_plain])

lemmas written_rules = json_rules given_value node_id_value schema_value choices ends_marks model_keys names_utf8

lemma time_members:
  assumes "members_left J h False K s" and "ends_number s"
  shows "member_here J h K (concat (write_time n) @ s)"
  unfolding write_time_def
  by (simp, intro written_rules assms)

lemma source_member:
  assumes "utf8_text (mn_file_name n)" and "utf8_text (mn_function_name n)" and "members_left J (Suc h) False K s"
  shows "member_here J (Suc h) K (concat (write_source T n) @ s)"
  unfolding write_source_def
  by (simp, intro written_rules assms)

lemma location_value:
  assumes "utf8_text file_name" and "utf8_text function_name" and "K s"
  shows "value_at J (Suc (Suc h)) K (concat (location_calls T c q n av file_name l function_name) @ s)"
  unfolding location_calls_def
  by (simp, intro written_rules assms)

lemma resource_members:
  assumes "texts_utf8 (node_texts n)" and "members_left J h False K s" and "ends_number s"
  shows "members_left J h False K (concat (write_resource_fields T n) @ s)"
proof -
  from assms(1) have t: "utf8_text (mn_ptr n)" "utf8_text (mn_new_ptr n)" "utf8_text (mn_target n)"
    "utf8_text (mn_resource_class n)" "utf8_text (mn_resource_id n)" "utf8_text (mn_related_id n)"
    "utf8_text (mn_metadata n)" by (simp_all add: texts_utf8_def node_texts_def)
  have fd: "members_left J h False K (fd_fields n @ r)" if "members_left J h False K r" for r
  proof -
    have "plain_text ''fd''" "plain_text (signed_decimal (mn_fd n))" by (simp_all add: decimal_plain)
    with that show ?thesis unfolding fd_fields_def by (simp, intro written_rules that) simp_all
  qed
  have "plain_text ''allocation''" by simp
  then show ?thesis
    unfolding write_resource_fields_def
    by (cases "mn_record_kind n"; cases "mn_alloc_kind n"; simp split del: if_split;
        (intro written_rules t fd assms)?; simp?)
qed

end

lemma members_end_number:
  assumes "members_left J h False K s"
  shows "ends_number s"
proof -
  from assms obtain ms e where "members_at J False ms (skip_space s) e" by (auto simp: members_left_def)
  then have h: "at_char (\<lambda>c. c = CHR ''}'' \<or> c = CHR '','') (skip_space s)" by cases auto
  show ?thesis
  proof (cases s)
    case (Cons c t)
    with h show ?thesis
      by (cases "is_json_space c") (auto simp: is_json_space_def is_digit_def ends_number_def)
  qed simp
qed

context text_writer
begin

lemma node_value:
  assumes "texts_utf8 (node_texts n)" and "K s"
  shows "value_at J (Suc (Suc h)) K (concat (write_node T n) @ s)"
proof -
  from assms(1) have t: "utf8_text (mn_run_id n)" "utf8_text (mn_call_name n)" "utf8_text (mn_arguments n)"
    "utf8_text (mn_result n)" "utf8_text (mn_file_name n)" "utf8_text (mn_function_name n)"
    by (simp_all add: texts_utf8_def node_texts_def)
  have tail: "members_left J (Suc h) False K (CHR '','' # concat (write_time n) @ CHR '','' # concat (write_source T n) @ CHR ''}'' # s)"
    by (intro written_rules time_members source_member t assms)
  have "members_left J (Suc h) False K
      (concat (if mn_domain n = NODE_CALL
        then ['','' @ json_key ''name'', jt_string T (mn_call_name n), '','' @ json_key ''arguments'',
              jt_string T (mn_arguments n), '','' @ json_key ''result'', jt_string T (mn_result n)]
        else write_resource_fields T n) @ CHR '','' # concat (write_time n) @ CHR '','' # concat (write_source T n) @ CHR ''}'' # s)"
  proof (cases "mn_domain n = NODE_CALL")
    case True
    then show ?thesis by (simp, intro written_rules t time_members source_member assms)
  next
    case False
    with resource_members [OF assms(1) tail ends_marks(1)] show ?thesis by simp
  qed
  note fields = this members_end_number [OF this]
  show ?thesis
    unfolding write_node_def
    by (simp split del: if_split, intro written_rules names_plain t fields)
qed

lemma edge_value:
  assumes "utf8_text (mn_run_id (tm_nodes m ! me_from e))" and "utf8_text (mn_run_id (tm_nodes m ! me_to e))" and "K s"
  shows "value_at J (Suc h) K (concat (write_edge T m e) @ s)"
  unfolding write_edge_def
  by (simp, intro written_rules assms)

lemma listed_value:
  assumes "\<And>x K s. x \<in> set xs \<Longrightarrow> K s \<Longrightarrow> value_at J h K (concat (f x) @ s)" and "\<And>first. elements_left J h first K s"
  shows "elements_left J h True K (concat (listed f ('','' @ [NL]) xs) @ s)"
proof (cases xs)
  case (Cons x ys)
  have "value_at J h (elements_left J h False K) (concat (listed f ('','' @ [NL]) (x # ys)) @ s)"
    if "set (x # ys) \<subseteq> set xs" for x ys
    using that
  proof (induction ys arbitrary: x)
    case Nil
    then show ?case using assms(1) [of x "elements_left J h False K" s] assms(2) by simp
  next
    case (Cons y ys)
    have "elements_left J h False K (CHR '','' # NL # concat (listed f ('','' @ [NL]) (y # ys)) @ s)"
      by (intro element_next newlines Cons.IH) (use Cons.prems in simp)
    with assms(1) [of x] Cons.prems show ?case by simp
  qed
  from this [of x ys] show ?thesis unfolding Cons by (intro element_here) simp
qed (simp add: assms(2))

end

context text_writer
begin

lemma entry_value:
  assumes "texts_utf8 (entry_texts e)" and "entry_ok e" and "K s"
  shows "value_at J (Suc (Suc (Suc h))) K (concat (entry_calls T e) @ s)"
proof -
  have t: "utf8_text (le_resource_class e)" "utf8_text (le_resource_id e)"
    "utf8_text (le_acquired_file_name e)" "utf8_text (le_acquired_function_name e)"
    using assms(1) by (simp_all add: texts_utf8_def entry_texts_def)
  have r: "utf8_text (the (le_released_file_name e))" "utf8_text (the (le_released_function_name e))" if "\<not> le_live e"
    using assms(1,2) that by (auto simp: texts_utf8_def entry_texts_def entry_ok_def)
  have "value_at J (Suc (Suc h)) (members_left J (Suc (Suc h)) False K) (concat (if le_live e then [''null'']
      else location_calls T (le_released_context_id e) (le_released_sequence e)
        (le_released_monotonic_ns e) (le_released_monotonic_ns_available e) (the (le_released_file_name e))
        (le_released_line_number e) (the (le_released_function_name e))) @ CHR ''}'' # s)"
  proof (cases "le_live e")
    case True
    then show ?thesis by (simp, intro written_rules assms(3))
  next
    case False
    have "members_left J (Suc (Suc h)) False K (CHR ''}'' # s)" by (intro written_rules assms(3))
    with False location_value [OF r] show ?thesis by simp
  qed
  then show ?thesis
    unfolding entry_calls_def
    by (simp split del: if_split, intro written_rules location_value t)
qed

lemma lifecycle_finding_value:
  assumes "texts_utf8 (lifecycle_finding_texts f)" and "finding_ok f" and "K s"
  shows "value_at J (Suc (Suc (Suc h))) K (concat (lifecycle_finding_calls T f) @ s)"
proof -
  have t: "utf8_text (lf_resource_class f)" "utf8_text (lf_resource_id f)"
    "utf8_text (lf_file_name f)" "utf8_text (lf_function_name f)"
    using assms(1) by (simp_all add: texts_utf8_def lifecycle_finding_texts_def)
  have r: "utf8_text (the (lf_previous_file_name f))" "utf8_text (the (lf_previous_function_name f))"
    if "lf_previous_sequence f \<noteq> 0"
    using assms(1,2) that by (auto simp: texts_utf8_def lifecycle_finding_texts_def finding_ok_def)
  have "value_at J (Suc (Suc h)) (members_left J (Suc (Suc h)) False K) (concat (if lf_previous_sequence f = 0 then [''null'']
      else location_calls T (lf_previous_context_id f) (lf_previous_sequence f) 0 False
        (the (lf_previous_file_name f)) (lf_previous_line_number f) (the (lf_previous_function_name f))) @ CHR ''}'' # s)"
  proof (cases "lf_previous_sequence f = 0")
    case True
    then show ?thesis by (simp, intro written_rules assms(3))
  next
    case False
    have "members_left J (Suc (Suc h)) False K (CHR ''}'' # s)" by (intro written_rules assms(3))
    with False location_value [OF r] show ?thesis by simp
  qed
  then show ?thesis
    unfolding lifecycle_finding_calls_def
    by (simp split del: if_split, intro written_rules location_value t)
qed

lemma lifecycle_member:
  assumes "\<forall>e \<in> set (lm_entries l). texts_utf8 (entry_texts e)"
    and "\<forall>f \<in> set (lm_findings l). texts_utf8 (lifecycle_finding_texts f)"
    and "store_ok l" and "members_left J (Suc (Suc (Suc (Suc (Suc h))))) False K s"
  shows "member_here J (Suc (Suc (Suc (Suc (Suc h))))) K (concat (lifecycle_calls T l) @ s)"
proof -
  have e: "value_at J (Suc (Suc (Suc h))) K (concat (entry_calls T e) @ s)" if "e \<in> set (lm_entries l)" "K s" for e K s
    using entry_value [of e K s h] assms(1,3) that by (simp add: store_ok_def)
  have f: "value_at J (Suc (Suc (Suc h))) K (concat (lifecycle_finding_calls T f) @ s)"
    if "f \<in> set (lm_findings l)" "K s" for f K s
    using lifecycle_finding_value [of f K s h] assms(2,3) that by (simp add: store_ok_def)
  show ?thesis
    unfolding lifecycle_calls_def
    by (simp, intro written_rules listed_value [unfolded append_Cons append_Nil, OF e]
        listed_value [unfolded append_Cons append_Nil, OF f] assms(4))
qed


end

context text_writer
begin

lemma model_value:
  assumes "model_utf8 m l" and "store_ok l" and "edges_in_range m" and "K (NL # s)"
  shows "value_at J (Suc (Suc (Suc (Suc (Suc (Suc h)))))) K (concat (model_calls T m l) @ s)"
proof -
  have n: "utf8_text (mn_run_id (tm_nodes m ! i))" if "i < length (tm_nodes m)" for i
    using assms(1) that by (auto simp: model_utf8_def texts_utf8_def node_texts_def)
  have node: "value_at J (Suc (Suc h)) K (concat (write_node T n) @ s)" if "n \<in> set (tm_nodes m)" "K s" for n K s h
    using node_value [of n K s h] assms(1) that by (simp add: model_utf8_def)
  have edge: "value_at J (Suc h) K (concat (write_edge T m e) @ s)" if "e \<in> set (tm_edges m)" "K s" for e K s h
  proof -
    have "me_from e < length (tm_nodes m)" "me_to e < length (tm_nodes m)"
      using assms(3) that(1) by (auto simp: edges_in_range_def)
    from edge_value [where K = K, OF n [OF this(1)] n [OF this(2)] that(2)] show ?thesis .
  qed
  have life: "\<forall>e \<in> set (lm_entries l). texts_utf8 (entry_texts e)"
    "\<forall>f \<in> set (lm_findings l). texts_utf8 (lifecycle_finding_texts f)"
    using assms(1) by (simp_all add: model_utf8_def)
  have words: "plain_text ''p101-run-model-v1''" "plain_text ''run-pid-context-event-sequence-kind''"
    "plain_text ''causal-edges-with-per-context-sequence-and-observed-timestamps''" by simp_all
  show ?thesis
    unfolding model_calls_def model_head_def write_nodes_def write_edges_def
    by (simp add: Let_def, intro written_rules words lifecycle_member life assms(2,4)
        listed_value [unfolded append_Cons append_Nil, OF node]
        listed_value [unfolded append_Cons append_Nil, OF edge])
qed

end

subsection \<open>Properties\<close>

lemma brace_starts_object: "json_at J j (CHR ''{'' # t) r \<Longrightarrow> \<exists>ms. j = JObject ms"
  by (erule json_at.cases) (auto simp: is_digit_def dest!: number_at_head)

text \<open>Claim C15. The document of a finished model is well-formed. When the texts of its nodes, of its
  entries and of its lifecycle findings are well-formed UTF-8 without NUL, the stream takes all
  that is written and its flush succeeds, then no NULL reaches the string writers, writing succeeds, and
  the text written is one JSON object, nested at most six deep and followed by a newline, for
  every writer of JSON strings whose strings the reader reads back.\<close>

theorem model_json_wellformed:
  assumes "text_writer J T" and "\<not> tm_finished m"
    and "model_finish L (Some m, w) = Some (True, Some m', w1)"
    and "model_utf8 m' (the (tm_lifecycle m'))" and "Output.writable out" and "out_flushes out = []"
  shows "\<exists>document out1 j. model_write_json T (Some out) (Some m') w1 = Some (True, w1, Some out1) \<and>
    written out document out1 \<and> json_at J j document [NL] \<and> (\<exists>ms. j = JObject ms) \<and> height j \<le> 6"
proof -
  from model_finish_total [OF assms(2), of L w] assms(3) obtain l where f: "store_ok l" "tm_finished m'"
    "tm_lifecycle m' = Some l"
    by (auto simp: finish_post_def)
  have range: "edges_in_range m'" by (rule finished_in_range [OF assms(3,2)])
  let ?calls = "model_calls T m' l"
  have doc: "model_document T m' = map Some ?calls" by (rule document_given [OF f(3,1)])
  from write_calls_ample [OF assms(5), of ?calls] obtain out1 where out1:
    "write_calls ?calls out = (True, out1)" "written out (concat ?calls) out1" by blast
  have "out_flushes out1 = []" using written_fields [OF out1(2)] assms(6) by simp
  then have run: "model_write_json T (Some out) (Some m') w1 = Some (True, w1, Some out1)"
    by (cases out1) (simp add: model_write_json_def f(2) doc write_texts_Some out1(1))
  have "model_utf8 m' l" using assms(4) f(3) by simp
  from text_writer.model_value [OF assms(1) this f(1) range, of "\<lambda>e. e = [NL]" "[]" 0]
  obtain j where j: "json_at J j (skip_space (concat ?calls)) [NL]" "height j \<le> 6"
    by (auto simp: value_at_def)
  obtain t where t: "concat ?calls = CHR ''{'' # t" by (simp add: model_calls_def model_head_def Let_def)
  then have "skip_space (concat ?calls) = concat ?calls" by (simp add: is_json_space_def)
  with run out1(2) j brace_starts_object [of J j t "[NL]"] t show ?thesis by auto
qed

lemma sample_lifecycle_utf8:
  "\<exists>l. build_lifecycle doc_lib (sample_input\<lparr>tm_edge_capacity := c, tm_edges := es\<rparr>, calm_world) =
     Some (True, sample_input\<lparr>tm_edge_capacity := c, tm_edges := es, tm_lifecycle := Some l\<rparr>, calm_world) \<and>
     (\<forall>e \<in> set (lm_entries l). texts_utf8 (entry_texts e)) \<and>
     (\<forall>f \<in> set (lm_findings l). texts_utf8 (lifecycle_finding_texts f))"
  by (simp add: build_lifecycle_def lifecycle_create_def lifecycle_node_def sample_input_def
      sample_record_defs copy_record_def empty_model_def calm_world_def node_resource_class_def
      record_from_node_def lifecycle_eval ingest_fd_def format_fd_identifier_def
      fd_resource_class_def empty_lifecycle_def doc_lib_def lifecycle_finish_def
      texts_utf8_def entry_texts_def released_by_def new_entry_def function_text_def file_text_def
      sample_decimals)

theorem model_json_wellformed_witness:
  "\<exists>m1 document out1 ms. model_finish doc_lib (Some sample_input, calm_world) = Some (True, Some m1, calm_world) \<and>
     model_write_json escaping_texts (Some quiet_out) (Some m1) calm_world = Some (True, calm_world, Some out1) \<and>
     out_text out1 = document \<and> json_at full_json (JObject ms) document [NL]"
proof -
  let ?es = "[edge EDGE_RESOURCE_LIFETIME 0 1]"
  let ?m = "\<lambda>l. sample_input\<lparr>tm_edge_capacity := 32, tm_edges := ?es, tm_lifecycle := Some l\<rparr>"
  obtain l where l: "build_lifecycle doc_lib
      (sample_input\<lparr>tm_edge_capacity := 32, tm_edges := ?es\<rparr>, calm_world) = Some (True, ?m l, calm_world)"
    "\<forall>e \<in> set (lm_entries l). texts_utf8 (entry_texts e)"
    "\<forall>f \<in> set (lm_findings l). texts_utf8 (lifecycle_finding_texts f)"
    using sample_lifecycle_utf8 by blast
  let ?m1 = "(?m l)\<lparr>tm_finished := True\<rparr>"
  have "length (tm_nodes sample_input) = 2" "\<not> tm_finished sample_input"
    "sample_input\<lparr>tm_edges := [], tm_lifecycle := None\<rparr> = sample_input"
    by (simp_all add: sample_input_def empty_model_def)
  moreover have "replicate 2 (None :: nat option) = [None, None]" by (simp add: numeral_2_eq_2)
  moreover have "allocate_exits 2 calm_world = (True, calm_world)"
    by (simp add: allocate_exits_def heap_request_def calm_world_def)
  ultimately have fin: "model_finish doc_lib (Some sample_input, calm_world) = Some (True, Some ?m1, calm_world)"
    using sample_input_edges l(1) by (simp add: model_finish_def build_model_def)
  have "\<forall>n \<in> set (tm_nodes sample_input). texts_utf8 (node_texts n)"
    by (simp add: sample_input_def sample_record_defs copy_record_def texts_utf8_def node_texts_def
        node_resource_class_def)
  with l(2,3) have utf8: "model_utf8 ?m1 (the (tm_lifecycle ?m1))" by (simp add: model_utf8_def)
  have fresh: "\<not> tm_finished sample_input" and quiet: "Output.writable quiet_out" "out_flushes quiet_out = []"
    by (simp_all add: sample_input_def empty_model_def writable_def quiet_out_def Output.writable_def)
  from model_json_wellformed [OF escaping.text_writer_axioms fresh fin utf8 quiet]
  obtain document out1 ms where r: "model_write_json escaping_texts (Some quiet_out) (Some ?m1) calm_world = Some (True, calm_world, Some out1)"
    "written quiet_out document out1" "json_at full_json (JObject ms) document [NL]" by blast
  have "out_text out1 = document" using written_fields [OF r(2)] by (simp add: quiet_out_def)
  with fin r(1,3) show ?thesis by blast
qed

end
