(* ===== verification/Node_Identity.thy ===== *)
theory Node_Identity
  imports Model_Json_Properties
begin

section \<open>The identity of a node\<close>

text \<open>
  The document identifies a node by run, process, context, event sequence and kind
  (\<open>write_node_id\<close>), and its edges refer to nodes by this identity. What admission knows of the
  sequences makes it unique, except for the sequence number 0, which admission lets repeat.
\<close>

definition node_id :: "json_texts \<Rightarrow> model_node \<Rightarrow> string" where
  "node_id T n = concat (write_node_id T n)"

lemma colon_split:
  "a @ c # r = b @ c # s \<Longrightarrow> c \<notin> set a \<Longrightarrow> c \<notin> set b \<Longrightarrow> a = b \<and> r = s"
proof (induction a arbitrary: b)
  case Nil
  then show ?case by (cases b) auto
next
  case (Cons x a)
  then show ?case by (cases b) auto
qed

lemma decimal_no_colon: "CHR '':'' \<notin> set (decimal n)" "CHR '':'' \<notin> set (signed_decimal i)"
proof -
  have d: "CHR '':'' \<notin> set (decimal n)" for n using decimal_digits [of n] by (auto simp: is_digit_def)
  then show "CHR '':'' \<notin> set (decimal n)" "CHR '':'' \<notin> set (signed_decimal i)"
    by (auto simp: signed_decimal_def)
qed

lemma node_id_domain: "node_id T a = node_id T b \<Longrightarrow> mn_domain a = mn_domain b"
  by (cases "mn_domain a"; cases "mn_domain b") (auto simp: node_id_def write_node_id_def domain_name_def)

lemma node_id_key:
  assumes "node_id T a = node_id T b" and "mn_run_id a = mn_run_id b"
  shows "mn_pid a = mn_pid b \<and> mn_context_id a = mn_context_id b \<and> mn_sequence a = mn_sequence b"
proof -
  let ?rest = "\<lambda>n. signed_decimal (mn_pid n) @ CHR '':'' # decimal (mn_context_id n) @ CHR '':'' #
    decimal (mn_sequence n) @ CHR '':'' # node_kind_name n @ [CHR 0x22]"
  have "domain_name a = domain_name b" using node_id_domain [OF assms(1)] by (simp add: domain_name_def)
  with assms have rest: "?rest a = ?rest b" by (simp add: node_id_def write_node_id_def)
  note 1 = colon_split [OF rest decimal_no_colon(2) decimal_no_colon(2)]
  note 2 = colon_split [OF 1 [THEN conjunct2] decimal_no_colon(1) decimal_no_colon(1)]
  note 3 = colon_split [OF 2 [THEN conjunct2] decimal_no_colon(1) decimal_no_colon(1)]
  show ?thesis using 1 2 3 by (simp add: decimal_inj signed_decimal_inj)
qed

subsection \<open>Distinct records\<close>

lemma distinct_by_groups:
  "(\<And>k. distinct (map f (filter (\<lambda>r. g r = k) xs))) \<Longrightarrow> distinct (map (\<lambda>r. (g r, f r)) xs)"
proof (induction xs)
  case (Cons x xs)
  have "distinct (map f (filter (\<lambda>r. g r = k) xs))" for k using Cons.prems [of k] by (auto split: if_splits)
  moreover have "(g x, f x) \<notin> (\<lambda>r. (g r, f r)) ` set xs" using Cons.prems [of "g x"] by auto
  ultimately show ?case using Cons.IH by simp
qed simp

lemma distinct_map_finer:
  "distinct (map k xs) \<Longrightarrow> (\<And>x y. x \<in> set xs \<Longrightarrow> y \<in> set xs \<Longrightarrow> f x = f y \<Longrightarrow> k x = k y) \<Longrightarrow> distinct (map f xs)"
proof (induction xs)
  case (Cons x xs)
  have "f x \<notin> f ` set xs"
  proof
    assume "f x \<in> f ` set xs"
    then obtain y where "y \<in> set xs" "f x = f y" by blast
    with Cons.prems(2) [of x y] Cons.prems(1) show False by auto
  qed
  with Cons show ?case by simp
qed simp

definition numbered :: "event_record \<Rightarrow> bool" where
  "numbered r \<longleftrightarrow> ev_sequence r \<noteq> 0"

lemma stream_numbers_distinct:
  assumes "stream_accepted L cs rs"
  shows "distinct (map (\<lambda>r. (context_of r, ev_sequence r)) (filter numbered rs))"
proof (rule distinct_by_groups)
  fix k
  have seqs: "map ev_sequence (filter (\<lambda>r. context_of r = k) (filter numbered rs)) = sequences (records_of rs k)"
    by (simp add: sequences_def records_of_def filter_map numbered_def comp_def conj_commute)
  show "distinct (map ev_sequence (filter (\<lambda>r. context_of r = k) (filter numbered rs)))"
  proof (cases "\<exists>r \<in> set rs. context_of r = k")
    case True
    then have "sorted_wrt (<) (sequences (records_of rs k))"
      using assms by (auto simp: stream_accepted_def context_accepted_def context_complete_def)
    then show ?thesis unfolding seqs by (simp add: strict_sorted_iff)
  next
    case False
    then have "filter (\<lambda>r. context_of r = k) (filter numbered rs) = []" by (auto simp: filter_empty_conv)
    then show ?thesis by simp
  qed
qed

lemma same_run_key:
  assumes "stream_accepted L cs rs" and "r \<in> set rs" and "q \<in> set rs"
    and "node_id T (copy_record r) = node_id T (copy_record q)"
  shows "(context_of r, ev_sequence r) = (context_of q, ev_sequence q)"
proof -
  have "ev_run_id r = ev_run_id (hd rs)" "ev_run_id q = ev_run_id (hd rs)"
    using assms(1-3) unfolding stream_accepted_def by blast+
  then have run: "ev_run_id r = ev_run_id q" by simp
  then have "mn_run_id (copy_record r) = mn_run_id (copy_record q)" by (simp add: copy_record_def)
  from node_id_key [OF assms(4) this] run show ?thesis by (simp add: copy_record_def context_of_def)
qed

lemma stream_ids_distinct:
  assumes "stream_accepted L cs rs"
  shows "distinct (map (\<lambda>r. node_id T (copy_record r)) (filter numbered (filter P rs)))"
proof (rule distinct_map_finer)
  have "filter numbered (filter P rs) = filter P (filter numbered rs)" by (simp add: conj_commute)
  with distinct_map_filter [OF stream_numbers_distinct [OF assms], of P]
  show "distinct (map (\<lambda>r. (context_of r, ev_sequence r)) (filter numbered (filter P rs)))" by simp
qed (use same_run_key [OF assms] in auto)

subsection \<open>Properties\<close>

text \<open>Claim C12. In a model built from two files the identities of the nodes with a sequence number are
  pairwise distinct, so that \<open>from\<close> and \<open>to\<close> of an edge name one node each: the identity
  consists of run, process, context, sequence and kind, and admission lets no number occur twice
  in a context of a stream.\<close>

theorem node_ids_distinct:
  assumes "model_ingest_paths L (Some empty_model) (Some rf) (Some cf) w = Some (True, Some m, w')"
  shows "distinct (map (node_id T) (filter (\<lambda>n. mn_sequence n \<noteq> 0) (tm_nodes m)))"
proof -
  have ok: "model_ok empty_model" by (simp add: model_ok_def empty_model_def)
  from model_ingest_paths_total [of L empty_model rf cf w] assms ok
  have "paths_accepted L empty_model rf cf m" by auto
  then obtain rs cs where acc: "stream_accepted L rs rs" "stream_accepted L rs cs"
    and nodes: "tm_nodes m = map copy_record (filter (belongs False) rs @ filter (belongs True) cs)"
    by (auto simp: paths_accepted_def empty_model_def)
  let ?id = "\<lambda>r. node_id T (copy_record r)"
  let ?rs = "filter numbered (filter (belongs False) rs)" and ?cs = "filter numbered (filter (belongs True) cs)"
  have seq: "mn_sequence (copy_record r) = ev_sequence r" for r by (simp add: copy_record_def)
  have ids: "map (node_id T) (filter (\<lambda>n. mn_sequence n \<noteq> 0) (tm_nodes m)) = map ?id (?rs @ ?cs)"
    by (simp add: nodes filter_map comp_def seq numbered_def)
  have "?id ` set ?rs \<inter> ?id ` set ?cs = {}"
  proof -
    have "?id r \<noteq> ?id c" if "belongs False r" "belongs True c" for r c
      using that node_id_domain [of T "copy_record r" "copy_record c"]
      by (auto simp: belongs_def copy_record_def)
    then show ?thesis by auto
  qed
  then show ?thesis
    unfolding ids using stream_ids_distinct [OF acc(1)] stream_ids_distinct [OF acc(2)] by simp
qed

theorem node_ids_distinct_witness:
  "\<exists>m. model_ingest_paths doc_lib (Some empty_model) (Some (sample_file sample_events))
       (Some (sample_file sample_call_events)) calm_world = Some (True, Some m, calm_world) \<and>
     distinct (map (node_id escaping_texts) (filter (\<lambda>n. mn_sequence n \<noteq> 0) (tm_nodes m)))"
  using sample_run node_ids_distinct [of doc_lib "sample_file sample_events" "sample_file sample_call_events"
    calm_world] by auto

text \<open>The number 0 is no exception in the format: two opens with it are admitted, and their nodes
  have one identity.\<close>

definition unnumbered_events :: "written list" where
  "unnumbered_events =
     [(sample_header\<lparr>hd_sequence := 0\<rparr>, Fd_Event FD_OPEN 3 10 ''main'' ''a.c''),
      (sample_header\<lparr>hd_sequence := 0\<rparr>, Fd_Event FD_OPEN 4 11 ''main'' ''a.c''),
      (sample_header\<lparr>hd_sequence := 1\<rparr>, Complete_Event 2 0)]"

theorem unnumbered_nodes_collide:
  "list_all (writable doc_lib doc_escape decimal) unnumbered_events \<and>
   admissible_pair doc_lib (map (\<lambda>(h, p). record_of h p) unnumbered_events)
     (map (\<lambda>(h, p). record_of h p) sample_call_events) \<and>
   node_id T (copy_record (case unnumbered_events ! 0 of (h, p) \<Rightarrow> record_of h p)) =
     node_id T (copy_record (case unnumbered_events ! 1 of (h, p) \<Rightarrow> record_of h p))"
proof (intro conjI)
  show "list_all (writable doc_lib doc_escape decimal) unnumbered_events"
    by (simp add: unnumbered_events_def Model_Input_Properties.writable_def sample_header_def header_ok_def
        line_of_def header_fields_def sample_decimals opt_size_def opt_bounded_def doc_lib_def
        LONG_MAX_def SIZE_MAX_def EVENT_FD_MAX_def line_number_ok_def INT_MAX_def)
  show "admissible_pair doc_lib (map (\<lambda>(h, p). record_of h p) unnumbered_events)
      (map (\<lambda>(h, p). record_of h p) sample_call_events)"
    by (simp add: admissible_pair_def stream_accepted_def context_accepted_def context_complete_def
        records_of_def context_of_def sequences_def belongs_def run_id_ok_def doc_lib_def
        unnumbered_events_def sample_call_events_def sample_header_def header_record_def blank_record_def
        zero_record_def MODEL_LIMIT_def)
qed (simp add: unnumbered_events_def copy_record_def sample_header_def header_record_def blank_record_def
    zero_record_def node_id_def write_node_id_def node_kind_name_def domain_name_def)

end
