(* ===== verification/Command_Line.thy ===== *)
theory Command_Line
  imports Model_Json Model_Input
begin

section \<open>The command line tool (src/model\_cli.c)\<close>

text \<open>
  \<open>tool_main\<close> is \<open>main\<close>: the arguments are read, the two logs are ingested, the admission test
  (\<open>admitted_streams_are_complete\<close>, in Model\_Input) is made, and the finished model is written to
  the output. The file has its own copies of the functions that read a log. What the tool
  meets is a parameter: what \<open>fopen\<close> gives for a path that is read, whether the error object
  can be created, and the message of an error object (another package). Memory and streams that
  are given back have no further effect.
\<close>

record arguments =
  ar_resource_path :: "string option"
  ar_call_path :: "string option"
  ar_output_path :: "string option"

text \<open>Standard output, standard error, and the file that is written.\<close>

record console =
  con_out :: out_state
  con_err :: out_state
  con_file :: out_state

record surroundings =
  su_input :: "string \<Rightarrow> errno + opened_file"
  su_error_object :: bool
  su_message :: "world \<Rightarrow> string"

definition EXIT_SUCCESS :: nat where "EXIT_SUCCESS = 0"
definition EXIT_TROUBLE :: nat where "EXIT_TROUBLE = 2"

definition no_arguments :: arguments where
  "no_arguments = \<lparr>ar_resource_path = None, ar_call_path = None, ar_output_path = None\<rparr>"

subsection \<open>Arguments\<close>

text \<open>Printing whose status is not looked at.\<close>

definition say_error :: "string \<Rightarrow> console \<Rightarrow> console" where
  "say_error t con = con\<lparr>con_err := snd (write_call t (con_err con))\<rparr>"

definition usage :: "string \<Rightarrow> string" where
  "usage program = ''Usage: '' @ program @ '' -r <resources.log> -c <calls.log> [-o <run-model.json>]'' @ [NL]"

text \<open>The member of the arguments that an option fills: how it is read and how it is stored.\<close>

definition destination :: "string \<Rightarrow> ((arguments \<Rightarrow> string option) \<times> (string \<Rightarrow> arguments \<Rightarrow> arguments)) option" where
  "destination flag =
     (if flag = ''-r'' then Some (ar_resource_path, \<lambda>v a. a\<lparr>ar_resource_path := Some v\<rparr>)
      else if flag = ''-c'' then Some (ar_call_path, \<lambda>v a. a\<lparr>ar_call_path := Some v\<rparr>)
      else if flag = ''-o'' then Some (ar_output_path, \<lambda>v a. a\<lparr>ar_output_path := Some v\<rparr>)
      else None)"

text \<open>The loop over the arguments behind the program's name; \<open>False\<close> is a usage error.\<close>

fun parse_options :: "string list \<Rightarrow> arguments \<Rightarrow> bool \<times> arguments" where
  "parse_options [] a = (True, a)"
| "parse_options [flag] a = (False, a)"
| "parse_options (flag # v # rest) a =
     (case destination flag of
        None \<Rightarrow> (False, a)
      | Some (get, put) \<Rightarrow>
          if v = [] \<or> get a \<noteq> None then (False, a) else parse_options rest (put v a))"

definition parse_arguments :: "string \<Rightarrow> string list \<Rightarrow> arguments \<Rightarrow> console \<Rightarrow> int \<times> arguments \<times> console" where
  "parse_arguments program argv a con =
     (if argv = [''-h''] \<or> argv = [''--help'']
      then (1, a, con\<lparr>con_out := snd (write_call (usage program) (con_out con))\<rparr>)
      else
        (case parse_options argv a of
           (False, a1) \<Rightarrow> (- 1, a1, say_error (usage program) con)
         | (True, a1) \<Rightarrow>
             if ar_resource_path a1 = None \<or> ar_call_path a1 = None
             then (- 1, a1, say_error (usage program) con)
             else (0, a1, con)))"

subsection \<open>Reading a log\<close>

definition cli_admit_record ::
  "record_lib \<Rightarrow> bool \<Rightarrow> input_state \<Rightarrow> event_record \<Rightarrow> bool \<times> input_state" where
  "cli_admit_record L calls s r =
     (case s of (m, h, w) \<Rightarrow>
        case observe_record L w h r of
          (Some e, h1, w1) \<Rightarrow> (False, m, h1, raise_errno e w1)
        | (None, h1, w1) \<Rightarrow>
            if ev_record_kind r \<noteq> RECORD_COMPLETE \<and> record_belongs_in_stream r calls then
              (case model_ingest L (Some m, w1) (Some r) of (b, m1, w2) \<Rightarrow> (b, the m1, h1, w2))
            else (True, m, h1, w1))"

partial_function (option) cli_ingest_stream ::
  "record_lib \<Rightarrow> bool \<Rightarrow> byte_stream \<Rightarrow> input_state \<Rightarrow> (bool \<times> input_state) option" where
  "cli_ingest_stream L calls st s =
     (case read_line (snd (snd s)) (Some st) (line_max L) of (status, line, st1, w1) \<Rightarrow>
        let s1 = (fst s, fst (snd s), w1) in
        if status = LINE_EOF then Some (True, s1)
        else if status \<noteq> LINE_OK then
          Some (False, fst s, fst (snd s), if status = LINE_MALFORMED then raise_errno EINVAL w1 else w1)
        else (case parse_line L (Some line) of
                Inl e \<Rightarrow>
                  if e = PARSE_OTHER then cli_ingest_stream L calls (the st1) s1
                  else Some (False, fst s, fst (snd s), raise_errno EINVAL w1)
              | Inr r \<Rightarrow>
                  (case cli_admit_record L calls s1 r of
                     (b, s2) \<Rightarrow> if b then cli_ingest_stream L calls (the st1) s2
                                else Some (False, s2))))"

definition cli_ingest_path ::
  "record_lib \<Rightarrow> bool \<Rightarrow> errno + opened_file \<Rightarrow> input_state \<Rightarrow> (bool \<times> input_state) option" where
  "cli_ingest_path L calls path s =
     (case path of
        Inl e \<Rightarrow> Some (False, fst s, fst (snd s), raise_errno e (snd (snd s)))
      | Inr f \<Rightarrow>
          map_option (\<lambda>(b, m, h, w).
              case of_close f of
                Some e \<Rightarrow> (False, m, h, if b then raise_errno e w else w)
              | None \<Rightarrow> (b, m, h, w))
            (cli_ingest_stream L calls (of_stream f) s))"

subsection \<open>Writing the model\<close>

text \<open>A failing \<open>fclose\<close> has set \<open>errno\<close>; a failure without it is not covered (\<open>None\<close>).\<close>

definition close_model :: "string \<Rightarrow> bool \<Rightarrow> world \<Rightarrow> out_state \<Rightarrow> (bool \<times> world \<times> out_state) option" where
  "close_model path b w out =
     (let out1 = out\<lparr>out_closes := drop 1 (out_closes out), out_files := out_files out @ [(path, out_text out)],
          out_path := None\<rparr> in
      case out_closes out of
        Some (Some e) # _ \<Rightarrow> Some (False, if b then raise_errno e w else w, out1)
      | Some None # _ \<Rightarrow> if b then None else Some (False, w, out1)
      | _ \<Rightarrow> Some (b, w, out1))"

definition write_model ::
  "json_texts \<Rightarrow> tool_model \<Rightarrow> string option \<Rightarrow> console \<times> world \<Rightarrow> (bool \<times> console \<times> world) option" where
  "write_model T m path s =
     (case s of (con, w) \<Rightarrow>
        (case path of
           None \<Rightarrow>
             map_option (\<lambda>(b, w1, out). (b, con\<lparr>con_out := the out\<rparr>, w1))
               (model_write_json T (Some (con_out con)) (Some m) w)
         | Some p \<Rightarrow>
             (case out_opens (con_file con) of
                Some e # es \<Rightarrow> Some (False, con\<lparr>con_file := (con_file con)\<lparr>out_opens := es\<rparr>\<rparr>, raise_errno e w)
              | answers \<Rightarrow>
                  (case model_write_json T (Some ((con_file con)\<lparr>out_path := Some p, out_text := [],
                          out_opens := drop 1 answers\<rparr>)) (Some m) w of
                     None \<Rightarrow> None
                   | Some (b, w1, out) \<Rightarrow>
                       map_option (\<lambda>(c, w2, out1). (c, con\<lparr>con_file := out1\<rparr>, w2))
                         (close_model p b w1 (the out))))))"

subsection \<open>The program\<close>

definition incomplete_message :: string where
  "incomplete_message = ''p101-event-model: an admitted event stream is incomplete'' @ [NL]"

text \<open>From the creation of the model to the label \<open>done\<close>: whether the result is success.\<close>

definition tool_run ::
  "record_lib \<Rightarrow> json_texts \<Rightarrow> surroundings \<Rightarrow> arguments \<Rightarrow> console \<times> world \<Rightarrow>
   (bool \<times> console \<times> world) option" where
  "tool_run L T E args s =
     (case s of (con, w) \<Rightarrow>
        case model_create w of
          (None, w1) \<Rightarrow> Some (False, con, w1)
        | (Some m, w1) \<Rightarrow>
            (case cli_ingest_path L False (su_input E (the (ar_resource_path args))) (m, empty_health, w1) of
               None \<Rightarrow> None
             | Some (False, m1, h1, w2) \<Rightarrow> Some (False, con, w2)
             | Some (True, m1, h1, w2) \<Rightarrow>
                 (case cli_ingest_path L True (su_input E (the (ar_call_path args))) (m1, empty_health, w2) of
                    None \<Rightarrow> None
                  | Some (False, m2, h2, w3) \<Rightarrow> Some (False, con, w3)
                  | Some (True, m2, h2, w3) \<Rightarrow>
                      if \<not> admitted_streams_are_complete h1 h2 then Some (False, say_error incomplete_message con, w3)
                      else
                        (case model_finish L (Some m2, w3) of
                           None \<Rightarrow> None
                         | Some (False, m3, w4) \<Rightarrow> Some (False, con, w4)
                         | Some (True, m3, w4) \<Rightarrow> write_model T (the m3) (ar_output_path args) (con, w4)))))"

text \<open>The label \<open>done\<close>: the error object is new when the run starts, so that it has an error when one was raised.\<close>

definition report_error :: "surroundings \<Rightarrow> console \<Rightarrow> world \<Rightarrow> console" where
  "report_error E con w =
     (if w_raised w = [] then con else say_error (''p101-event-model: '' @ su_message E w @ [NL]) con)"

definition tool_main ::
  "record_lib \<Rightarrow> json_texts \<Rightarrow> surroundings \<Rightarrow> string \<Rightarrow> string list \<Rightarrow> console \<times> bool list \<Rightarrow>
   (nat \<times> console) option" where
  "tool_main L T E program argv s =
     (case s of (con, memory) \<Rightarrow>
        case parse_arguments program argv no_arguments con of
          (status, args, con1) \<Rightarrow>
            if 0 < status then Some (EXIT_SUCCESS, con1)
            else if status < 0 then Some (EXIT_TROUBLE, con1)
            else if \<not> su_error_object E
            then Some (EXIT_TROUBLE, say_error (''p101-event-model: could not create error object'' @ [NL]) con1)
            else map_option (\<lambda>(b, con2, w). (if b then EXIT_SUCCESS else EXIT_TROUBLE, report_error E con2 w))
              (tool_run L T E args (con1, \<lparr>w_alloc = memory, w_raised = []\<rparr>)))"

end
