(* ===== verification/Failures.thy ===== *)
theory Failures
  imports Command_Line
begin

section \<open>No failure is silent\<close>

text \<open>
  Every operation between the logs and the document that fails has raised an error. Below,
  one lemma per operation, in the order of the calls; \<open>told\<close> collects them.
\<close>

named_theorems told

abbreviation raised :: "world \<Rightarrow> bool" where
  "raised w \<equiv> w_raised w \<noteq> []"

lemma raise_raised [simp]: "raised (raise_errno e w)" "raised (raise_check w)"
  by (simp_all add: raise_errno_def raise_check_def)

lemma copy_text_told [told]: "copy_text s w = (None, w1) \<Longrightarrow> raised w1"
  by (auto simp: copy_text_def split: prod.splits bool.splits)

lemma copy_all_told [told]: "copy_all ss w = (False, w1) \<Longrightarrow> raised w1"
  using copy_all_raised [of ss w False w1] by auto

lemma copy_until_told [told]: "copy_until ss w = (False, w1) \<Longrightarrow> raised w1"
  using copy_until_raised [of ss w False w1] by auto

subsection \<open>The lifecycle\<close>

lemma lifecycle_reserve_told [told]: "lifecycle_reserve k n c w = (False, c1, w1) \<Longrightarrow> raised w1"
  by (auto simp: lifecycle_reserve_def split: if_splits prod.splits bool.splits)

lemma entry_capacity_told [told]: "ensure_entry_capacity s = (False, m, w) \<Longrightarrow> raised w"
  by (auto simp: ensure_entry_capacity_def dest: told split: prod.splits)

lemma finding_capacity_told [told]: "ensure_finding_capacity s = (False, m, w) \<Longrightarrow> raised w"
  by (auto simp: ensure_finding_capacity_def dest: told split: prod.splits)

lemma add_entry_told [told]: "add_entry s r rid = (False, m, w) \<Longrightarrow> raised w"
  by (auto simp: add_entry_def simp del: copy_all.simps dest: told split: prod.splits bool.splits)

lemma add_finding_told [told]: "add_finding s k r p = (False, m, w) \<Longrightarrow> raised w"
  by (auto simp: add_finding_def Let_def simp del: copy_all.simps append.simps dest: told
      split: prod.splits bool.splits)

lemma add_leak_told [told]: "add_leak_finding s e = (False, m, w) \<Longrightarrow> raised w"
  by (auto simp: add_leak_finding_def simp del: copy_all.simps dest: told split: prod.splits bool.splits)

lemma release_told [told]: "release_entry s r = (False, m, w) \<Longrightarrow> raised w"
  by (auto simp: release_entry_def Let_def simp del: copy_all.simps dest: told
      split: prod.splits bool.splits option.splits)

lemma reconcile_told [told]:
  assumes "reconcile_stray_releases s pid cls rid = Some (False, m, w)"
  shows "raised w"
proof -
  have "fst (False, m, w) \<or> raised (snd (snd (False, m, w)))"
  proof (rule reconcile_stray_releases.raw_induct [where P = "\<lambda>s pid cls rid y. fst y \<or> raised (snd (snd y))", OF _ assms])
    fix f s pid cls rid y
    assume "\<And>s pid cls rid y. f s pid cls rid = Some y \<Longrightarrow> fst y \<or> raised (snd (snd y))"
      and "(case take_stray_release (fst s) pid cls rid of
          None \<Rightarrow> Some (True, s)
        | Some (g, m1) \<Rightarrow> (case release_entry (m1, snd s) (release_record g) of
            (b, s1) \<Rightarrow> if b then f s1 pid cls rid else Some (False, s1))) = Some y"
    then show "fst y \<or> raised (snd (snd y))"
      by (cases y) (fastforce dest: told split: option.splits prod.splits if_splits)
  qed
  then show ?thesis by simp
qed

lemma ingest_resource_told [told]: "ingest_resource s r = (False, m, w) \<Longrightarrow> raised w"
  by (auto simp: ingest_resource_def dest: told
      split: prod.splits option.splits resource_kind.splits if_splits bool.splits)

lemma ingest_fd_told [told]: "ingest_fd s r = (False, m, w) \<Longrightarrow> raised w"
  unfolding ingest_fd_def by (rule ingest_resource_told)

lemma ingest_allocation_told [told]: "ingest_allocation L s r = (False, m, w) \<Longrightarrow> raised w"
  by (auto simp: ingest_allocation_def Let_def dest: told
      split: prod.splits option.splits alloc_kind.splits if_splits bool.splits)

lemma fork_step_told [told]: "fork_step r i s = Some (False, m, w) \<Longrightarrow> raised w"
  by (auto simp: fork_step_def Let_def dest: told split: prod.splits if_splits bool.splits)

lemma fork_from_told [told]: "fork_from r n i s = Some (False, m, w) \<Longrightarrow> raised w"
  by (induction r n i s rule: fork_from.induct)
     (auto dest: told split: option.splits prod.splits bool.splits)

lemma ingest_exec_told [told]: "ingest_exec s r = (False, m, w) \<Longrightarrow> raised w"
  by (auto simp: ingest_exec_def dest: told split: prod.splits option.splits if_splits bool.splits)

lemma ingest_kind_told [told]: "ingest_kind L s r = Some (False, m, w) \<Longrightarrow> raised w"
  by (cases "ev_record_kind r") (auto simp: ingest_kind_def ingest_fork_def dest: told split: if_splits)

lemma lifecycle_ingest_told [told]: "lifecycle_ingest L s r = Some (False, m, w) \<Longrightarrow> raised w"
  by (auto simp: lifecycle_ingest_def dest: told split: prod.splits option.splits if_splits)

lemma finish_from_told [told]: "finish_from n i s = (False, m, w) \<Longrightarrow> raised w"
proof (induction n arbitrary: i s)
  case (Suc n)
  obtain m0 w0 where s: "s = (m0, w0)" by (rule prod.exhaust)
  define e where "e = (lm_entries m0 ! i)\<lparr>le_exec_pending := False\<rparr>"
  define m1 where "m1 = m0\<lparr>lm_entries := (lm_entries m0)[i := e]\<rparr>"
  note step = Suc.prems [unfolded s finish_from.simps(2) Let_def, folded e_def, folded m1_def]
  show ?case
  proof (cases "le_live e")
    case False
    with step have "finish_from n (Suc i) (m1, w0) = (False, m, w)" by simp
    then show ?thesis by (rule Suc.IH)
  next
    case True
    obtain b s2 where leak: "add_leak_finding (m1, w0) e = (b, s2)" by (rule prod.exhaust)
    show ?thesis
    proof (cases b)
      case b: True
      with step True leak have "finish_from n (Suc i) s2 = (False, m, w)" by simp
      then show ?thesis by (rule Suc.IH)
    next
      case False
      with step True leak have "add_leak_finding (m1, w0) e = (False, m, w)" by simp
      then show ?thesis by (rule add_leak_told)
    qed
  qed
qed simp

lemma lifecycle_finish_told [told]: "lifecycle_finish s = (False, m, w) \<Longrightarrow> raised w"
  by (auto simp: lifecycle_finish_def dest: told split: prod.splits option.splits bool.splits if_splits)

lemma lifecycle_of_nodes_told [told]: "lifecycle_of_nodes L ns s = Some (False, m, w) \<Longrightarrow> raised w"
  by (induction L ns s rule: lifecycle_of_nodes.induct)
     (auto dest: told split: option.splits prod.splits bool.splits if_splits)

lemma lifecycle_create_told [told]: "lifecycle_create w = (None, w1) \<Longrightarrow> raised w1"
  by (auto simp: lifecycle_create_def split: prod.splits bool.splits)

lemma build_lifecycle_told [told]: "build_lifecycle L s = Some (False, m, w) \<Longrightarrow> raised w"
  by (auto simp: build_lifecycle_def dest: told split: prod.splits option.splits bool.splits)

subsection \<open>The model\<close>

lemma model_reserve_told [told]: "model_reserve n c w = (False, c1, w1) \<Longrightarrow> raised w1"
  by (auto simp: model_reserve_def split: if_splits prod.splits bool.splits)

lemma reserve_nodes_told [told]: "reserve_nodes s = (False, m, w) \<Longrightarrow> raised w"
  by (auto simp: reserve_nodes_def dest: told split: prod.splits)

lemma reserve_edges_told [told]: "reserve_edges s = (False, m, w) \<Longrightarrow> raised w"
  by (auto simp: reserve_edges_def dest: told split: prod.splits)

lemma add_edge_told [told]: "add_edge s k a b = (False, m, w) \<Longrightarrow> raised w"
  by (auto simp: add_edge_def dest: told split: prod.splits bool.splits)

lemma add_optional_edge_told [told]: "add_optional_edge s k a b = (False, m, w) \<Longrightarrow> raised w"
  by (auto simp: add_optional_edge_def dest: told split: option.splits)

lemma admit_run_id_told [told]: "admit_run_id s rid = (False, m, w) \<Longrightarrow> raised w"
  by (auto simp: admit_run_id_def dest: told split: prod.splits option.splits if_splits)

lemma add_node_told [told]: "add_node s r = (False, m, w) \<Longrightarrow> raised w"
  by (auto simp: add_node_def dest: told split: prod.splits bool.splits)

lemma model_ingest_told [told]: "model_ingest L s r = (False, m, w) \<Longrightarrow> raised w"
  by (auto simp: model_ingest_def dest: told split: prod.splits option.splits bool.splits if_splits)

lemma model_create_told [told]: "model_create w = (None, w1) \<Longrightarrow> raised w1"
  by (auto simp: model_create_def split: prod.splits bool.splits)

lemma allocate_exits_told [told]: "allocate_exits n w = (False, w1) \<Longrightarrow> raised w1"
  by (auto simp: allocate_exits_def split: prod.splits bool.splits if_splits)

lemma child_edges_told [told]: "child_edges_from i n c s = (False, m, w) \<Longrightarrow> raised w"
  by (induction i n c s rule: child_edges_from.induct)
     (auto dest: told split: prod.splits bool.splits)

lemma resource_step_told [told]: "resource_step L x i s = (False, m, w) \<Longrightarrow> raised w"
  by (auto simp: resource_step_def Let_def dest: told split: prod.splits bool.splits if_splits)

lemma resource_edges_told [told]: "resource_edges_from L x n i s = (False, m, w) \<Longrightarrow> raised w"
  by (induction L x n i s rule: resource_edges_from.induct)
     (auto dest: told split: prod.splits bool.splits)

lemma call_step_told [told]: "call_step i x s = (False, x1, m, w) \<Longrightarrow> raised w"
  by (auto simp: call_step_def Let_def dest: told split: prod.splits option.splits if_splits)

lemma call_edges_told [told]: "call_edges_from n i x s = (False, x1, m, w) \<Longrightarrow> raised w"
  by (induction n i x s rule: call_edges_from.induct)
     (auto dest: told split: prod.splits bool.splits)

lemma build_model_told [told]: "build_model L s = Some (False, m, w) \<Longrightarrow> raised w"
  by (auto simp: build_model_def build_call_edges_def build_resource_edges_def dest: told
      split: prod.splits bool.splits)

lemma model_finish_told [told]: "model_finish L s = Some (False, m, w) \<Longrightarrow> raised w"
  by (auto simp: model_finish_def Let_def dest: told split: prod.splits option.splits bool.splits if_splits)

subsection \<open>The streams\<close>

lemma read_line_told [told]: "read_line w st n = (LINE_ERROR, t, st1, w1) \<Longrightarrow> raised w1"
  by (auto simp: read_line_def Let_def split: option.splits if_splits prod.splits)

lemma admit_record_told [told]: "admit_record L calls s r = (False, m, h, w) \<Longrightarrow> raised w"
  by (auto simp: admit_record_def dest: told split: prod.splits option.splits if_splits)

lemma ingest_stream_told [told]:
  assumes "ingest_stream L calls st s = Some (False, m, h, w)"
  shows "raised w"
proof -
  have "fst (False, m, h, w) \<or> raised (snd (snd (snd (False, m, h, w))))"
  proof (rule ingest_stream.raw_induct [where P = "\<lambda>L calls st s y. fst y \<or> raised (snd (snd (snd y)))", OF _ assms])
    fix f L calls st s y
    assume IH: "\<And>L calls st s y. f L calls st s = Some y \<Longrightarrow> fst y \<or> raised (snd (snd (snd y)))"
      and run: "(case read_line (snd (snd s)) (Some st) (line_max L) of (status, line, st1, w1) \<Rightarrow>
        let s1 = (fst s, fst (snd s), w1) in
        if status = LINE_EOF then Some (True, s1)
        else if status = LINE_MALFORMED then Some (False, fst s, fst (snd s), raise_errno EINVAL w1)
        else if status = LINE_ERROR then Some (False, s1)
        else (case parse_line L (Some line) of
                Inl e \<Rightarrow> if e = PARSE_OTHER then f L calls (the st1) s1
                         else Some (False, fst s, fst (snd s), raise_errno EINVAL w1)
              | Inr r \<Rightarrow> (case admit_record L calls s1 r of
                  (b, s2) \<Rightarrow> if b then f L calls (the st1) s2 else Some (False, s2)))) = Some y"
    obtain status line st1 w1 where rl: "read_line (snd (snd s)) (Some st) (line_max L) = (status, line, st1, w1)"
      by (rule prod_cases4)
    let ?s1 = "(fst s, fst (snd s), w1)"
    show "fst y \<or> raised (snd (snd (snd y)))"
    proof (cases status)
      case LINE_OK
      show ?thesis
      proof (cases "parse_line L (Some line)")
        case (Inl e)
        with run rl LINE_OK IH [of L calls "the st1" ?s1 y] show ?thesis by (auto simp: Let_def split: if_splits)
      next
        case (Inr r)
        obtain b m1 h1 w2 where ad: "admit_record L calls ?s1 r = (b, m1, h1, w2)" by (rule prod_cases4)
        show ?thesis
        proof (cases b)
          case True
          with run rl LINE_OK Inr ad have "f L calls (the st1) (m1, h1, w2) = Some y" by (simp add: Let_def)
          then show ?thesis by (rule IH)
        next
          case False
          with run rl LINE_OK Inr ad have "y = (False, m1, h1, w2)" by (auto simp: Let_def)
          moreover have "raised w2" using ad False by (auto dest: told)
          ultimately show ?thesis by simp
        qed
      qed
    qed (use run rl read_line_told in \<open>auto simp: Let_def\<close>)
  qed
  then show ?thesis by simp
qed

lemma ingest_path_told [told]: "ingest_path L calls p s = Some (False, m, h, w) \<Longrightarrow> raised w"
  by (auto simp: ingest_path_def dest: told split: prod.splits option.splits sum.splits if_splits)

subsection \<open>The document\<close>

lemma model_write_told [told]: "model_write_json T stream m w = Some (False, w1, out) \<Longrightarrow> raised w1"
  by (auto simp: model_write_json_def Let_def split: prod.splits option.splits bool.splits if_splits list.splits)

lemma close_model_told:
  "close_model p b w out = Some (False, w1, out1) \<Longrightarrow> \<not> b \<longrightarrow> raised w \<Longrightarrow> raised w1"
  by (auto simp: close_model_def Let_def split: option.splits if_splits list.splits)

lemma write_model_told [told]: "write_model T m path s = Some (False, con, w) \<Longrightarrow> raised w"
  by (auto simp: write_model_def dest!: close_model_told model_write_told
      split: prod.splits option.splits list.splits bool.splits)

end
