(* ===== verification/Command_Line_Properties.thy ===== *)
theory Command_Line_Properties
  imports Failures Model_Input_Properties Model_Json_Properties
begin

section \<open>What the command line tool promises\<close>

text \<open>
  The tool's copies of the log reader are the library's, its arguments are read exactly as its
  usage line says, and it ends with success only when the whole document of an accepted pair
  of logs has been written.
\<close>

subsection \<open>The copies\<close>

lemma cli_admit_same: "cli_admit_record L calls s r = admit_record L calls s r"
proof -
  have "ev_record_kind r \<noteq> RECORD_COMPLETE \<and> record_belongs_in_stream r calls \<longleftrightarrow> belongs calls r"
    by (simp add: belongs_def record_belongs_in_stream_def)
  then show ?thesis by (simp only: cli_admit_record_def admit_record_def)
qed

lemma cli_ingest_stream_same: "cli_ingest_stream L calls st s = ingest_stream L calls st s"
proof (induction "length (st_bytes st)" arbitrary: st s rule: less_induct)
  case less
  obtain status line st1 w1 where rl: "read_line (snd (snd s)) (Some st) (line_max L) = (status, line, st1, w1)"
    by (rule prod_cases4)
  from read_line_stream [OF rl] obtain t where t: "st1 = Some t" by blast
  note unfold = cli_ingest_stream.simps [of L calls st s] ingest_stream.simps [of L calls st s] rl t
  show ?case
  proof (cases status)
    case LINE_OK
    have short: "length (st_bytes t) < length (st_bytes st)"
      using read_line_progress [OF rl [unfolded t]] LINE_OK by simp
    then show ?thesis
      by (simp add: unfold LINE_OK less Let_def cli_admit_same split: sum.split prod.split)
  qed (simp_all add: unfold Let_def)
qed

lemma cli_ingest_path_same: "cli_ingest_path L calls path s = ingest_path L calls path s"
  by (auto simp: cli_ingest_path_def ingest_path_def cli_ingest_stream_same
      split: sum.split option.split prod.split)

subsection \<open>Arguments\<close>

text \<open>A flag and its value are two arguments.\<close>

definition flag_pair :: "string \<times> string \<Rightarrow> string list" where
  "flag_pair p = [fst p, snd p]"

definition tool_flags :: "string list" where
  "tool_flags = [''-r'', ''-c'', ''-o'']"

definition argument :: "string \<Rightarrow> arguments \<Rightarrow> string option" where
  "argument flag a = (case destination flag of None \<Rightarrow> None | Some (get, put) \<Rightarrow> get a)"

definition with_argument :: "string \<Rightarrow> string \<Rightarrow> arguments \<Rightarrow> arguments" where
  "with_argument flag v a = (case destination flag of None \<Rightarrow> a | Some (get, put) \<Rightarrow> put v a)"

text \<open>What the pairs make of the arguments \<open>a\<close>.\<close>

definition fills :: "arguments \<Rightarrow> (string \<times> string) list \<Rightarrow> arguments \<Rightarrow> bool" where
  "fills a ps b \<longleftrightarrow> distinct (map fst ps) \<and>
     (\<forall>p \<in> set ps. fst p \<in> set tool_flags \<and> snd p \<noteq> [] \<and> argument (fst p) a = None) \<and>
     (\<forall>flag. argument flag b = (case map_of ps flag of Some v \<Rightarrow> Some v | None \<Rightarrow> argument flag a))"

lemma destination_flag: "destination flag \<noteq> None \<longleftrightarrow> flag \<in> set tool_flags"
  by (simp add: destination_def tool_flags_def)

lemma argument_given:
  "flag \<in> set tool_flags \<Longrightarrow>
     argument f (with_argument flag v a) = (if f = flag then Some v else argument f a)"
  by (auto simp: argument_def with_argument_def destination_def tool_flags_def)

lemma argument_other: "flag \<notin> set tool_flags \<Longrightarrow> argument flag a = None"
  by (auto simp: argument_def destination_def tool_flags_def)

lemma arguments_eq: "(\<forall>flag. argument flag a = argument flag b) \<longleftrightarrow> a = b"
proof
  assume same: "\<forall>flag. argument flag a = argument flag b"
  show "a = b"
    using same [rule_format, of "''-r''"] same [rule_format, of "''-c''"] same [rule_format, of "''-o''"]
    by (simp add: argument_def destination_def)
qed simp

lemma fills_Nil: "fills a [] b \<longleftrightarrow> b = a"
  using arguments_eq [of b a] by (simp add: fills_def)

lemma fills_Cons:
  "fills a ((flag, v) # ps) b \<longleftrightarrow>
     flag \<in> set tool_flags \<and> v \<noteq> [] \<and> argument flag a = None \<and> fills (with_argument flag v a) ps b"
proof (cases "flag \<in> set tool_flags \<and> v \<noteq> [] \<and> argument flag a = None")
  case False
  then show ?thesis by (auto simp: fills_def)
next
  case True
  then have arg: "argument f (with_argument flag v a) = (if f = flag then Some v else argument f a)" for f
    by (simp add: argument_given)
  have vals: "(\<forall>f. argument f b = (case map_of ((flag, v) # ps) f of Some v \<Rightarrow> Some v | None \<Rightarrow> argument f a)) \<longleftrightarrow>
      (\<forall>f. argument f b = (case map_of ps f of Some v \<Rightarrow> Some v | None \<Rightarrow> argument f (with_argument flag v a)))"
    if "flag \<notin> fst ` set ps"
  proof -
    have "map_of ps flag = None" using that by (simp add: map_of_eq_None_iff)
    then have "(case map_of ((flag, v) # ps) f of Some v \<Rightarrow> Some v | None \<Rightarrow> argument f a) =
        (case map_of ps f of Some v \<Rightarrow> Some v | None \<Rightarrow> argument f (with_argument flag v a))" for f
      by (simp add: arg split: option.split)
    then show ?thesis by simp
  qed
  have "distinct (map fst ((flag, v) # ps)) \<and>
      (\<forall>p \<in> set ((flag, v) # ps). fst p \<in> set tool_flags \<and> snd p \<noteq> [] \<and> argument (fst p) a = None) \<longleftrightarrow>
    distinct (map fst ps) \<and> flag \<notin> fst ` set ps \<and>
      (\<forall>p \<in> set ps. fst p \<in> set tool_flags \<and> snd p \<noteq> [] \<and> argument (fst p) (with_argument flag v a) = None)"
    using True by (auto simp: arg)
  moreover have "flag \<notin> fst ` set ps" if
    "\<forall>p \<in> set ps. fst p \<in> set tool_flags \<and> snd p \<noteq> [] \<and> argument (fst p) (with_argument flag v a) = None"
    using that by (auto simp: arg)
  ultimately show ?thesis using True vals unfolding fills_def by blast
qed

lemma pairs_first:
  "concat (map flag_pair ps) = flag # v # rest \<longleftrightarrow> (\<exists>qs. ps = (flag, v) # qs \<and> concat (map flag_pair qs) = rest)"
  by (cases ps) (auto simp: flag_pair_def)

lemma parse_options_exact:
  "parse_options argv a = (True, b) \<longleftrightarrow> (\<exists>ps. concat (map flag_pair ps) = argv \<and> fills a ps b)"
proof (induction argv a rule: parse_options.induct)
  case (1 a)
  have "concat (map flag_pair ps) = [] \<longleftrightarrow> ps = []" for ps by (cases ps) (simp_all add: flag_pair_def)
  then show ?case by (auto simp: fills_Nil)
next
  case (2 flag a)
  have "concat (map flag_pair ps) \<noteq> [flag]" for ps by (cases ps) (simp_all add: flag_pair_def)
  then show ?case by simp
next
  case (3 flag v rest a)
  show ?case
  proof (cases "destination flag")
    case None
    then have "flag \<notin> set tool_flags" using destination_flag [of flag] by blast
    then show ?thesis by (auto simp: None pairs_first fills_Cons)
  next
    case (Some d)
    obtain get put where d: "d = (get, put)" by (rule prod.exhaust)
    have flag: "flag \<in> set tool_flags" using destination_flag [of flag] Some by blast
    have arg: "get a = argument flag a" "put v a = with_argument flag v a"
      by (simp_all add: argument_def with_argument_def Some d)
    show ?thesis
    proof (cases "v = [] \<or> get a \<noteq> None")
      case True
      then show ?thesis by (auto simp: Some d pairs_first fills_Cons arg)
    next
      case False
      with "3.IH" [OF Some d [symmetric]] Some d flag show ?thesis by (auto simp: pairs_first fills_Cons arg)
    qed
  qed
qed

subsection \<open>The document\<close>

text \<open>A document of the run: the text of a finished model of the two logs.\<close>

definition tool_document :: "record_lib \<Rightarrow> json_texts \<Rightarrow> surroundings \<Rightarrow> arguments \<Rightarrow> string \<Rightarrow> bool" where
  "tool_document L T E args d \<longleftrightarrow>
     (\<exists>m l. paths_accepted L empty_model (su_input E (the (ar_resource_path args)))
          (su_input E (the (ar_call_path args))) m \<and>
        tm_finished m \<and> tm_lifecycle m = Some l \<and> store_ok l \<and> edges_in_range m \<and>
        d = concat (model_calls T m l))"

text \<open>Where the document goes.\<close>

definition document_stored :: "string option \<Rightarrow> string \<Rightarrow> console \<Rightarrow> console \<Rightarrow> bool" where
  "document_stored path d con con1 \<longleftrightarrow>
     (case path of
        None \<Rightarrow> out_text (con_out con1) = out_text (con_out con) @ d
      | Some p \<Rightarrow> con_out con1 = con_out con \<and>
          out_files (con_file con1) = out_files (con_file con) @ [(p, d)])"

lemma model_json_total:
  assumes "tm_finished m" and "tm_lifecycle m = Some l" and "store_ok l"
  shows "\<exists>b w1 out1. model_write_json T (Some out) (Some m) w = Some (b, w1, Some out1) \<and>
    out_files out1 = out_files out \<and> out_closes out1 = out_closes out \<and>
    (b \<longrightarrow> out_text out1 = out_text out @ concat (model_calls T m l))"
proof -
  let ?calls = "model_calls T m l"
  obtain b out1 where c: "write_calls ?calls out = (b, out1)" by (rule prod.exhaust)
  from write_calls_result [OF c] obtain k where k: "b \<longrightarrow> k = length ?calls"
    "written out (concat (take k ?calls)) out1" by blast
  note fields = written_fields [OF k(2)]
  have doc: "write_texts (model_document T m) out = Some (b, out1)"
    by (simp add: document_given [OF assms(2,3)] write_texts_Some c)
  let ?flushed = "out1\<lparr>out_flushes := drop 1 (out_flushes out1)\<rparr>"
  show ?thesis
  proof (cases b)
    case False
    with doc fields show ?thesis by (auto simp: model_write_json_def assms(1))
  next
    case True
    with doc have "\<exists>c w1. model_write_json T (Some out) (Some m) w = Some (c, w1, Some ?flushed)"
      by (auto simp: model_write_json_def assms(1) Let_def split: list.split option.split)
    with fields k True show ?thesis by auto
  qed
qed

lemma write_model_total:
  assumes "tm_finished m" and "tm_lifecycle m = Some l" and "store_ok l"
    and "Some None \<notin> set (out_closes (con_file con))"
  shows "\<exists>b con1 w1. write_model T m path (con, w) = Some (b, con1, w1) \<and>
    (b \<longrightarrow> document_stored path (concat (model_calls T m l)) con con1)"
proof (cases path)
  case None
  with model_json_total [OF assms(1-3), of T "con_out con" w] show ?thesis
    by (auto simp: write_model_def document_stored_def)
next
  case (Some p)
  show ?thesis
  proof (cases "\<exists>e es. out_opens (con_file con) = Some e # es")
    case True
    with Some show ?thesis by (auto simp: write_model_def)
  next
    case False
    let ?out = "(con_file con)\<lparr>out_path := Some p, out_text := [], out_opens := drop 1 (out_opens (con_file con))\<rparr>"
    obtain b w1 out1 where j: "model_write_json T (Some ?out) (Some m) w = Some (b, w1, Some out1)"
      "out_files out1 = out_files (con_file con)" "out_closes out1 = out_closes (con_file con)"
      "b \<longrightarrow> out_text out1 = concat (model_calls T m l)"
      using model_json_total [OF assms(1-3), of T ?out w] by auto
    let ?closed = "out1\<lparr>out_closes := drop 1 (out_closes out1),
      out_files := out_files out1 @ [(p, out_text out1)], out_path := None\<rparr>"
    have "\<exists>c w2. close_model p b w1 out1 = Some (c, w2, ?closed) \<and> (c \<longrightarrow> b)"
      using assms(4) j(3) by (auto simp: close_model_def Let_def split: list.split option.split)
    then obtain c w2 where cl: "close_model p b w1 out1 = Some (c, w2, ?closed)" "c \<longrightarrow> b" by blast
    have "write_model T m path (con, w) = Some (c, con\<lparr>con_file := ?closed\<rparr>, w2)"
      using False Some j(1) cl(1)
      by (cases "out_opens (con_file con)") (simp_all add: write_model_def split: option.split)
    with cl(2) j(2,4) Some show ?thesis by (simp add: document_stored_def)
  qed
qed

lemma tool_run_total:
  assumes "Some None \<notin> set (out_closes (con_file con))"
  shows "\<exists>b con1 w1. tool_run L T E args (con, w) = Some (b, con1, w1) \<and>
    (b \<longrightarrow> (\<exists>d. tool_document L T E args d \<and> document_stored (ar_output_path args) d con con1))"
proof -
  let ?rf = "su_input E (the (ar_resource_path args))" and ?cf = "su_input E (the (ar_call_path args))"
  obtain t w0 where create: "model_create w = (t, w0)" by (rule prod.exhaust)
  show ?thesis
  proof (cases t)
    case None
    with create show ?thesis by (auto simp: tool_run_def)
  next
    case (Some m)
    with create have create: "model_create w = (Some empty_model, w0)"
      by (auto simp: model_create_def split: prod.splits bool.splits)
    obtain b1 m1 h1 w1 where r1: "ingest_path L False ?rf (empty_model, empty_health, w0) = Some (b1, m1, h1, w1)"
      and p1: "path_post L False ?rf empty_model empty_health b1 m1 h1"
      using ingest_path_total by blast
    show ?thesis
    proof (cases b1)
      case False
      with create r1 show ?thesis
        by (auto simp: tool_run_def cli_ingest_path_same)
    next
      case b1: True
      obtain b2 m2 h2 w2 where r2: "ingest_path L True ?cf (m1, empty_health, w1) = Some (b2, m2, h2, w2)"
        and p2: "path_post L True ?cf m1 empty_health b2 m2 h2"
        using ingest_path_total by blast
      show ?thesis
      proof (cases "b2 \<and> streams_complete h1 h2")
        case False
        with create r1 b1 r2 show ?thesis
          by (cases b2) (auto simp: tool_run_def cli_ingest_path_same admission_copies_agree [symmetric])
      next
        case True
        have run: "tool_run L T E args (con, w) = (case model_finish L (Some m2, w2) of
            None \<Rightarrow> None
          | Some (False, m3, w4) \<Rightarrow> Some (False, con, w4)
          | Some (True, m3, w4) \<Rightarrow> write_model T (the m3) (ar_output_path args) (con, w4))"
          using True create r1 b1 r2
          by (simp add: tool_run_def cli_ingest_path_same admission_copies_agree [symmetric])
        have ok: "model_ok empty_model" by (simp add: model_ok_def empty_model_def)
        have fresh: "\<not> tm_finished m2"
          using p1 p2 True b1 ok by (auto simp: path_post_def gained_def empty_model_def)
        from model_finish_total [OF fresh, of L w2] obtain b3 m3 w3 where
          fin: "model_finish L (Some m2, w2) = Some (b3, Some m3, w3)" "finish_post L m2 b3 m3"
          "tm_finished m3 = b3" by blast
        show ?thesis
        proof (cases b3)
          case False
          with run fin(1) show ?thesis by auto
        next
          case b3: True
          with fin have fin: "model_finish L (Some m2, w2) = Some (True, Some m3, w3)" "finish_post L m2 True m3"
            "tm_finished m3" by simp_all
          from fin(2) obtain l where l: "tm_lifecycle m3 = Some l" "store_ok l"
            by (auto simp: finish_post_def)
          have "paths_accepted L empty_model ?rf ?cf m3"
            using both_streams_accepted [of L ?rf empty_model m1 h1 ?cf m2 h2 m3] p1 p2 True b1 ok fin(2)
            by (simp add: finish_post_def)
          then have "tool_document L T E args (concat (model_calls T m3 l))"
            using fin(3) l finished_in_range [OF fin(1) fresh] by (auto simp: tool_document_def)
          moreover obtain b con1 w4 where
            "write_model T m3 (ar_output_path args) (con, w3) = Some (b, con1, w4)"
            "b \<longrightarrow> document_stored (ar_output_path args) (concat (model_calls T m3 l)) con con1"
            using write_model_total [OF fin(3) l assms] by blast
          ultimately show ?thesis using run fin(1) by auto
        qed
      qed
    qed
  qed
qed

lemma write_model_console: "write_model T m path (con, w) = Some (b, con1, w1) \<Longrightarrow> con_err con1 = con_err con"
  by (auto simp: write_model_def split: option.splits list.splits prod.splits)

lemma tool_run_told:
  "tool_run L T E args (con, w) = Some (False, con1, w1) \<Longrightarrow>
     raised w1 \<and> con_err con1 = con_err con \<or> con1 = say_error incomplete_message con"
  by (auto simp: tool_run_def cli_ingest_path_same dest: told write_model_console
      split: prod.splits option.splits bool.splits if_splits)

subsection \<open>A run of the tool\<close>

text \<open>The arguments of the usage line: each option at most once, with a value, the two logs given.\<close>

definition arguments_accepted :: "string list \<Rightarrow> arguments \<Rightarrow> bool" where
  "arguments_accepted argv args \<longleftrightarrow>
     (\<exists>ps. argv = concat (map flag_pair ps) \<and> distinct (map fst ps) \<and>
        (\<forall>p \<in> set ps. fst p \<in> set tool_flags \<and> snd p \<noteq> []) \<and> {''-r'', ''-c''} \<subseteq> set (map fst ps) \<and>
        args = \<lparr>ar_resource_path = map_of ps ''-r'', ar_call_path = map_of ps ''-c'',
          ar_output_path = map_of ps ''-o''\<rparr>)"

definition asks_help :: "string list \<Rightarrow> bool" where
  "asks_help argv \<longleftrightarrow> argv = [''-h''] \<or> argv = [''--help'']"

lemma no_argument: "argument flag no_arguments = None"
  by (simp add: argument_def no_arguments_def destination_def)

lemma fills_nothing:
  "fills no_arguments ps b \<longleftrightarrow> distinct (map fst ps) \<and>
     (\<forall>p \<in> set ps. fst p \<in> set tool_flags \<and> snd p \<noteq> []) \<and>
     b = \<lparr>ar_resource_path = map_of ps ''-r'', ar_call_path = map_of ps ''-c'', ar_output_path = map_of ps ''-o''\<rparr>"
proof -
  let ?b = "\<lparr>ar_resource_path = map_of ps ''-r'', ar_call_path = map_of ps ''-c'', ar_output_path = map_of ps ''-o''\<rparr>"
  have "argument flag ?b = map_of ps flag" if "\<forall>p \<in> set ps. fst p \<in> set tool_flags" for flag
  proof (cases "flag \<in> set tool_flags")
    case True
    then show ?thesis by (auto simp: argument_def destination_def tool_flags_def)
  next
    case False
    with that have "map_of ps flag = None" by (auto simp: map_of_eq_None_iff)
    with False show ?thesis by (simp add: argument_other)
  qed
  moreover have "(case map_of ps flag of Some v \<Rightarrow> Some v | None \<Rightarrow> argument flag no_arguments) = map_of ps flag" for flag
    by (simp add: no_argument split: option.split)
  ultimately show ?thesis
    using arguments_eq [of b ?b] by (auto simp: fills_def no_argument)
qed

lemma arguments_accepted_iff:
  "arguments_accepted argv args \<longleftrightarrow>
     parse_options argv no_arguments = (True, args) \<and> ar_resource_path args \<noteq> None \<and> ar_call_path args \<noteq> None"
proof -
  have "{''-r'', ''-c''} \<subseteq> set (map fst ps) \<longleftrightarrow> map_of ps ''-r'' \<noteq> None \<and> map_of ps ''-c'' \<noteq> None" for ps :: "(string \<times> string) list"
    by (simp add: map_of_eq_None_iff)
  then have "arguments_accepted argv args \<longleftrightarrow>
      (\<exists>ps. (concat (map flag_pair ps) = argv \<and> fills no_arguments ps args) \<and>
        ar_resource_path args \<noteq> None \<and> ar_call_path args \<noteq> None)"
    unfolding fills_nothing arguments_accepted_def
    by (intro ex_cong1) (simp only: arguments.simps, metis arguments.simps(1,2))
  then show ?thesis by (simp only: parse_options_exact ex_simps)
qed

lemma arguments_accepted_unique: "arguments_accepted argv a \<Longrightarrow> arguments_accepted argv b \<Longrightarrow> a = b"
  by (simp add: arguments_accepted_iff)

lemma help_is_no_pair: "asks_help argv \<Longrightarrow> \<not> arguments_accepted argv args"
  by (auto simp: asks_help_def arguments_accepted_iff)

lemma parse_arguments_cases:
  "(asks_help argv \<and> parse_arguments program argv no_arguments con =
       (1, no_arguments, con\<lparr>con_out := snd (write_call (usage program) (con_out con))\<rparr>)) \<or>
   (\<exists>args. arguments_accepted argv args \<and> parse_arguments program argv no_arguments con = (0, args, con)) \<or>
   (\<exists>args. \<not> asks_help argv \<and> (\<forall>b. \<not> arguments_accepted argv b) \<and>
      parse_arguments program argv no_arguments con = (- 1, args, say_error (usage program) con))"
proof (cases "asks_help argv")
  case True
  then show ?thesis by (simp add: parse_arguments_def asks_help_def)
next
  case False
  obtain b args where p: "parse_options argv no_arguments = (b, args)" by (rule prod.exhaust)
  with False show ?thesis
    by (cases b) (auto simp: parse_arguments_def asks_help_def arguments_accepted_iff)
qed

subsection \<open>Properties\<close>

text \<open>Claim C27. The arguments are read as the usage line says: the tool runs with \<open>args\<close> if and only if
  the command line is a sequence of the options -r, -c and -o, none of them twice, each followed
  by a nonempty value, with both -r and -c among them, and \<open>args\<close> are these values; help is
  printed for -h or --help alone, and everything else prints the usage line on standard error.\<close>

theorem parse_arguments_exact:
  "(parse_arguments program argv no_arguments con = (0, args, con1) \<longleftrightarrow>
      con1 = con \<and> arguments_accepted argv args) \<and>
   (fst (parse_arguments program argv no_arguments con) = 1 \<longleftrightarrow> asks_help argv) \<and>
   (fst (parse_arguments program argv no_arguments con) = - 1 \<longleftrightarrow>
      snd (snd (parse_arguments program argv no_arguments con)) = say_error (usage program) con \<and>
      \<not> asks_help argv \<and> (\<nexists>a. arguments_accepted argv a))"
  using parse_arguments_cases [of argv program con]
  by (elim disjE exE conjE) (auto dest: help_is_no_pair arguments_accepted_unique)

text \<open>Claim C6. The tool always ends, with status 0 or 2, and when it ends with 0 without having been asked
  for help, its arguments are acceptable, both logs were read to the end, each is acceptable,
  and the whole document of the finished model of exactly their records has been written to
  the file that -o names, or to standard output; provided that an \<open>fclose\<close> that fails sets
  \<open>errno\<close>.\<close>

theorem tool_main_sound:
  assumes "Some None \<notin> set (out_closes (con_file con))"
  shows "\<exists>status con1. tool_main L T E program argv (con, memory) = Some (status, con1) \<and>
    status \<in> {EXIT_SUCCESS, EXIT_TROUBLE} \<and>
    (status = EXIT_SUCCESS \<longrightarrow> asks_help argv \<or>
       (\<exists>args d. arguments_accepted argv args \<and> tool_document L T E args d \<and>
          document_stored (ar_output_path args) d con con1))"
  using parse_arguments_cases [of argv program con]
proof (elim disjE exE conjE)
  fix args
  assume acc: "arguments_accepted argv args" and parse: "parse_arguments program argv no_arguments con = (0, args, con)"
  let ?w = "\<lparr>w_alloc = memory, w_raised = []\<rparr>"
  obtain b con1 w1 where run: "tool_run L T E args (con, ?w) = Some (b, con1, w1)"
    "b \<longrightarrow> (\<exists>d. tool_document L T E args d \<and> document_stored (ar_output_path args) d con con1)"
    using tool_run_total [OF assms] by blast
  have "document_stored p d con (report_error E con1 w1) = document_stored p d con con1" for p d
    by (simp add: document_stored_def report_error_def say_error_def split: option.split)
  with acc parse run show ?thesis
    by (cases "su_error_object E"; cases b) (auto simp: tool_main_def EXIT_SUCCESS_def EXIT_TROUBLE_def)
qed (auto simp: tool_main_def EXIT_SUCCESS_def EXIT_TROUBLE_def)

text \<open>A run on two written logs: \<open>-r r -c c\<close>, with every call succeeding.\<close>

definition sample_surroundings :: surroundings where
  "sample_surroundings = \<lparr>su_input = (\<lambda>p. if p = ''r'' then sample_file sample_events else sample_file sample_call_events),
     su_error_object = True, su_message = (\<lambda>w. [])\<rparr>"

definition quiet_console :: console where
  "quiet_console = \<lparr>con_out = quiet_out, con_err = quiet_out, con_file = quiet_out\<rparr>"

lemma sample_tool_run:
  "\<exists>con1. tool_main doc_lib escaping_texts sample_surroundings ''m'' [''-r'', ''r'', ''-c'', ''c''] (quiet_console, []) =
     Some (EXIT_SUCCESS, con1)"
proof -
  let ?args = "\<lparr>ar_resource_path = Some ''r'', ar_call_path = Some ''c'', ar_output_path = None\<rparr>"
  have parse: "parse_arguments ''m'' [''-r'', ''r'', ''-c'', ''c''] no_arguments quiet_console = (0, ?args, quiet_console)"
    by (simp add: parse_arguments_def destination_def no_arguments_def)
  obtain h1 h2 where runs:
    "ingest_path doc_lib False (sample_file sample_events) (empty_model, empty_health, calm_world) =
       Some (True, sample_input, h1, calm_world)"
    "ingest_path doc_lib True (sample_file sample_call_events) (sample_input, empty_health, calm_world) =
       Some (True, sample_input, h2, calm_world)"
    using sample_paths by blast
  have complete: "streams_complete h1 h2"
    by (rule pair_ingested [OF sample_pair _ _ sample_admissible ample_calm]) (use runs in auto)
  have fresh: "\<not> tm_finished sample_input" by (simp add: sample_input_def empty_model_def)
  obtain m where fin: "model_finish doc_lib (Some sample_input, calm_world) = Some (True, Some m, calm_world)"
    using sample_input_finish by blast
  from model_finish_total [OF fresh, of doc_lib calm_world] fin obtain l where
    l: "tm_finished m" "tm_lifecycle m = Some l" "store_ok l"
    by (auto simp: finish_post_def)
  have "Output.writable quiet_out" by (simp add: Output.writable_def quiet_out_def)
  from write_calls_ample [OF this] obtain out where
    out: "write_calls (model_calls escaping_texts m l) quiet_out = (True, out)"
    "written quiet_out (concat (model_calls escaping_texts m l)) out" by blast
  from written_fields [OF out(2)] have "out_flushes out = []" by (simp add: quiet_out_def)
  with l out(1) have "model_write_json escaping_texts (Some quiet_out) (Some m) calm_world = Some (True, calm_world, Some out)"
    by (cases out) (simp add: model_write_json_def document_given [OF l(2,3)] write_texts_Some)
  then have "write_model escaping_texts m None (quiet_console, calm_world) =
      Some (True, quiet_console\<lparr>con_out := out\<rparr>, calm_world)"
    by (simp add: write_model_def quiet_console_def)
  moreover have "model_create calm_world = (Some empty_model, calm_world)"
    by (simp add: model_create_def heap_request_def calm_world_def)
  ultimately have "tool_run doc_lib escaping_texts sample_surroundings ?args (quiet_console, calm_world) =
      Some (True, quiet_console\<lparr>con_out := out\<rparr>, calm_world)"
    using runs complete fin
    by (simp add: tool_run_def cli_ingest_path_same admission_copies_agree [symmetric] sample_surroundings_def)
  then show ?thesis
    using parse by (simp add: tool_main_def sample_surroundings_def calm_world_def)
qed

theorem tool_main_sound_witness:
  "\<exists>con1 args d. tool_main doc_lib escaping_texts sample_surroundings ''m'' [''-r'', ''r'', ''-c'', ''c''] (quiet_console, []) =
     Some (EXIT_SUCCESS, con1) \<and> tool_document doc_lib escaping_texts sample_surroundings args d \<and>
     document_stored (ar_output_path args) d quiet_console con1"
proof -
  have closes: "Some None \<notin> set (out_closes (con_file quiet_console))"
    by (simp add: quiet_console_def quiet_out_def)
  have asked: "\<not> asks_help [''-r'', ''r'', ''-c'', ''c'']" by (simp add: asks_help_def)
  obtain con1 where run: "tool_main doc_lib escaping_texts sample_surroundings ''m''
      [''-r'', ''r'', ''-c'', ''c''] (quiet_console, []) = Some (EXIT_SUCCESS, con1)"
    using sample_tool_run by (elim exE) (rule that)
  from tool_main_sound [OF closes, of doc_lib escaping_texts sample_surroundings "''m''"
      "[''-r'', ''r'', ''-c'', ''c'']" "[]"] run asked
  have "\<exists>args d. arguments_accepted [''-r'', ''r'', ''-c'', ''c''] args \<and>
      tool_document doc_lib escaping_texts sample_surroundings args d \<and>
      document_stored (ar_output_path args) d quiet_console con1"
    by simp
  with run show ?thesis by (elim exE conjE) (intro exI conjI)
qed

text \<open>Claim C21. No failure is silent: when the tool ends with status 2 and standard error can be written to,
  it has printed the usage line or a message that begins with its name.\<close>

theorem tool_failure_told:
  assumes "tool_main L T E program argv (con, memory) = Some (EXIT_TROUBLE, con1)"
    and "Output.writable (con_err con)"
  shows "\<exists>t. out_text (con_err con1) = out_text (con_err con) @ t \<and>
    (t = usage program \<or> (\<exists>u. t = ''p101-event-model: '' @ u))"
proof -
  have said: "out_text (con_err (say_error t c)) = out_text (con_err c) @ t \<and> Output.writable (con_err (say_error t c))"
    if "Output.writable (con_err c)" for t c
  proof -
    obtain b out where r: "write_call t (con_err c) = (b, out)" by (rule prod.exhaust)
    from write_call_result [OF r] that have "written (con_err c) t out" "Output.writable out" by auto
    with r written_fields show ?thesis by (simp add: say_error_def)
  qed
  from parse_arguments_cases [of argv program con] show ?thesis
  proof (elim disjE exE conjE)
    fix args
    assume parse: "parse_arguments program argv no_arguments con = (0, args, con)"
    let ?w = "\<lparr>w_alloc = memory, w_raised = []\<rparr>"
    show ?thesis
    proof (cases "su_error_object E")
      case False
      with assms(1) parse have "con1 = say_error (''p101-event-model: could not create error object'' @ [NL]) con"
        by (simp add: tool_main_def)
      with said [OF assms(2)] show ?thesis by simp
    next
      case True
      with assms(1) parse obtain con2 w2 where run: "tool_run L T E args (con, ?w) = Some (False, con2, w2)"
        and con1: "con1 = report_error E con2 w2"
        by (auto simp: tool_main_def EXIT_SUCCESS_def EXIT_TROUBLE_def split: if_splits)
      from tool_run_told [OF run] show ?thesis
      proof (elim disjE conjE)
        assume w2: "raised w2" and same: "con_err con2 = con_err con"
        have "con1 = say_error (''p101-event-model: '' @ su_message E w2 @ [NL]) con2"
          using con1 w2 by (simp add: report_error_def)
        with said [of con2] assms(2) same show ?thesis by auto
      next
        assume "con2 = say_error incomplete_message con"
        with said [OF assms(2), of incomplete_message] have con2: "Output.writable (con_err con2)"
          "out_text (con_err con2) = out_text (con_err con) @ incomplete_message" by simp_all
        have "\<exists>u. out_text (con_err con1) = out_text (con_err con2) @ u"
          using said [OF con2(1)] con1 by (auto simp: report_error_def)
        with con2(2) show ?thesis by (auto simp: incomplete_message_def)
      qed
    qed
  next
    fix args
    assume "parse_arguments program argv no_arguments con = (- 1, args, say_error (usage program) con)"
    with assms(1) have "con1 = say_error (usage program) con" by (simp add: tool_main_def)
    with said [OF assms(2)] show ?thesis by auto
  qed (use assms(1) in \<open>auto simp: tool_main_def EXIT_SUCCESS_def EXIT_TROUBLE_def\<close>)
qed

theorem tool_failure_told_witness:
  "\<exists>con1. tool_main doc_lib escaping_texts sample_surroundings ''m'' [''-r''] (quiet_console, []) =
     Some (EXIT_TROUBLE, con1) \<and> out_text (con_err con1) \<noteq> []"
proof -
  have run: "tool_main doc_lib escaping_texts sample_surroundings ''m'' [''-r''] (quiet_console, []) =
      Some (EXIT_TROUBLE, say_error (usage ''m'') quiet_console)"
    by (simp add: tool_main_def parse_arguments_def)
  have "Output.writable (con_err quiet_console)" by (simp add: quiet_console_def quiet_out_def Output.writable_def)
  from tool_failure_told [OF run this] run show ?thesis by (auto simp: usage_def)
qed

end
