(* ===== verification/Fuzz.thy ===== *)
theory Fuzz
  imports Lifecycle_Properties Summary_Properties
begin

section \<open>The fuzz harness (src/fuzz/fuzz\_event.c)\<close>

text \<open>
  \<open>fuzz_one_input\<close> is \<open>LLVMFuzzerTestOneInput\<close>: the input as a line, its record through a
  lifecycle of its own, and the input as a text for three summary readers. The summaries it
  passes are uninitialised: they are arguments. Its error object is new and is not looked at.
\<close>

definition fuzz_lifecycle :: "record_lib \<Rightarrow> event_record \<Rightarrow> world \<Rightarrow> world option" where
  "fuzz_lifecycle L r w =
     (case lifecycle_create w of
        (None, w1) \<Rightarrow> Some w1
      | (Some m, w1) \<Rightarrow>
          (case lifecycle_ingest L (Some m, w1) (Some r) of
             None \<Rightarrow> None
           | Some (b, s) \<Rightarrow> (case lifecycle_finish s of (c, m1, w2) \<Rightarrow> Some w2)))"

definition fuzz_summaries ::
  "json_lib \<Rightarrow> string \<Rightarrow> policy_summary \<Rightarrow> resource_summary \<Rightarrow> world \<Rightarrow> world option" where
  "fuzz_summaries J data p0 r0 w =
     (case parse_policy_summary_json_n J (Some data) (Some ''p101-resource-policy-findings-v1'') (Some p0) w of
        None \<Rightarrow> None
      | Some (_, w1) \<Rightarrow>
          (case parse_resource_summary_json_n J (Some data) (Some r0) w1 of
             None \<Rightarrow> None
           | Some (_, w2) \<Rightarrow>
               map_option snd (parse_json_size_n J (Some data) (Some ''findings'') w2)))"

definition fuzz_one_input ::
  "record_lib \<Rightarrow> json_lib \<Rightarrow> policy_summary \<Rightarrow> resource_summary \<Rightarrow> string \<Rightarrow> world \<Rightarrow> (int \<times> world) option" where
  "fuzz_one_input L J p0 r0 data w =
     (if line_max L \<le> length data then Some (0, w)
      else case heap_request w of
        (False, w1) \<Rightarrow> Some (0, w1)
      | (True, w1) \<Rightarrow>
          (case (case parse_line L (Some (takeWhile (\<lambda>c. c \<noteq> NUL) data)) of
               Inr r \<Rightarrow> if ev_record_kind r = RECORD_RESOURCE then fuzz_lifecycle L r w1 else Some w1
             | Inl _ \<Rightarrow> Some w1) of
             None \<Rightarrow> None
           | Some w2 \<Rightarrow> map_option (\<lambda>w3. (0, w3)) (fuzz_summaries J data p0 r0 w2)))"

text \<open>Every input ends with 0, although the code it runs holds an unbounded loop and a recursion.\<close>

lemma fuzz_lifecycle_returns: "\<exists>w1. fuzz_lifecycle L r w = Some w1"
proof -
  obtain t w1 where c: "lifecycle_create w = (t, w1)" by (rule prod.exhaust)
  show ?thesis
  proof (cases t)
    case (Some m)
    with c lifecycle_ingest_total [of L m w1 r] show ?thesis
      by (auto simp: fuzz_lifecycle_def split: prod.split)
  qed (simp add: fuzz_lifecycle_def c)
qed

lemma fuzz_summaries_returns:
  assumes "json_reader J"
  shows "\<exists>w1. fuzz_summaries J data p0 r0 w = Some w1"
proof -
  have returns: "\<exists>r w1. (case copy_json_text (Some data) v of
      (None, w1) \<Rightarrow> Some (d, w1) | (Some t, w1) \<Rightarrow> map_option (\<lambda>r. (r, w1)) (f (Some t))) = Some (r, w1)"
    if "\<And>t. \<exists>ok out. f t = Some (ok, out)" for v f and d :: "bool \<times> 'a"
  proof -
    obtain c w1 where c: "copy_json_text (Some data) v = (c, w1)" by (rule prod.exhaust)
    from that obtain ok out where "f c = Some (ok, out)" by blast
    with c show ?thesis by (cases c) simp_all
  qed
  have p: "\<exists>r w1. parse_policy_summary_json_n J (Some data) s (Some p0) v = Some (r, w1)" for s v
    unfolding parse_policy_summary_json_n_def
    by (rule returns) (use json_reader.policy_reader_returns [OF assms] in blast)
  have r: "\<exists>r w1. parse_resource_summary_json_n J (Some data) (Some r0) v = Some (r, w1)" for v
    unfolding parse_resource_summary_json_n_def
    by (rule returns) (use json_reader.resource_reader_returns [OF assms] in blast)
  have n: "\<exists>r w1. parse_json_size_n J (Some data) k v = Some (r, w1)" for k v
    unfolding parse_json_size_n_def
    by (rule returns) (use json_reader.size_reader_returns [OF assms] in blast)
  let ?schema = "''p101-resource-policy-findings-v1''"
  obtain r1 w1 where 1: "parse_policy_summary_json_n J (Some data) (Some ?schema) (Some p0) w = Some (r1, w1)"
    using p [of "Some ?schema" w] by (elim exE) (rule that)
  obtain r2 w2 where 2: "parse_resource_summary_json_n J (Some data) (Some r0) w1 = Some (r2, w2)"
    using r [of w1] by (elim exE) (rule that)
  obtain r3 w3 where 3: "parse_json_size_n J (Some data) (Some ''findings'') w2 = Some (r3, w3)"
    using n [of "Some ''findings''" w2] by (elim exE) (rule that)
  from 1 2 3 show ?thesis by (simp add: fuzz_summaries_def)
qed

theorem fuzz_input_returns:
  assumes "json_reader J"
  shows "\<exists>w1. fuzz_one_input L J p0 r0 data w = Some (0, w1)"
proof -
  let ?text = "takeWhile (\<lambda>c. c \<noteq> NUL) data"
  obtain granted w1 where g: "heap_request w = (granted, w1)" by (rule prod.exhaust)
  have "\<exists>w2. (case parse_line L (Some ?text) of
      Inr r \<Rightarrow> if ev_record_kind r = RECORD_RESOURCE then fuzz_lifecycle L r w1 else Some w1
    | Inl _ \<Rightarrow> Some w1) = Some w2"
    using fuzz_lifecycle_returns [of L _ w1] by (cases "parse_line L (Some ?text)") simp_all
  then obtain w2 where w2: "(case parse_line L (Some ?text) of
      Inr r \<Rightarrow> if ev_record_kind r = RECORD_RESOURCE then fuzz_lifecycle L r w1 else Some w1
    | Inl _ \<Rightarrow> Some w1) = Some w2" by (elim exE) (rule that)
  obtain w3 where "fuzz_summaries J data p0 r0 w2 = Some w3"
    using fuzz_summaries_returns [OF assms, of data p0 r0 w2] by (elim exE) (rule that)
  with g w2 show ?thesis by (cases granted) (simp_all add: fuzz_one_input_def)
qed

end
