(* ===== verification/Spec2Isabelle.thy ===== *)
theory Spec2Isabelle
  imports P101_Prelude Record_Lib Event Event_Facts Event_Format Keyed_Table Health Health_Facts
    Growth Ownership Lifecycle_Store Lifecycle Lifecycle_Facts Lifecycle_Ledger
    Lifecycle_Properties Exec_Undo Model Model_Facts Model_Calls Model_Properties Model_Lifecycle
    Model_Input Model_Input_Facts Model_Input_Properties
    Summary Summary_Facts Summary_Grammar Summary_Members Summary_Properties
    Analysis Analysis_Heap Analysis_Order Analysis_Order_Facts Analysis_Facts
    Analysis_Trace Analysis_Trace_Facts Analysis_Sync Analysis_Sync_Facts Analysis_Run
    Analysis_Run_Facts Analysis_Properties Analysis_Policies
    Sanitizer_Lines
    Output Json_Text Summary_Keys Analysis_Report Report_Properties
    Interleaving Interleaving_Facts Interleaving_Properties
    Model_Json Model_Json_Properties Node_Identity
    Command_Line Failures Command_Line_Properties Fuzz
begin

text \<open>
  A verification library for lib\_tool\_event (src/, a C library and command line tool that read
  the event logs of instrumented processes, judge whether they are complete, track the
  resources they mention and build a causal model of a run).

  \<^bold>\<open>The program and its parts.\<close> A log is a stream of tab-separated lines, one event each
  (docs/event-format.md). src/event.c reads lines (\<open>p101_tool_event_read_line\<close>), parses them
  (\<open>p101_tool_event_parse_line\<close>) and observes the parsed records in a stream health
  (\<open>p101_tool_event_stream_health_observe\<close>), whose verdict says whether every producer wrote a
  complete log. src/ownership.c is the policy of who may release, replace or inherit a
  resource, as three rule tables. src/lifecycle.c feeds resource, descriptor, allocation, fork
  and exec records into a table of entries and reports findings (leaks, double and foreign
  releases, inherited descriptors). src/model.c copies the records of a run into nodes, joins
  them with edges (call return, call parent, cause, lifetime, child process) and builds the
  lifecycle from the nodes. src/model\_input.c reads the resource and the call stream, tests
  that together they are complete and finishes the model; src/model\_cli.c is the command line
  tool around it, with its own copies of that test and of the log reader; it writes the model as the
  JSON document of src/model\_json.c. src/analysis.c orders the nodes of a
  finished model causally and applies four policies to the order (resources, locks and waits,
  calls, sanitizer reports), which append findings to one array; it writes them as text and
  JSON reports, and explores exchanges of synchronization events for findings that the
  recorded order does not show. src/summary.c reads the JSON summaries that such tools write.

  \<^bold>\<open>Theories.\<close>
  \<^item> P101\_Prelude: the \<open>world\<close> (answers of the allocator, errors raised), records of
    enumerations, decimal texts, lists. Record\_Lib: the record library (a separate package) as
    the parameter \<open>record_lib\<close>, its documented laws as the locale \<open>record_library\<close>, and an
    instance \<open>doc_lib\<close> that follows the document. Growth: arrays that grow by doubling, as the
    locale \<open>growable\<close>; copies of texts. Keyed\_Table: find-or-add tables, as a locale.
  \<^item> Event (src/event.c, reader and parser), with Event\_Facts and Event\_Format: the line format
    as an abstract specification (\<open>line_of\<close>, \<open>record_of\<close>) and the parser against it.
  \<^item> Health (src/event.c, stream health), Health\_Facts: the declarative meaning of a complete
    stream and the proof that the verdict is exact. The producer table interprets
    \<open>keyed_table\<close>.
  \<^item> Ownership (src/ownership.c): the rule tables; the search that another package performs is
    the locale \<open>transition_search\<close>, interpreted on the first matching rule.
  \<^item> Lifecycle\_Store (entries and findings of src/lifecycle.c, interpretations of \<open>growable\<close>),
    Lifecycle (ingestion, exec rollback, finishing), Lifecycle\_Facts (the store invariant),
    Lifecycle\_Ledger (what is held, as an abstract ledger, and the refinement),
    Lifecycle\_Properties, Exec\_Undo (runs of accepted records around an exec that fails, or that
    succeeded long before an EXEC\_FAIL).
  \<^item> Model (src/model.c; \<open>tool_model\<close> is the C structure of that name, with node and edge arrays
    as lists), Model\_Facts (the loops as folds, the picks), Model\_Calls (the invariant of the
    call matching), Model\_Properties (with \<open>begins_life\<close> and \<open>finishes_life\<close>, the lifetimes of
    resources read off single events), Model\_Lifecycle (the lifecycle read back from nodes).
  \<^item> Model\_Input (src/model\_input.c and the admission test of src/model\_cli.c),
    Model\_Input\_Facts (what a stream delivers, what an accepted pair is),
    Model\_Input\_Properties (the admission is exact; written files are read back).
  \<^item> Summary (src/summary.c, the reader of the JSON summaries that the tools write; its string
    reader belongs to another package and is the parameter \<open>json_lib\<close>), Summary\_Facts (the
    locale \<open>json_reader\<close> of that package, every loop returns), Summary\_Grammar (the JSON grammar
    that \<open>skip_value\<close> accepts), Summary\_Members (the locale \<open>unique_members\<close>: objects whose keys
    occur once; interpreted on the five member loops), Summary\_Properties, Summary\_Keys (the
    buffer of 96 bytes for member names as the locale \<open>sized_reader\<close>, and the grammar without it).
  \<^item> Analysis (the state of src/analysis.c, its findings, accessors and resource policy),
    Analysis\_Heap and Analysis\_Order (\<open>build_causal_order\<close> with its arcs and its heap),
    Analysis\_Order\_Facts (the order as a topological order), Analysis\_Facts (the invariant
    \<open>stored\<close> of the findings array); Analysis\_Trace with Analysis\_Trace\_Facts (the call tree and
    the machine \<open>calls_state\<close> it refines), Analysis\_Sync with Analysis\_Sync\_Facts (locks and
    waits, the search of their graphs), Analysis\_Run with Analysis\_Run\_Facts (sanitizer reports
    and \<open>p101_tool_analysis_run\<close>); Analysis\_Properties (\<open>analysis_reachable\<close>, order, resource
    findings, counters) and Analysis\_Policies (the properties of the synchronization and trace policies and
    the run); Sanitizer\_Lines (lines, phrases and their findings, said without the code).
  \<^item> Output (streams: a writer is the list of its calls, each of which may fail, and files),
    Analysis\_Report (the text and JSON reports of src/analysis.c, the graph and the bundle),
    Json\_Text (well-formed UTF-8, the locale \<open>escape_reader\<close> of a string reader that reads
    written escapes, and a recogniser of written JSON in continuation style),
    Report\_Properties.
  \<^item> Interleaving (\<open>p101_tool_analysis_write_interleaving\<close>: the keys of synchronization findings,
    the exchanges, the breadth-first walk with its bound), Interleaving\_Facts (the invariant of
    the walk), Interleaving\_Properties.
  \<^item> Model\_Json (src/model\_json.c, the document of a finished model), Model\_Json\_Properties (the
    locale \<open>text_writer\<close> of the JSON string writers of another package, interpreted on the
    escapes of src/analysis.c; the document is JSON), Node\_Identity (what the identities in the
    document tell apart).
  \<^item> Command\_Line (src/model\_cli.c, from the arguments to the exit status), Failures (every
    operation below \<open>main\<close> that fails has raised an error; the collection \<open>told\<close>),
    Command\_Line\_Properties. Fuzz (src/fuzz/fuzz\_event.c): the harness returns on every input.

  \<^bold>\<open>What the lemmas show.\<close> The parser reads back every line a producer can
  write and accepts only well-formed records. The stream verdict holds exactly for streams that
  satisfy its declarative meaning. Every accepted record changes the holdings as the ledger
  prescribes, in agreement with the shared policy; ingestion always ends and keeps the store
  consistent, a failed exec undoes what its records closed when nothing of the process was
  pending before them, an EXEC\_FAIL long after a successful exec undoes that one too, and
  finishing reports exactly the live entries. The edges of a finished model are exactly the ones
  their definition asks for. Two files are accepted exactly when their records form a complete
  pair, and the model is then built from those records and no others. The summary reader accepts
  exactly the documents of its two formats, reads back what is written, and skips exactly the
  JSON values nested less than 64 deep whose member names fit the buffer of 96 bytes; the number
  of findings of a document is the sum of its counts modulo \<open>2 ^ 64\<close>. The causal
  order is the least-index-first topological order of its causes; the trace policy refines a
  machine of call stacks; lock-order findings are made exactly for cyclic lock orders; a run of
  the analysis keeps the invariant of the findings. A JSON report whose texts are well-formed
  UTF-8 is read back by the summary reader; the walk over interleavings explores exactly the
  schedules it counts, all of them permutations that keep the causal edges. The document of a
  model whose texts are well-formed UTF-8 is one JSON object, and the identities of its numbered
  nodes are distinct. The command line tool accepts exactly the arguments of its usage line,
  ends with 0 only when the document of two acceptable logs has been written, and never fails
  without a message. Undefined behaviour of the analysis (arrays that are too small, texts read
  after their array moved) is the result \<open>None\<close>, and the properties say exactly
  when it happens.

  \<^bold>\<open>Conventions.\<close> A function that returns a status returns a \<open>bool\<close> (True for 0) beside the new
  state; NULL is \<open>None\<close>; \<open>SIZE_MAX\<close> as an absent index is \<open>None\<close>. Every operation threads a
  \<open>world\<close>: \<open>heap_request\<close> takes the next answer of the allocator (and succeeds when no
  failure is scheduled), \<open>raise_errno\<close> and \<open>raise_check\<close> append to the errors raised. The error
  object is read in two places: the writers of reports do not report a failing close over an
  earlier error, and the tool prints its message. \<open>ample\<close> worlds are those where
  no allocation fails. A counter that grows by one per record is a natural number: it would
  have to count \<open>2 ^ 64\<close> records to wrap; the arity test of the parser, where wrap-around is at
  stake, uses 64-bit words. Capacities are bounded by the limits of the code, with the proof
  that doubling never passes them. The bound of an
  interleaving walk is its argument. The loop that reconciles stray releases and the loops that
  read a stream are \<open>partial_function (option)\<close>; all are proved to return always.

  \<^bold>\<open>Streams and files.\<close> An output is an \<open>out_state\<close>: the text written so far and the answers
  of the calls still to come (writes, \<open>fopen\<close>, \<open>fflush\<close>, \<open>fclose\<close>); \<open>Output.writable\<close> outputs are
  those where no write fails. A path that is read is what \<open>fopen\<close> gives for it: an error, or the
  bytes of the file and the error of \<open>fclose\<close>.

  \<^bold>\<open>Parameters.\<close> The field primitives and name tables of the record library, the transition
  search, the texts of events, the reader and the writers of JSON strings, the table of
  lessons, and the message of an error object are parameters, under the laws of their locales
  where the code relies on them. Properties that need a law state it, and are applied to
  instances: \<open>doc_lib\<close>, \<open>full_json\<close>, \<open>escaping_texts\<close>.

  \<^bold>\<open>Not modelled.\<close> The hooks and environment variables compiled only for tests, which make
  allocations, reads and writes fail: the model's answers to these calls cover what they do. What
  a failing write leaves in a stream, and the errors of \<open>fclose\<close> that leave \<open>errno\<close> unset in the
  tool (the result is \<open>None\<close> there). The test suite and the build files.
\<close>

end
